(* ===== verification/Prelude.thy ===== *)
theory Prelude
  imports
    Complex_Main
    "HOL-Library.AList"
    "HOL-Library.Char_ord"
    "HOL-Library.List_Lexorder"
    "HOL-Library.Sublist"
begin

text \<open>
  The parts of Python and of its standard library that the components share, with the lemmas
  their proofs use.

  \<^item> \<^bold>\<open>Effects.\<close> \<open>('s, 'a) io\<close> is a state transformer whose result is a value or an exception;
    the state reached before an exception is kept, as in Python. \<open>ret\<close>, \<open>raise\<close>, \<open>bindM\<close> and
    \<open>catchM\<close> (\<^verbatim>\<open>try: ... except Exception: ...\<close>) compose it.
  \<^item> \<^bold>\<open>Documents.\<close> A JSON value is a \<open>json\<close>; a Python dict with string keys is a \<open>doc\<close>, an association
    list in insertion order (\<open>AList.update\<close> keeps the place of an existing key and appends a new
    one, as a dict does). \<open>jget d k\<close> is \<^verbatim>\<open>d.get(k)\<close>, so an absent key and a JSON null read alike;
    \<open>truthy\<close> is \<^verbatim>\<open>bool(x)\<close> and \<open>py_or\<close> is the operator \<^verbatim>\<open>or\<close>.
  \<^item> \<^bold>\<open>Text.\<close> A string is a list of (8-bit) characters; case mapping and the digits are those of ASCII.
  \<^item> \<^bold>\<open>Numbers.\<close> Python's ints are \<open>int\<close> (or \<open>nat\<close>); its floats are rationals, so comparisons, \<^verbatim>\<open>min\<close>
    and \<^verbatim>\<open>max\<close> are exact and a product is not rounded. The spellings of infinity and of
    not-a-number are not values of the model.
  \<^item> \<^bold>\<open>Settings.\<close> The process environment is a map from names to strings, an argument of every
    definition that reads a setting; the helpers of \<^verbatim>\<open>src/utils/env.py\<close> read it.
\<close>

named_theorems py_simps \<open>Python primitives, unfolded\<close>
named_theorems io_simps \<open>the exception/state monad, unfolded on results\<close>
named_theorems json_simps \<open>reading and writing documents\<close>


section \<open>State and exceptions\<close>

datatype exn =
    ValueError
  | TypeError
  | KeyError
  | AttributeError
  | OSError
  | LockTimeout
  | StorageReadError
  | ConditionalWriteUnsupported
  | RuntimeError
  | ServiceError string
  | ClientError "string option" "int option"
  | RunCancelled

type_synonym ('s, 'a) io = "'s \<Rightarrow> (exn + 'a) \<times> 's"

definition ret :: "'a \<Rightarrow> ('s, 'a) io" where
  "ret a s = (Inr a, s)"

definition raise :: "exn \<Rightarrow> ('s, 'a) io" where
  "raise e s = (Inl e, s)"

definition bindM :: "('s, 'a) io \<Rightarrow> ('a \<Rightarrow> ('s, 'b) io) \<Rightarrow> ('s, 'b) io" where
  "bindM m f s = (case m s of (Inl e, s') \<Rightarrow> (Inl e, s') | (Inr a, s') \<Rightarrow> f a s')"

definition catchM :: "('s, 'a) io \<Rightarrow> (exn \<Rightarrow> ('s, 'a) io) \<Rightarrow> ('s, 'a) io" where
  "catchM m h s = (case m s of (Inl e, s') \<Rightarrow> h e s' | (Inr a, s') \<Rightarrow> (Inr a, s'))"

lemma ret_apply [simp, io_simps]: "ret a s = (Inr a, s)"
  by (simp add: ret_def)

lemma raise_apply [simp, io_simps]: "raise e s = (Inl e, s)"
  by (simp add: raise_def)

lemma bindM_ret [simp]: "bindM (ret a) f = f a"
  by (rule ext) (simp add: bindM_def)

lemma bindM_raise [simp]: "bindM (raise e) f = raise e"
  by (rule ext) (simp add: bindM_def)

lemma bindM_assoc: "bindM (bindM m f) g = bindM m (\<lambda>a. bindM (f a) g)"
  by (rule ext) (simp add: bindM_def split: prod.split sum.split)

lemma bindM_Inr [io_simps]: "m s = (Inr a, s') \<Longrightarrow> bindM m f s = f a s'"
  by (simp add: bindM_def)

lemma bindM_Inl [io_simps]: "m s = (Inl e, s') \<Longrightarrow> bindM m f s = (Inl e, s')"
  by (simp add: bindM_def)

lemma catchM_Inr [io_simps]: "m s = (Inr a, s') \<Longrightarrow> catchM m h s = (Inr a, s')"
  by (simp add: catchM_def)

lemma catchM_Inl [io_simps]: "m s = (Inl e, s') \<Longrightarrow> catchM m h s = h e s'"
  by (simp add: catchM_def)

lemma bindM_cases:
  assumes "bindM m f s = (r, t)"
  obtains (exn) e where "m s = (Inl e, t)" and "r = Inl e"
  | (val) a s' where "m s = (Inr a, s')" and "f a s' = (r, t)"
  using assms by (auto simp: bindM_def split: prod.splits sum.splits)

lemma bindM_InrE:
  assumes "bindM m f s = (Inr b, t)"
  obtains a s' where "m s = (Inr a, s')" and "f a s' = (Inr b, t)"
  using assms by (auto simp: bindM_def split: prod.splits sum.splits)

lemma catchM_cases:
  assumes "catchM m h s = (r, t)"
  obtains (exn) e s' where "m s = (Inl e, s')" and "h e s' = (r, t)"
  | (val) a where "m s = (Inr a, t)" and "r = Inr a"
  using assms by (auto simp: catchM_def split: prod.splits sum.splits)

text \<open>
  A handler that itself does not raise makes the guarded block total: the shape of every
  fail-open entry point of the program.
\<close>

lemma catchM_total:
  assumes "\<And>e s'. \<exists>b t. h e s' = (Inr b, t)"
  shows "\<exists>b t. catchM m h s = (Inr b, t)"
  using assms by (auto simp: catchM_def split: prod.splits sum.splits)

text \<open>An invariant of the state kept by both parts is kept by the sequence, exceptions included.\<close>

definition keepsM :: "('s \<Rightarrow> bool) \<Rightarrow> ('s, 'a) io \<Rightarrow> bool" where
  "keepsM P m \<longleftrightarrow> (\<forall>s. P s \<longrightarrow> P (snd (m s)))"

lemma keepsM_ret [simp, intro]: "keepsM P (ret a)"
  by (simp add: keepsM_def)

lemma keepsM_raise [simp, intro]: "keepsM P (raise e)"
  by (simp add: keepsM_def)

lemma keepsM_bindM [intro]:
  assumes "keepsM P m" and "\<And>a. keepsM P (f a)"
  shows "keepsM P (bindM m f)"
  using assms by (fastforce simp: keepsM_def bindM_def split: prod.split sum.split)

lemma keepsM_catchM [intro]:
  assumes "keepsM P m" and "\<And>e. keepsM P (h e)"
  shows "keepsM P (catchM m h)"
  using assms by (fastforce simp: keepsM_def catchM_def split: prod.split sum.split)

text \<open>An operation that only reads.\<close>

definition pureM :: "('s, 'a) io \<Rightarrow> bool" where
  "pureM m \<longleftrightarrow> (\<forall>s. snd (m s) = s)"

lemma pureM_state: "pureM m \<Longrightarrow> m s = (r, t) \<Longrightarrow> t = s"
  unfolding pureM_def by (metis snd_conv)

lemma pureM_Pair [simp, intro]: "pureM (Pair r)"
  by (simp add: pureM_def)

lemma pureM_ret [simp, intro]: "pureM (ret a)"
  by (simp add: pureM_def)

lemma pureM_raise [simp, intro]: "pureM (raise e)"
  by (simp add: pureM_def)

lemma pureM_bindM [intro]:
  assumes "pureM m" and "\<And>a. pureM (f a)"
  shows "pureM (bindM m f)"
  unfolding pureM_def
proof
  fix s
  show "snd (bindM m f s) = s"
    using assms(1) assms(2) [unfolded pureM_def] pureM_state [OF assms(1), of s]
    by (cases "m s"; cases "fst (m s)") (auto simp: bindM_def)
qed

lemma pureM_catchM [intro]:
  assumes "pureM m" and "\<And>e. pureM (h e)"
  shows "pureM (catchM m h)"
  unfolding pureM_def
proof
  fix s
  show "snd (catchM m h s) = s"
    using assms(1) assms(2) [unfolded pureM_def] pureM_state [OF assms(1), of s]
    by (cases "m s"; cases "fst (m s)") (auto simp: catchM_def)
qed

text \<open>
  Partial correctness with an exceptional postcondition: from a state in \<open>P\<close>, a value leads to \<open>Q\<close>
  and an exception to \<open>E\<close>.
\<close>

definition triple ::
    "('s \<Rightarrow> bool) \<Rightarrow> ('s, 'a) io \<Rightarrow> ('a \<Rightarrow> 's \<Rightarrow> bool) \<Rightarrow> (exn \<Rightarrow> 's \<Rightarrow> bool) \<Rightarrow> bool" where
  "triple P m Q E \<longleftrightarrow>
     (\<forall>s r t. P s \<longrightarrow> m s = (r, t) \<longrightarrow> (case r of Inl e \<Rightarrow> E e t | Inr a \<Rightarrow> Q a t))"

lemma tripleI:
  assumes "\<And>s a t. P s \<Longrightarrow> m s = (Inr a, t) \<Longrightarrow> Q a t" and "\<And>s e t. P s \<Longrightarrow> m s = (Inl e, t) \<Longrightarrow> E e t"
  shows "triple P m Q E"
  using assms unfolding triple_def by (auto split: sum.split)

lemma tripleD:
  assumes "triple P m Q E" and "P s" and "m s = (r, t)"
  shows "case r of Inl e \<Rightarrow> E e t | Inr a \<Rightarrow> Q a t"
  using assms unfolding triple_def by blast

lemma triple_seq:
  assumes "triple P m R E" and "\<And>a. triple (R a) (f a) Q E"
  shows "triple P (bindM m f) Q E"
proof (rule tripleI)
  show "Q b t" if "P s" "bindM m f s = (Inr b, t)" for s b t
    using that(2)
  proof (rule bindM_InrE)
    fix a s' assume a: "m s = (Inr a, s')" "f a s' = (Inr b, t)"
    have "R a s'" using tripleD [OF assms(1) that(1) a(1)] by simp
    with tripleD [OF assms(2) _ a(2)] show "Q b t" by simp
  qed
  show "E e t" if "P s" "bindM m f s = (Inl e, t)" for s e t
    using that(2)
  proof (cases rule: bindM_cases)
    case (exn x)
    then show ?thesis using tripleD [OF assms(1) that(1) exn(1)] by simp
  next
    case (val a s')
    have "R a s'" using tripleD [OF assms(1) that(1) val(1)] by simp
    with tripleD [OF assms(2) _ val(2)] show ?thesis by simp
  qed
qed

lemmas triple_bind = triple_seq [where R = "\<lambda>_. P" and P = P for P]

lemma triple_False: "triple (\<lambda>_. False) m Q E"
  by (simp add: triple_def)

lemma triple_ret: "(\<And>s. P s \<Longrightarrow> Q a s) \<Longrightarrow> triple P (ret a) Q E"
  by (auto simp: triple_def)

lemma triple_pure: "pureM m \<Longrightarrow> (\<And>e s. P s \<Longrightarrow> E e s) \<Longrightarrow> triple P m (\<lambda>_. P) E"
  by (rule tripleI) (auto dest: pureM_state)

lemma triple_read:
  assumes "pureM m" and "\<And>e s. P s \<Longrightarrow> E e s" and "\<And>a. triple P (f a) Q E"
  shows "triple P (bindM m f) Q E"
  using triple_pure [OF assms(1,2)] assms(3) by (rule triple_seq)

lemma triple_if:
  "(b \<Longrightarrow> triple P m Q E) \<Longrightarrow> (\<not> b \<Longrightarrow> triple P m' Q E) \<Longrightarrow> triple P (if b then m else m') Q E"
  by simp

lemma triple_post: "triple P m Q E \<Longrightarrow> (\<And>a s. Q a s \<Longrightarrow> Q' a s) \<Longrightarrow> triple P m Q' E"
  unfolding triple_def by (force split: sum.splits)

text \<open>A \<^verbatim>\<open>for\<close> loop whose body may raise, threading an accumulator.\<close>

fun foldM :: "('a \<Rightarrow> 'b \<Rightarrow> ('s, 'b) io) \<Rightarrow> 'a list \<Rightarrow> 'b \<Rightarrow> ('s, 'b) io" where
  "foldM f [] b = ret b"
| "foldM f (x # xs) b = bindM (f x b) (foldM f xs)"

text \<open>A property of the accumulator that every step keeps when it returns.\<close>

lemma foldM_value_inv:
  assumes "foldM f xs b s = (Inr b', t)" and "I b"
    and "\<And>x b s b' t. x \<in> set xs \<Longrightarrow> I b \<Longrightarrow> f x b s = (Inr b', t) \<Longrightarrow> I b'"
  shows "I b'"
  using assms
proof (induction xs arbitrary: b s)
  case Nil
  then show ?case by simp
next
  case (Cons x xs)
  from Cons.prems(1) obtain c u where c: "f x b s = (Inr c, u)" "foldM f xs c u = (Inr b', t)"
    by (auto elim: bindM_InrE)
  have "I c" using Cons.prems(3) [OF _ Cons.prems(2) c(1)] by simp
  show ?case
  proof (rule Cons.IH [OF c(2) \<open>I c\<close>])
    show "I b2" if "x2 \<in> set xs" "I b1" "f x2 b1 s1 = (Inr b2, t2)" for x2 b1 s1 b2 t2
      using Cons.prems(3) [OF _ that(2,3)] that(1) by simp
  qed
qed

lemma keepsM_foldM:
  assumes "\<And>x b. keepsM P (f x b)"
  shows "keepsM P (foldM f xs b)"
  using assms by (induction xs arbitrary: b) (auto intro: keepsM_bindM)


section \<open>Text\<close>

abbreviation is_upper :: "char \<Rightarrow> bool" where
  "is_upper c \<equiv> CHR ''A'' \<le> c \<and> c \<le> CHR ''Z''"

abbreviation is_lower :: "char \<Rightarrow> bool" where
  "is_lower c \<equiv> CHR ''a'' \<le> c \<and> c \<le> CHR ''z''"

definition is_digit :: "char \<Rightarrow> bool" where
  "is_digit c \<longleftrightarrow> CHR ''0'' \<le> c \<and> c \<le> CHR ''9''"

definition is_space :: "char \<Rightarrow> bool" where
  "is_space c \<longleftrightarrow> (let n = of_char c :: nat in
     9 \<le> n \<and> n \<le> 13 \<or> 28 \<le> n \<and> n \<le> 32 \<or> n = 133 \<or> n = 160)"

definition lower_char :: "char \<Rightarrow> char" where
  "lower_char c = (if is_upper c then char_of (of_char c + 32 :: nat) else c)"

definition upper_char :: "char \<Rightarrow> char" where
  "upper_char c = (if is_lower c then char_of (of_char c - 32 :: nat) else c)"

definition py_lower :: "string \<Rightarrow> string" where
  "py_lower s = map lower_char s"

definition py_upper :: "string \<Rightarrow> string" where
  "py_upper s = map upper_char s"

text \<open>\<^verbatim>\<open>s.lstrip(chars)\<close>, \<^verbatim>\<open>s.rstrip(chars)\<close> and \<^verbatim>\<open>s.strip()\<close>.\<close>

definition lstrip :: "(char \<Rightarrow> bool) \<Rightarrow> string \<Rightarrow> string" where
  "lstrip p s = dropWhile p s"

definition rstrip :: "(char \<Rightarrow> bool) \<Rightarrow> string \<Rightarrow> string" where
  "rstrip p s = rev (dropWhile p (rev s))"

definition py_strip :: "string \<Rightarrow> string" where
  "py_strip s = rstrip is_space (lstrip is_space s)"

definition starts_with :: "string \<Rightarrow> string \<Rightarrow> bool" where
  "starts_with p s \<longleftrightarrow> take (length p) s = p"

definition ends_with :: "string \<Rightarrow> string \<Rightarrow> bool" where
  "ends_with p s \<longleftrightarrow> length p \<le> length s \<and> drop (length s - length p) s = p"

text \<open>\<^verbatim>\<open>text.splitlines()\<close> up to empty lines, which decide nothing where it is used.\<close>

definition is_line_break :: "char \<Rightarrow> bool" where
  "is_line_break c \<longleftrightarrow> (let n = of_char c :: nat in 10 \<le> n \<and> n \<le> 13 \<or> 28 \<le> n \<and> n \<le> 30 \<or> n = 133)"

fun lines_of :: "string \<Rightarrow> string list" where
  "lines_of [] = [[]]"
| "lines_of (c # s) =
     (if is_line_break c then [] # lines_of s
      else (case lines_of s of [] \<Rightarrow> [[c]] | l # ls \<Rightarrow> (c # l) # ls))"

text \<open>\<^verbatim>\<open>needle in text\<close>, for strings.\<close>

fun contains :: "string \<Rightarrow> string \<Rightarrow> bool" where
  "contains p [] = (p = [])"
| "contains p (c # s) = (starts_with p (c # s) \<or> contains p s)"

lemma starts_with_prefix: "starts_with p s = prefix p s"
  by (auto simp: starts_with_def prefix_def) (metis append_take_drop_id)

lemma ends_with_suffix: "ends_with p s = suffix p s"
proof
  assume "ends_with p s"
  then show "suffix p s"
    by (auto simp: ends_with_def suffix_def) (metis append_take_drop_id)
next
  assume "suffix p s"
  then show "ends_with p s" by (auto simp: ends_with_def suffix_def)
qed

lemma contains_sublist: "contains p s = sublist p s"
proof (induction s)
  case Nil
  show ?case by simp
next
  case (Cons c s)
  then show ?case
    by (auto simp: starts_with_prefix sublist_Cons_right)
qed

text \<open>\<^verbatim>\<open>text.split(sep)\<close> for a one-character separator: always at least one piece.\<close>

fun split_on :: "char \<Rightarrow> string \<Rightarrow> string list" where
  "split_on c [] = [[]]"
| "split_on c (x # xs) =
     (if x = c then [] # split_on c xs
      else (case split_on c xs of [] \<Rightarrow> [[x]] | w # ws \<Rightarrow> (x # w) # ws))"

lemma split_on_nonempty [simp]: "split_on c s \<noteq> []"
  by (induction s) (auto split: list.split)

lemma split_on_no_sep: "w \<in> set (split_on c s) \<Longrightarrow> c \<notin> set w"
proof (induction s arbitrary: w)
  case Nil
  then show ?case by simp
next
  case (Cons x xs)
  then show ?case by (cases "split_on c xs") (auto split: if_splits)
qed

lemma split_on_id: "c \<notin> set s \<Longrightarrow> split_on c s = [s]"
  by (induction s) auto

text \<open>\<^verbatim>\<open>text.split(sep)\<close> for a separator of any length.\<close>

function split_str :: "string \<Rightarrow> string \<Rightarrow> string list" where
  "split_str sep [] = [[]]"
| "split_str sep (c # s) =
     (if sep \<noteq> [] \<and> starts_with sep (c # s) then [] # split_str sep (drop (length sep - 1) s)
      else (case split_str sep s of [] \<Rightarrow> [[c]] | w # ws \<Rightarrow> (c # w) # ws))"
  by pat_completeness auto
termination
  by (relation "measure (\<lambda>(sep, s). length s)") auto

text \<open>The inverse, \<^verbatim>\<open>sep.join(pieces)\<close>.\<close>

fun join_with :: "string \<Rightarrow> string list \<Rightarrow> string" where
  "join_with sep [] = []"
| "join_with sep [w] = w"
| "join_with sep (w # ws) = w @ sep @ join_with sep ws"

lemma join_with_Cons:
  "join_with sep (w # ws) = w @ (if ws = [] then [] else sep @ join_with sep ws)"
  by (cases ws) auto

text \<open>Splitting undoes joining, unless a piece holds the separator.\<close>

lemma split_on_append: "c \<notin> set w \<Longrightarrow> split_on c (w @ c # s) = w # split_on c s"
  by (induction w) auto

lemma split_on_join: "ws \<noteq> [] \<Longrightarrow> (\<forall>w\<in>set ws. c \<notin> set w) \<Longrightarrow> split_on c (join_with [c] ws) = ws"
proof (induction ws)
  case (Cons w ws)
  have w: "c \<notin> set w" using Cons.prems by simp
  show ?case
  proof (cases "ws = []")
    case True
    then show ?thesis using w by (simp add: split_on_id)
  next
    case False
    with Cons have "split_on c (join_with [c] ws) = ws" by simp
    with False show ?thesis
      using split_on_append [OF w, of "join_with [c] ws"] by (simp only: join_with_Cons if_False append_Cons append_Nil)
  qed
qed simp

lemma join_inject:
  assumes "join_with [c] xs = join_with [c] ys" and "xs \<noteq> []" and "ys \<noteq> []"
    and "\<forall>w\<in>set xs. c \<notin> set w" and "\<forall>w\<in>set ys. c \<notin> set w"
  shows "xs = ys"
proof -
  have "xs = split_on c (join_with [c] xs)" by (rule split_on_join [OF assms(2,4), symmetric])
  also have "\<dots> = split_on c (join_with [c] ys)" by (simp only: assms(1))
  also have "\<dots> = ys" by (rule split_on_join [OF assms(3,5)])
  finally show ?thesis .
qed

text \<open>
  A separator of the form \<open>c # q\<close> with \<open>c\<close> not in \<open>q\<close> occurs in a text where one of the pieces between the
  \<open>c\<close>s, the first one excepted, starts with \<open>q\<close>; such occurrences cannot overlap.
\<close>

lemma hd_split_on: "hd (split_on c s) = takeWhile (\<lambda>x. x \<noteq> c) s"
  by (induction s) (auto split: list.split)

lemma starts_with_Cons: "starts_with (a # p) s \<longleftrightarrow> s \<noteq> [] \<and> hd s = a \<and> starts_with p (tl s)"
  by (cases s) (auto simp: starts_with_def)

lemma starts_with_Nil [simp]: "starts_with [] s"
  by (simp add: starts_with_def)

lemma starts_with_until: "c \<notin> set q \<Longrightarrow> starts_with q (takeWhile (\<lambda>x. x \<noteq> c) s) = starts_with q s"
proof (induction q arbitrary: s)
  case (Cons a q)
  then show ?case by (cases s) (auto simp: starts_with_Cons)
qed simp

lemma contains_split_on:
  "c \<notin> set q \<Longrightarrow> contains (c # q) s \<longleftrightarrow> list_ex (starts_with q) (tl (split_on c s))"
proof (induction s)
  case (Cons x s)
  obtain w ws where s: "split_on c s = w # ws" by (cases "split_on c s") auto
  then have w: "w = takeWhile (\<lambda>x. x \<noteq> c) s" using hd_split_on [of c s] by simp
  show ?case
    using Cons s starts_with_until [OF Cons.prems, of s] w by (simp add: starts_with_Cons)
qed simp

lemma split_str_append:
  assumes "c \<notin> set q" and "\<not> contains (c # q) w"
  shows "split_str (c # q) (w @ (c # q) @ s) = w # split_str (c # q) s"
  using assms(2)
proof (induction w)
  case Nil
  show ?case by (simp add: starts_with_def)
next
  case (Cons x w)
  have "\<not> starts_with (c # q) (x # w @ (c # q) @ s)"
  proof
    assume "starts_with (c # q) (x # w @ (c # q) @ s)"
    then have xc: "x = c" and p: "prefix q (w @ c # (q @ s))" by (auto simp: starts_with_prefix)
    have "prefix q w"
    proof (rule ccontr)
      assume "\<not> prefix q w"
      then have "strict_prefix w q" using p prefix_same_cases [OF p, of w] by (auto simp: strict_prefix_def)
      then obtain zs where z: "q = w @ zs" "zs \<noteq> []" by (auto simp: strict_prefix_def prefix_def)
      with p have "prefix zs (c # (q @ s))" by simp
      with z assms(1) show False by (cases zs) auto
    qed
    then show False using Cons.prems xc by (simp add: starts_with_prefix)
  qed
  then show ?case using Cons by simp
qed

lemma split_str_id: "\<not> contains sep s \<Longrightarrow> split_str sep s = [s]"
  by (induction s) auto

lemma split_str_join:
  "ws \<noteq> [] \<Longrightarrow> c \<notin> set q \<Longrightarrow> (\<forall>w\<in>set ws. \<not> contains (c # q) w) \<Longrightarrow>
   split_str (c # q) (join_with (c # q) ws) = ws"
proof (induction ws)
  case (Cons w ws)
  have w: "\<not> contains (c # q) w" using Cons.prems by simp
  show ?case
  proof (cases "ws = []")
    case True
    then show ?thesis using split_str_id [OF w] by (simp only: join_with.simps)
  next
    case False
    with Cons have "split_str (c # q) (join_with (c # q) ws) = ws" by simp
    with False show ?thesis
      using split_str_append [OF Cons.prems(2) w, of "join_with (c # q) ws"]
      by (simp only: join_with_Cons if_False)
  qed
qed simp

lemma join_split: "join_with [c] (split_on c s) = s"
proof (induction s)
  case Nil
  show ?case by simp
next
  case (Cons x xs)
  show ?case
  proof (cases "split_on c xs")
    case Nil
    then show ?thesis by simp
  next
    case (Cons w ws)
    with Cons.IH show ?thesis by (cases ws) auto
  qed
qed

text \<open>\<^verbatim>\<open>text.rsplit(c, 1)[-1]\<close> and \<^verbatim>\<open>text.split(c, 1)[0]\<close>.\<close>

definition after_last :: "char \<Rightarrow> string \<Rightarrow> string" where
  "after_last c s = rev (takeWhile (\<lambda>x. x \<noteq> c) (rev s))"

definition before_first :: "char \<Rightarrow> string \<Rightarrow> string" where
  "before_first c s = takeWhile (\<lambda>x. x \<noteq> c) s"

lemma after_last_notin [simp]: "c \<notin> set (after_last c s)"
  by (auto simp: after_last_def dest: set_takeWhileD)

lemma before_first_notin [simp]: "c \<notin> set (before_first c s)"
  by (auto simp: before_first_def dest: set_takeWhileD)

lemma takeWhile_neq_id: "c \<notin> set s \<Longrightarrow> takeWhile (\<lambda>x. x \<noteq> c) s = s"
  by (induction s) auto

lemma after_last_id: "c \<notin> set s \<Longrightarrow> after_last c s = s"
  by (simp add: after_last_def takeWhile_neq_id)

lemma before_first_id: "c \<notin> set s \<Longrightarrow> before_first c s = s"
  by (simp add: before_first_def takeWhile_neq_id)

lemma lstrip_id: "(\<forall>c\<in>set s. \<not> p c) \<Longrightarrow> lstrip p s = s"
  by (cases s) (auto simp: lstrip_def)

lemma rstrip_id: "(\<forall>c\<in>set s. \<not> p c) \<Longrightarrow> rstrip p s = s"
  by (cases "rev s") (auto simp: rstrip_def)

lemma py_strip_id: "(\<forall>c\<in>set s. \<not> is_space c) \<Longrightarrow> py_strip s = s"
  by (simp add: py_strip_def lstrip_id rstrip_id)


section \<open>Decimal numbers\<close>

definition digit_val :: "char \<Rightarrow> nat" where
  "digit_val c = of_char c - 48"

definition digit_char :: "nat \<Rightarrow> char" where
  "digit_char d = char_of (48 + d)"

text \<open>\<^verbatim>\<open>int(s)\<close> of a string of digits.\<close>

definition nat_of_digits :: "string \<Rightarrow> nat" where
  "nat_of_digits s = foldl (\<lambda>n c. 10 * n + digit_val c) 0 s"

text \<open>\<^verbatim>\<open>str(n)\<close>.\<close>

fun show_nat :: "nat \<Rightarrow> string" where
  "show_nat n = (if n < 10 then [digit_char n] else show_nat (n div 10) @ [digit_char (n mod 10)])"

declare show_nat.simps [simp del]

lemma of_digit_char: "d < 10 \<Longrightarrow> (of_char (digit_char d) :: nat) = 48 + d"
  by (simp add: digit_char_def)

lemma digit_val_digit_char [simp]: "d < 10 \<Longrightarrow> digit_val (digit_char d) = d"
  by (simp add: digit_val_def of_digit_char)

lemma is_digit_nat: "is_digit c \<longleftrightarrow> 48 \<le> (of_char c :: nat) \<and> (of_char c :: nat) \<le> 57"
  by (simp add: is_digit_def less_eq_char_def)

lemma is_digit_digit_char [simp]: "d < 10 \<Longrightarrow> is_digit (digit_char d)"
  by (simp add: is_digit_nat of_digit_char)

lemma not_digit_dot [simp]: "\<not> is_digit CHR ''.''"
  by (simp add: is_digit_nat)

lemma nat_of_digits_snoc: "nat_of_digits (s @ [c]) = 10 * nat_of_digits s + digit_val c"
  by (simp add: nat_of_digits_def)

lemma nat_of_digits_show_nat [simp]: "nat_of_digits (show_nat n) = n"
proof (induction n rule: show_nat.induct)
  case (1 m)
  show ?case
  proof (cases "10 \<le> m")
    case False
    then show ?thesis by (simp add: show_nat.simps [of m] nat_of_digits_def)
  next
    case True
    with "1.IH" have "nat_of_digits (show_nat (m div 10)) = m div 10" by simp
    with True show ?thesis
      by (simp add: show_nat.simps [of m] nat_of_digits_snoc)
  qed
qed

lemma show_nat_digits: "c \<in> set (show_nat n) \<Longrightarrow> is_digit c"
proof (induction n rule: show_nat.induct)
  case (1 n)
  then show ?case
    by (cases "n < 10") (auto simp: show_nat.simps [of n])
qed

lemma show_nat_nonempty [simp]: "show_nat n \<noteq> []"
  by (subst show_nat.simps) simp

lemma digit_not_space: "is_digit c \<Longrightarrow> \<not> is_space c"
  by (auto simp: is_digit_nat is_space_def Let_def)

text \<open>
  The digits of a numeral of Python's \<^verbatim>\<open>int()\<close> and \<^verbatim>\<open>float()\<close>: digits with single
  underscores between them. \<open>None\<close> for anything else, the empty string included.
\<close>

fun strip_underscores :: "string \<Rightarrow> string option" where
  "strip_underscores [] = None"
| "strip_underscores [c] = (if is_digit c then Some [c] else None)"
| "strip_underscores (c # d # s) =
     (if \<not> is_digit c then None
      else if d = CHR ''_'' then map_option (\<lambda>t. c # t) (strip_underscores s)
      else map_option (\<lambda>t. c # t) (strip_underscores (d # s)))"

definition sign_split :: "string \<Rightarrow> int \<times> string" where
  "sign_split s = (case s of
       [] \<Rightarrow> (1, s)
     | c # t \<Rightarrow> if c = CHR ''-'' then (-1, t) else if c = CHR ''+'' then (1, t) else (1, s))"

definition py_int :: "string \<Rightarrow> int option" where
  "py_int s = (case sign_split (py_strip s) of
      (sg, t) \<Rightarrow> map_option (\<lambda>ds. sg * int (nat_of_digits ds)) (strip_underscores t))"

text \<open>
  \<^verbatim>\<open>float(s)\<close> on a decimal numeral: \<open>int_part frac_part exponent\<close>, each part optional but not
  both of the first two.
\<close>

definition py_float_body :: "string \<Rightarrow> rat option" where
  "py_float_body t =
     (let mant = takeWhile (\<lambda>c. c \<noteq> CHR ''e'' \<and> c \<noteq> CHR ''E'') t;
          ex = drop (length mant) t;
          ip = takeWhile (\<lambda>c. c \<noteq> CHR ''.'') mant;
          fp = drop (length ip) mant;
          dig = (\<lambda>s. if s = [] then Some [] else strip_underscores s);
          expo = (if ex = [] then Some 0
                  else (case sign_split (tl ex) of (sg, u) \<Rightarrow>
                          map_option (\<lambda>ds. sg * int (nat_of_digits ds)) (strip_underscores u)))
      in (case (dig ip, dig (tl fp), expo) of
            (Some i, Some f, Some e) \<Rightarrow>
              if i = [] \<and> f = [] then None
              else (let m = rat_of_nat (nat_of_digits (i @ f));
                        k = e - int (length f)
                    in Some (if k \<ge> 0 then m * 10 ^ nat k else m / 10 ^ nat (- k)))
          | _ \<Rightarrow> None))"

definition py_float :: "string \<Rightarrow> rat option" where
  "py_float s = (case sign_split (py_strip s) of
      (sg, t) \<Rightarrow> map_option (\<lambda>r. of_int sg * r) (py_float_body t))"


text \<open>\<^verbatim>\<open>round(x, n)\<close>: to the nearest multiple, ties to the even one.\<close>

definition round_half_even :: "rat \<Rightarrow> int" where
  "round_half_even r =
     (let f = \<lfloor>r\<rfloor>; d = r - of_int f
      in if d < 1/2 then f else if d > 1/2 then f + 1 else if even f then f else f + 1)"

definition py_round :: "nat \<Rightarrow> rat \<Rightarrow> rat" where
  "py_round n r = of_int (round_half_even (r * 10 ^ n)) / 10 ^ n"


section \<open>Settings\<close>

type_synonym env = "string \<Rightarrow> string option"

definition env_get :: "env \<Rightarrow> string \<Rightarrow> string \<Rightarrow> string" where
  "env_get e name dflt = (case e name of None \<Rightarrow> dflt | Some v \<Rightarrow> v)"

definition get_bool_env :: "env \<Rightarrow> string \<Rightarrow> bool \<Rightarrow> bool" where
  "get_bool_env e name dflt =
     (case e name of None \<Rightarrow> dflt
      | Some value \<Rightarrow> py_lower value \<in> {''true'', ''1'', ''yes''})"

text \<open>\<^verbatim>\<open>dict.fromkeys(xs)\<close> as a sequence: the first of every repeated element, in order.\<close>

fun dedupe_acc :: "'a list \<Rightarrow> 'a list \<Rightarrow> 'a list" where
  "dedupe_acc seen [] = []"
| "dedupe_acc seen (x # xs) =
     (if List.member seen x then dedupe_acc seen xs else x # dedupe_acc (x # seen) xs)"

definition dedupe :: "'a list \<Rightarrow> 'a list" where
  "dedupe xs = dedupe_acc [] xs"

definition split_names :: "string option \<Rightarrow> string list" where
  "split_names value =
     dedupe (filter (\<lambda>n. n \<noteq> [])
       (map py_strip (split_on CHR '','' (case value of None \<Rightarrow> [] | Some v \<Rightarrow> v))))"

lemma set_dedupe_acc: "set (dedupe_acc seen xs) = set xs - set seen"
  by (induction xs arbitrary: seen) auto

lemma distinct_dedupe_acc: "distinct (dedupe_acc seen xs)"
  by (induction xs arbitrary: seen) (auto simp: set_dedupe_acc)

lemma set_dedupe [simp]: "set (dedupe xs) = set xs"
  by (simp add: dedupe_def set_dedupe_acc)

lemma distinct_dedupe [simp]: "distinct (dedupe xs)"
  by (simp add: dedupe_def distinct_dedupe_acc)

text \<open>
  The three shapes in which the code reads a number from the environment: the fallback of a
  \<^verbatim>\<open>try: float(os.environ.get(name, str(default))) except ValueError: return default\<close>.
\<close>

definition float_env :: "env \<Rightarrow> string \<Rightarrow> rat \<Rightarrow> rat" where
  "float_env e name dflt =
     (case e name of None \<Rightarrow> dflt
      | Some raw \<Rightarrow> (case py_float raw of None \<Rightarrow> dflt | Some v \<Rightarrow> v))"

definition int_env_at_least :: "env \<Rightarrow> string \<Rightarrow> int \<Rightarrow> int \<Rightarrow> int" where
  "int_env_at_least e name lo dflt =
     (case e name of None \<Rightarrow> max lo dflt
      | Some raw \<Rightarrow> (case py_int raw of None \<Rightarrow> dflt | Some v \<Rightarrow> max lo v))"

lemma int_env_at_least_ge: "lo \<le> dflt \<Longrightarrow> lo \<le> int_env_at_least e name lo dflt"
  by (simp add: int_env_at_least_def split: option.split)

lemma float_env_unset [simp]: "e name = None \<Longrightarrow> float_env e name d = d"
  by (simp add: float_env_def)

lemma get_bool_env_unset [simp]: "e name = None \<Longrightarrow> get_bool_env e name d = d"
  by (simp add: get_bool_env_def)


section \<open>Documents\<close>

datatype json =
    JNull
  | JBool bool
  | JNum rat
  | JStr string
  | JArr "json list"
  | JObj "(string \<times> json) list"

type_synonym doc = "(string \<times> json) list"

fun truthy :: "json \<Rightarrow> bool" where
  "truthy JNull = False"
| "truthy (JBool b) = b"
| "truthy (JNum r) = (r \<noteq> 0)"
| "truthy (JStr s) = (s \<noteq> [])"
| "truthy (JArr xs) = (xs \<noteq> [])"
| "truthy (JObj d) = (d \<noteq> [])"

definition py_or :: "json \<Rightarrow> json \<Rightarrow> json" where
  "py_or a b = (if truthy a then a else b)"

definition jget :: "doc \<Rightarrow> string \<Rightarrow> json" where
  "jget d k = (case map_of d k of None \<Rightarrow> JNull | Some v \<Rightarrow> v)"

definition jget_default :: "doc \<Rightarrow> string \<Rightarrow> json \<Rightarrow> json" where
  "jget_default d k v = (case map_of d k of None \<Rightarrow> v | Some w \<Rightarrow> w)"

lemma update_new: "k \<notin> fst ` set d \<Longrightarrow> AList.update k v d = d @ [(k, v)]"
  by (induction d) auto

definition jset :: "string \<Rightarrow> json \<Rightarrow> doc \<Rightarrow> doc" where
  "jset k v d = AList.update k v d"

text \<open>\<^verbatim>\<open>{**d, **extra}\<close>.\<close>

definition jmerge :: "doc \<Rightarrow> doc \<Rightarrow> doc" where
  "jmerge d extra = fold (\<lambda>(k, v). jset k v) extra d"

definition jopt :: "string option \<Rightarrow> json" where
  "jopt x = (case x of None \<Rightarrow> JNull | Some s \<Rightarrow> JStr s)"

lemma map_of_jset [simp]: "map_of (jset k v d) k' = (if k' = k then Some v else map_of d k')"
  by (simp add: jset_def update_conv)

lemma jget_jset [simp, json_simps]: "jget (jset k v d) k' = (if k' = k then v else jget d k')"
  by (simp add: jget_def)

lemma jget_Nil [simp]: "jget [] k = JNull"
  by (simp add: jget_def)

lemma jget_Cons [simp, json_simps]: "jget ((k, v) # d) k' = (if k' = k then v else jget d k')"
  by (simp add: jget_def)

lemma jset_not_Nil [simp]: "jset k v d \<noteq> []"
  by (cases d) (auto simp: jset_def)

lemma map_of_jmerge_notin: "k \<notin> fst ` set extra \<Longrightarrow> map_of (jmerge d extra) k = map_of d k"
  by (induction extra arbitrary: d) (auto simp: jmerge_def)

lemma jget_jmerge_notin: "k \<notin> fst ` set extra \<Longrightarrow> jget (jmerge d extra) k = jget d k"
  by (simp add: jget_def map_of_jmerge_notin)

lemma jmerge_Nil [simp]: "jmerge d [] = d"
  by (simp add: jmerge_def)

lemma jmerge_Cons [simp]: "jmerge d ((k, v) # xs) = jmerge (jset k v d) xs"
  by (simp add: jmerge_def)

lemma jmerge_not_Nil [simp]: "d \<noteq> [] \<Longrightarrow> jmerge d extra \<noteq> []"
proof (induction extra arbitrary: d)
  case Nil
  then show ?case by simp
next
  case (Cons p extra)
  obtain k v where p: "p = (k, v)" by (cases p)
  have "jmerge (jset k v d) extra \<noteq> []" by (rule Cons.IH) simp
  then show ?case by (simp add: p)
qed

lemma truthy_py_or: "truthy (py_or a b) \<longleftrightarrow> truthy a \<or> truthy b"
  by (simp add: py_or_def)

text \<open>\<^verbatim>\<open>float(x)\<close> of a document's value, and the text of an optional string field.\<close>

fun json_float :: "json \<Rightarrow> exn + rat" where
  "json_float (JNum r) = Inr r"
| "json_float (JBool b) = Inr (if b then 1 else 0)"
| "json_float (JStr s) = (case py_float s of None \<Rightarrow> Inl ValueError | Some r \<Rightarrow> Inr r)"
| "json_float _ = Inl TypeError"

fun json_str :: "json \<Rightarrow> string option" where
  "json_str (JStr s) = Some s"
| "json_str _ = None"

fun json_obj :: "json \<Rightarrow> doc" where
  "json_obj (JObj d) = d"
| "json_obj _ = []"

lemma json_str_jopt [simp]: "json_str (jopt x) = x"
  by (simp add: jopt_def split: option.split)

end
