(* ===== verification/Offset_Tracker.thy ===== *)
theory Offset_Tracker
  imports Prelude
begin

text \<open>
  The offset bookkeeping of the Kafka consumer (class \<^verbatim>\<open>OffsetTracker\<close> of
  \<^verbatim>\<open>src/utils/kafkaConsumer.py\<close>). Workers finish out of order, so what may be committed for a
  partition is a low-water mark: the highest offset below which every dispatched message has
  completed. Both \<^verbatim>\<open>defaultdict(set)\<close> fields are association lists from partitions to sets of
  offsets; every method runs under the tracker's lock, so each is one atomic operation here.

  The locale \<open>offset_ledger\<close> is the contract the poll loop, the workers and the rebalance listener
  rely on, with the accounting argument that no commit passes an unhandled message; the tracker is
  an instance of it.
\<close>

section \<open>The tracker\<close>

record 'tp tracker =
  trk_dispatched :: "('tp \<times> int set) list"
  trk_completed :: "('tp \<times> int set) list"

definition dget :: "('k \<times> 'a set) list \<Rightarrow> 'k \<Rightarrow> 'a set" where
  "dget d k = (case map_of d k of None \<Rightarrow> {} | Some s \<Rightarrow> s)"

definition empty_tracker :: "'tp tracker" where
  "empty_tracker = \<lparr>trk_dispatched = [], trk_completed = []\<rparr>"

definition dispatched :: "'tp tracker \<Rightarrow> 'tp \<Rightarrow> int \<Rightarrow> 'tp tracker" where
  "dispatched t tp off =
     t\<lparr>trk_dispatched := AList.update tp (insert off (dget (trk_dispatched t) tp)) (trk_dispatched t)\<rparr>"

definition completed :: "'tp tracker \<Rightarrow> 'tp \<Rightarrow> int \<Rightarrow> 'tp tracker" where
  "completed t tp off =
     (if off \<in> dget (trk_dispatched t) tp
      then t\<lparr>trk_completed := AList.update tp (insert off (dget (trk_completed t) tp)) (trk_completed t)\<rparr>
      else t)"

text \<open>What of one partition is safe: everything strictly below the lowest offset in flight.\<close>

definition committable :: "int set \<Rightarrow> int set \<Rightarrow> int set" where
  "committable d c =
     (let still_running = d - c
      in if still_running \<noteq> {} then {off \<in> c. off < Min still_running} else c)"

definition take_one ::
    "'tp \<Rightarrow> ('tp \<times> int) list \<times> 'tp tracker \<Rightarrow> ('tp \<times> int) list \<times> 'tp tracker" where
  "take_one tp acc =
     (case acc of (commits, t) \<Rightarrow>
        let comp = dget (trk_completed t) tp
        in if comp = {} then (commits, t)
           else (let safe = committable (dget (trk_dispatched t) tp) comp
                 in if safe = {} then (commits, t)
                    else (AList.update tp (Max safe + 1) commits,
                          t\<lparr>trk_dispatched := AList.update tp (dget (trk_dispatched t) tp - safe) (trk_dispatched t),
                            trk_completed := AList.update tp (comp - safe) (trk_completed t)\<rparr>)))"

definition committable_for :: "'tp list \<Rightarrow> 'tp tracker \<Rightarrow> ('tp \<times> int) list \<times> 'tp tracker" where
  "committable_for partitions t =
     fold take_one (filter (\<lambda>tp. tp \<in> set partitions) (map fst (trk_completed t))) ([], t)"

definition take_committable :: "'tp tracker \<Rightarrow> ('tp \<times> int) list \<times> 'tp tracker" where
  "take_committable t = fold take_one (map fst (trk_completed t)) ([], t)"

definition forget :: "'tp list \<Rightarrow> 'tp tracker \<Rightarrow> 'tp tracker" where
  "forget partitions t =
     fold (\<lambda>tp t. t\<lparr>trk_dispatched := AList.delete tp (trk_dispatched t),
                     trk_completed := AList.delete tp (trk_completed t)\<rparr>) partitions t"

definition tracked_partitions :: "'tp tracker \<Rightarrow> 'tp set" where
  "tracked_partitions t = fst ` set (trk_dispatched t) \<union> fst ` set (trk_completed t)"

definition abandoned :: "'tp tracker \<Rightarrow> 'tp \<Rightarrow> int \<Rightarrow> 'tp tracker" where
  "abandoned t tp off =
     (let t1 = (case map_of (trk_dispatched t) tp of
                  None \<Rightarrow> t
                | Some s \<Rightarrow> t\<lparr>trk_dispatched := AList.update tp (s - {off}) (trk_dispatched t)\<rparr>)
      in (case map_of (trk_completed t1) tp of
            None \<Rightarrow> t1
          | Some s \<Rightarrow> t1\<lparr>trk_completed := AList.update tp (s - {off}) (trk_completed t1)\<rparr>))"

definition in_flight :: "'tp tracker \<Rightarrow> nat" where
  "in_flight t =
     sum_list (map (\<lambda>(tp, d). card (d - dget (trk_completed t) tp)) (trk_dispatched t))"


section \<open>The contract\<close>

text \<open>What a partition still waits for, what has finished and is not committed, and well-formedness.\<close>

definition outstanding :: "'tp tracker \<Rightarrow> 'tp \<Rightarrow> int set" where
  "outstanding t tp = dget (trk_dispatched t) tp - dget (trk_completed t) tp"

definition finished :: "'tp tracker \<Rightarrow> 'tp \<Rightarrow> int set" where
  "finished t tp = dget (trk_completed t) tp"

definition wf_tracker :: "'tp tracker \<Rightarrow> bool" where
  "wf_tracker t \<longleftrightarrow>
     distinct (map fst (trk_dispatched t)) \<and> distinct (map fst (trk_completed t)) \<and>
     (\<forall>tp. finite (dget (trk_dispatched t) tp)) \<and>
     (\<forall>tp. dget (trk_completed t) tp \<subseteq> dget (trk_dispatched t) tp)"

locale offset_ledger =
  fixes invar :: "'t \<Rightarrow> bool"
    and open_offsets :: "'t \<Rightarrow> 'tp \<Rightarrow> int set"
    and done_offsets :: "'t \<Rightarrow> 'tp \<Rightarrow> int set"
    and dispatch :: "'t \<Rightarrow> 'tp \<Rightarrow> int \<Rightarrow> 't"
    and complete :: "'t \<Rightarrow> 'tp \<Rightarrow> int \<Rightarrow> 't"
    and abandon :: "'t \<Rightarrow> 'tp \<Rightarrow> int \<Rightarrow> 't"
    and drop_partitions :: "'tp list \<Rightarrow> 't \<Rightarrow> 't"
    and take_ready :: "'t \<Rightarrow> ('tp \<times> int) list \<times> 't"
    and take_ready_for :: "'tp list \<Rightarrow> 't \<Rightarrow> ('tp \<times> int) list \<times> 't"
  assumes invar_dispatch: "invar t \<Longrightarrow> invar (dispatch t tp off)"
    and invar_complete: "invar t \<Longrightarrow> invar (complete t tp off)"
    and invar_abandon: "invar t \<Longrightarrow> invar (abandon t tp off)"
    and invar_drop: "invar t \<Longrightarrow> invar (drop_partitions ps t)"
    and invar_take: "invar t \<Longrightarrow> take_ready t = (cs, t') \<Longrightarrow> invar t'"
    and invar_take_for: "invar t \<Longrightarrow> take_ready_for ps t = (cs, t') \<Longrightarrow> invar t'"
    and open_dispatch: "invar t \<Longrightarrow>
          open_offsets (dispatch t tp off) p =
            (if p = tp \<and> off \<notin> done_offsets t tp then insert off (open_offsets t p) else open_offsets t p)"
    and done_dispatch: "invar t \<Longrightarrow> done_offsets (dispatch t tp off) p = done_offsets t p"
    and open_complete: "invar t \<Longrightarrow>
          open_offsets (complete t tp off) p = (if p = tp then open_offsets t p - {off} else open_offsets t p)"
    and done_complete: "invar t \<Longrightarrow>
          done_offsets (complete t tp off) p =
            (if p = tp \<and> off \<in> open_offsets t tp then insert off (done_offsets t p) else done_offsets t p)"
    and open_abandon: "invar t \<Longrightarrow>
          open_offsets (abandon t tp off) p = (if p = tp then open_offsets t p - {off} else open_offsets t p)"
    and done_abandon: "invar t \<Longrightarrow>
          done_offsets (abandon t tp off) p = (if p = tp then done_offsets t p - {off} else done_offsets t p)"
    and open_drop: "invar t \<Longrightarrow>
          open_offsets (drop_partitions ps t) p = (if p \<in> set ps then {} else open_offsets t p)"
    and done_drop: "invar t \<Longrightarrow>
          done_offsets (drop_partitions ps t) p = (if p \<in> set ps then {} else done_offsets t p)"
    and open_take: "invar t \<Longrightarrow> take_ready t = (cs, t') \<Longrightarrow> open_offsets t' p = open_offsets t p"
    and open_take_for: "invar t \<Longrightarrow> take_ready_for ps t = (cs, t') \<Longrightarrow> open_offsets t' p = open_offsets t p"
    and done_take: "invar t \<Longrightarrow> take_ready t = (cs, t') \<Longrightarrow> done_offsets t' p \<subseteq> done_offsets t p"
    and done_take_for: "invar t \<Longrightarrow> take_ready_for ps t = (cs, t') \<Longrightarrow> done_offsets t' p \<subseteq> done_offsets t p"
    and take_below: "invar t \<Longrightarrow> take_ready t = (cs, t') \<Longrightarrow> map_of cs p = Some n \<Longrightarrow>
          (\<forall>off\<in>open_offsets t p. n \<le> off) \<and> n - 1 \<in> done_offsets t p"
    and take_for_below: "invar t \<Longrightarrow> take_ready_for ps t = (cs, t') \<Longrightarrow> map_of cs p = Some n \<Longrightarrow>
          (\<forall>off\<in>open_offsets t p. n \<le> off) \<and> n - 1 \<in> done_offsets t p \<and> p \<in> set ps"
begin

text \<open>
  The accounting invariant: every offset seen in this ownership period is handled or still open,
  and whatever is recorded as finished was handled. Each operation keeps it, provided the caller
  completes or abandons only handled offsets; a commit then never passes an unhandled one.
\<close>

definition accounted :: "('tp \<Rightarrow> int set) \<Rightarrow> ('tp \<Rightarrow> int set) \<Rightarrow> 't \<Rightarrow> bool" where
  "accounted seen handled t \<longleftrightarrow>
     (\<forall>p. seen p \<subseteq> handled p \<union> open_offsets t p \<and> done_offsets t p \<subseteq> handled p)"

lemma accounted_dispatch:
  assumes "invar t" and "accounted seen handled t"
  shows "accounted (seen(tp := insert off (seen tp))) handled (dispatch t tp off)"
  using assms by (auto simp: accounted_def open_dispatch done_dispatch)

lemma accounted_handled:
  assumes "accounted seen handled t" and "\<And>p. handled p \<subseteq> handled' p"
  shows "accounted seen handled' t"
  using assms by (force simp: accounted_def)

lemma accounted_complete:
  assumes "invar t" and "accounted seen handled t" and "off \<in> handled tp"
  shows "accounted seen handled (complete t tp off)"
  using assms by (auto simp: accounted_def open_complete done_complete)

lemma accounted_abandon:
  assumes "invar t" and "accounted seen handled t" and "off \<in> handled tp"
  shows "accounted seen handled (abandon t tp off)"
  using assms by (auto simp: accounted_def open_abandon done_abandon)

lemma accounted_drop:
  assumes "invar t" and "accounted seen handled t"
  shows "accounted (\<lambda>p. if p \<in> set ps then {} else seen p) handled (drop_partitions ps t)"
  using assms by (auto simp: accounted_def open_drop done_drop)

lemma accounted_take:
  assumes "invar t" and "accounted seen handled t" and "take_ready t = (cs, t')"
  shows "accounted seen handled t'"
  using assms open_take [OF assms(1,3)] done_take [OF assms(1,3)]
  unfolding accounted_def by (metis subset_trans)

lemma accounted_take_for:
  assumes "invar t" and "accounted seen handled t" and "take_ready_for ps t = (cs, t')"
  shows "accounted seen handled t'"
  using assms open_take_for [OF assms(1,3)] done_take_for [OF assms(1,3)]
  unfolding accounted_def by (metis subset_trans)

lemma commit_safe:
  assumes "invar t" and "accounted seen handled t" and "take_ready t = (cs, t')"
    and "map_of cs p = Some n" and "off \<in> seen p" and "off < n"
  shows "off \<in> handled p"
  using assms take_below [OF assms(1,3,4)] by (force simp: accounted_def)

lemma commit_safe_for:
  assumes "invar t" and "accounted seen handled t" and "take_ready_for ps t = (cs, t')"
    and "map_of cs p = Some n" and "off \<in> seen p" and "off < n"
  shows "off \<in> handled p"
  using assms take_for_below [OF assms(1,3,4)] by (force simp: accounted_def)

end


section \<open>The tracker implements the contract\<close>

lemma dget_update [simp]: "dget (AList.update k v d) k' = (if k' = k then v else dget d k')"
  by (simp add: dget_def update_conv)

lemma dget_delete [simp]: "dget (AList.delete k d) k' = (if k' = k then {} else dget d k')"
  by (simp add: dget_def delete_conv)

lemma dget_Nil [simp]: "dget [] k = {}"
  by (simp add: dget_def)

lemma dget_Cons [simp]: "dget ((k, v) # d) k' = (if k' = k then v else dget d k')"
  by (simp add: dget_def)

lemma wf_empty_tracker [simp]: "wf_tracker empty_tracker"
  by (simp add: wf_tracker_def empty_tracker_def)

lemma wf_finite: "wf_tracker t \<Longrightarrow> finite (dget (trk_completed t) tp)"
  unfolding wf_tracker_def by (meson finite_subset)

lemma wf_dispatched: "wf_tracker t \<Longrightarrow> wf_tracker (dispatched t tp off)"
  by (auto simp: wf_tracker_def dispatched_def distinct_update)

lemma wf_completed: "wf_tracker t \<Longrightarrow> wf_tracker (completed t tp off)"
  by (auto simp: wf_tracker_def completed_def distinct_update)

lemma abandoned_fields:
  "dget (trk_dispatched (abandoned t tp off)) p =
     (if p = tp then dget (trk_dispatched t) p - {off} else dget (trk_dispatched t) p)"
  "dget (trk_completed (abandoned t tp off)) p =
     (if p = tp then dget (trk_completed t) p - {off} else dget (trk_completed t) p)"
  by (auto simp: abandoned_def Let_def update_conv dget_def split: option.splits)

lemma abandoned_distinct:
  assumes "distinct (map fst (trk_dispatched t))" and "distinct (map fst (trk_completed t))"
  shows "distinct (map fst (trk_dispatched (abandoned t tp off)))"
    and "distinct (map fst (trk_completed (abandoned t tp off)))"
  using assms by (auto simp: abandoned_def Let_def distinct_update split: option.splits)

lemma wf_abandoned: "wf_tracker t \<Longrightarrow> wf_tracker (abandoned t tp off)"
  unfolding wf_tracker_def by (auto simp: abandoned_fields abandoned_distinct)

lemma forget_fields:
  "dget (trk_dispatched (forget ps t)) p = (if p \<in> set ps then {} else dget (trk_dispatched t) p)"
  "dget (trk_completed (forget ps t)) p = (if p \<in> set ps then {} else dget (trk_completed t) p)"
  by (induction ps arbitrary: t) (auto simp: forget_def)

lemma forget_distinct:
  "distinct (map fst (trk_dispatched t)) \<Longrightarrow> distinct (map fst (trk_dispatched (forget ps t)))"
  "distinct (map fst (trk_completed t)) \<Longrightarrow> distinct (map fst (trk_completed (forget ps t)))"
  by (induction ps arbitrary: t) (auto simp: forget_def distinct_delete)

lemma wf_forget: "wf_tracker t \<Longrightarrow> wf_tracker (forget ps t)"
  unfolding wf_tracker_def by (auto simp: forget_fields forget_distinct)

subsection \<open>Taking the floor\<close>

lemma committable_subset: "committable d c \<subseteq> c"
  by (auto simp: committable_def Let_def)

lemma committable_below:
  assumes "finite d" and "off \<in> committable d c" and "run \<in> d - c"
  shows "off < run"
proof -
  from assms(1,3) have "Min (d - c) \<le> run" by (intro Min_le) auto
  moreover from assms(2,3) have "off < Min (d - c)"
    by (auto simp: committable_def Let_def split: if_splits)
  ultimately show ?thesis by simp
qed

lemma committable_maximal:
  assumes "finite d" and "off \<in> c" and "\<forall>run\<in>d - c. off < run"
  shows "off \<in> committable d c"
  using assms by (auto simp: committable_def Let_def)

lemma committable_open:
  assumes "c \<subseteq> d"
  shows "(d - committable d c) - (c - committable d c) = d - c"
  using assms committable_subset [of d c] by auto

lemma committable_idem:
  assumes "finite d" and "c \<subseteq> d"
  shows "committable (d - committable d c) (c - committable d c) = {}"
proof -
  let ?s = "committable d c"
  have *: "off \<notin> committable (d - ?s) (c - ?s)" if "off \<in> c - ?s" for off
  proof -
    from that have "off \<notin> ?s" "off \<in> c" by auto
    then obtain run where "run \<in> d - c" "\<not> off < run"
      using committable_maximal [OF assms(1)] by blast
    moreover from this have "run \<in> (d - ?s) - (c - ?s)"
      using committable_open [OF assms(2)] by blast
    ultimately show ?thesis
      using committable_below [of "d - ?s" off "c - ?s" run] assms(1) by auto
  qed
  then show ?thesis using committable_subset [of "d - ?s" "c - ?s"] by blast
qed

lemma take_one_tracker:
  assumes "take_one tp (cs, t) = (cs', t')"
  shows "dget (trk_dispatched t') p =
           (if p = tp then dget (trk_dispatched t) p - committable (dget (trk_dispatched t) p) (dget (trk_completed t) p)
            else dget (trk_dispatched t) p)"
    and "dget (trk_completed t') p =
           (if p = tp then dget (trk_completed t) p - committable (dget (trk_dispatched t) p) (dget (trk_completed t) p)
            else dget (trk_completed t) p)"
    and "map_of cs' p =
           (if p = tp \<and> committable (dget (trk_dispatched t) p) (dget (trk_completed t) p) \<noteq> {}
            then Some (Max (committable (dget (trk_dispatched t) p) (dget (trk_completed t) p)) + 1)
            else map_of cs p)"
  using assms committable_subset [of "dget (trk_dispatched t) tp" "dget (trk_completed t) tp"]
  by (auto simp: take_one_def Let_def update_conv split: if_splits)

lemma take_one_distinct:
  assumes "take_one tp (cs, t) = (cs', t')"
    and "distinct (map fst (trk_dispatched t))" and "distinct (map fst (trk_completed t))"
  shows "distinct (map fst (trk_dispatched t'))" and "distinct (map fst (trk_completed t'))"
  using assms by (auto simp: take_one_def Let_def distinct_update split: if_splits)

lemma wf_take_one:
  assumes "take_one tp (cs, t) = (cs', t')" and "wf_tracker t"
  shows "wf_tracker t'"
  using assms take_one_distinct [OF assms(1)]
  unfolding wf_tracker_def by (auto simp: take_one_tracker [OF assms(1)])

lemma fold_take_one:
  assumes "wf_tracker t" and "distinct tps" and "fold take_one tps (cs, t) = (cs', t')"
  shows "wf_tracker t' \<and>
    (\<forall>p. dget (trk_dispatched t') p =
           (if p \<in> set tps then dget (trk_dispatched t) p - committable (dget (trk_dispatched t) p) (dget (trk_completed t) p)
            else dget (trk_dispatched t) p) \<and>
         dget (trk_completed t') p =
           (if p \<in> set tps then dget (trk_completed t) p - committable (dget (trk_dispatched t) p) (dget (trk_completed t) p)
            else dget (trk_completed t) p) \<and>
         map_of cs' p =
           (if p \<in> set tps \<and> committable (dget (trk_dispatched t) p) (dget (trk_completed t) p) \<noteq> {}
            then Some (Max (committable (dget (trk_dispatched t) p) (dget (trk_completed t) p)) + 1)
            else map_of cs p))"
  using assms
proof (induction tps arbitrary: cs t)
  case Nil
  then show ?case by simp
next
  case (Cons tp tps)
  obtain cs1 t1 where one: "take_one tp (cs, t) = (cs1, t1)" by fastforce
  have wf1: "wf_tracker t1" using wf_take_one [OF one] Cons.prems by simp
  from Cons.prems one have rest: "fold take_one tps (cs1, t1) = (cs', t')" "distinct tps" "tp \<notin> set tps"
    by auto
  from Cons.IH [OF wf1 rest(2,1)] rest(3) show ?case
    by (simp add: take_one_tracker [OF one])
qed

text \<open>The two ways of taking the floor, characterised: what is returned and what is left.\<close>

lemma take_result:
  assumes wf: "wf_tracker t" and "take_committable t = (cs, t')"
  shows "wf_tracker t'" and "outstanding t' p = outstanding t p"
    and "finished t' p = finished t p - committable (dget (trk_dispatched t) p) (finished t p)"
    and "map_of cs p =
           (if committable (dget (trk_dispatched t) p) (finished t p) \<noteq> {}
            then Some (Max (committable (dget (trk_dispatched t) p) (finished t p)) + 1) else None)"
proof -
  have d: "distinct (map fst (trk_completed t))" using wf by (simp add: wf_tracker_def)
  have notin: "committable (dget (trk_dispatched t) p) (dget (trk_completed t) p) = {}"
    if "p \<notin> set (map fst (trk_completed t))" for p
  proof -
    from that have "map_of (trk_completed t) p = None" by (simp add: map_of_eq_None_iff)
    then show ?thesis using committable_subset by (fastforce simp: dget_def)
  qed
  have sub: "dget (trk_completed t) p \<subseteq> dget (trk_dispatched t) p" for p
    using wf by (simp add: wf_tracker_def)
  note f = fold_take_one [OF wf d assms(2) [unfolded take_committable_def]]
  show "wf_tracker t'" using f by simp
  show "outstanding t' p = outstanding t p"
    using f committable_open [OF sub, of p] by (auto simp: outstanding_def)
  show "finished t' p = finished t p - committable (dget (trk_dispatched t) p) (finished t p)"
    using f notin [of p] by (auto simp: finished_def)
  show "map_of cs p =
           (if committable (dget (trk_dispatched t) p) (finished t p) \<noteq> {}
            then Some (Max (committable (dget (trk_dispatched t) p) (finished t p)) + 1) else None)"
    using f notin [of p] by (auto simp: finished_def)
qed

lemma take_for_result:
  assumes wf: "wf_tracker t" and "committable_for ps t = (cs, t')"
  shows "wf_tracker t'" and "outstanding t' p = outstanding t p"
    and "finished t' p \<subseteq> finished t p"
    and "map_of cs p =
           (if p \<in> set ps \<and> committable (dget (trk_dispatched t) p) (finished t p) \<noteq> {}
            then Some (Max (committable (dget (trk_dispatched t) p) (finished t p)) + 1) else None)"
proof -
  let ?tps = "filter (\<lambda>tp. tp \<in> set ps) (map fst (trk_completed t))"
  have d: "distinct ?tps" using wf by (simp add: wf_tracker_def)
  have notin: "committable (dget (trk_dispatched t) p) (dget (trk_completed t) p) = {}"
    if "p \<notin> set (map fst (trk_completed t))" for p
  proof -
    from that have "map_of (trk_completed t) p = None" by (simp add: map_of_eq_None_iff)
    then show ?thesis using committable_subset by (fastforce simp: dget_def)
  qed
  have sub: "dget (trk_completed t) p \<subseteq> dget (trk_dispatched t) p" for p
    using wf by (simp add: wf_tracker_def)
  note f = fold_take_one [OF wf d assms(2) [unfolded committable_for_def]]
  show "wf_tracker t'" using f by simp
  show "outstanding t' p = outstanding t p"
    using f committable_open [OF sub, of p] by (auto simp: outstanding_def)
  show "finished t' p \<subseteq> finished t p"
    using f by (auto simp: finished_def)
  show "map_of cs p =
           (if p \<in> set ps \<and> committable (dget (trk_dispatched t) p) (finished t p) \<noteq> {}
            then Some (Max (committable (dget (trk_dispatched t) p) (finished t p)) + 1) else None)"
    using f notin [of p] by (auto simp: finished_def)
qed

lemma floor_bounds:
  assumes wf: "wf_tracker t"
    and ne: "committable (dget (trk_dispatched t) p) (finished t p) \<noteq> {}"
  shows "\<forall>off\<in>outstanding t p. Max (committable (dget (trk_dispatched t) p) (finished t p)) + 1 \<le> off"
    and "Max (committable (dget (trk_dispatched t) p) (finished t p)) \<in> finished t p"
proof -
  let ?s = "committable (dget (trk_dispatched t) p) (finished t p)"
  have fin: "finite (dget (trk_dispatched t) p)" using wf by (simp add: wf_tracker_def)
  have "finite ?s"
    using committable_subset wf_finite [OF wf] by (metis finished_def finite_subset)
  then have m: "Max ?s \<in> ?s" using ne by (rule Max_in)
  then show "Max ?s \<in> finished t p" using committable_subset by blast
  show "\<forall>off\<in>outstanding t p. Max ?s + 1 \<le> off"
    using committable_below [OF fin m] by (force simp: outstanding_def finished_def)
qed

interpretation trk: offset_ledger wf_tracker outstanding finished dispatched completed abandoned
  forget take_committable committable_for
proof unfold_locales
  fix t t' :: "'a tracker" and cs :: "('a \<times> int) list" and p tp :: 'a and ps :: "'a list"
    and off n :: int
  assume wf: "wf_tracker t"
  show "wf_tracker (dispatched t tp off)" by (rule wf_dispatched [OF wf])
  show "wf_tracker (completed t tp off)" by (rule wf_completed [OF wf])
  show "wf_tracker (abandoned t tp off)" by (rule wf_abandoned [OF wf])
  show "wf_tracker (forget ps t)" by (rule wf_forget [OF wf])
  have sub: "dget (trk_completed t) p \<subseteq> dget (trk_dispatched t) p" for p
    using wf by (simp add: wf_tracker_def)
  show "outstanding (dispatched t tp off) p =
      (if p = tp \<and> off \<notin> finished t tp then insert off (outstanding t p) else outstanding t p)"
    by (auto simp: outstanding_def finished_def dispatched_def)
  show "finished (dispatched t tp off) p = finished t p"
    by (simp add: finished_def dispatched_def)
  show "outstanding (completed t tp off) p = (if p = tp then outstanding t p - {off} else outstanding t p)"
    by (auto simp: outstanding_def completed_def)
  show "finished (completed t tp off) p =
      (if p = tp \<and> off \<in> outstanding t tp then insert off (finished t p) else finished t p)"
    by (auto simp: outstanding_def finished_def completed_def)
  show "outstanding (abandoned t tp off) p = (if p = tp then outstanding t p - {off} else outstanding t p)"
    by (auto simp: outstanding_def abandoned_fields)
  show "finished (abandoned t tp off) p = (if p = tp then finished t p - {off} else finished t p)"
    by (auto simp: finished_def abandoned_fields)
  show "outstanding (forget ps t) p = (if p \<in> set ps then {} else outstanding t p)"
    by (simp add: outstanding_def forget_fields)
  show "finished (forget ps t) p = (if p \<in> set ps then {} else finished t p)"
    by (simp add: finished_def forget_fields)
  {
    assume tk: "take_committable t = (cs, t')"
    note r = take_result [OF wf tk]
    show "wf_tracker t'" by (rule r(1))
    show "outstanding t' p = outstanding t p" by (rule r(2))
    show "finished t' p \<subseteq> finished t p" using r(3) [of p] by auto
    assume "map_of cs p = Some n"
    then show "(\<forall>off\<in>outstanding t p. n \<le> off) \<and> n - 1 \<in> finished t p"
      using r(4) [of p] floor_bounds [OF wf, of p] by (auto split: if_splits)
  }
  {
    assume tk: "committable_for ps t = (cs, t')"
    note r = take_for_result [OF wf tk]
    show "wf_tracker t'" by (rule r(1))
    show "outstanding t' p = outstanding t p" by (rule r(2))
    show "finished t' p \<subseteq> finished t p" by (rule r(3))
    assume "map_of cs p = Some n"
    then show "(\<forall>off\<in>outstanding t p. n \<le> off) \<and> n - 1 \<in> finished t p \<and> p \<in> set ps"
      using r(4) [of p] floor_bounds [OF wf, of p] by (auto split: if_splits)
  }
qed


section \<open>Properties\<close>

lemma fold_take_one_empty:
  assumes "\<And>p. p \<in> set tps \<Longrightarrow> committable (dget (trk_dispatched t) p) (dget (trk_completed t) p) = {}"
  shows "fold take_one tps (cs, t) = (cs, t)"
  using assms by (induction tps) (auto simp: take_one_def Let_def)

text \<open>C34. What the tracker hands to a commit for a partition is sound and maximal: no offset still
  in flight lies below it, the offset just below it has completed, and every completed offset that
  has nothing in flight at or below it is covered.\<close>

theorem take_committable_floor:
  assumes "wf_tracker t" and "take_committable t = (cs, t')"
  shows "(\<forall>p n. map_of cs p = Some n \<longrightarrow>
            (\<forall>off\<in>outstanding t p. n \<le> off) \<and> n - 1 \<in> finished t p) \<and>
         (\<forall>p. \<forall>off\<in>finished t p. (\<forall>run\<in>outstanding t p. off < run) \<longrightarrow>
            (\<exists>n. map_of cs p = Some n \<and> off < n)) \<and>
         (\<forall>p. outstanding t' p = outstanding t p)"
proof (intro conjI allI ballI impI)
  fix p n assume "map_of cs p = Some n"
  then have b: "(\<forall>off\<in>outstanding t p. n \<le> off) \<and> n - 1 \<in> finished t p"
    using trk.take_below [OF assms] by simp
  show "n - 1 \<in> finished t p" using b by simp
  fix off assume "off \<in> outstanding t p"
  then show "n \<le> off" using b by simp
next
  fix p off
  let ?s = "committable (dget (trk_dispatched t) p) (finished t p)"
  assume "off \<in> finished t p" and "\<forall>run\<in>outstanding t p. off < run"
  then have mem: "off \<in> ?s"
    using assms(1) by (intro committable_maximal) (auto simp: wf_tracker_def outstanding_def finished_def)
  have "finite ?s"
    using committable_subset wf_finite [OF assms(1)] by (metis finished_def finite_subset)
  then have "off \<le> Max ?s" using mem by simp
  then show "\<exists>n. map_of cs p = Some n \<and> off < n"
    using mem take_result(4) [OF assms, of p] by auto
next
  fix p show "outstanding t' p = outstanding t p" by (rule take_result(2) [OF assms])
qed

theorem take_committable_floor_witness:
  "\<exists>cs t'. take_committable
       (completed (completed (dispatched (dispatched (dispatched empty_tracker
          (0::nat) 10) 0 11) 0 12) 0 10) 0 12) = (cs, t') \<and>
     map_of cs 0 = Some 11 \<and> outstanding t' 0 = {11}"
proof -
  let ?t = "completed (completed (dispatched (dispatched (dispatched empty_tracker
          (0::nat) 10) 0 11) 0 12) 0 10) 0 12"
  have wf: "wf_tracker ?t" by (intro wf_completed wf_dispatched wf_empty_tracker)
  obtain cs t' where tk: "take_committable ?t = (cs, t')" by fastforce
  have o: "outstanding ?t 0 = {11}" and f: "finished ?t 0 = {10, 12}"
    by (auto simp: outstanding_def finished_def completed_def dispatched_def empty_tracker_def)
  have all: "\<forall>p n. map_of cs p = Some n \<longrightarrow>
            (\<forall>off\<in>outstanding ?t p. n \<le> off) \<and> n - 1 \<in> finished ?t p"
      "\<forall>p. \<forall>off\<in>finished ?t p. (\<forall>run\<in>outstanding ?t p. off < run) \<longrightarrow>
            (\<exists>n. map_of cs p = Some n \<and> off < n)"
      "\<forall>p. outstanding t' p = outstanding ?t p"
    using take_committable_floor [OF wf tk] by blast+
  have "(10::int) \<in> finished ?t 0" unfolding f by simp
  moreover have "\<forall>run\<in>outstanding ?t 0. (10::int) < run" unfolding o by simp
  ultimately obtain n where n: "map_of cs 0 = Some n" "10 < n"
    using all(2) by blast
  have "n \<le> 11" using all(1) n(1) o by blast
  moreover have "outstanding t' 0 = {11}" using all(3) o by simp
  ultimately show ?thesis using tk n by (intro exI [of _ cs] exI [of _ t']) simp
qed

text \<open>Taking the floor retires what it returns at once: a second take right after it finds
  nothing, whether or not the commit made from the first one succeeded.\<close>

theorem take_committable_retires:
  assumes "wf_tracker t" and "take_committable t = (cs, t')"
  shows "take_committable t' = ([], t')"
proof -
  note r = take_result [OF assms]
  have d: "dget (trk_dispatched t') p = dget (trk_dispatched t) p - committable (dget (trk_dispatched t) p) (finished t p)" for p
  proof -
    have "dget (trk_dispatched u) p = outstanding u p \<union> finished u p" if "wf_tracker u" for u
      using that by (auto simp: outstanding_def finished_def wf_tracker_def)
    from this [OF r(1)] this [OF assms(1)] r(2) [of p] r(3) [of p] show ?thesis
      using committable_subset [of "dget (trk_dispatched t) p" "finished t p"]
      by (auto simp: outstanding_def finished_def)
  qed
  have "committable (dget (trk_dispatched t') p) (dget (trk_completed t') p) = {}" for p
    using committable_idem [of "dget (trk_dispatched t) p" "finished t p"] assms(1) r(3) [of p] d
    by (simp add: wf_tracker_def finished_def)
  then show ?thesis
    unfolding take_committable_def by (intro fold_take_one_empty) auto
qed

theorem take_committable_retires_witness:
  "\<exists>cs t'. take_committable (completed (dispatched empty_tracker (0::nat) 10) 0 10) = (cs, t') \<and>
     cs = [(0, 11)] \<and> take_committable t' = ([], t')"
proof -
  let ?t = "completed (dispatched empty_tracker (0::nat) 10) 0 10"
  have wf: "wf_tracker ?t" by (intro wf_completed wf_dispatched wf_empty_tracker)
  obtain cs t' where tk: "take_committable ?t = (cs, t')" by fastforce
  have "fst (take_committable ?t) = [(0, 11)]" by code_simp
  then show ?thesis using tk take_committable_retires [OF wf tk] by auto
qed

text \<open>On revocation the floor taken for the revoked partitions is the floor a full take would
  give them and nothing else; after the partitions are forgotten, a worker that reports late on one
  of them changes nothing, so no offset of a partition owned elsewhere can ever be committed.\<close>

theorem revoke_takes_the_same_floor:
  assumes "wf_tracker t" and "tp \<in> set ps"
  shows "map_of (fst (committable_for ps t)) p =
           (if p \<in> set ps then map_of (fst (take_committable t)) p else None) \<and>
         completed (forget ps t) tp off = forget ps t \<and>
         (\<forall>n. map_of (fst (take_committable (forget ps t))) tp \<noteq> Some n)"
proof (intro conjI allI)
  obtain cs t' cs2 t2 where a: "take_committable t = (cs, t')" and b: "committable_for ps t = (cs2, t2)"
    by fastforce
  show "map_of (fst (committable_for ps t)) p =
           (if p \<in> set ps then map_of (fst (take_committable t)) p else None)"
    using take_result(4) [OF assms(1) a, of p] take_for_result(4) [OF assms(1) b, of p] a b by simp
  show "completed (forget ps t) tp off = forget ps t"
    using assms(2) by (simp add: completed_def forget_fields)
  fix n
  obtain cs3 t3 where c: "take_committable (forget ps t) = (cs3, t3)" by fastforce
  have "finished (forget ps t) tp = {}" using assms(2) by (simp add: finished_def forget_fields)
  then have "committable (dget (trk_dispatched (forget ps t)) tp) (finished (forget ps t) tp) = {}"
    using committable_subset by blast
  then show "map_of (fst (take_committable (forget ps t))) tp \<noteq> Some n"
    using take_result(4) [OF wf_forget [OF assms(1)] c, of tp] c by simp
qed

theorem revoke_takes_the_same_floor_witness:
  "map_of (fst (committable_for [0] (completed (dispatched empty_tracker (0::nat) 10) 0 10))) 0 = Some 11 \<and>
   completed (forget [0] (completed (dispatched empty_tracker (0::nat) 10) 0 10)) 0 10 =
     forget [0] (completed (dispatched empty_tracker 0 10) 0 10)"
proof -
  let ?t = "completed (dispatched empty_tracker (0::nat) 10) 0 10"
  have wf: "wf_tracker ?t" by (intro wf_completed wf_dispatched wf_empty_tracker)
  have "fst (take_committable ?t) = [(0, 11)]" by code_simp
  then show ?thesis
    using revoke_takes_the_same_floor [OF wf, of 0 "[0]" 0 10] by simp
qed

end
