(* ===== verification/Consumer.thy ===== *)
theory Consumer
  imports Offset_Tracker
begin

text \<open>
  The Kafka consumer of \<^verbatim>\<open>src/utils/kafkaConsumer.py\<close>: the poll loop, the bounded hand-over to the
  worker pool, the workers, the dead-letter queue, the rebalance listener and the shutdown drain.

  The poll loop and the rebalance callbacks run on one thread, and each of their operations is one
  step. A worker runs on a thread of its own: \<open>task\<close> keeps where it is in \<^verbatim>\<open>_process_and_commit\<close> and
  \<open>worker_step\<close> performs its next effect, so every interleaving of workers with the poll loop is a
  sequence of steps of \<open>step\<close>. What the broker, the internal endpoint, the storage and the pool
  answer is an \<open>outcome\<close> argument of the operation that asks.

  \<open>c_log\<close> records what leaves the process (messages delivered to the internal endpoint or to the
  dead-letter topic, terminal casebooks, commits) and what enters it (fetched records, partitions
  given up), each tagged with the message offsets it concerns. The properties are about this log.
\<close>

section \<open>State\<close>

datatype outcome = Succeeds | Times_out | Raises exn

text \<open>Why a message was published to the dead-letter topic: the error text of the entry.\<close>

datatype dlq_reason =
    Failed_validation string
  | Pipeline_timed_out
  | Forwarding_failed exn
  | Processing_failed exn

datatype dlq_payload = Raw_text "string option" | Decode_failed | Body doc

record message =
  m_offset :: int
  m_value :: string

record parse_result =
  pr_body :: "doc option"
  pr_raw_text :: "string option"
  pr_error :: "string option"

definition is_poison :: "parse_result \<Rightarrow> bool" where
  "is_poison p \<longleftrightarrow> pr_error p \<noteq> None"

definition validation_text :: "parse_result \<Rightarrow> string" where
  "validation_text p =
     (case pr_error p of
        None \<Rightarrow> ''Message failed validation''
      | Some t \<Rightarrow> if t = [] then ''Message failed validation'' else t)"

text \<open>The role's adapter: the identity of a body and the casebook of a timeout.\<close>

record adapter =
  ad_identity_of :: "doc \<Rightarrow> string option"
  ad_timeout_casebook :: "doc \<Rightarrow> doc"

datatype 'tp event =
    Fetched 'tp int
  | Forgot "'tp list"
  | Forwarded "('tp \<times> int) list"
  | Skipped "('tp \<times> int) list" string
  | Dead_lettered "('tp \<times> int) list" dlq_payload dlq_reason
  | Saved_terminal string doc
  | Committed "('tp \<times> int) list"

datatype stage =
    Forwarding
  | Recording_timeout
  | Publishing_timeout
  | Publishing_failure exn
  | Completing
  | Abandoning
  | Releasing

record 'tp task =
  tk_payload :: doc
  tk_offsets :: "('tp \<times> int) list"
  tk_stage :: stage

record 'tp consumer =
  c_tracker :: "'tp tracker"
  c_slots :: nat
  c_workers :: "'tp task list"
  c_backlog :: "('tp \<times> message) list"
  c_assigned :: "'tp set"
  c_paused :: "'tp set"
  c_shutdown :: bool
  c_log :: "'tp event list"

definition start_consumer :: "nat \<Rightarrow> 'tp consumer" where
  "start_consumer max_concurrent =
     \<lparr>c_tracker = empty_tracker, c_slots = max_concurrent, c_workers = [], c_backlog = [],
      c_assigned = {}, c_paused = {}, c_shutdown = False, c_log = []\<rparr>"

definition emit :: "'tp event \<Rightarrow> 'tp consumer \<Rightarrow> 'tp consumer" where
  "emit e s = s\<lparr>c_log := c_log s @ [e]\<rparr>"

definition release_slot :: "'tp consumer \<Rightarrow> 'tp consumer" where
  "release_slot s = s\<lparr>c_slots := c_slots s + 1\<rparr>"


section \<open>Completing, abandoning, dead-lettering\<close>

text \<open>\<^verbatim>\<open>message_offsets\<close> holds the next offset to commit for each partition, the tracker message offsets.\<close>

definition record_completion :: "('tp \<times> int) list \<Rightarrow> 'tp consumer \<Rightarrow> 'tp consumer" where
  "record_completion message_offsets s =
     fold (\<lambda>(tp, next) s. s\<lparr>c_tracker := completed (c_tracker s) tp (next - 1)\<rparr>) message_offsets s"

definition record_abandonment :: "('tp \<times> int) list \<Rightarrow> 'tp consumer \<Rightarrow> 'tp consumer" where
  "record_abandonment message_offsets s =
     fold (\<lambda>(tp, next) s. s\<lparr>c_tracker := abandoned (c_tracker s) tp (next - 1)\<rparr>) message_offsets s"

text \<open>\<^verbatim>\<open>publish_to_dlq\<close>: the record reaches the topic, or the call raises and nothing was published.\<close>

definition publish_to_dlq ::
    "outcome \<Rightarrow> ('tp \<times> int) list \<Rightarrow> dlq_payload \<Rightarrow> dlq_reason \<Rightarrow> 'tp consumer \<Rightarrow> bool \<times> 'tp consumer" where
  "publish_to_dlq answer message_offsets payload reason s =
     (case answer of
        Succeeds \<Rightarrow> (True, emit (Dead_lettered message_offsets payload reason) s)
      | _ \<Rightarrow> (False, s))"

definition dlq_and_abandon ::
    "outcome \<Rightarrow> dlq_payload \<Rightarrow> dlq_reason \<Rightarrow> ('tp \<times> int) list \<Rightarrow> 'tp consumer \<Rightarrow> 'tp consumer" where
  "dlq_and_abandon answer payload reason message_offsets s =
     (case publish_to_dlq answer message_offsets payload reason s of
        (True, s') \<Rightarrow> record_abandonment message_offsets s'
      | (False, s') \<Rightarrow> s')"


section \<open>A worker\<close>

definition enter :: "nat \<Rightarrow> stage \<Rightarrow> 'tp consumer \<Rightarrow> 'tp consumer" where
  "enter i st s = s\<lparr>c_workers := (c_workers s)[i := (c_workers s ! i)\<lparr>tk_stage := st\<rparr>]\<rparr>"

definition retire_worker :: "nat \<Rightarrow> 'tp consumer \<Rightarrow> 'tp consumer" where
  "retire_worker i s = s\<lparr>c_workers := take i (c_workers s) @ drop (Suc i) (c_workers s)\<rparr>"

text \<open>
  One effect of \<^verbatim>\<open>_process_and_commit\<close>. A timeout first records the terminal casebook, best effort, and
  then publishes; any other failure publishes and abandons; a publish that fails leaves the offset
  dispatched. The slot is released last on every path (\<^verbatim>\<open>finally\<close>).
\<close>

definition worker_step :: "adapter \<Rightarrow> nat \<Rightarrow> outcome \<Rightarrow> 'tp consumer \<Rightarrow> 'tp consumer" where
  "worker_step ad i answer s =
     (let t = c_workers s ! i; mo = tk_offsets t; p = tk_payload t
      in case tk_stage t of
           Forwarding \<Rightarrow>
             (case answer of
                Succeeds \<Rightarrow> enter i Completing (emit (Forwarded mo) s)
              | Times_out \<Rightarrow> enter i Recording_timeout s
              | Raises e \<Rightarrow> enter i (Publishing_failure e) s)
         | Recording_timeout \<Rightarrow>
             enter i Publishing_timeout
               (case ad_identity_of ad p of
                  None \<Rightarrow> s
                | Some event_id \<Rightarrow>
                    if event_id = [] \<or> answer \<noteq> Succeeds then s
                    else emit (Saved_terminal event_id (ad_timeout_casebook ad p)) s)
         | Publishing_timeout \<Rightarrow>
             (case publish_to_dlq answer mo (Body p) Pipeline_timed_out s of
                (ok, s') \<Rightarrow> enter i (if ok then Completing else Releasing) s')
         | Publishing_failure e \<Rightarrow>
             (case publish_to_dlq answer mo (Body p) (Forwarding_failed e) s of
                (ok, s') \<Rightarrow> enter i (if ok then Abandoning else Releasing) s')
         | Completing \<Rightarrow> enter i Releasing (record_completion mo s)
         | Abandoning \<Rightarrow> enter i Releasing (record_abandonment mo s)
         | Releasing \<Rightarrow> release_slot (retire_worker i s))"


section \<open>The poll loop\<close>

text \<open>What the calls made for one message answer: parsing, the skip rule, the pool, the dead-letter topic.\<close>

record answers =
  an_parse :: "exn + parse_result"
  an_skip :: "doc \<Rightarrow> exn + string option"
  an_submit :: outcome
  an_dlq :: outcome

definition submit :: "outcome \<Rightarrow> doc \<Rightarrow> ('tp \<times> int) list \<Rightarrow> 'tp consumer \<Rightarrow> bool \<times> 'tp consumer" where
  "submit answer payload message_offsets s =
     (case answer of
        Succeeds \<Rightarrow> (True, s\<lparr>c_workers := c_workers s @
           [\<lparr>tk_payload = payload, tk_offsets = message_offsets, tk_stage = Forwarding\<rparr>]\<rparr>)
      | _ \<Rightarrow> (False, s))"

definition failure_of :: "outcome \<Rightarrow> exn" where
  "failure_of answer = (case answer of Raises e \<Rightarrow> e | _ \<Rightarrow> RuntimeError)"

text \<open>
  \<^verbatim>\<open>_handle_one_message\<close>, called with a slot acquired. The slot is released unless the message was
  handed to a worker. \<open>Decode_failed\<close> is the text published when parsing itself raised.
\<close>

definition handle_one_message :: "answers \<Rightarrow> 'tp \<Rightarrow> message \<Rightarrow> 'tp consumer \<Rightarrow> 'tp consumer" where
  "handle_one_message an tp msg s0 =
     (let mo = [(tp, m_offset msg + 1)];
          s = s0\<lparr>c_tracker := dispatched (c_tracker s0) tp (m_offset msg)\<rparr>
      in case an_parse an of
           Inl e \<Rightarrow> release_slot (dlq_and_abandon (an_dlq an) Decode_failed (Processing_failed e) mo s)
         | Inr parsed \<Rightarrow>
             if is_poison parsed then
               (case publish_to_dlq (an_dlq an) mo (Raw_text (pr_raw_text parsed))
                       (Failed_validation (validation_text parsed)) s of
                  (True, s') \<Rightarrow> release_slot (record_completion mo s')
                | (False, s') \<Rightarrow> release_slot s')
             else
               (let body = (case pr_body parsed of None \<Rightarrow> [] | Some b \<Rightarrow> b)
                in case an_skip an body of
                     Inl e \<Rightarrow> release_slot (dlq_and_abandon (an_dlq an) (Body body) (Processing_failed e) mo s)
                   | Inr reason \<Rightarrow>
                       if reason \<noteq> None \<and> reason \<noteq> Some []
                       then release_slot (record_completion mo (emit (Skipped mo (the reason)) s))
                       else (case submit (an_submit an) body mo s of
                               (True, s') \<Rightarrow> s'
                             | (False, s') \<Rightarrow>
                                 release_slot (dlq_and_abandon (an_dlq an) (Body body)
                                   (Processing_failed (failure_of (an_submit an))) mo s'))))"

text \<open>\<^verbatim>\<open>_dispatch_backlog\<close>: hand messages to free slots without waiting for one.\<close>

lemma backlog_record [simp]:
  "c_backlog (record_completion mo s) = c_backlog s"
  "c_backlog (record_abandonment mo s) = c_backlog s"
  "c_backlog (release_slot s) = c_backlog s"
  "c_backlog (emit e s) = c_backlog s"
  by (induction mo arbitrary: s)
     (auto simp: record_completion_def record_abandonment_def release_slot_def emit_def split: prod.splits)

lemma backlog_dlq [simp]:
  "c_backlog (snd (publish_to_dlq a mo p r s)) = c_backlog s"
  "c_backlog (dlq_and_abandon a p r mo s) = c_backlog s"
  by (auto simp: publish_to_dlq_def dlq_and_abandon_def split: outcome.split)

lemma backlog_handle [simp]: "c_backlog (handle_one_message an tp msg s) = c_backlog s"
  by (auto simp: handle_one_message_def Let_def publish_to_dlq_def submit_def
      split: sum.split outcome.split option.split)

function dispatch_backlog :: "('tp \<Rightarrow> message \<Rightarrow> answers) \<Rightarrow> 'tp consumer \<Rightarrow> 'tp consumer" where
  "dispatch_backlog env s =
     (case c_backlog s of
        [] \<Rightarrow> s
      | (tp, msg) # rest \<Rightarrow>
          if c_shutdown s then s
          else if c_slots s = 0 then s
          else dispatch_backlog env
                 (handle_one_message (env tp msg) tp msg
                    (s\<lparr>c_slots := c_slots s - 1, c_backlog := rest\<rparr>)))"
  by pat_completeness auto
termination by (relation "measure (\<lambda>(env, s). length (c_backlog s))") auto

declare dispatch_backlog.simps [simp del]

definition drop_backlog :: "'tp list \<Rightarrow> 'tp consumer \<Rightarrow> 'tp consumer" where
  "drop_backlog partitions s =
     s\<lparr>c_backlog := filter (\<lambda>(tp, msg). tp \<notin> set partitions) (c_backlog s)\<rparr>"

text \<open>The commit call of the Kafka client: the offsets reach the broker, or the call raises.\<close>

definition client_commit :: "outcome \<Rightarrow> ('tp \<times> int) list \<Rightarrow> 'tp consumer \<Rightarrow> 'tp consumer" where
  "client_commit answer commits s =
     (case answer of Succeeds \<Rightarrow> emit (Committed commits) s | _ \<Rightarrow> s)"

definition commit_ready_offsets :: "outcome \<Rightarrow> 'tp consumer \<Rightarrow> 'tp consumer" where
  "commit_ready_offsets answer s =
     (case take_committable (c_tracker s) of
        (commits, t) \<Rightarrow>
          let s' = s\<lparr>c_tracker := t\<rparr>
          in if commits = [] then s' else client_commit answer commits s')"

definition on_partitions_revoked :: "outcome \<Rightarrow> 'tp list \<Rightarrow> 'tp consumer \<Rightarrow> 'tp consumer" where
  "on_partitions_revoked answer revoked s =
     (if revoked = [] then s
      else
        (let s1 = drop_backlog revoked s
         in case committable_for revoked (c_tracker s1) of
              (commits, t) \<Rightarrow>
                let s2 = s1\<lparr>c_tracker := t\<rparr>;
                    s3 = (if commits = [] then s2 else client_commit answer commits s2)
                in emit (Forgot revoked) (s3\<lparr>c_tracker := forget revoked (c_tracker s3)\<rparr>)))"

definition on_partitions_assigned :: "'tp list \<Rightarrow> 'tp consumer \<Rightarrow> 'tp consumer" where
  "on_partitions_assigned assigned s =
     (let stale = filter (\<lambda>tp. tp \<in> tracked_partitions (c_tracker s)) assigned
      in if stale = [] then s
         else emit (Forgot stale) (s\<lparr>c_tracker := forget stale (c_tracker s)\<rparr>))"

definition set_fetching :: "bool \<Rightarrow> 'tp consumer \<Rightarrow> 'tp consumer" where
  "set_fetching active s =
     (if active then s\<lparr>c_paused := {}\<rparr>
      else s\<lparr>c_paused := c_paused s \<union> (c_assigned s - c_paused s)\<rparr>)"

text \<open>
  \<^verbatim>\<open>consumer.poll()\<close> runs the rebalance callbacks that are due and then returns records; the client's
  own bookkeeping (the assignment, the paused partitions) changes with the callbacks.
\<close>

datatype 'tp rebalance = Revoke outcome "'tp list" | Assign "'tp list"

fun rebalance_step :: "'tp rebalance \<Rightarrow> 'tp consumer \<Rightarrow> 'tp consumer" where
  "rebalance_step (Revoke answer ps) s =
     (let s' = on_partitions_revoked answer ps s
      in s'\<lparr>c_assigned := c_assigned s' - set ps, c_paused := c_paused s' - set ps\<rparr>)"
| "rebalance_step (Assign ps) s =
     on_partitions_assigned ps (s\<lparr>c_assigned := c_assigned s \<union> set ps\<rparr>)"

definition receive :: "'tp \<times> message \<Rightarrow> 'tp consumer \<Rightarrow> 'tp consumer" where
  "receive r s = (case r of (tp, msg) \<Rightarrow>
     emit (Fetched tp (m_offset msg)) (s\<lparr>c_backlog := c_backlog s @ [(tp, msg)]\<rparr>))"

record 'tp cycle =
  cy_commit :: outcome
  cy_first :: "'tp \<Rightarrow> message \<Rightarrow> answers"
  cy_rebalances :: "'tp rebalance list"
  cy_records :: "('tp \<times> message) list"
  cy_second :: "'tp \<Rightarrow> message \<Rightarrow> answers"

definition poll_once :: "'tp cycle \<Rightarrow> 'tp consumer \<Rightarrow> 'tp consumer" where
  "poll_once cy s0 =
     (let s1 = commit_ready_offsets (cy_commit cy) s0;
          s2 = dispatch_backlog (cy_first cy) s1;
          s3 = set_fetching (c_backlog s2 = []) s2;
          s4 = fold rebalance_step (cy_rebalances cy) s3;
          s5 = fold receive (cy_records cy) s4
      in dispatch_backlog (cy_second cy) s5)"

definition request_shutdown :: "'tp consumer \<Rightarrow> 'tp consumer" where
  "request_shutdown s = s\<lparr>c_shutdown := True\<rparr>"

text \<open>
  The end of the drain: tasks the pool had not started are cancelled (a list of their indices) and
  what has completed is committed. The wait before it is a bounded sequence of worker steps.
\<close>

definition drain_and_commit :: "outcome \<Rightarrow> nat list \<Rightarrow> 'tp consumer \<Rightarrow> 'tp consumer" where
  "drain_and_commit answer cancelled s =
     commit_ready_offsets answer (s\<lparr>c_workers := nths (c_workers s) (- set cancelled)\<rparr>)"

text \<open>Liveness of the process, from the ticker's stamp or else the heartbeat file.\<close>

definition is_healthy :: "bool \<Rightarrow> rat option \<Rightarrow> string option \<Rightarrow> rat \<Rightarrow> rat \<Rightarrow> bool" where
  "is_healthy shutdown last_heartbeat file stale_seconds now =
     (if shutdown then False
      else (case (case last_heartbeat of
                    Some stamp \<Rightarrow> Some stamp
                  | None \<Rightarrow> Option.bind file (\<lambda>t. py_float (py_strip t))) of
              None \<Rightarrow> False
            | Some stamp \<Rightarrow> now - stamp < stale_seconds))"


section \<open>The step relation\<close>

text \<open>The message offsets an event accounts for, and what the log says of a partition.\<close>

fun offsets_of :: "'tp event \<Rightarrow> ('tp \<times> int) list" where
  "offsets_of (Forwarded mo) = mo"
| "offsets_of (Skipped mo reason) = mo"
| "offsets_of (Dead_lettered mo payload reason) = mo"
| "offsets_of _ = []"

definition handled :: "'tp event list \<Rightarrow> 'tp \<Rightarrow> int set" where
  "handled lg p = {off. \<exists>e\<in>set lg. (p, off + 1) \<in> set (offsets_of e)}"

fun note_fetch :: "'tp event \<Rightarrow> ('tp \<Rightarrow> int set) \<Rightarrow> 'tp \<Rightarrow> int set" where
  "note_fetch (Fetched tp off) f = f(tp := insert off (f tp))"
| "note_fetch (Forgot ps) f = (\<lambda>p. if p \<in> set ps then {} else f p)"
| "note_fetch _ f = f"

text \<open>What was fetched of a partition since this consumer last gave it up.\<close>

definition fetched_now :: "'tp event list \<Rightarrow> 'tp \<Rightarrow> int set" where
  "fetched_now lg = fold note_fetch lg (\<lambda>_. {})"

text \<open>
  What is documented of the Kafka client: records come only from assigned partitions that are not
  paused, with growing offsets while the partition is owned, and a partition is assigned only when
  it was not owned before.
\<close>

definition deliverable :: "'tp \<Rightarrow> message \<Rightarrow> 'tp consumer \<Rightarrow> bool" where
  "deliverable tp msg s \<longleftrightarrow>
     tp \<in> c_assigned s \<and> tp \<notin> c_paused s \<and> (\<forall>off\<in>fetched_now (c_log s) tp. off < m_offset msg)"

fun due :: "'tp rebalance \<Rightarrow> 'tp consumer \<Rightarrow> bool" where
  "due (Revoke answer ps) s = True"
| "due (Assign ps) s = (set ps \<inter> c_assigned s = {})"

inductive step :: "adapter \<Rightarrow> 'tp consumer \<Rightarrow> 'tp consumer \<Rightarrow> bool" for ad where
  step_commit: "step ad s (commit_ready_offsets answer s)"
| step_dispatch: "step ad s (dispatch_backlog env s)"
| step_fetching: "step ad s (set_fetching active s)"
| step_rebalance: "due r s \<Longrightarrow> step ad s (rebalance_step r s)"
| step_receive: "deliverable tp msg s \<Longrightarrow> step ad s (receive (tp, msg) s)"
| step_worker: "i < length (c_workers s) \<Longrightarrow> step ad s (worker_step ad i answer s)"
| step_shutdown: "step ad s (request_shutdown s)"
| step_drain: "c_shutdown s \<Longrightarrow> step ad s (drain_and_commit answer cancelled s)"

inductive_cases stepE: "step ad s s'"

inductive reachable :: "adapter \<Rightarrow> nat \<Rightarrow> 'tp consumer \<Rightarrow> bool" for ad n where
  reachable_start: "reachable ad n (start_consumer n)"
| reachable_step: "reachable ad n s \<Longrightarrow> step ad s s' \<Longrightarrow> reachable ad n s'"


section \<open>The accounting invariant\<close>

definition waiting :: "('tp \<times> message) list \<Rightarrow> 'tp \<Rightarrow> int set" where
  "waiting bl p = {m_offset m | m. (p, m) \<in> set bl}"

definition commits_ok :: "'tp event list \<Rightarrow> bool" where
  "commits_ok lg \<longleftrightarrow>
     (\<forall>pre cs post. lg = pre @ Committed cs # post \<longrightarrow>
        (\<forall>p n off. map_of cs p = Some n \<longrightarrow> off \<in> fetched_now pre p \<longrightarrow> off < n \<longrightarrow> off \<in> handled pre p))"

definition in_order :: "('tp \<times> message) list \<Rightarrow> bool" where
  "in_order bl \<longleftrightarrow> sorted_wrt (\<lambda>(p, m) (p', m'). p = p' \<longrightarrow> m_offset m < m_offset m') bl"

definition ledger_ok :: "'tp event list \<Rightarrow> ('tp \<times> message) list \<Rightarrow> 'tp tracker \<Rightarrow> bool" where
  "ledger_ok lg bl t \<longleftrightarrow>
     wf_tracker t \<and> trk.accounted (\<lambda>p. fetched_now lg p - waiting bl p) (handled lg) t \<and>
     (\<forall>p. waiting bl p \<subseteq> fetched_now lg p) \<and>
     (\<forall>p. outstanding t p \<union> finished t p \<subseteq> fetched_now lg p) \<and>
     (\<forall>p. \<forall>w\<in>waiting bl p. \<forall>off\<in>outstanding t p \<union> finished t p. off < w) \<and>
     in_order bl \<and> commits_ok lg"

definition tasks_ok :: "'tp event list \<Rightarrow> 'tp task list \<Rightarrow> bool" where
  "tasks_ok lg ws \<longleftrightarrow>
     (\<forall>t\<in>set ws. tk_stage t \<in> {Completing, Abandoning} \<longrightarrow>
        (\<forall>(tp, n)\<in>set (tk_offsets t). n - 1 \<in> handled lg tp))"

definition consumer_ok :: "'tp consumer \<Rightarrow> bool" where
  "consumer_ok s \<longleftrightarrow>
     ledger_ok (c_log s) (c_backlog s) (c_tracker s) \<and> tasks_ok (c_log s) (c_workers s) \<and>
     fst ` set (c_backlog s) \<subseteq> c_assigned s"

definition slots_ok :: "nat \<Rightarrow> 'tp consumer \<Rightarrow> bool" where
  "slots_ok n s \<longleftrightarrow>
     c_slots s + length (c_workers s) \<le> n \<and>
     (\<not> c_shutdown s \<longrightarrow> c_slots s + length (c_workers s) = n)"

subsection \<open>The log\<close>

lemma handled_append: "handled (lg @ es) p = handled lg p \<union> handled es p"
  by (auto simp: handled_def)

lemma handled_mono: "handled lg p \<subseteq> handled (lg @ es) p"
  by (simp add: handled_append)

lemma handled_snoc: "handled (lg @ [e]) p = handled lg p \<union> {n - 1 | n. (p, n) \<in> set (offsets_of e)}"
  by (auto simp: handled_def)

lemma note_fetch_other [simp]:
  "note_fetch (Forwarded mo) = (\<lambda>f. f)" "note_fetch (Skipped mo reason) = (\<lambda>f. f)"
  "note_fetch (Dead_lettered mo p r) = (\<lambda>f. f)" "note_fetch (Saved_terminal k d) = (\<lambda>f. f)"
  by (rule ext, simp)+

lemma fetched_now_Nil [simp]: "fetched_now [] p = {}"
  by (simp add: fetched_now_def)

lemma fetched_now_snoc [simp]: "fetched_now (lg @ [e]) = note_fetch e (fetched_now lg)"
  by (simp add: fetched_now_def)

lemma commits_ok_snoc:
  assumes "commits_ok lg"
    and "\<And>cs p n off. e = Committed cs \<Longrightarrow> map_of cs p = Some n \<Longrightarrow> off \<in> fetched_now lg p \<Longrightarrow>
           off < n \<Longrightarrow> off \<in> handled lg p"
  shows "commits_ok (lg @ [e])"
  unfolding commits_ok_def
proof (intro allI impI)
  fix pre cs post p n off
  assume eq: "lg @ [e] = pre @ Committed cs # post"
    and h: "map_of cs p = Some n" "off \<in> fetched_now pre p" "off < n"
  show "off \<in> handled pre p"
  proof (cases post rule: rev_cases)
    case Nil
    with eq h assms(2) show ?thesis by auto
  next
    case (snoc post' e')
    with eq have "lg = pre @ Committed cs # post'" by auto
    with assms(1) h show ?thesis unfolding commits_ok_def by blast
  qed
qed

lemma waiting_Nil [simp]: "waiting [] p = {}"
  by (simp add: waiting_def)

lemma waiting_Cons [simp]:
  "waiting ((tp, msg) # bl) p = (if p = tp then insert (m_offset msg) (waiting bl p) else waiting bl p)"
  by (auto simp: waiting_def)

lemma waiting_append [simp]: "waiting (bl @ bl') p = waiting bl p \<union> waiting bl' p"
  by (auto simp: waiting_def)

lemma waiting_filter:
  "waiting (filter (\<lambda>(tp, msg). tp \<notin> set ps) bl) p = (if p \<in> set ps then {} else waiting bl p)"
  by (auto simp: waiting_def)

subsection \<open>The ledger under each effect\<close>

lemma ledger_okD:
  assumes "ledger_ok lg bl t"
  shows "wf_tracker t" and "trk.accounted (\<lambda>p. fetched_now lg p - waiting bl p) (handled lg) t"
    and "waiting bl p \<subseteq> fetched_now lg p" and "outstanding t p \<subseteq> fetched_now lg p"
    and "finished t p \<subseteq> fetched_now lg p" and "in_order bl" and "commits_ok lg"
    and "w \<in> waiting bl p \<Longrightarrow> off \<in> outstanding t p \<or> off \<in> finished t p \<Longrightarrow> off < w"
  using assms by (auto simp: ledger_ok_def)

lemma ledger_okI:
  assumes "wf_tracker t" and "trk.accounted (\<lambda>p. fetched_now lg p - waiting bl p) (handled lg) t"
    and "\<And>p. waiting bl p \<subseteq> fetched_now lg p" and "\<And>p. outstanding t p \<subseteq> fetched_now lg p"
    and "\<And>p. finished t p \<subseteq> fetched_now lg p" and "in_order bl" and "commits_ok lg"
    and "\<And>p w off. w \<in> waiting bl p \<Longrightarrow> off \<in> outstanding t p \<or> off \<in> finished t p \<Longrightarrow> off < w"
  shows "ledger_ok lg bl t"
  using assms by (auto simp: ledger_ok_def)

lemma ledger_emit:
  assumes ok: "ledger_ok lg bl t" and nf: "note_fetch e = (\<lambda>f. f)" and nc: "\<And>cs. e \<noteq> Committed cs"
  shows "ledger_ok (lg @ [e]) bl t"
proof -
  have f: "fetched_now (lg @ [e]) = fetched_now lg" by (simp add: nf)
  have "commits_ok (lg @ [e])"
    using ok nc by (intro commits_ok_snoc) (auto simp: ledger_ok_def)
  moreover have "trk.accounted (\<lambda>p. fetched_now lg p - waiting bl p) (handled (lg @ [e])) t"
    using ok by (intro trk.accounted_handled [OF _ handled_mono]) (simp add: ledger_ok_def)
  ultimately show ?thesis using ok unfolding ledger_ok_def f by blast
qed

lemma ledger_complete:
  assumes "ledger_ok lg bl t" and "off \<in> handled lg tp"
  shows "ledger_ok lg bl (completed t tp off)"
  using assms trk.invar_complete trk.accounted_complete
  by (auto simp: ledger_ok_def trk.open_complete trk.done_complete split: if_splits)

lemma ledger_abandon:
  assumes "ledger_ok lg bl t" and "off \<in> handled lg tp"
  shows "ledger_ok lg bl (abandoned t tp off)"
  using assms trk.invar_abandon trk.accounted_abandon
  by (auto simp: ledger_ok_def trk.open_abandon trk.done_abandon split: if_splits)

lemma ledger_dispatch:
  assumes ok: "ledger_ok lg ((tp, msg) # bl) t"
  shows "ledger_ok lg bl (dispatched t tp (m_offset msg))"
proof -
  let ?t = "dispatched t tp (m_offset msg)"
  have wf: "wf_tracker t" and wf': "wf_tracker ?t"
    using ok trk.invar_dispatch by (auto simp: ledger_ok_def)
  have later: "m_offset msg < w" if "w \<in> waiting bl tp" for w
    using ledger_okD(6) [OF ok] that by (auto simp: in_order_def waiting_def)
  have acc: "trk.accounted ((\<lambda>p. fetched_now lg p - waiting ((tp, msg) # bl) p)
      (tp := insert (m_offset msg) (fetched_now lg tp - waiting ((tp, msg) # bl) tp))) (handled lg) ?t"
    using ok wf by (intro trk.accounted_dispatch) (auto simp: ledger_ok_def)
  have "fetched_now lg p - waiting bl p \<subseteq> handled lg p \<union> outstanding ?t p \<and> finished ?t p \<subseteq> handled lg p" for p
    using acc [unfolded trk.accounted_def, rule_format, of p] by (cases "p = tp") auto
  then have acc': "trk.accounted (\<lambda>p. fetched_now lg p - waiting bl p) (handled lg) ?t"
    unfolding trk.accounted_def by blast
  have o: "outstanding ?t p \<subseteq> (if p = tp then insert (m_offset msg) (outstanding t p) else outstanding t p)"
    and f: "finished ?t p = finished t p" for p
    using wf by (auto simp: trk.open_dispatch trk.done_dispatch split: if_splits)
  have wt: "waiting bl p \<subseteq> waiting ((tp, msg) # bl) p" for p by auto
  show ?thesis
  proof (rule ledger_okI)
    show "waiting bl p \<subseteq> fetched_now lg p" for p using ledger_okD(3) [OF ok, of p] wt [of p] by blast
    show "outstanding ?t p \<subseteq> fetched_now lg p" for p
      using ledger_okD(3,4) [OF ok, of p] o [of p] by (auto split: if_splits)
    show "finished ?t p \<subseteq> fetched_now lg p" for p using ledger_okD(5) [OF ok, of p] f by simp
    show "in_order bl" using ledger_okD(6) [OF ok] by (simp add: in_order_def)
    fix p w off assume w: "w \<in> waiting bl p" and "off \<in> outstanding ?t p \<or> off \<in> finished ?t p"
    then have "off = m_offset msg \<and> p = tp \<or> off \<in> outstanding t p \<or> off \<in> finished t p"
      using o [of p] f by (auto split: if_splits)
    then show "off < w" using later w ledger_okD(8) [OF ok, of w p] wt [of p] by blast
  qed (use acc' wf' ledger_okD(7) [OF ok] in auto)
qed

lemma ledger_commit_safe:
  assumes ok: "ledger_ok lg bl t" and acc: "\<And>p n. map_of cs p = Some n \<Longrightarrow>
        (\<forall>off\<in>outstanding t p. n \<le> off) \<and> n - 1 \<in> finished t p"
    and c: "map_of cs p = Some n" "off \<in> fetched_now lg p" "off < n"
  shows "off \<in> handled lg p"
proof -
  have "off \<notin> waiting bl p"
  proof
    assume "off \<in> waiting bl p"
    then have "n - 1 < off" using ledger_okD(8) [OF ok] acc [OF c(1)] by blast
    with c(3) show False by simp
  qed
  then have "off \<in> handled lg p \<union> outstanding t p"
    using ledger_okD(2) [OF ok] c(2) unfolding trk.accounted_def by blast
  then show ?thesis using acc [OF c(1)] c(3) by force
qed

lemma ledger_take:
  assumes ok: "ledger_ok lg bl t" and tk: "take_committable t = (cs, t')"
  shows "ledger_ok lg bl t'" and "ledger_ok (lg @ [Committed cs]) bl t'"
proof -
  have wf: "wf_tracker t" using ok by (simp add: ledger_ok_def)
  show ok': "ledger_ok lg bl t'"
    using ok trk.invar_take [OF wf tk] trk.open_take [OF wf tk] trk.done_take [OF wf tk]
      trk.accounted_take [OF wf _ tk]
    unfolding ledger_ok_def by blast
  have "commits_ok (lg @ [Committed cs])"
    using ok ledger_commit_safe [OF ok trk.take_below [OF wf tk]]
    by (intro commits_ok_snoc) (auto simp: ledger_ok_def)
  moreover have "trk.accounted (\<lambda>p. fetched_now lg p - waiting bl p) (handled (lg @ [Committed cs])) t'"
    using ok' by (intro trk.accounted_handled [OF _ handled_mono]) (simp add: ledger_ok_def)
  ultimately show "ledger_ok (lg @ [Committed cs]) bl t'"
    using ok' by (simp add: ledger_ok_def)
qed

lemma ledger_take_for:
  assumes ok: "ledger_ok lg bl t" and tk: "committable_for ps t = (cs, t')"
  shows "ledger_ok lg bl t'" and "ledger_ok (lg @ [Committed cs]) bl t'"
proof -
  have wf: "wf_tracker t" using ok by (simp add: ledger_ok_def)
  show ok': "ledger_ok lg bl t'"
    using ok trk.invar_take_for [OF wf tk] trk.open_take_for [OF wf tk] trk.done_take_for [OF wf tk]
      trk.accounted_take_for [OF wf _ tk]
    unfolding ledger_ok_def by blast
  have below: "(\<forall>off\<in>outstanding t p. n \<le> off) \<and> n - 1 \<in> finished t p" if "map_of cs p = Some n" for p n
    using trk.take_for_below [OF wf tk that] by blast
  have "commits_ok (lg @ [Committed cs])"
    using ledger_okD(7) [OF ok] ledger_commit_safe [OF ok below] by (intro commits_ok_snoc) auto
  moreover have "trk.accounted (\<lambda>p. fetched_now lg p - waiting bl p) (handled (lg @ [Committed cs])) t'"
    using ok' by (intro trk.accounted_handled [OF _ handled_mono]) (simp add: ledger_ok_def)
  ultimately show "ledger_ok (lg @ [Committed cs]) bl t'"
    using ok' by (simp add: ledger_ok_def)
qed

lemma ledger_forget:
  assumes ok: "ledger_ok lg bl t"
    and bl': "bl' = filter (\<lambda>(tp, msg). tp \<notin> set ps) bl"
  shows "ledger_ok (lg @ [Forgot ps]) bl' (forget ps t)"
proof -
  have wf: "wf_tracker t" using ok by (simp add: ledger_ok_def)
  have acc: "trk.accounted (\<lambda>p. if p \<in> set ps then {} else fetched_now lg p - waiting bl p) (handled lg) (forget ps t)"
    using ok by (intro trk.accounted_drop wf) (simp add: ledger_ok_def)
  have "trk.accounted (\<lambda>p. fetched_now (lg @ [Forgot ps]) p - waiting bl' p) (handled (lg @ [Forgot ps])) (forget ps t)"
    using acc unfolding trk.accounted_def
    by (simp add: bl' waiting_filter handled_snoc split: if_splits) blast
  moreover have "commits_ok (lg @ [Forgot ps])"
    using ok by (intro commits_ok_snoc) (auto simp: ledger_ok_def)
  moreover have "in_order bl'"
    using ok by (simp add: ledger_ok_def in_order_def bl' sorted_wrt_filter)
  ultimately show ?thesis
    using ok wf trk.invar_drop [OF wf]
    by (simp add: ledger_ok_def bl' waiting_filter trk.open_drop trk.done_drop)
qed

lemma ledger_receive:
  assumes ok: "ledger_ok lg bl t" and new: "\<forall>off\<in>fetched_now lg tp. off < m_offset msg"
  shows "ledger_ok (lg @ [Fetched tp (m_offset msg)]) (bl @ [(tp, msg)]) t"
proof -
  have "in_order (bl @ [(tp, msg)])"
    using ok new unfolding ledger_ok_def in_order_def sorted_wrt_append
    by (fastforce simp: waiting_def)
  moreover have "commits_ok (lg @ [Fetched tp (m_offset msg)])"
    using ok by (intro commits_ok_snoc) (auto simp: ledger_ok_def)
  moreover have "trk.accounted (\<lambda>p. fetched_now (lg @ [Fetched tp (m_offset msg)]) p - waiting (bl @ [(tp, msg)]) p)
      (handled (lg @ [Fetched tp (m_offset msg)])) t"
    using ok by (auto simp: ledger_ok_def trk.accounted_def handled_snoc)
  ultimately show ?thesis
    using ok new by (auto simp: ledger_ok_def; blast)
qed

subsection \<open>Every operation keeps the invariant\<close>

lemma record_fields [simp]:
  "c_log (record_completion mo s) = c_log s" "c_log (record_abandonment mo s) = c_log s"
  "c_workers (record_completion mo s) = c_workers s" "c_workers (record_abandonment mo s) = c_workers s"
  "c_assigned (record_completion mo s) = c_assigned s" "c_assigned (record_abandonment mo s) = c_assigned s"
  "c_slots (record_completion mo s) = c_slots s" "c_slots (record_abandonment mo s) = c_slots s"
  "c_shutdown (record_completion mo s) = c_shutdown s" "c_shutdown (record_abandonment mo s) = c_shutdown s"
  by (induction mo arbitrary: s)
     (auto simp: record_completion_def record_abandonment_def split: prod.splits)

lemma effect_fields [simp]:
  "c_log (release_slot s) = c_log s" "c_workers (release_slot s) = c_workers s"
  "c_tracker (release_slot s) = c_tracker s" "c_assigned (release_slot s) = c_assigned s"
  "c_shutdown (release_slot s) = c_shutdown s" "c_slots (release_slot s) = Suc (c_slots s)"
  "c_log (emit e s) = c_log s @ [e]" "c_workers (emit e s) = c_workers s"
  "c_tracker (emit e s) = c_tracker s" "c_assigned (emit e s) = c_assigned s"
  "c_shutdown (emit e s) = c_shutdown s" "c_slots (emit e s) = c_slots s"
  "c_backlog (enter i st s) = c_backlog s" "c_log (enter i st s) = c_log s"
  "c_tracker (enter i st s) = c_tracker s" "c_assigned (enter i st s) = c_assigned s"
  "c_shutdown (enter i st s) = c_shutdown s" "c_slots (enter i st s) = c_slots s"
  "length (c_workers (enter i st s)) = length (c_workers s)"
  by (simp_all add: release_slot_def emit_def enter_def)

lemma ledger_record_completion:
  assumes "ledger_ok lg bl (c_tracker s)" and "\<forall>(tp, n)\<in>set mo. n - 1 \<in> handled lg tp"
  shows "ledger_ok lg bl (c_tracker (record_completion mo s))"
  using assms
proof (induction mo arbitrary: s)
  case Nil
  then show ?case by (simp add: record_completion_def)
next
  case (Cons x mo)
  obtain tp n where x: "x = (tp, n)" by (cases x)
  show ?case
    using Cons.IH [of "s\<lparr>c_tracker := completed (c_tracker s) tp (n - 1)\<rparr>"] Cons.prems
      ledger_complete [of lg bl "c_tracker s" "n - 1" tp]
    by (simp add: x record_completion_def)
qed

lemma ledger_record_abandonment:
  assumes "ledger_ok lg bl (c_tracker s)" and "\<forall>(tp, n)\<in>set mo. n - 1 \<in> handled lg tp"
  shows "ledger_ok lg bl (c_tracker (record_abandonment mo s))"
  using assms
proof (induction mo arbitrary: s)
  case Nil
  then show ?case by (simp add: record_abandonment_def)
next
  case (Cons x mo)
  obtain tp n where x: "x = (tp, n)" by (cases x)
  show ?case
    using Cons.IH [of "s\<lparr>c_tracker := abandoned (c_tracker s) tp (n - 1)\<rparr>"] Cons.prems
      ledger_abandon [of lg bl "c_tracker s" "n - 1" tp]
    by (simp add: x record_abandonment_def)
qed

lemma tasks_emit: "tasks_ok lg ws \<Longrightarrow> tasks_ok (lg @ es) ws"
  by (auto simp: tasks_ok_def handled_append split: prod.splits)

lemma consumer_ok_emit:
  assumes "consumer_ok s" and "note_fetch e = (\<lambda>f. f)" and "\<And>cs. e \<noteq> Committed cs"
  shows "consumer_ok (emit e s)"
  using assms by (simp add: consumer_ok_def ledger_emit tasks_emit)

lemma consumer_ok_completion:
  "consumer_ok s \<Longrightarrow> \<forall>(tp, n)\<in>set mo. n - 1 \<in> handled (c_log s) tp \<Longrightarrow> consumer_ok (record_completion mo s)"
  by (simp add: consumer_ok_def ledger_record_completion)

lemma consumer_ok_abandonment:
  "consumer_ok s \<Longrightarrow> \<forall>(tp, n)\<in>set mo. n - 1 \<in> handled (c_log s) tp \<Longrightarrow> consumer_ok (record_abandonment mo s)"
  by (simp add: consumer_ok_def ledger_record_abandonment)

lemma consumer_ok_release [simp]: "consumer_ok (release_slot s) = consumer_ok s"
  by (simp add: consumer_ok_def)

lemma handled_own:
  "offsets_of e = mo \<Longrightarrow> \<forall>(tp, n)\<in>set mo. n - 1 \<in> handled (lg @ [e]) tp"
  by (auto simp: handled_snoc)

lemma publish_cases:
  obtains (sent) "publish_to_dlq a mo p r s = (True, emit (Dead_lettered mo p r) s)" and "a = Succeeds"
  | (failed) "publish_to_dlq a mo p r s = (False, s)" and "a \<noteq> Succeeds"
  by (cases a) (auto simp: publish_to_dlq_def)

lemma consumer_ok_dlq_and_abandon:
  assumes "consumer_ok s"
  shows "consumer_ok (dlq_and_abandon a p r mo s)"
proof (cases rule: publish_cases [of a mo p r s])
  case sent
  have "consumer_ok (emit (Dead_lettered mo p r) s)"
    using assms by (rule consumer_ok_emit) auto
  then have "consumer_ok (record_abandonment mo (emit (Dead_lettered mo p r) s))"
    by (rule consumer_ok_abandonment) (simp add: handled_own)
  with sent show ?thesis by (simp add: dlq_and_abandon_def)
next
  case failed
  with assms show ?thesis by (simp add: dlq_and_abandon_def)
qed

lemma consumer_ok_enter:
  assumes "consumer_ok s" and "i < length (c_workers s)"
    and "st \<in> {Completing, Abandoning} \<Longrightarrow>
           \<forall>(tp, n)\<in>set (tk_offsets (c_workers s ! i)). n - 1 \<in> handled (c_log s) tp"
  shows "consumer_ok (enter i st s)"
  using assms
  by (auto simp: consumer_ok_def tasks_ok_def enter_def dest!: set_update_subset_insert [THEN subsetD])

lemma consumer_ok_retire:
  "consumer_ok s \<Longrightarrow> consumer_ok (retire_worker i s)"
  by (auto simp: consumer_ok_def tasks_ok_def retire_worker_def dest: in_set_takeD in_set_dropD)

lemma worker_step_ok:
  assumes ok: "consumer_ok s" and i: "i < length (c_workers s)"
  shows "consumer_ok (worker_step ad i answer s)"
proof -
  let ?t = "c_workers s ! i"
  have t: "?t \<in> set (c_workers s)" using i by simp
  have own: "\<forall>(tp, n)\<in>set (tk_offsets ?t). n - 1 \<in> handled (c_log s) tp"
    if "tk_stage ?t \<in> {Completing, Abandoning}"
    using ok t that unfolding consumer_ok_def tasks_ok_def by blast
  have em: "consumer_ok (emit e s)" if "note_fetch e = (\<lambda>f. f)" "\<And>cs. e \<noteq> Committed cs" for e
    using ok that by (rule consumer_ok_emit)
  have dead: "consumer_ok (case publish_to_dlq answer (tk_offsets ?t) p r s of
      (ok, s') \<Rightarrow> enter i (if ok then st else Releasing) s')" for p r st
    by (cases rule: publish_cases [of answer "tk_offsets ?t" p r s])
       (use ok i in \<open>auto intro!: consumer_ok_enter em simp: handled_snoc\<close>)
  show ?thesis
  proof (cases "tk_stage ?t")
    case Forwarding
    then show ?thesis using ok i
      by (auto simp: worker_step_def Let_def handled_snoc
          intro!: consumer_ok_enter em split: outcome.split)
  next
    case Recording_timeout
    then show ?thesis using ok i
      by (auto simp: worker_step_def Let_def intro!: consumer_ok_enter em split: option.split)
  next
    case Publishing_timeout
    then show ?thesis using dead by (simp add: worker_step_def Let_def)
  next
    case (Publishing_failure e)
    then show ?thesis using dead by (simp add: worker_step_def Let_def)
  next
    case Completing
    then show ?thesis using ok i own
      by (simp add: worker_step_def Let_def) (intro consumer_ok_enter consumer_ok_completion, auto)
  next
    case Abandoning
    then show ?thesis using ok i own
      by (simp add: worker_step_def Let_def) (intro consumer_ok_enter consumer_ok_abandonment, auto)
  next
    case Releasing
    then show ?thesis using ok by (simp add: worker_step_def Let_def consumer_ok_retire)
  qed
qed

lemma consumer_ok_pop:
  assumes "consumer_ok s" and "c_backlog s = (tp, msg) # rest"
  shows "consumer_ok (s\<lparr>c_slots := k, c_backlog := rest,
           c_tracker := dispatched (c_tracker s) tp (m_offset msg)\<rparr>)"
  using assms ledger_dispatch by (auto simp: consumer_ok_def)

lemma handle_one_message_ok:
  assumes ok: "consumer_ok (s\<lparr>c_tracker := dispatched (c_tracker s) tp (m_offset msg)\<rparr>)"
  shows "consumer_ok (handle_one_message an tp msg s)"
proof -
  let ?s = "s\<lparr>c_tracker := dispatched (c_tracker s) tp (m_offset msg)\<rparr>"
  let ?mo = "[(tp, m_offset msg + 1)]"
  have dlq: "consumer_ok (dlq_and_abandon a p r ?mo ?s)" for a p r
    using ok by (rule consumer_ok_dlq_and_abandon)
  have skip: "consumer_ok (record_completion ?mo (emit e ?s))"
    if "note_fetch e = (\<lambda>f. f)" "\<And>cs. e \<noteq> Committed cs" "offsets_of e = ?mo" for e
    using that by (intro consumer_ok_completion consumer_ok_emit ok) (auto simp: handled_snoc)
  have poison: "consumer_ok (case publish_to_dlq a ?mo p r ?s of
      (True, s') \<Rightarrow> release_slot (record_completion ?mo s') | (False, s') \<Rightarrow> release_slot s')" for a p r
    by (cases rule: publish_cases [of a ?mo p r ?s]) (use ok in \<open>auto intro!: skip\<close>)
  have sub: "consumer_ok (case submit a b ?mo ?s of (True, s') \<Rightarrow> s'
      | (False, s') \<Rightarrow> release_slot (dlq_and_abandon d p r ?mo s'))" for a b d p r
    using ok dlq by (cases a) (auto simp: submit_def consumer_ok_def tasks_ok_def)
  show ?thesis
    using dlq skip poison sub
    by (simp add: handle_one_message_def Let_def split: sum.split option.split)
qed

lemma dispatch_backlog_ok: "consumer_ok s \<Longrightarrow> consumer_ok (dispatch_backlog env s)"
proof (induction env s rule: dispatch_backlog.induct)
  case (1 env s)
  show ?case
  proof (cases "c_backlog s")
    case Nil
    with "1.prems" show ?thesis by (simp add: dispatch_backlog.simps [of env s])
  next
    case (Cons x rest)
    obtain tp msg where x: "x = (tp, msg)" by (cases x)
    let ?h = "handle_one_message (env tp msg) tp msg (s\<lparr>c_slots := c_slots s - 1, c_backlog := rest\<rparr>)"
    have "consumer_ok ?h"
      using consumer_ok_pop [OF "1.prems", of tp msg rest] Cons x
      by (intro handle_one_message_ok) simp
    with "1.IH" [OF Cons x [symmetric]] "1.prems" Cons x show ?thesis
      by (simp add: dispatch_backlog.simps [of env s])
  qed
qed

lemma client_commit_fields [simp]:
  "c_tracker (client_commit a cs s) = c_tracker s" "c_backlog (client_commit a cs s) = c_backlog s"
  "c_workers (client_commit a cs s) = c_workers s" "c_assigned (client_commit a cs s) = c_assigned s"
  "c_slots (client_commit a cs s) = c_slots s" "c_shutdown (client_commit a cs s) = c_shutdown s"
  by (auto simp: client_commit_def split: outcome.split)

lemma client_commit_log:
  "c_log (client_commit a cs s) = c_log s \<or> c_log (client_commit a cs s) = c_log s @ [Committed cs]"
  by (auto simp: client_commit_def split: outcome.split)

lemma commit_ready_ok:
  assumes ok: "consumer_ok s"
  shows "consumer_ok (commit_ready_offsets a s)"
proof -
  obtain cs t where tk: "take_committable (c_tracker s) = (cs, t)" by fastforce
  have l: "ledger_ok (c_log s) (c_backlog s) t" "ledger_ok (c_log s @ [Committed cs]) (c_backlog s) t"
    using ok ledger_take [OF _ tk] by (auto simp: consumer_ok_def)
  show ?thesis
    using ok l client_commit_log [of a cs "s\<lparr>c_tracker := t\<rparr>"] tasks_emit [of "c_log s"]
    by (auto simp: commit_ready_offsets_def tk Let_def consumer_ok_def)
qed

lemma revoked_ok:
  assumes ok: "consumer_ok s"
  shows "consumer_ok (on_partitions_revoked a ps s)"
proof -
  obtain cs t where tk: "committable_for ps (c_tracker s) = (cs, t)" by fastforce
  let ?bl = "filter (\<lambda>(tp, msg). tp \<notin> set ps) (c_backlog s)"
  have l: "ledger_ok (lg @ [Forgot ps]) ?bl (forget ps t)"
    if "lg = c_log s \<or> lg = c_log s @ [Committed cs]" for lg
    using ok that ledger_take_for [OF _ tk] by (auto simp: consumer_ok_def intro!: ledger_forget [of _ "c_backlog s"])
  have tsk: "tasks_ok (lg @ [Forgot ps]) (c_workers s)"
    if "lg = c_log s \<or> lg = c_log s @ [Committed cs]" for lg
    using ok that tasks_emit [of "c_log s"] tasks_emit [of "c_log s @ [Committed cs]"]
    by (auto simp: consumer_ok_def)
  show ?thesis
    using ok l tsk client_commit_log [of a cs "drop_backlog ps s\<lparr>c_tracker := t\<rparr>"]
    by (auto simp: on_partitions_revoked_def tk Let_def drop_backlog_def consumer_ok_def)
qed

lemma revoked_fields [simp]:
  "c_assigned (on_partitions_revoked a ps s) = c_assigned s"
  "c_workers (on_partitions_revoked a ps s) = c_workers s"
  "c_slots (on_partitions_revoked a ps s) = c_slots s"
  "c_shutdown (on_partitions_revoked a ps s) = c_shutdown s"
  "c_backlog (on_partitions_revoked a ps s) = filter (\<lambda>(tp, msg). tp \<notin> set ps) (c_backlog s)"
  by (auto simp: on_partitions_revoked_def drop_backlog_def Let_def split: prod.split)

lemma assigned_ok:
  assumes ok: "consumer_ok s" and free: "set ps \<inter> fst ` set (c_backlog s) = {}"
  shows "consumer_ok (on_partitions_assigned ps s)"
proof -
  let ?stale = "filter (\<lambda>tp. tp \<in> tracked_partitions (c_tracker s)) ps"
  have bl: "c_backlog s = filter (\<lambda>(tp, msg). tp \<notin> set ?stale) (c_backlog s)"
    using free by (auto intro!: filter_True [symmetric] simp: image_iff disjoint_iff split: prod.splits) force
  have "ledger_ok (c_log s @ [Forgot ?stale]) (c_backlog s) (forget ?stale (c_tracker s))"
    using ok bl by (intro ledger_forget [of _ "c_backlog s"]) (auto simp: consumer_ok_def)
  then show ?thesis
    using ok by (simp add: on_partitions_assigned_def Let_def consumer_ok_def tasks_emit)
qed

lemma rebalance_ok:
  assumes ok: "consumer_ok s" and d: "due r s"
  shows "consumer_ok (rebalance_step r s)"
proof (cases r)
  case (Revoke a ps)
  have "fst ` set (filter (\<lambda>(tp, msg). tp \<notin> set ps) (c_backlog s)) \<subseteq> c_assigned s - set ps"
    using ok by (auto simp: consumer_ok_def)
  then show ?thesis
    using revoked_ok [OF ok, of a ps] Revoke by (simp add: consumer_ok_def Let_def)
next
  case (Assign ps)
  have "consumer_ok (on_partitions_assigned ps (s\<lparr>c_assigned := c_assigned s \<union> set ps\<rparr>))"
    using ok d Assign by (intro assigned_ok) (auto simp: consumer_ok_def)
  with Assign show ?thesis by simp
qed

lemma receive_ok:
  assumes "consumer_ok s" and "deliverable tp msg s"
  shows "consumer_ok (receive (tp, msg) s)"
  using assms ledger_receive
  by (auto simp: receive_def deliverable_def consumer_ok_def tasks_emit)

lemma drain_ok: "consumer_ok s \<Longrightarrow> consumer_ok (drain_and_commit a cancelled s)"
  unfolding drain_and_commit_def
  by (intro commit_ready_ok)
     (auto simp: consumer_ok_def tasks_ok_def dest!: set_nths_subset [THEN subsetD])

lemma consumer_ok_start: "consumer_ok (start_consumer n)"
  by (simp add: consumer_ok_def start_consumer_def ledger_ok_def trk.accounted_def outstanding_def
      finished_def empty_tracker_def in_order_def commits_ok_def tasks_ok_def wf_tracker_def)

lemma fetching_ok: "consumer_ok s \<Longrightarrow> consumer_ok (set_fetching active s)"
  by (simp add: set_fetching_def consumer_ok_def)

lemma shutdown_ok: "consumer_ok s \<Longrightarrow> consumer_ok (request_shutdown s)"
  by (simp add: request_shutdown_def consumer_ok_def)

lemmas operations_ok = commit_ready_ok dispatch_backlog_ok rebalance_ok receive_ok worker_step_ok
  drain_ok fetching_ok shutdown_ok

lemma step_ok: "step ad s s' \<Longrightarrow> consumer_ok s \<Longrightarrow> consumer_ok s'"
  by (erule stepE) (simp_all only: operations_ok)

lemma reachable_ok: "reachable ad n s \<Longrightarrow> consumer_ok s"
  by (induction rule: reachable.induct) (auto intro: consumer_ok_start step_ok)

subsection \<open>Slots\<close>

lemma slots_dlq [simp]:
  "c_slots (dlq_and_abandon a p r mo s) = c_slots s"
  "c_workers (dlq_and_abandon a p r mo s) = c_workers s"
  "c_shutdown (dlq_and_abandon a p r mo s) = c_shutdown s"
  by (auto simp: dlq_and_abandon_def publish_to_dlq_def split: outcome.split)

lemma slots_handle:
  "c_slots (handle_one_message an tp msg s) + length (c_workers (handle_one_message an tp msg s)) =
     Suc (c_slots s + length (c_workers s))"
  "c_shutdown (handle_one_message an tp msg s) = c_shutdown s"
  by (auto simp: handle_one_message_def Let_def publish_to_dlq_def submit_def
      split: sum.split outcome.split option.split)

lemma slots_dispatch:
  "slots_ok n s \<Longrightarrow> slots_ok n (dispatch_backlog env s)"
proof (induction env s rule: dispatch_backlog.induct)
  case (1 env s)
  show ?case
  proof (cases "c_backlog s = [] \<or> c_shutdown s \<or> c_slots s = 0")
    case True
    with "1.prems" show ?thesis
      by (auto simp: dispatch_backlog.simps [of env s] split: list.split)
  next
    case False
    then obtain tp msg rest where bl: "c_backlog s = (tp, msg) # rest" by (cases "c_backlog s") auto
    have "slots_ok n (handle_one_message (env tp msg) tp msg (s\<lparr>c_slots := c_slots s - 1, c_backlog := rest\<rparr>))"
      using "1.prems" False slots_handle [of "env tp msg" tp msg "s\<lparr>c_slots := c_slots s - 1, c_backlog := rest\<rparr>"]
      by (auto simp: slots_ok_def)
    with "1.IH" [OF bl refl] False bl show ?thesis
      by (simp add: dispatch_backlog.simps [of env s])
  qed
qed

lemma slots_worker:
  assumes "slots_ok n s" and "i < length (c_workers s)"
  shows "slots_ok n (worker_step ad i a s)"
  using assms
  by (auto simp: worker_step_def Let_def slots_ok_def publish_to_dlq_def retire_worker_def
      split: stage.split outcome.split option.split)

lemma slots_commit: "slots_ok n s \<Longrightarrow> slots_ok n (commit_ready_offsets a s)"
  by (auto simp: commit_ready_offsets_def slots_ok_def Let_def split: prod.split)

lemma slots_rebalance: "slots_ok n s \<Longrightarrow> slots_ok n (rebalance_step r s)"
  by (cases r) (auto simp: slots_ok_def Let_def on_partitions_assigned_def)

lemma length_nths_le: "length (nths xs A) \<le> length xs"
proof -
  have "card {i. i < length xs \<and> i \<in> A} \<le> card {..<length xs}" by (intro card_mono) auto
  then show ?thesis by (simp add: length_nths)
qed

lemma slots_drain: "slots_ok n s \<Longrightarrow> c_shutdown s \<Longrightarrow> slots_ok n (drain_and_commit a cancelled s)"
  unfolding drain_and_commit_def
  by (intro slots_commit) (use length_nths_le [of "c_workers s" "- set cancelled"] in \<open>simp add: slots_ok_def\<close>)

lemma slots_other:
  "slots_ok n s \<Longrightarrow> slots_ok n (set_fetching active s)"
  "slots_ok n s \<Longrightarrow> slots_ok n (receive r s)"
  "slots_ok n s \<Longrightarrow> slots_ok n (request_shutdown s)"
  by (auto simp: slots_ok_def set_fetching_def receive_def request_shutdown_def split: prod.split)

lemmas operations_slots = slots_commit slots_dispatch slots_worker slots_rebalance slots_drain slots_other

lemma slots_start: "slots_ok n (start_consumer n)"
  by (simp add: slots_ok_def start_consumer_def)

lemma step_slots: "step ad s s' \<Longrightarrow> slots_ok n s \<Longrightarrow> slots_ok n s'"
  by (erule stepE) (simp_all only: operations_slots)

lemma reachable_slots: "reachable ad n s \<Longrightarrow> slots_ok n s"
  by (induction rule: reachable.induct)
     (auto intro: step_slots slots_start)

subsection \<open>Progress of the dispatch loop\<close>

lemma dispatch_backlog_stops:
  "c_backlog (dispatch_backlog env s) = [] \<or> c_slots (dispatch_backlog env s) = 0 \<or>
   c_shutdown (dispatch_backlog env s)"
proof (induction env s rule: dispatch_backlog.induct)
  case (1 env s)
  show ?case
  proof (cases "c_backlog s = [] \<or> c_shutdown s \<or> c_slots s = 0")
    case True
    then show ?thesis by (auto simp: dispatch_backlog.simps [of env s] split: list.split)
  next
    case False
    then obtain tp msg rest where bl: "c_backlog s = (tp, msg) # rest" by (cases "c_backlog s") auto
    with "1.IH" [OF bl refl] False show ?thesis
      by (simp add: dispatch_backlog.simps [of env s])
  qed
qed

text \<open>A cycle of the poll loop is a run of the step relation.\<close>

fun deliverable_all :: "('tp \<times> message) list \<Rightarrow> 'tp consumer \<Rightarrow> bool" where
  "deliverable_all [] s = True"
| "deliverable_all (r # rs) s = (deliverable (fst r) (snd r) s \<and> deliverable_all rs (receive r s))"

fun due_all :: "'tp rebalance list \<Rightarrow> 'tp consumer \<Rightarrow> bool" where
  "due_all [] s = True"
| "due_all (r # rs) s = (due r s \<and> due_all rs (rebalance_step r s))"

definition poll_input_ok :: "'tp cycle \<Rightarrow> 'tp consumer \<Rightarrow> bool" where
  "poll_input_ok cy s0 =
     (let s2 = dispatch_backlog (cy_first cy) (commit_ready_offsets (cy_commit cy) s0);
          s3 = set_fetching (c_backlog s2 = []) s2
      in due_all (cy_rebalances cy) s3 \<and>
         deliverable_all (cy_records cy) (fold rebalance_step (cy_rebalances cy) s3))"

lemma reachable_receives:
  "reachable ad n s \<Longrightarrow> deliverable_all rs s \<Longrightarrow> reachable ad n (fold receive rs s)"
proof (induction rs arbitrary: s)
  case Nil
  then show ?case by simp
next
  case (Cons r rs)
  then have "reachable ad n (receive r s)"
    using step_receive [of "fst r" "snd r" s ad] by (auto intro: reachable_step)
  with Cons show ?case by simp
qed

lemma reachable_rebalances:
  "reachable ad n s \<Longrightarrow> due_all rs s \<Longrightarrow> reachable ad n (fold rebalance_step rs s)"
  by (induction rs arbitrary: s) (auto intro: reachable_step step_rebalance)

lemma reachable_poll_once:
  assumes "reachable ad n s" and "poll_input_ok cy s"
  shows "reachable ad n (poll_once cy s)"
  using assms unfolding poll_once_def poll_input_ok_def Let_def
  by (intro reachable_step [OF _ step_dispatch] reachable_receives reachable_rebalances
      reachable_step [OF _ step_fetching] reachable_step [OF _ step_commit]) auto


text \<open>The state a finished worker leaves, and the terminal casebook a timeout may have stored.\<close>

definition after_worker :: "nat \<Rightarrow> 'tp tracker \<Rightarrow> 'tp event list \<Rightarrow> 'tp consumer \<Rightarrow> 'tp consumer" where
  "after_worker i t es s =
     s\<lparr>c_tracker := t, c_slots := Suc (c_slots s), c_log := c_log s @ es,
       c_workers := take i (c_workers s) @ drop (Suc i) (c_workers s)\<rparr>"

definition timeout_saved :: "adapter \<Rightarrow> doc \<Rightarrow> outcome \<Rightarrow> 'tp event list" where
  "timeout_saved ad p answer =
     (case ad_identity_of ad p of
        None \<Rightarrow> []
      | Some event_id \<Rightarrow> if event_id = [] \<or> answer \<noteq> Succeeds then []
                         else [Saved_terminal event_id (ad_timeout_casebook ad p)])"


section \<open>Properties\<close>

text \<open>C1. No committed offset ever passes a message that was not dealt with: whatever the
  interleaving of workers, polls, rebalances, failures and the shutdown drain, every record fetched
  from a partition since it was last given up, and lying below an offset committed for it, had by
  then been accepted by the internal endpoint, skipped, or stored in the dead-letter topic.\<close>

theorem commits_pass_only_handled:
  assumes "reachable ad n s" and "c_log s = pre @ Committed cs # post"
    and "map_of cs p = Some next" and "off \<in> fetched_now pre p" and "off < next"
  shows "off \<in> handled pre p"
proof -
  have "commits_ok (c_log s)"
    using reachable_ok [OF assms(1)] by (simp add: consumer_ok_def ledger_ok_def)
  with assms(2-5) show ?thesis unfolding commits_ok_def by blast
qed

theorem commits_pass_only_handled_witness:
  "\<exists>(ad :: adapter) (s :: nat consumer) pre cs.
     reachable ad 2 s \<and> c_log s = pre @ Committed cs # [] \<and> map_of cs 0 = Some 12 \<and>
     fetched_now pre 0 = {10, 11} \<and> 10 \<in> handled pre 0 \<and> 11 \<in> handled pre 0"
proof -
  let ?ad = "\<lparr>ad_identity_of = (\<lambda>_. None), ad_timeout_casebook = (\<lambda>d. d)\<rparr>"
  let ?an = "\<lparr>an_parse = Inr \<lparr>pr_body = Some [], pr_raw_text = None, pr_error = None\<rparr>,
      an_skip = (\<lambda>_. Inr None), an_submit = Succeeds, an_dlq = Succeeds\<rparr>"
  let ?s0 = "rebalance_step (Assign [0]) (start_consumer 2) :: nat consumer"
  let ?s1 = "receive (0, \<lparr>m_offset = 10, m_value = []\<rparr>) ?s0"
  let ?s2 = "receive (0, \<lparr>m_offset = 11, m_value = []\<rparr>) ?s1"
  let ?s3 = "dispatch_backlog (\<lambda>tp msg. ?an) ?s2"
  let ?w = "\<lambda>i s. worker_step ?ad i Succeeds s"
  let ?s4 = "?w 1 (?w 1 (?w 1 ?s3))"
  let ?s5 = "commit_ready_offsets Succeeds ?s4"
  let ?s6 = "?w 0 (?w 0 (?w 0 ?s5))"
  let ?s7 = "commit_ready_offsets Succeeds ?s6"
  let ?mo = "\<lambda>k. [(0 :: nat, k :: int)]"
  have r0: "reachable ?ad 2 ?s0"
    by (rule reachable_step [OF reachable_start step_rebalance]) (simp add: start_consumer_def)
  have r1: "reachable ?ad 2 ?s1"
    by (rule reachable_step [OF r0 step_receive]) code_simp
  have r2: "reachable ?ad 2 ?s2"
    by (rule reachable_step [OF r1 step_receive]) code_simp
  have r3: "reachable ?ad 2 ?s3" by (rule reachable_step [OF r2 step_dispatch])
  have l: "1 < length (c_workers ?s3)" "1 < length (c_workers (?w 1 ?s3))"
    "1 < length (c_workers (?w 1 (?w 1 ?s3)))" by code_simp+
  have r4: "reachable ?ad 2 ?s4"
    by (intro reachable_step [OF _ step_worker] l r3)
  have r5: "reachable ?ad 2 ?s5" by (rule reachable_step [OF r4 step_commit])
  have l': "0 < length (c_workers ?s5)" "0 < length (c_workers (?w 0 ?s5))"
    "0 < length (c_workers (?w 0 (?w 0 ?s5)))" by code_simp+
  have r6: "reachable ?ad 2 ?s6"
    by (intro reachable_step [OF _ step_worker] l' r5)
  have r7: "reachable ?ad 2 ?s7" by (rule reachable_step [OF r6 step_commit])
  let ?pre = "[Fetched 0 10, Fetched 0 11, Forwarded (?mo 12), Forwarded (?mo 11)]"
  have lg: "c_log ?s7 = ?pre @ Committed [(0, 12)] # []" by code_simp
  have f: "fetched_now ?pre 0 = {10, 11}" by (simp add: fetched_now_def insert_commute)
  have "10 \<in> handled ?pre 0" "11 \<in> handled ?pre 0"
    by (rule commits_pass_only_handled [OF r7 lg, of 0 12]; simp add: f)+
  with r7 lg f show ?thesis
    by (intro exI [of _ ?ad] exI [of _ ?s7] exI [of _ ?pre] exI [of _ "[(0, 12)]"]) simp
qed

text \<open>The semaphore bounds the work in progress exactly: free slots and running workers always
  add up to the configured maximum (after a shutdown, cancelled tasks give their slot to nobody).\<close>

theorem concurrency_bound:
  assumes "reachable ad n s"
  shows "length (c_workers s) \<le> n \<and> c_slots s + length (c_workers s) \<le> n \<and>
         (\<not> c_shutdown s \<longrightarrow> c_slots s + length (c_workers s) = n)"
  using reachable_slots [OF assms] by (simp add: slots_ok_def)

theorem concurrency_bound_witness:
  "\<exists>(ad :: adapter) (s :: nat consumer). reachable ad 2 s \<and> c_slots s + length (c_workers s) = 2"
proof -
  let ?ad = "\<lparr>ad_identity_of = (\<lambda>_. None), ad_timeout_casebook = (\<lambda>d. d)\<rparr>"
  have r: "reachable ?ad 2 (start_consumer 2 :: nat consumer)" by (rule reachable_start)
  have "\<not> c_shutdown (start_consumer 2 :: nat consumer)" by (simp add: start_consumer_def)
  with concurrency_bound [OF r] r show ?thesis by blast
qed

text \<open>Backpressure: after a cycle has dispatched what it can, either nothing is waiting and every
  partition is fetched from, or no slot is free (or the consumer is shutting down) and the client
  may deliver no record of any partition until something is dispatched.\<close>

theorem backpressure:
  "let s2 = dispatch_backlog env s; s3 = set_fetching (c_backlog s2 = []) s2
   in if c_backlog s3 = [] then c_paused s3 = {}
      else (c_slots s3 = 0 \<or> c_shutdown s3) \<and> (\<forall>tp msg. \<not> deliverable tp msg s3)"
  using dispatch_backlog_stops [of env s]
  by (auto simp: Let_def set_fetching_def deliverable_def)

text \<open>What a worker does with its message on every path of the call to the internal endpoint, run
  without interruption: an accepted message completes; a timeout or failure completes or abandons
  its offset only after the dead-letter topic has the message, and otherwise leaves the tracker, and
  with it the commit floor, untouched. The slot is given back on all five paths.\<close>

theorem worker_outcomes:
  assumes "i < length (c_workers s)"
    and "c_workers s ! i = \<lparr>tk_payload = p, tk_offsets = [(tp, off + 1)], tk_stage = Forwarding\<rparr>"
  shows "fold (worker_step ad i) [Succeeds, a, b] s =
      after_worker i (completed (c_tracker s) tp off) [Forwarded [(tp, off + 1)]] s \<and>
    fold (worker_step ad i) [Times_out, sv, Succeeds, a, b] s =
      after_worker i (completed (c_tracker s) tp off)
        (timeout_saved ad p sv @ [Dead_lettered [(tp, off + 1)] (Body p) Pipeline_timed_out]) s \<and>
    fold (worker_step ad i) [Times_out, sv, Raises e, a] s =
      after_worker i (c_tracker s) (timeout_saved ad p sv) s \<and>
    fold (worker_step ad i) [Raises e, Succeeds, a, b] s =
      after_worker i (abandoned (c_tracker s) tp off)
        [Dead_lettered [(tp, off + 1)] (Body p) (Forwarding_failed e)] s \<and>
    fold (worker_step ad i) [Raises e, Raises e', a] s = after_worker i (c_tracker s) [] s"
  using assms
  by (intro conjI)
     (auto simp: worker_step_def Let_def after_worker_def timeout_saved_def enter_def emit_def
      release_slot_def retire_worker_def publish_to_dlq_def record_completion_def
      record_abandonment_def split: option.split)

theorem worker_outcomes_witness:
  "let s = (start_consumer 0)\<lparr>c_tracker := dispatched empty_tracker (0::nat) 10,
             c_workers := [\<lparr>tk_payload = [], tk_offsets = [(0, 10 + 1)], tk_stage = Forwarding\<rparr>]\<rparr>;
       ad = \<lparr>ad_identity_of = (\<lambda>_. None), ad_timeout_casebook = (\<lambda>d. d)\<rparr>
   in fold (worker_step ad 0) [Raises OSError, Raises RuntimeError, Succeeds] s =
        after_worker 0 (dispatched empty_tracker 0 10) [] s \<and>
      fold (worker_step ad 0) [Raises OSError, Succeeds, Succeeds, Succeeds] s =
        after_worker 0 (abandoned (dispatched empty_tracker 0 10) 0 10)
          [Dead_lettered [(0, 10 + 1)] (Body []) (Forwarding_failed OSError)] s"
proof -
  let ?s = "(start_consumer 0)\<lparr>c_tracker := dispatched empty_tracker (0::nat) 10,
             c_workers := [\<lparr>tk_payload = [], tk_offsets = [(0, 10 + 1)], tk_stage = Forwarding\<rparr>]\<rparr>"
  have h: "0 < length (c_workers ?s)"
    "c_workers ?s ! 0 = \<lparr>tk_payload = [], tk_offsets = [(0, 10 + 1)], tk_stage = Forwarding\<rparr>"
    by simp_all
  have t: "c_tracker ?s = dispatched empty_tracker 0 10" by simp
  show ?thesis unfolding Let_def using worker_outcomes [OF h] unfolding t by blast
qed

end
