(* ===== verification/Storage.thy ===== *)
theory Storage
  imports Prelude
begin

text \<open>
  The casebook storage interface: \<^verbatim>\<open>src/storage/base.py\<close>, and the operations both backends
  (\<^verbatim>\<open>local.py\<close>, \<^verbatim>\<open>s3.py\<close>) write out alike on top of \<^verbatim>\<open>save\<close> and \<^verbatim>\<open>load\<close>.

  A backend is a record of operations in the exception/state monad. The locale \<open>casebook_storage\<close>
  states what its clients (claims, groups, parked cases, outcomes) rely on, over an abstract view of
  the stored documents: \<open>view s e f\<close> is the document readable under event \<open>e\<close> and file name \<open>f\<close>,
  \<open>taken s e f\<close> says whether that name is in use at all. Both backends are instances.
\<close>

section \<open>Constants\<close>

definition CASEBOOK_SCHEMA_VERSION :: string where
  "CASEBOOK_SCHEMA_VERSION = ''1.3''"

definition OUTCOME_VERDICTS :: "string list" where
  "OUTCOME_VERDICTS = [''CORRECT'', ''INCORRECT'', ''PARTIAL'']"

definition TERMINAL_STATUSES :: "string list" where
  "TERMINAL_STATUSES =
     [''COMPLETED'', ''REJECTED'', ''NEEDS_MANUAL_REVIEW'', ''FAILED_PERMANENT'', ''DLQ'',
      ''FAILED_TIMEOUT'', ''FAILED_SYNTHESIS_PARSE'', ''FAILED_SHUTDOWN'']"

definition PROTECTED_TERMINAL_STATUSES :: "string list" where
  "PROTECTED_TERMINAL_STATUSES = [''FAILED_TIMEOUT'', ''DLQ'']"

definition REDELIVERABLE_TERMINAL_STATUSES :: "string list" where
  "REDELIVERABLE_TERMINAL_STATUSES = [''FAILED_SHUTDOWN'']"

definition LOGS_FETCHED_STATUS :: string where
  "LOGS_FETCHED_STATUS = ''LOGS_FETCHED''"

text \<open>\<^verbatim>\<open>value in STATUSES\<close> for a value read from a document.\<close>

definition status_in :: "json \<Rightarrow> string list \<Rightarrow> bool" where
  "status_in v xs = (case v of JStr t \<Rightarrow> t \<in> set xs | _ \<Rightarrow> False)"


section \<open>The interface\<close>

text \<open>
  A document, a text artifact, or what a failed write leaves. Documents and artifacts have names of
  their own: reading one as the other finds nothing here.
\<close>

datatype content = Json doc | Text string | Partial

record 's storage =
  st_save :: "string \<Rightarrow> doc \<Rightarrow> string \<Rightarrow> ('s, unit) io"
  st_load :: "string \<Rightarrow> string \<Rightarrow> ('s, doc option) io"
  st_exists :: "string \<Rightarrow> bool \<Rightarrow> string \<Rightarrow> ('s, bool) io"
  st_update_json :: "string \<Rightarrow> string \<Rightarrow> (doc option \<Rightarrow> exn + doc) \<Rightarrow> ('s, doc) io"
  st_create_json :: "string \<Rightarrow> string \<Rightarrow> doc \<Rightarrow> ('s, bool) io"
  st_list_json :: "string \<Rightarrow> string \<Rightarrow> ('s, string list) io"
  st_list_events :: "('s, string list) io"

text \<open>\<^verbatim>\<open>(d.get(key) or {}).get(sub)\<close>: a value that is neither empty nor a dict has no \<^verbatim>\<open>get\<close>.\<close>

definition sub_get :: "doc \<Rightarrow> string \<Rightarrow> string \<Rightarrow> exn + json" where
  "sub_get d key sub =
     (case py_or (jget d key) (JObj []) of JObj m \<Rightarrow> Inr (jget m sub) | _ \<Rightarrow> Inl AttributeError)"

definition of_result :: "exn + 'a \<Rightarrow> ('s, 'a) io" where
  "of_result r = (case r of Inl e \<Rightarrow> raise e | Inr a \<Rightarrow> ret a)"

text \<open>The stamps of a write: the schema version on all of them, the time on \<^verbatim>\<open>save\<close>.\<close>

definition stamp_version :: "doc \<Rightarrow> doc" where
  "stamp_version d =
     (if map_of d ''schema_version'' = None
      then jset ''schema_version'' (JStr CASEBOOK_SCHEMA_VERSION) d else d)"

definition stamp_saved :: "string \<Rightarrow> doc \<Rightarrow> exn + doc" where
  "stamp_saved now d0 =
     (let d = stamp_version d0
      in case jget_default d ''casebook_metadata'' (JObj []) of
           JObj meta \<Rightarrow>
             Inr (jset ''casebook_metadata'' (JObj (jset ''last_updated'' (JStr now) meta)) d)
         | _ \<Rightarrow> Inl TypeError)"

text \<open>\<^verbatim>\<open>save_terminal\<close>: \<^verbatim>\<open>casebook.json\<close> first, then \<^verbatim>\<open>status.json\<close>.\<close>

definition save_terminal :: "'s storage \<Rightarrow> string \<Rightarrow> doc \<Rightarrow> ('s, unit) io" where
  "save_terminal sto event_id casebook =
     bindM (st_save sto event_id casebook ''casebook.json'') (\<lambda>_.
     bindM (of_result (sub_get casebook ''packet_status'' ''status'')) (\<lambda>status.
     bindM (of_result (sub_get casebook ''resolution'' ''synthesis'')) (\<lambda>synthesis.
       st_save sto event_id
         [(''packet_metadata'', JObj [(''eid'', JStr event_id)]),
          (''packet_status'', JObj [(''status'', status)]),
          (''resolution'', JObj [(''synthesis'', synthesis)])] ''status.json'')))"

fun terminal_status :: "'s storage \<Rightarrow> string \<Rightarrow> string list \<Rightarrow> ('s, string option) io" where
  "terminal_status sto event_id [] = ret None"
| "terminal_status sto event_id (filename # rest) =
     bindM (st_load sto event_id filename) (\<lambda>data.
       case data of
         None \<Rightarrow> terminal_status sto event_id rest
       | Some d \<Rightarrow>
           if d = [] then terminal_status sto event_id rest
           else bindM (of_result (sub_get d ''packet_status'' ''status'')) (\<lambda>status.
                  if status_in status TERMINAL_STATUSES then ret (json_str status)
                  else terminal_status sto event_id rest))"

definition status_files :: "string list" where
  "status_files = [''status.json'', ''casebook.json'']"


section \<open>The contract\<close>

text \<open>A write changes no field of the document but the two it stamps.\<close>

definition same_fields :: "doc \<Rightarrow> doc \<Rightarrow> bool" where
  "same_fields d d' \<longleftrightarrow>
     (\<forall>k. k \<noteq> ''schema_version'' \<longrightarrow> k \<noteq> ''casebook_metadata'' \<longrightarrow> map_of d' k = map_of d k)"

lemma same_fields_stamp: "same_fields d (stamp_version d)"
  by (simp add: same_fields_def stamp_version_def)

lemma same_fields_saved: "stamp_saved now d = Inr d' \<Longrightarrow> same_fields d d'"
  by (auto simp: same_fields_def stamp_saved_def stamp_version_def Let_def split: json.splits if_splits)

lemma same_fields_jget:
  "same_fields d d' \<Longrightarrow> k \<noteq> ''schema_version'' \<Longrightarrow> k \<noteq> ''casebook_metadata'' \<Longrightarrow> jget d' k = jget d k"
  by (simp add: same_fields_def jget_def)

lemma stamp_version_jget:
  "k \<noteq> ''schema_version'' \<Longrightarrow> jget (stamp_version d) k = jget d k"
  by (simp add: stamp_version_def)

lemma stamp_version_not_Nil [simp]: "stamp_version d \<noteq> []"
  by (cases d) (auto simp: stamp_version_def)

lemma stamp_saved_not_Nil: "stamp_saved now d = Inr d' \<Longrightarrow> d' \<noteq> []"
  by (auto simp: stamp_saved_def Let_def split: json.splits)

lemma of_result_pure: "of_result r s = (x, t) \<Longrightarrow> t = s"
  by (auto simp: of_result_def split: sum.splits)

lemma of_result_Inr [simp]: "of_result (Inr a) = ret a"
  by (simp add: of_result_def)

lemma of_result_Inl [simp]: "of_result (Inl e) = raise e"
  by (simp add: of_result_def)

lemma pureM_of_result [simp, intro]: "pureM (of_result r)"
  by (cases r) simp_all

text \<open>Asking for a terminal status writes nothing where loading does not.\<close>

lemma terminal_status_pure:
  assumes "\<And>f. pureM (st_load sto e f)"
  shows "pureM (terminal_status sto e fs)"
proof (induction fs)
  case Nil
  show ?case by simp
next
  case (Cons f fs)
  then show ?case using assms by (auto intro!: pureM_bindM split: option.split)
qed

locale casebook_storage =
  fixes sto :: "'s storage"
    and view :: "'s \<Rightarrow> string \<Rightarrow> string \<Rightarrow> doc option"
    and taken :: "'s \<Rightarrow> string \<Rightarrow> string \<Rightarrow> bool"
    and key_ok :: "string \<Rightarrow> string \<Rightarrow> bool"
  assumes view_taken: "view s e f \<noteq> None \<Longrightarrow> taken s e f"
    and load_pure: "pureM (st_load sto e f)"
    and list_pure: "pureM (st_list_events sto)"
    and load_view: "key_ok e f \<Longrightarrow> st_load sto e f s = (Inr (Some d), t) \<Longrightarrow> view s e f = Some d"
    and create_won: "key_ok e f \<Longrightarrow> st_create_json sto e f d s = (Inr True, t) \<Longrightarrow>
          \<not> taken s e f \<and> view t e f = Some (stamp_version d)"
    and create_lost: "key_ok e f \<Longrightarrow> st_create_json sto e f d s = (Inr False, t) \<Longrightarrow> taken s e f"
    and create_keeps: "key_ok e f \<Longrightarrow> key_ok e' f' \<Longrightarrow> st_create_json sto e f d s = (rc, t) \<Longrightarrow>
          (e', f') \<noteq> (e, f) \<or> taken s e' f' \<Longrightarrow>
          view t e' f' = view s e' f' \<and> taken t e' f' = taken s e' f'"
    and save_done: "key_ok e f \<Longrightarrow> st_save sto e d f s = (Inr u, t) \<Longrightarrow>
          \<exists>d'. same_fields d d' \<and> view t e f = Some d'"
    and save_failed: "key_ok e f \<Longrightarrow> st_save sto e d f s = (Inl x, t) \<Longrightarrow>
          view t e f = view s e f \<and> taken t e f = taken s e f"
    and save_frame: "key_ok e f \<Longrightarrow> key_ok e' f' \<Longrightarrow> st_save sto e d f s = (rs, t) \<Longrightarrow>
          (e', f') \<noteq> (e, f) \<Longrightarrow> view t e' f' = view s e' f' \<and> taken t e' f' = taken s e' f'"
begin

lemma create_result:
  assumes "key_ok e f" and "st_create_json sto e f d s = (Inr b, t)"
  shows "b = (\<not> taken s e f)"
  using create_won [OF assms(1), of d s t] create_lost [OF assms(1), of d s t] assms(2) by (cases b) auto

lemma create_taken:
  assumes "key_ok e f" and "st_create_json sto e f d s = (Inr b, t)"
  shows "taken t e f"
proof (cases b)
  case True
  then have "view t e f = Some (stamp_version d)" using create_won [OF assms(1), of d s t] assms by simp
  then show ?thesis using view_taken by fastforce
next
  case False
  then have "taken s e f" using create_lost [OF assms(1), of d s t] assms by simp
  then show ?thesis using create_keeps [OF assms(1,1,2)] by blast
qed

lemma save_taken:
  assumes "key_ok e f" and "st_save sto e d f s = (r, t)" and "taken s e f"
  shows "taken t e f"
proof (cases r)
  case (Inl x)
  then show ?thesis using save_failed assms by blast
next
  case (Inr u)
  then obtain d' where "view t e f = Some d'" using save_done assms by blast
  then show ?thesis using view_taken by fastforce
qed

text \<open>A second create of a name that is in use never wins and never changes the document.\<close>

lemma create_once:
  assumes "key_ok e f" and "taken s e f" and "st_create_json sto e f d s = (r, t)"
  shows "r \<noteq> Inr True \<and> view t e f = view s e f"
  using assms create_won create_keeps [OF assms(1,1,3)] by blast

text \<open>
  A terminal outcome is recorded in both files or the status file is left alone: a process that dies
  half way never leaves a terminal \<^verbatim>\<open>status.json\<close> without the casebook behind it.
\<close>

lemma save_terminal_both:
  assumes k: "key_ok e ''casebook.json''" "key_ok e ''status.json''"
    and sv: "save_terminal sto e cb s = (Inr u, t)" and st: "sub_get cb ''packet_status'' ''status'' = Inr st"
  shows "\<exists>c d. view t e ''casebook.json'' = Some c \<and> same_fields cb c \<and>
     view t e ''status.json'' = Some d \<and> d \<noteq> [] \<and> sub_get d ''packet_status'' ''status'' = Inr st"
proof -
  obtain s1 syn where a: "st_save sto e cb ''casebook.json'' s = (Inr (), s1)"
    and b: "st_save sto e [(''packet_metadata'', JObj [(''eid'', JStr e)]),
          (''packet_status'', JObj [(''status'', st)]),
          (''resolution'', JObj [(''synthesis'', syn)])] ''status.json'' s1 = (Inr (), t)"
    using sv st unfolding save_terminal_def
    by (auto elim!: bindM_InrE simp: of_result_def split: sum.splits)
  obtain c where c: "view s1 e ''casebook.json'' = Some c" "same_fields cb c"
    using save_done [OF k(1) a] by blast
  obtain d where d: "view t e ''status.json'' = Some d"
    and same: "same_fields [(''packet_metadata'', JObj [(''eid'', JStr e)]),
          (''packet_status'', JObj [(''status'', st)]),
          (''resolution'', JObj [(''synthesis'', syn)])] d"
    using save_done [OF k(2) b] by blast
  have "map_of d ''packet_status'' = Some (JObj [(''status'', st)])"
    using same by (simp add: same_fields_def)
  then have "d \<noteq> []" and "sub_get d ''packet_status'' ''status'' = Inr st"
    by (auto simp: sub_get_def jget_def py_or_def)
  moreover have "view t e ''casebook.json'' = Some c"
    using save_frame [OF k(2,1) b] c by simp
  ultimately show ?thesis using c d by blast
qed

lemma save_terminal_order:
  assumes k: "key_ok e ''casebook.json''" "key_ok e ''status.json''"
    and sv: "save_terminal sto e cb s = (Inl x, t)"
  shows "view t e ''status.json'' = view s e ''status.json''"
proof -
  from sv [unfolded save_terminal_def] show ?thesis
  proof (cases rule: bindM_cases)
    case (exn x)
    then show ?thesis using save_frame [OF k exn(1)] by simp
  next
    case (val u s1)
    have same: "view s1 e ''status.json'' = view s e ''status.json''"
      using save_frame [OF k val(1)] by simp
    show ?thesis
    proof (cases "sub_get cb ''packet_status'' ''status''")
      case (Inl y)
      then show ?thesis using val same by auto
    next
      case (Inr st)
      then show ?thesis
        using val same save_failed [OF k(2)]
        by (cases "sub_get cb ''resolution'' ''synthesis''") auto
    qed
  qed
qed

end

text \<open>
  A backend whose read-modify-write is atomic: \<open>update_json\<close> stores what \<open>mutate\<close> makes of the
  current document, or stores nothing and raises.
\<close>

locale atomic_storage = casebook_storage sto view taken key_ok
  for sto :: "'s storage" and view taken key_ok +
  assumes update_done: "key_ok e f \<Longrightarrow> st_update_json sto e f m s = (Inr d, t) \<Longrightarrow>
          \<exists>d0. m (view s e f) = Inr d0 \<and> d = stamp_version d0 \<and> view t e f = Some d"
    and update_failed: "key_ok e f \<Longrightarrow> st_update_json sto e f m s = (Inl x, t) \<Longrightarrow>
          view t e f = view s e f"
    and update_frame: "key_ok e f \<Longrightarrow> key_ok e' f' \<Longrightarrow> st_update_json sto e f m s = (r, t) \<Longrightarrow>
          (e', f') \<noteq> (e, f) \<Longrightarrow> view t e' f' = view s e' f' \<and> taken t e' f' = taken s e' f'"
begin

text \<open>
  No update is lost: after a sequence of updates of one document that all succeed, the document is
  the composition of the mutations in that order.
\<close>

fun update_all :: "string \<Rightarrow> string \<Rightarrow> (doc option \<Rightarrow> exn + doc) list \<Rightarrow> ('s, unit) io" where
  "update_all e f [] = ret ()"
| "update_all e f (m # ms) = bindM (st_update_json sto e f m) (\<lambda>_. update_all e f ms)"

fun apply_all :: "(doc option \<Rightarrow> exn + doc) list \<Rightarrow> doc option \<Rightarrow> doc option" where
  "apply_all [] d = d"
| "apply_all (m # ms) d =
     (case m d of Inl e \<Rightarrow> None | Inr d0 \<Rightarrow> apply_all ms (Some (stamp_version d0)))"

lemma no_update_is_lost:
  assumes "key_ok e f" and "update_all e f ms s = (Inr u, t)"
  shows "view t e f = apply_all ms (view s e f)"
  using assms(2)
proof (induction ms arbitrary: s)
  case Nil
  then show ?case by simp
next
  case (Cons m ms)
  then obtain d s' where u: "st_update_json sto e f m s = (Inr d, s')"
    and rest: "update_all e f ms s' = (Inr u, t)"
    by (auto elim: bindM_InrE)
  obtain d0 where "m (view s e f) = Inr d0" "d = stamp_version d0" "view s' e f = Some d"
    using update_done [OF assms(1) u] by auto
  with Cons.IH [OF rest] show ?case by simp
qed

end

end
