(* ===== verification/Local_Storage.thy ===== *)
theory Local_Storage
  imports Storage
begin

text \<open>
  The local filesystem backend: \<^verbatim>\<open>src/storage/local.py\<close> over \<^verbatim>\<open>src/utils/atomic.py\<close>.

  A disk holds JSON documents and text artifacts by path (a list of names below the filesystem
  root, without symbolic links) and the directories that were made. What the operating system may
  refuse is part of the disk: a lock another process holds for longer than the timeout, a directory
  that cannot be made, a file that cannot be written or removed, and how often a rename is denied
  before it goes through. Lock files themselves are not kept.

  Properties: no operation touches a path outside the storage root; a failed write leaves the
  previous document in place; the backend implements the storage contract, atomic read-modify-write
  included.
\<close>

section \<open>The disk\<close>

type_synonym path = "string list"

record disk =
  d_files :: "(path \<times> content) list"
  d_dirs :: "path list"
  d_locked :: "path \<Rightarrow> bool"
  d_no_mkdir :: "path \<Rightarrow> bool"
  d_no_write :: "path \<Rightarrow> bool"
  d_no_unlink :: "path \<Rightarrow> bool"
  d_denials :: "path \<Rightarrow> nat"
  d_clock :: string

definition file_at :: "disk \<Rightarrow> path \<Rightarrow> content option" where
  "file_at d p = map_of (d_files d) p"

definition put_file :: "path \<Rightarrow> content \<Rightarrow> disk \<Rightarrow> disk" where
  "put_file p c d = d\<lparr>d_files := AList.update p c (d_files d)\<rparr>"

definition remove_file :: "path \<Rightarrow> disk \<Rightarrow> disk" where
  "remove_file p d = d\<lparr>d_files := AList.delete p (d_files d)\<rparr>"

text \<open>\<^verbatim>\<open>Path.resolve\<close> of a path below \<open>base\<close>: empty and dot components vanish, two dots go up.\<close>

definition resolve :: "path \<Rightarrow> string \<Rightarrow> path" where
  "resolve base rel =
     foldl (\<lambda>p c. if c = [] \<or> c = ''.'' then p else if c = ''..'' then butlast p else p @ [c])
       base (split_on CHR ''/'' rel)"

definition makedirs :: "path \<Rightarrow> (disk, unit) io" where
  "makedirs p d =
     (if d_no_mkdir d p then (Inl OSError, d)
      else (Inr (), d\<lparr>d_dirs := (if p \<in> set (d_dirs d) then d_dirs d else d_dirs d @ [p])\<rparr>))"

text \<open>\<^verbatim>\<open>with FileLock(path, timeout=10)\<close> around a block.\<close>

definition with_lock :: "path \<Rightarrow> (disk, 'a) io \<Rightarrow> (disk, 'a) io" where
  "with_lock p m d = (if d_locked d p then (Inl LockTimeout, d) else m d)"

text \<open>Writing a file in place: a failure leaves it truncated.\<close>

definition write_file :: "path \<Rightarrow> content \<Rightarrow> (disk, unit) io" where
  "write_file p c d =
     (if d_no_write d p then (Inl OSError, put_file p Partial d)
      else (Inr (), put_file p c d))"

definition read_json :: "path \<Rightarrow> disk \<Rightarrow> doc option" where
  "read_json p d = (case file_at d p of Some (Json doc) \<Rightarrow> Some doc | _ \<Rightarrow> None)"

text \<open>\<^verbatim>\<open>os.replace\<close>, and the loop around it: the last attempt's error is raised.\<close>

definition os_replace :: "path \<Rightarrow> path \<Rightarrow> (disk, unit) io" where
  "os_replace src dst d =
     (if d_denials d dst > 0
      then (Inl OSError, d\<lparr>d_denials := (d_denials d)(dst := d_denials d dst - 1)\<rparr>)
      else (case file_at d src of
              None \<Rightarrow> (Inl OSError, d)
            | Some c \<Rightarrow> (Inr (), remove_file src (put_file dst c d))))"

fun replace_with_retry :: "nat \<Rightarrow> path \<Rightarrow> path \<Rightarrow> (disk, unit) io" where
  "replace_with_retry 0 src dst = os_replace src dst"
| "replace_with_retry (Suc 0) src dst = os_replace src dst"
| "replace_with_retry (Suc n) src dst = catchM (os_replace src dst) (\<lambda>_. replace_with_retry n src dst)"

definition DEFAULT_ATTEMPTS :: nat where
  "DEFAULT_ATTEMPTS = 5"


section \<open>The backend\<close>

definition resolve_dir :: "path \<Rightarrow> string \<Rightarrow> exn + path" where
  "resolve_dir base event_id =
     (let target = resolve base (''casebook_'' @ event_id)
      in if take (length base) target = base then Inr target else Inl ValueError)"

definition get_dir :: "path \<Rightarrow> string \<Rightarrow> (disk, path) io" where
  "get_dir base event_id =
     bindM (of_result (resolve_dir base event_id)) (\<lambda>dir. bindM (makedirs dir) (\<lambda>_. ret dir))"

definition tmp_name :: "string \<Rightarrow> string" where
  "tmp_name filename = filename @ ''.tmp''"

definition lock_name :: "string \<Rightarrow> string" where
  "lock_name filename = filename @ ''.lock''"

text \<open>The common tail of every replacing write: the temporary file, then the swap.\<close>

definition write_and_swap :: "path \<Rightarrow> string \<Rightarrow> content \<Rightarrow> (disk, unit) io" where
  "write_and_swap dir filename c =
     bindM (write_file (resolve dir (tmp_name filename)) c)
       (\<lambda>_. replace_with_retry DEFAULT_ATTEMPTS (resolve dir (tmp_name filename)) (resolve dir filename))"

definition local_save :: "path \<Rightarrow> string \<Rightarrow> doc \<Rightarrow> string \<Rightarrow> (disk, unit) io" where
  "local_save base event_id casebook filename =
     bindM (get_dir base event_id) (\<lambda>dir.
     bindM (makedirs (butlast (resolve dir filename))) (\<lambda>_.
       (\<lambda>d. bindM (of_result (stamp_saved (d_clock d) casebook)) (\<lambda>doc.
              with_lock (resolve dir (lock_name filename)) (write_and_swap dir filename (Json doc))) d)))"

definition local_load :: "path \<Rightarrow> string \<Rightarrow> string \<Rightarrow> (disk, doc option) io" where
  "local_load base event_id filename =
     bindM (of_result (resolve_dir base event_id)) (\<lambda>dir.
       (\<lambda>d. if file_at d (resolve dir filename) = None then (Inr None, d)
             else with_lock (resolve dir (lock_name filename))
                    (\<lambda>d. (Inr (read_json (resolve dir filename) d), d)) d))"

text \<open>\<^verbatim>\<open>data.get("packet_status", {}).get("status")\<close>: a null status block has no \<^verbatim>\<open>get\<close>.\<close>

definition local_exists :: "path \<Rightarrow> string \<Rightarrow> bool \<Rightarrow> string \<Rightarrow> (disk, bool) io" where
  "local_exists base event_id terminal_only filename =
     bindM (local_load base event_id filename) (\<lambda>data.
       case data of
         None \<Rightarrow> ret False
       | Some doc \<Rightarrow>
           if doc = [] then ret False
           else if \<not> terminal_only then ret True
           else (case jget_default doc ''packet_status'' (JObj []) of
                   JObj m \<Rightarrow> ret (status_in (jget m ''status'') TERMINAL_STATUSES)
                 | _ \<Rightarrow> raise AttributeError))"

definition local_save_artifact :: "path \<Rightarrow> string \<Rightarrow> string \<Rightarrow> string \<Rightarrow> (disk, path) io" where
  "local_save_artifact base event_id filename content =
     bindM (get_dir base event_id) (\<lambda>dir.
     bindM (with_lock (resolve dir (lock_name filename)) (write_and_swap dir filename (Text content))) (\<lambda>_.
       ret (resolve dir filename)))"

definition read_text :: "path \<Rightarrow> disk \<Rightarrow> string option" where
  "read_text p d = (case file_at d p of Some (Text t) \<Rightarrow> Some t | _ \<Rightarrow> None)"

definition local_load_artifact :: "path \<Rightarrow> string \<Rightarrow> string \<Rightarrow> (disk, string option) io" where
  "local_load_artifact base event_id filename =
     bindM (of_result (resolve_dir base event_id)) (\<lambda>dir.
       (\<lambda>d. if file_at d (resolve dir filename) = None then (Inr None, d)
             else with_lock (resolve dir (lock_name filename))
                    (\<lambda>d. (Inr (read_text (resolve dir filename) d), d)) d))"

definition local_artifact_exists :: "path \<Rightarrow> string \<Rightarrow> string \<Rightarrow> (disk, bool) io" where
  "local_artifact_exists base event_id filename =
     bindM (of_result (resolve_dir base event_id)) (\<lambda>dir.
       (\<lambda>d. (Inr (file_at d (resolve dir filename) \<noteq> None), d)))"

definition local_update_json ::
    "path \<Rightarrow> string \<Rightarrow> string \<Rightarrow> (doc option \<Rightarrow> exn + doc) \<Rightarrow> (disk, doc) io" where
  "local_update_json base event_id filename mutate =
     bindM (get_dir base event_id) (\<lambda>dir.
       with_lock (resolve dir (lock_name filename)) (\<lambda>d.
         bindM (of_result (mutate (read_json (resolve dir filename) d))) (\<lambda>updated.
         bindM (write_and_swap dir filename (Json (stamp_version updated))) (\<lambda>_.
           ret (stamp_version updated))) d))"

definition local_create_json :: "path \<Rightarrow> string \<Rightarrow> string \<Rightarrow> doc \<Rightarrow> (disk, bool) io" where
  "local_create_json base event_id filename document =
     bindM (get_dir base event_id) (\<lambda>dir.
       let final = resolve dir filename
       in bindM (makedirs (butlast final)) (\<lambda>_.
            (\<lambda>d. if file_at d final \<noteq> None then (Inr False, d)
                  else catchM (bindM (write_file final (Json (stamp_version document))) (\<lambda>_. ret True))
                         (\<lambda>e d. (Inl e, if d_no_unlink d final then d else remove_file final d))
                         (put_file final Partial d))))"

text \<open>\<^verbatim>\<open>sorted(...)\<close> of the names of the JSON files directly below a directory.\<close>

definition local_list_json :: "path \<Rightarrow> string \<Rightarrow> string \<Rightarrow> (disk, string list) io" where
  "local_list_json base event_id subdir =
     bindM (of_result (resolve_dir base event_id)) (\<lambda>dir.
       (\<lambda>d. let sub = resolve dir subdir
             in (Inr (sort (map last (filter (\<lambda>p. p \<noteq> [] \<and> butlast p = sub \<and> ends_with ''.json'' (last p))
                        (remdups (map fst (d_files d)))))), d)))"

definition local_list_events :: "path \<Rightarrow> (disk, string list) io" where
  "local_list_events base d =
     (Inr (sort (map (\<lambda>p. drop (length ''casebook_'') (last p))
        (filter (\<lambda>p. p \<noteq> [] \<and> butlast p = base \<and> starts_with ''casebook_'' (last p)) (d_dirs d)))), d)"

definition local_storage :: "path \<Rightarrow> disk storage" where
  "local_storage base =
     \<lparr>st_save = local_save base, st_load = local_load base, st_exists = local_exists base,
      st_update_json = local_update_json base, st_create_json = local_create_json base,
      st_list_json = local_list_json base, st_list_events = local_list_events base\<rparr>"


section \<open>The abstract view\<close>

text \<open>
  The keys the program uses: an event id without a slash (the shape \<^verbatim>\<open>EVENT_ID_PATTERN\<close> enforces on
  messages), and a file name whose components are proper names and which is not a temporary's.
\<close>

definition proper_name :: "string \<Rightarrow> bool" where
  "proper_name c \<longleftrightarrow> c \<noteq> [] \<and> c \<noteq> ''.'' \<and> c \<noteq> ''..''"

definition local_key_ok :: "string \<Rightarrow> string \<Rightarrow> bool" where
  "local_key_ok e f \<longleftrightarrow>
     CHR ''/'' \<notin> set e \<and> (\<forall>c\<in>set (split_on CHR ''/'' f). proper_name c) \<and> \<not> ends_with ''.tmp'' f"

definition key_path :: "path \<Rightarrow> string \<Rightarrow> string \<Rightarrow> path" where
  "key_path base e f = base @ (''casebook_'' @ e) # split_on CHR ''/'' f"

definition local_view :: "path \<Rightarrow> disk \<Rightarrow> string \<Rightarrow> string \<Rightarrow> doc option" where
  "local_view base d e f = read_json (key_path base e f) d"

definition local_taken :: "path \<Rightarrow> disk \<Rightarrow> string \<Rightarrow> string \<Rightarrow> bool" where
  "local_taken base d e f \<longleftrightarrow> file_at d (key_path base e f) \<noteq> None"


section \<open>Paths\<close>

lemma resolve_plain:
  assumes "\<forall>c\<in>set (split_on CHR ''/'' rel). proper_name c"
  shows "resolve base rel = base @ split_on CHR ''/'' rel"
proof -
  have "foldl (\<lambda>p c. if c = [] \<or> c = ''.'' then p else if c = ''..'' then butlast p else p @ [c]) base cs
      = base @ cs" if "\<forall>c\<in>set cs. proper_name c" for cs
    using that by (induction cs arbitrary: base) (auto simp: proper_name_def)
  then show ?thesis using assms by (simp add: resolve_def)
qed

lemma resolve_dir_plain:
  assumes "CHR ''/'' \<notin> set e"
  shows "resolve_dir base e = Inr (base @ [''casebook_'' @ e])"
proof -
  have "split_on CHR ''/'' (''casebook_'' @ e) = [''casebook_'' @ e]"
    using assms by (intro split_on_id) auto
  then have "resolve base (''casebook_'' @ e) = base @ [''casebook_'' @ e]"
    by (subst resolve_plain) (auto simp: proper_name_def)
  then show ?thesis by (simp add: resolve_dir_def)
qed

lemma split_on_append_plain:
  assumes "c \<notin> set t"
  shows "split_on c (s @ t) = butlast (split_on c s) @ [last (split_on c s) @ t]"
proof (induction s)
  case Nil
  then show ?case using assms by (simp add: split_on_id)
next
  case (Cons x s)
  have ne: "split_on c s \<noteq> []" by simp
  show ?case
  proof (cases "x = c")
    case True
    then show ?thesis using Cons ne by simp
  next
    case False
    obtain w ws where w: "split_on c s = w # ws" using ne by (cases "split_on c s") auto
    then have "split_on c (s @ t) = butlast (w # ws) @ [last (w # ws) @ t]" using Cons by simp
    with False w show ?thesis by (cases ws) auto
  qed
qed

lemma last_split_in: "last (split_on c s) \<in> set (split_on c s)"
  by simp

text \<open>The paths of a document, of its temporary file and of another document are different.\<close>

lemma key_paths:
  assumes "local_key_ok e f"
  shows "resolve_dir base e = Inr (base @ [''casebook_'' @ e])"
    and "resolve (base @ [''casebook_'' @ e]) f = key_path base e f"
    and "resolve (base @ [''casebook_'' @ e]) (tmp_name f) = key_path base e (tmp_name f)"
proof -
  let ?d = "base @ [''casebook_'' @ e]"
  have ok: "CHR ''/'' \<notin> set e" "\<forall>c\<in>set (split_on CHR ''/'' f). proper_name c"
    using assms by (auto simp: local_key_ok_def)
  show "resolve_dir base e = Inr ?d" using ok by (simp add: resolve_dir_plain)
  show "resolve ?d f = key_path base e f"
    using ok by (simp add: resolve_plain key_path_def)
  have sp: "split_on CHR ''/'' (tmp_name f) =
      butlast (split_on CHR ''/'' f) @ [last (split_on CHR ''/'' f) @ ''.tmp'']"
    unfolding tmp_name_def by (rule split_on_append_plain) simp
  have "\<forall>c\<in>set (split_on CHR ''/'' (tmp_name f)). proper_name c"
    using ok(2) last_split_in [of "CHR ''/''" f] unfolding sp
    by (auto simp: proper_name_def dest: in_set_butlastD)
  then show "resolve ?d (tmp_name f) = key_path base e (tmp_name f)"
    by (simp add: resolve_plain key_path_def)
qed

lemma key_path_inj: "key_path base e f = key_path base e' f' \<longleftrightarrow> e = e' \<and> f = f'"
  by (auto simp: key_path_def) (metis join_split)

lemma tmp_ends: "ends_with ''.tmp'' (tmp_name f)"
  by (auto simp: tmp_name_def ends_with_suffix suffix_def)

lemma key_not_tmp: "local_key_ok e' f' \<Longrightarrow> key_path base e' f' \<noteq> key_path base e (tmp_name f)"
  using tmp_ends [of f] by (auto simp: key_path_inj local_key_ok_def)

section \<open>Files\<close>

lemma file_at_put [simp]: "file_at (put_file p c d) q = (if q = p then Some c else file_at d q)"
  by (simp add: file_at_def put_file_def update_conv)

lemma file_at_remove [simp]: "file_at (remove_file p d) q = (if q = p then None else file_at d q)"
  by (simp add: file_at_def remove_file_def delete_conv)

lemma file_at_other [simp]:
  "file_at (d\<lparr>d_dirs := x\<rparr>) q = file_at d q" "file_at (d\<lparr>d_denials := y\<rparr>) q = file_at d q"
  by (simp_all add: file_at_def)

lemma read_json_cong: "file_at d' p = file_at d p \<Longrightarrow> read_json p d' = read_json p d"
  by (simp add: read_json_def)

lemma makedirs_files: "makedirs p d = (r, d') \<Longrightarrow> file_at d' q = file_at d q"
  by (auto simp: makedirs_def split: if_splits)

text \<open>The swap happens, whole, or does not happen at all.\<close>

lemma os_replace_spec:
  assumes "os_replace src dst d = (r, d')" and "src \<noteq> dst"
  shows "(r = Inr () \<longrightarrow> (\<exists>c. file_at d src = Some c \<and>
            file_at d' = (file_at d)(dst := Some c, src := None))) \<and>
         (\<forall>e. r = Inl e \<longrightarrow> file_at d' = file_at d)"
  using assms by (auto simp: os_replace_def split: if_splits option.splits)

lemma replace_spec:
  assumes "replace_with_retry n src dst d = (r, d')" and "src \<noteq> dst"
  shows "(r = Inr () \<longrightarrow> (\<exists>c. file_at d src = Some c \<and>
            file_at d' = (file_at d)(dst := Some c, src := None))) \<and>
         (\<forall>e. r = Inl e \<longrightarrow> file_at d' = file_at d)"
  using assms
proof (induction n src dst arbitrary: d r d' rule: replace_with_retry.induct)
  case (3 n src dst)
  from "3.prems"(1) [unfolded replace_with_retry.simps] show ?case
  proof (cases rule: catchM_cases)
    case (exn e s')
    then have "file_at s' = file_at d" using os_replace_spec [of src dst d] "3.prems"(2) by blast
    with "3.IH" [of s' r d'] exn "3.prems"(2) show ?thesis by simp
  next
    case (val a)
    then show ?thesis using os_replace_spec [OF val(1) "3.prems"(2)] by blast
  qed
qed (use os_replace_spec in auto)

lemma write_and_swap_spec:
  assumes "write_and_swap (base @ [''casebook_'' @ e]) f c d = (r, d')" and "local_key_ok e f"
  shows "(r = Inr () \<longrightarrow> file_at d' (key_path base e f) = Some c) \<and>
         (\<forall>x. r = Inl x \<longrightarrow> file_at d' (key_path base e f) = file_at d (key_path base e f)) \<and>
         (\<forall>q. q \<noteq> key_path base e f \<longrightarrow> q \<noteq> key_path base e (tmp_name f) \<longrightarrow> file_at d' q = file_at d q)"
proof -
  let ?t = "key_path base e (tmp_name f)" and ?p = "key_path base e f"
  note k = key_paths [OF assms(2), of base]
  have ne: "?t \<noteq> ?p" using key_not_tmp [OF assms(2), of base e f] by metis
  from assms(1) [unfolded write_and_swap_def k] show ?thesis
  proof (cases rule: bindM_cases)
    case (exn x)
    then show ?thesis using ne by (auto simp: write_file_def split: if_splits)
  next
    case (val a s')
    then have s': "s' = put_file ?t c d" by (auto simp: write_file_def split: if_splits)
    show ?thesis using replace_spec [OF val(2) ne] ne by (cases r) (auto simp: s')
  qed
qed


section \<open>The backend implements the contract\<close>

lemma get_dir_spec:
  assumes "get_dir base e d = (r, d')" and "CHR ''/'' \<notin> set e"
  shows "file_at d' = file_at d \<and> d_clock d' = d_clock d \<and>
         (\<forall>dir. r = Inr dir \<longrightarrow> dir = base @ [''casebook_'' @ e])"
  using assms unfolding get_dir_def resolve_dir_plain [OF assms(2)]
  by (auto simp: bindM_def makedirs_def split: if_splits)

lemma makedirs_spec: "makedirs p d = (r, d') \<Longrightarrow> file_at d' = file_at d \<and> d_clock d' = d_clock d"
  by (auto simp: makedirs_def split: if_splits)

lemma local_save_spec:
  assumes "local_save base e doc f d = (r, d')" and ok: "local_key_ok e f"
  shows "(r = Inr () \<longrightarrow> (\<exists>doc'. stamp_saved (d_clock d) doc = Inr doc' \<and>
            file_at d' (key_path base e f) = Some (Json doc'))) \<and>
         (\<forall>x. r = Inl x \<longrightarrow> file_at d' (key_path base e f) = file_at d (key_path base e f)) \<and>
         (\<forall>q. q \<noteq> key_path base e f \<longrightarrow> q \<noteq> key_path base e (tmp_name f) \<longrightarrow> file_at d' q = file_at d q)"
proof -
  have e: "CHR ''/'' \<notin> set e" using ok by (simp add: local_key_ok_def)
  from assms(1) [unfolded local_save_def] show ?thesis
  proof (cases rule: bindM_cases)
    case (exn x)
    then show ?thesis using get_dir_spec [OF exn(1) e] by simp
  next
    case (val dir s1)
    note g = get_dir_spec [OF val(1) e]
    then have dir: "dir = base @ [''casebook_'' @ e]" by simp
    from val(2) show ?thesis
    proof (cases rule: bindM_cases)
      case (exn x)
      then show ?thesis using makedirs_spec [OF exn(1)] g by simp
    next
      case (val u s2)
      note m = makedirs_spec [OF val(1)]
      from val(2) show ?thesis
      proof (cases rule: bindM_cases)
        case (exn x)
        then show ?thesis using of_result_pure [OF exn(1)] m g by simp
      next
        case (val doc' s3)
        then have s3: "s3 = s2" "stamp_saved (d_clock s2) doc = Inr doc'"
          by (auto simp: of_result_def split: sum.splits)
        show ?thesis
        proof (cases "d_locked s3 (resolve dir (lock_name f))")
          case True
          then show ?thesis using val m g s3 by (auto simp: with_lock_def)
        next
          case False
          then have "write_and_swap dir f (Json doc') s2 = (r, d')"
            using val s3 by (simp add: with_lock_def)
          from write_and_swap_spec [OF this [unfolded dir] ok] show ?thesis
            using m g s3 by simp
        qed
      qed
    qed
  qed
qed

lemma local_update_spec:
  assumes "local_update_json base e f m d = (r, d')" and ok: "local_key_ok e f"
  shows "(\<forall>doc. r = Inr doc \<longrightarrow> (\<exists>d0. m (local_view base d e f) = Inr d0 \<and> doc = stamp_version d0 \<and>
            file_at d' (key_path base e f) = Some (Json doc))) \<and>
         (\<forall>x. r = Inl x \<longrightarrow> file_at d' (key_path base e f) = file_at d (key_path base e f)) \<and>
         (\<forall>q. q \<noteq> key_path base e f \<longrightarrow> q \<noteq> key_path base e (tmp_name f) \<longrightarrow> file_at d' q = file_at d q)"
proof -
  have e: "CHR ''/'' \<notin> set e" using ok by (simp add: local_key_ok_def)
  from assms(1) [unfolded local_update_json_def] show ?thesis
  proof (cases rule: bindM_cases)
    case (exn x)
    then show ?thesis using get_dir_spec [OF exn(1) e] by simp
  next
    case (val dir s1)
    note g = get_dir_spec [OF val(1) e]
    then have dir: "dir = base @ [''casebook_'' @ e]" by simp
    have v: "read_json (resolve dir f) s1 = local_view base d e f"
      using g key_paths [OF ok, of base] by (simp add: dir local_view_def read_json_def)
    show ?thesis
    proof (cases "d_locked s1 (resolve dir (lock_name f))")
      case True
      then show ?thesis using val g by (auto simp: with_lock_def)
    next
      case False
      show ?thesis
      proof (cases "m (local_view base d e f)")
        case (Inl x)
        then show ?thesis using val False g v by (auto simp: with_lock_def)
      next
        case (Inr d0)
        obtain r2 d2 where w: "write_and_swap dir f (Json (stamp_version d0)) s1 = (r2, d2)" by fastforce
        then have "d' = d2" "r = (case r2 of Inl x \<Rightarrow> Inl x | Inr u \<Rightarrow> Inr (stamp_version d0))"
          using val False v Inr by (auto simp: with_lock_def bindM_def split: sum.splits)
        then show ?thesis
          using write_and_swap_spec [OF w [unfolded dir] ok] g Inr by (auto split: sum.splits)
      qed
    qed
  qed
qed

lemma local_create_spec:
  assumes "local_create_json base e f doc d = (r, d')" and ok: "local_key_ok e f"
  shows "(r = Inr True \<longrightarrow> file_at d (key_path base e f) = None \<and>
            file_at d' (key_path base e f) = Some (Json (stamp_version doc))) \<and>
         (r = Inr False \<longrightarrow> file_at d (key_path base e f) \<noteq> None) \<and>
         (\<forall>q. q \<noteq> key_path base e f \<or> file_at d q \<noteq> None \<longrightarrow> file_at d' q = file_at d q)"
proof -
  have e: "CHR ''/'' \<notin> set e" using ok by (simp add: local_key_ok_def)
  from assms(1) [unfolded local_create_json_def] show ?thesis
  proof (cases rule: bindM_cases)
    case (exn x)
    then show ?thesis using get_dir_spec [OF exn(1) e] by simp
  next
    case (val dir s1)
    note g = get_dir_spec [OF val(1) e]
    then have p: "resolve dir f = key_path base e f" using key_paths [OF ok, of base] by simp
    from val(2) [unfolded Let_def p] show ?thesis
    proof (cases rule: bindM_cases)
      case (exn x)
      then show ?thesis using makedirs_spec [OF exn(1)] g by simp
    next
      case (val u s2)
      then show ?thesis using makedirs_spec [OF val(1)] g
        by (auto simp: catchM_def bindM_def write_file_def split: if_splits)
    qed
  qed
qed

lemma local_load_spec:
  assumes "local_load base e f d = (r, d')"
  shows "d' = d" and "local_key_ok e f \<Longrightarrow> r = Inr (Some doc) \<Longrightarrow> local_view base d e f = Some doc"
  using assms key_paths [of e f base]
  by (auto simp: local_load_def of_result_def with_lock_def local_view_def split: sum.splits if_splits)

interpretation loc: atomic_storage "local_storage base" "local_view base" "local_taken base" local_key_ok
  for base
proof unfold_locales
  fix s t :: disk and e f e' f' :: string and d doc' :: doc and x :: exn
  show "local_view base s e f \<noteq> None \<Longrightarrow> local_taken base s e f"
    by (auto simp: local_view_def local_taken_def read_json_def split: option.splits)
  show "pureM (st_load (local_storage base) e f)"
    unfolding pureM_def using local_load_spec(1) [of base e f] by (metis local_storage_def prod.collapse storage.select_convs(2))
  show "pureM (st_list_events (local_storage base))"
    by (simp add: pureM_def local_storage_def local_list_events_def)
  show "local_key_ok e f \<Longrightarrow> st_load (local_storage base) e f s = (Inr (Some d), t) \<Longrightarrow>
      local_view base s e f = Some d"
    using local_load_spec(2) [of base e f s] by (auto simp: local_storage_def)
  show "local_key_ok e f \<Longrightarrow> st_create_json (local_storage base) e f d s = (Inr True, t) \<Longrightarrow>
      \<not> local_taken base s e f \<and> local_view base t e f = Some (stamp_version d)"
    using local_create_spec [of base e f d s "Inr True" t]
    by (simp add: local_storage_def local_taken_def local_view_def read_json_def)
  show "local_key_ok e f \<Longrightarrow> st_create_json (local_storage base) e f d s = (Inr False, t) \<Longrightarrow>
      local_taken base s e f"
    using local_create_spec [of base e f d s "Inr False" t]
    by (simp add: local_storage_def local_taken_def)
  show "local_view base t e' f' = local_view base s e' f' \<and> local_taken base t e' f' = local_taken base s e' f'"
    if "local_key_ok e f" "local_key_ok e' f'" "st_create_json (local_storage base) e f d s = (r, t)"
      "(e', f') \<noteq> (e, f) \<or> local_taken base s e' f'" for r
  proof -
    have "file_at t (key_path base e' f') = file_at s (key_path base e' f')"
      using local_create_spec [of base e f d s r t] that
      by (auto simp: local_storage_def local_taken_def key_path_inj)
    then show ?thesis by (simp add: local_view_def local_taken_def read_json_def)
  qed
  show "local_key_ok e f \<Longrightarrow> st_save (local_storage base) e d f s = (Inr u, t) \<Longrightarrow>
      \<exists>d'. same_fields d d' \<and> local_view base t e f = Some d'" for u
    using local_save_spec [of base e d f s "Inr ()" t] same_fields_saved
    by (force simp: local_storage_def local_view_def read_json_def)
  show "local_key_ok e f \<Longrightarrow> st_save (local_storage base) e d f s = (Inl x, t) \<Longrightarrow>
      local_view base t e f = local_view base s e f \<and> local_taken base t e f = local_taken base s e f"
    using local_save_spec [of base e d f s "Inl x" t]
    by (simp add: local_storage_def local_view_def local_taken_def read_json_def)
  show "local_view base t e' f' = local_view base s e' f' \<and> local_taken base t e' f' = local_taken base s e' f'"
    if "local_key_ok e f" "local_key_ok e' f'" "st_save (local_storage base) e d f s = (r, t)"
      "(e', f') \<noteq> (e, f)" for r
  proof -
    have "file_at t (key_path base e' f') = file_at s (key_path base e' f')"
      using local_save_spec [of base e d f s r t] that key_not_tmp [OF that(2), of base e f]
      by (auto simp: local_storage_def key_path_inj)
    then show ?thesis by (simp add: local_view_def local_taken_def read_json_def)
  qed
  fix m :: "doc option \<Rightarrow> exn + doc"
  show "local_key_ok e f \<Longrightarrow> st_update_json (local_storage base) e f m s = (Inr d, t) \<Longrightarrow>
      \<exists>d0. m (local_view base s e f) = Inr d0 \<and> d = stamp_version d0 \<and> local_view base t e f = Some d"
    using local_update_spec [of base e f m s "Inr d" t]
    by (auto simp: local_storage_def local_view_def [of base t] read_json_def)
  show "local_key_ok e f \<Longrightarrow> st_update_json (local_storage base) e f m s = (Inl x, t) \<Longrightarrow>
      local_view base t e f = local_view base s e f"
    using local_update_spec [of base e f m s "Inl x" t]
    by (simp add: local_storage_def local_view_def read_json_def)
  show "local_view base t e' f' = local_view base s e' f' \<and> local_taken base t e' f' = local_taken base s e' f'"
    if "local_key_ok e f" "local_key_ok e' f'" "st_update_json (local_storage base) e f m s = (r, t)"
      "(e', f') \<noteq> (e, f)" for r
  proof -
    have "file_at t (key_path base e' f') = file_at s (key_path base e' f')"
      using local_update_spec [of base e f m s r t] that key_not_tmp [OF that(2), of base e f]
      by (auto simp: local_storage_def key_path_inj)
    then show ?thesis by (simp add: local_view_def local_taken_def read_json_def)
  qed
qed


section \<open>What a write may touch\<close>

definition below_root :: "path \<Rightarrow> path \<Rightarrow> bool" where
  "below_root base p \<longleftrightarrow> take (length base) p = base"

definition only_under :: "path \<Rightarrow> disk \<Rightarrow> disk \<Rightarrow> bool" where
  "only_under base d d' \<longleftrightarrow> (\<forall>q. file_at d' q \<noteq> file_at d q \<longrightarrow> below_root base q)"

lemma only_under_refl [simp]: "only_under base d d"
  by (simp add: only_under_def)

lemma only_under_trans: "only_under base d d' \<Longrightarrow> only_under base d' d'' \<Longrightarrow> only_under base d d''"
  unfolding only_under_def by metis

lemma only_under_same: "file_at d' = file_at d \<Longrightarrow> only_under base d d'"
  by (simp add: only_under_def)

lemma under_resolve:
  assumes "below_root base dir" and "\<forall>c\<in>set (split_on CHR ''/'' f). proper_name c"
  shows "below_root base (resolve dir f)"
proof -
  have "take (length base) dir = base" using assms(1) by (simp add: below_root_def)
  then have "length base \<le> length dir" by (metis length_take min.absorb_iff2 min.commute nat_le_linear)
  with assms show ?thesis by (simp add: below_root_def resolve_plain)
qed

lemma proper_tmp:
  assumes "\<forall>c\<in>set (split_on CHR ''/'' f). proper_name c"
  shows "\<forall>c\<in>set (split_on CHR ''/'' (tmp_name f)). proper_name c"
proof -
  have sp: "split_on CHR ''/'' (tmp_name f) =
      butlast (split_on CHR ''/'' f) @ [last (split_on CHR ''/'' f) @ ''.tmp'']"
    unfolding tmp_name_def by (rule split_on_append_plain) simp
  show ?thesis
    using assms last_split_in [of "CHR ''/''" f] unfolding sp
    by (auto simp: proper_name_def dest: in_set_butlastD)
qed

lemma get_dir_under:
  assumes "get_dir base e d = (r, d')"
  shows "file_at d' = file_at d" and "r = Inr dir \<Longrightarrow> below_root base dir"
  using assms
  by (auto simp: get_dir_def resolve_dir_def bindM_def of_result_def makedirs_def below_root_def Let_def
      split: if_splits)

lemma replace_under:
  assumes "replace_with_retry n src dst d = (r, d')" and "below_root base src" and "below_root base dst"
  shows "only_under base d d'"
proof -
  have one: "only_under base d d'" if "os_replace src dst d = (r, d')" for d r d'
    using that assms(2,3) by (auto simp: os_replace_def only_under_def split: if_splits option.splits)
  show ?thesis
    using assms(1) one
    by (induction n src dst arbitrary: d r d' rule: replace_with_retry.induct)
       (auto elim!: catchM_cases, blast intro: only_under_trans)
qed

lemma write_and_swap_under:
  assumes "write_and_swap dir f c d = (r, d')" and "below_root base dir"
    and ok: "\<forall>c\<in>set (split_on CHR ''/'' f). proper_name c"
  shows "only_under base d d'"
proof -
  have u: "below_root base (resolve dir f)" "below_root base (resolve dir (tmp_name f))"
    using assms(2) ok proper_tmp [OF ok] by (auto intro: under_resolve)
  have w: "only_under base d s'" if "write_file (resolve dir (tmp_name f)) c d = (x, s')" for x s'
    using that u(2) by (auto simp: write_file_def only_under_def split: if_splits)
  from assms(1) [unfolded write_and_swap_def] show ?thesis
    by (cases rule: bindM_cases) (use w replace_under [OF _ u(2,1)] in \<open>blast intro: only_under_trans\<close>)+
qed

text \<open>An operation that changes no file outside the storage root, exceptions included.\<close>

definition confined :: "path \<Rightarrow> (disk, 'a) io \<Rightarrow> bool" where
  "confined base m \<longleftrightarrow> (\<forall>d. only_under base d (snd (m d)))"

lemma confined_bindM:
  assumes "confined base m" and "\<And>a d d'. m d = (Inr a, d') \<Longrightarrow> confined base (f a)"
  shows "confined base (bindM m f)"
  unfolding confined_def
proof
  fix d
  obtain r d1 where m: "m d = (r, d1)" by fastforce
  then have 1: "only_under base d d1" using assms(1) by (auto simp: confined_def dest: spec [of _ d])
  show "only_under base d (snd (bindM m f d))"
  proof (cases r)
    case (Inl x)
    with m 1 show ?thesis by (simp add: bindM_def)
  next
    case (Inr a)
    then have "only_under base d1 (snd (f a d1))" using assms(2) m by (simp add: confined_def)
    with m 1 Inr show ?thesis by (auto simp: bindM_def intro: only_under_trans)
  qed
qed

lemma confined_ret [simp]: "confined base (ret a)"
  by (simp add: confined_def)

lemma confined_of_result [simp]: "confined base (of_result r)"
  by (cases r) (simp_all add: confined_def)

lemma confined_makedirs [simp]: "confined base (makedirs p)"
  by (auto simp: confined_def makedirs_def only_under_def)

lemma confined_get_dir [simp]: "confined base (get_dir base' e)"
  unfolding confined_def using get_dir_under(1) [of base' e] by (metis only_under_same prod.collapse)

lemma confined_with_lock: "confined base m \<Longrightarrow> confined base (with_lock p m)"
  by (simp add: confined_def with_lock_def)

lemma confined_swap:
  "below_root base dir \<Longrightarrow> \<forall>c\<in>set (split_on CHR ''/'' f). proper_name c \<Longrightarrow>
   confined base (write_and_swap dir f c)"
  unfolding confined_def using write_and_swap_under [of dir f c] by (metis prod.collapse)

lemma get_dir_result: "get_dir base e d = (Inr dir, d') \<Longrightarrow> below_root base dir"
  using get_dir_under(2) by blast

lemma confined_state: "(\<And>d. confined base (m d)) \<Longrightarrow> confined base (\<lambda>d. m d d)"
  by (simp add: confined_def)

lemma confined_save:
  assumes "\<forall>c\<in>set (split_on CHR ''/'' f). proper_name c"
  shows "confined base (local_save base e doc f)"
  unfolding local_save_def
  by (rule confined_bindM, simp, rule confined_bindM, simp, rule confined_state, rule confined_bindM,
      simp, rule confined_with_lock, rule confined_swap [OF get_dir_result assms])

lemma confined_update:
  assumes "\<forall>c\<in>set (split_on CHR ''/'' f). proper_name c"
  shows "confined base (local_update_json base e f m)"
  unfolding local_update_json_def
  by (rule confined_bindM, simp, rule confined_with_lock, rule confined_state, rule confined_bindM,
      simp, rule confined_bindM, rule confined_swap [OF get_dir_result assms], assumption, rule confined_ret)

lemma confined_save_artifact:
  assumes "\<forall>c\<in>set (split_on CHR ''/'' f). proper_name c"
  shows "confined base (local_save_artifact base e f content)"
  unfolding local_save_artifact_def
  by (rule confined_bindM, simp, rule confined_bindM, rule confined_with_lock,
      rule confined_swap [OF get_dir_result assms], assumption, rule confined_ret)

lemma confined_create:
  assumes "\<forall>c\<in>set (split_on CHR ''/'' f). proper_name c"
  shows "confined base (local_create_json base e f doc)"
  unfolding local_create_json_def Let_def
proof (intro confined_bindM)
  fix dir d d' and u :: unit
  assume "get_dir base e d = (Inr dir, d')"
  then have b: "below_root base (resolve dir f)"
    using assms get_dir_result under_resolve by blast
  then show "confined base (\<lambda>d. if file_at d (resolve dir f) \<noteq> None then (Inr False, d)
      else catchM (bindM (write_file (resolve dir f) (Json (stamp_version doc))) (\<lambda>_. ret True))
             (\<lambda>e d. (Inl e, if d_no_unlink d (resolve dir f) then d else remove_file (resolve dir f) d))
             (put_file (resolve dir f) Partial d))"
    by (auto simp: confined_def only_under_def catchM_def bindM_def write_file_def)
qed simp_all


text \<open>A disk with no files and no faults, for concrete runs.\<close>

definition empty_disk :: disk where
  "empty_disk = \<lparr>d_files = [], d_dirs = [], d_locked = (\<lambda>_. False), d_no_mkdir = (\<lambda>_. False),
     d_no_write = (\<lambda>_. False), d_no_unlink = (\<lambda>_. False), d_denials = (\<lambda>_. 0), d_clock = ''T''\<rparr>"

lemma load_after:
  assumes "local_key_ok e f" and "file_at d (key_path base e f) = Some (Json doc)"
    and "\<And>p. \<not> d_locked d p"
  shows "local_load base e f d = (Inr (Some doc), d)"
  using assms key_paths [OF assms(1), of base]
  by (simp add: local_load_def with_lock_def read_json_def)

lemma os_replace_other: "os_replace src dst d = (r, d') \<Longrightarrow> d_locked d' = d_locked d"
  by (auto simp: os_replace_def put_file_def remove_file_def split: if_splits option.splits)

lemma replace_locked: "replace_with_retry n src dst d = (r, d') \<Longrightarrow> d_locked d' = d_locked d"
  by (induction n src dst arbitrary: d r d' rule: replace_with_retry.induct)
     (auto elim!: catchM_cases dest: os_replace_other)

lemma local_save_locked: "local_save base e doc f d = (r, d') \<Longrightarrow> d_locked d' = d_locked d"
  unfolding local_save_def get_dir_def write_and_swap_def
  by (elim bindM_cases)
     (auto simp: with_lock_def makedirs_def write_file_def put_file_def of_result_def dest!: replace_locked
       elim!: bindM_cases split: if_splits sum.splits)

lemma replace_loop:
  assumes "file_at d src = Some c"
  shows "d_denials d dst < Suc n \<Longrightarrow> \<exists>d'. replace_with_retry (Suc n) src dst d = (Inr (), d')"
    and "d_denials d dst \<ge> Suc n \<Longrightarrow> \<exists>d'. replace_with_retry (Suc n) src dst d = (Inl OSError, d')"
proof -
  have "(d_denials d dst < Suc n \<longrightarrow> (\<exists>d'. replace_with_retry (Suc n) src dst d = (Inr (), d'))) \<and>
        (d_denials d dst \<ge> Suc n \<longrightarrow> (\<exists>d'. replace_with_retry (Suc n) src dst d = (Inl OSError, d')))"
    using assms
  proof (induction n arbitrary: d)
    case 0
    then show ?case by (auto simp: os_replace_def)
  next
    case (Suc n)
    show ?case
    proof (cases "d_denials d dst")
      case 0
      then show ?thesis using Suc.prems by (auto simp: os_replace_def catchM_def)
    next
      case (Suc k)
      let ?d = "d\<lparr>d_denials := (d_denials d)(dst := k)\<rparr>"
      have "replace_with_retry (Suc (Suc n)) src dst d = replace_with_retry (Suc n) src dst ?d"
        using Suc by (simp add: os_replace_def catchM_def)
      then show ?thesis using Suc.IH [of ?d] Suc.prems \<open>d_denials d dst = Suc k\<close> by simp
    qed
  qed
  then show "d_denials d dst < Suc n \<Longrightarrow> \<exists>d'. replace_with_retry (Suc n) src dst d = (Inr (), d')"
    and "d_denials d dst \<ge> Suc n \<Longrightarrow> \<exists>d'. replace_with_retry (Suc n) src dst d = (Inl OSError, d')"
    by blast+
qed


section \<open>Properties\<close>

text \<open>No write leaves the storage root, whatever the event id says: for every event id (slashes and
  parent references included) and every proper file name, a save, a create, an update or an artifact
  write changes only files whose path lies below the root, also when it fails half way.\<close>

theorem writes_stay_below_root:
  assumes "\<forall>c\<in>set (split_on CHR ''/'' f). proper_name c"
    and "d' \<in> {snd (local_save base e doc f d), snd (local_create_json base e f doc d),
               snd (local_update_json base e f m d), snd (local_save_artifact base e f content d)}"
    and "file_at d' p \<noteq> file_at d p"
  shows "take (length base) p = base"
  using assms confined_save [OF assms(1), of base e doc] confined_create [OF assms(1), of base e doc]
    confined_update [OF assms(1), of base e m] confined_save_artifact [OF assms(1), of base e content]
  by (auto simp: confined_def only_under_def below_root_def)

theorem writes_stay_below_root_witness:
  "file_at (snd (local_save [''srv'', ''cases''] ''x/../y'' [] ''casebook.json'' empty_disk))
     [''srv'', ''cases'', ''y'', ''casebook.json''] \<noteq> None \<and>
   take (length [''srv'', ''cases'']) [''srv'', ''cases'', ''y'', ''casebook.json''] = [''srv'', ''cases'']"
proof
  let ?d = "snd (local_save [''srv'', ''cases''] ''x/../y'' [] ''casebook.json'' empty_disk)"
  let ?p = "[''srv'', ''cases'', ''y'', ''casebook.json'']"
  show c: "file_at ?d ?p \<noteq> None" by code_simp
  have "\<forall>c\<in>set (split_on CHR ''/'' ''casebook.json''). proper_name c" by code_simp
  moreover have "file_at ?d ?p \<noteq> file_at empty_disk ?p"
    using c by (simp add: empty_disk_def file_at_def)
  ultimately show "take (length [''srv'', ''cases'']) ?p = [''srv'', ''cases'']"
    by (intro writes_stay_below_root) auto
qed



text \<open>The retry loop around the rename outlasts a transient lock: with a budget of n attempts the
  swap succeeds exactly when it is denied fewer than n times, and otherwise raises the last error
  with no file changed.\<close>

theorem replace_outlasts_denials:
  assumes "file_at d src = Some c" and "src \<noteq> dst"
  shows "if d_denials d dst < Suc n
         then \<exists>d'. replace_with_retry (Suc n) src dst d = (Inr (), d') \<and>
                file_at d' = (file_at d)(dst := Some c, src := None)
         else \<exists>d'. replace_with_retry (Suc n) src dst d = (Inl OSError, d') \<and> file_at d' = file_at d"
proof (cases "d_denials d dst < Suc n")
  case True
  then obtain d' where r: "replace_with_retry (Suc n) src dst d = (Inr (), d')"
    using replace_loop(1) [OF assms(1)] by blast
  with replace_spec [OF r assms(2)] assms(1) True show ?thesis by auto
next
  case False
  then obtain d' where r: "replace_with_retry (Suc n) src dst d = (Inl OSError, d')"
    using replace_loop(2) [OF assms(1)] by force
  with replace_spec [OF r assms(2)] False show ?thesis by auto
qed

theorem replace_outlasts_denials_witness:
  "\<exists>d'. replace_with_retry (Suc 4) [''t''] [''f'']
          (put_file [''t''] Partial (empty_disk\<lparr>d_denials := (\<lambda>_. 3)\<rparr>)) = (Inr (), d')"
proof -
  let ?d = "put_file [''t''] Partial (empty_disk\<lparr>d_denials := (\<lambda>_. 3)\<rparr>)"
  have "file_at ?d [''t''] = Some Partial" by simp
  moreover have "d_denials ?d [''f''] < Suc 4" by (simp add: put_file_def)
  ultimately show ?thesis
    using replace_outlasts_denials [of ?d "[''t'']" Partial "[''f'']" 4] by auto
qed

text \<open>A terminal outcome reaches both records or leaves the status record alone: after
  save_terminal returns, whoever asks for the terminal status of the event is told that status, and
  if it raises, status.json is what it was before.\<close>

theorem save_terminal_is_seen:
  assumes "CHR ''/'' \<notin> set e" and "sub_get cb ''packet_status'' ''status'' = Inr (JStr st)"
    and "st \<in> set TERMINAL_STATUSES" and "\<And>p. \<not> d_locked d p"
    and "save_terminal (local_storage base) e cb d = (r, d')"
  shows "case r of
           Inr u \<Rightarrow> terminal_status (local_storage base) e status_files d' = (Inr (Some st), d') \<and>
                    terminal_status (local_storage base) e [''casebook.json''] d' = (Inr (Some st), d')
         | Inl x \<Rightarrow> local_view base d' e ''status.json'' = local_view base d e ''status.json''"
proof -
  have k: "local_key_ok e ''casebook.json''" "local_key_ok e ''status.json''"
    using assms(1) by (auto simp: local_key_ok_def proper_name_def ends_with_def)
  show ?thesis
  proof (cases r)
    case (Inl x)
    then show ?thesis using loc.save_terminal_order [OF k] assms(5) by auto
  next
    case (Inr u)
    then obtain c s where c: "local_view base d' e ''casebook.json'' = Some c" "same_fields cb c"
      and s: "local_view base d' e ''status.json'' = Some s" "s \<noteq> []"
        "sub_get s ''packet_status'' ''status'' = Inr (JStr st)"
      using loc.save_terminal_both [OF k, of base cb d u d'] assms(2,5) by auto
    have lk: "\<And>p. \<not> d_locked d' p"
      using assms(4,5) unfolding save_terminal_def
      by (auto elim!: bindM_cases simp: local_storage_def of_result_def dest!: local_save_locked split: sum.splits)
    have ld: "local_load base e f d' = (Inr (Some doc), d')"
      if "local_view base d' e f = Some doc" "local_key_ok e f" for f doc
      using that lk by (intro load_after) (auto simp: local_view_def read_json_def split: option.splits content.splits)
    have cs: "sub_get c ''packet_status'' ''status'' = Inr (JStr st)"
      using same_fields_jget [OF c(2), of "''packet_status''"] assms(2) by (simp add: sub_get_def)
    then have "c \<noteq> []" by (auto simp: sub_get_def py_or_def)
    with cs s ld [OF c(1) k(1)] ld [OF s(1) k(2)] assms(3) Inr show ?thesis
      by (simp add: status_files_def bindM_def local_storage_def status_in_def)
  qed
qed

theorem save_terminal_is_seen_witness:
  "\<exists>d'. save_terminal (local_storage []) ''E1''
          [(''packet_status'', JObj [(''status'', JStr ''DLQ'')])] empty_disk = (Inr (), d') \<and>
     terminal_status (local_storage []) ''E1'' status_files d' = (Inr (Some ''DLQ''), d')"
proof -
  let ?cb = "[(''packet_status'', JObj [(''status'', JStr ''DLQ'')])]"
  let ?r = "save_terminal (local_storage []) ''E1'' ?cb empty_disk"
  have "fst ?r = Inr ()" by code_simp
  then have r: "?r = (Inr (), snd ?r)" by (metis prod.collapse)
  have h: "CHR ''/'' \<notin> set ''E1''" "sub_get ?cb ''packet_status'' ''status'' = Inr (JStr ''DLQ'')"
    "''DLQ'' \<in> set TERMINAL_STATUSES" "\<And>p. \<not> d_locked empty_disk p"
    by (simp_all add: sub_get_def py_or_def TERMINAL_STATUSES_def empty_disk_def)
  show ?thesis using save_terminal_is_seen [OF h r] r by (intro exI [of _ "snd ?r"]) simp
qed

end
