(* ===== verification/S3_Storage.thy ===== *)
theory S3_Storage
  imports Storage
begin

text \<open>
  The S3 backend: \<^verbatim>\<open>src/storage/s3.py\<close>.

  The object store is reached through \<^verbatim>\<open>boto3\<close>, which is a parameter: a record of the requests the code
  makes. What the code relies on is the locale \<open>s3_endpoint\<close>. From it the backend is shown to meet the
  storage contract, and its conditional update to lose no other writer's update, whatever other
  processes do to the store between the read and the write.

  The state is the endpoint's, the ETag form the process has latched, and the clock \<^verbatim>\<open>save\<close> stamps.
  The back-off between two rounds is a point at which other writers may act; its length is not modelled.
\<close>

section \<open>The endpoint\<close>

datatype precondition = Always | If_none_match | If_match string

record 's s3_client =
  put_object :: "string \<Rightarrow> content \<Rightarrow> precondition \<Rightarrow> ('s, unit) io"
  get_object :: "string \<Rightarrow> ('s, content \<times> string option) io"
  head_object :: "string \<Rightarrow> ('s, unit) io"
  delete_object :: "string \<Rightarrow> ('s, unit) io"
  list_pages_below :: "string \<Rightarrow> ('s, (string list \<times> string list) list) io"

record s3_config =
  cf_bucket :: string
  cf_prefix :: string
  cf_max_attempts :: nat

record 's s3_state =
  ss_endpoint :: 's
  ss_etag_style :: "string option"
  ss_clock :: string

definition request :: "('s, 'a) io \<Rightarrow> ('s s3_state, 'a) io" where
  "request m st = (case m (ss_endpoint st) of (r, s) \<Rightarrow> (r, st\<lparr>ss_endpoint := s\<rparr>))"

definition is_precondition_failure :: "exn \<Rightarrow> bool" where
  "is_precondition_failure e =
     (case e of
        ClientError code status \<Rightarrow>
          code \<in> {Some ''PreconditionFailed'', Some ''ConditionalRequestConflict''} \<or> status \<in> {Some 409, Some 412}
      | _ \<Rightarrow> False)"

definition is_not_found :: "exn \<Rightarrow> bool" where
  "is_not_found e =
     (case e of
        ClientError code status \<Rightarrow>
          code \<in> {Some ''NoSuchKey'', Some ''NoSuchBucket'', Some ''404''} \<or> status = Some 404
      | _ \<Rightarrow> False)"


section \<open>ETag forms\<close>

definition is_quote :: "char \<Rightarrow> bool" where
  "is_quote c \<longleftrightarrow> c = CHR 0x22"

definition quoted :: "string \<Rightarrow> string" where
  "quoted etag = (if starts_with [CHR 0x22] etag then etag else [CHR 0x22] @ etag @ [CHR 0x22])"

definition bare :: "string \<Rightarrow> string" where
  "bare etag = rstrip is_quote (lstrip is_quote etag)"

definition etag_forms :: "string option \<Rightarrow> string \<Rightarrow> string list" where
  "etag_forms resolved etag =
     (if resolved = Some ''bare'' then [bare etag]
      else if resolved = Some ''quoted'' then [quoted etag]
      else (let forms = [etag];
                forms1 = (if quoted etag \<in> set forms then forms else forms @ [quoted etag])
            in if bare etag \<in> set forms1 then forms1 else forms1 @ [bare etag]))"

definition latch_etag_style :: "string \<Rightarrow> ('s s3_state, unit) io" where
  "latch_etag_style accepted st =
     (Inr (), if ss_etag_style st \<noteq> None then st
              else st\<lparr>ss_etag_style := Some (if starts_with [CHR 0x22] accepted then ''quoted'' else ''bare'')\<rparr>)"


section \<open>Operations\<close>

definition s3_key :: "s3_config \<Rightarrow> string \<Rightarrow> string \<Rightarrow> string" where
  "s3_key cf event_id filename =
     join_with ''/'' (filter (\<lambda>p. p \<noteq> []) [cf_prefix cf, ''casebook_'' @ event_id, filename])"

definition s3_save :: "s3_config \<Rightarrow> 's s3_client \<Rightarrow> string \<Rightarrow> doc \<Rightarrow> string \<Rightarrow> ('s s3_state, unit) io" where
  "s3_save cf cl event_id casebook filename st =
     bindM (of_result (stamp_saved (ss_clock st) casebook)) (\<lambda>d.
       request (put_object cl (s3_key cf event_id filename) (Json d) Always)) st"

definition s3_load :: "s3_config \<Rightarrow> 's s3_client \<Rightarrow> string \<Rightarrow> string \<Rightarrow> ('s s3_state, doc option) io" where
  "s3_load cf cl event_id filename =
     catchM (bindM (request (get_object cl (s3_key cf event_id filename))) (\<lambda>r.
         ret (case fst r of Json d \<Rightarrow> Some d | _ \<Rightarrow> None))) (\<lambda>_. ret None)"

definition s3_exists :: "s3_config \<Rightarrow> 's s3_client \<Rightarrow> string \<Rightarrow> bool \<Rightarrow> string \<Rightarrow> ('s s3_state, bool) io" where
  "s3_exists cf cl event_id terminal_only filename =
     bindM (s3_load cf cl event_id filename) (\<lambda>data.
       case data of
         None \<Rightarrow> ret False
       | Some d \<Rightarrow>
           if d = [] then ret False
           else if terminal_only
           then bindM (of_result (sub_get d ''packet_status'' ''status'')) (\<lambda>status.
                  ret (status_in status TERMINAL_STATUSES))
           else ret True)"

definition s3_save_artifact ::
    "s3_config \<Rightarrow> 's s3_client \<Rightarrow> string \<Rightarrow> string \<Rightarrow> string \<Rightarrow> ('s s3_state, string) io" where
  "s3_save_artifact cf cl event_id filename content =
     bindM (request (put_object cl (s3_key cf event_id filename) (Text content) Always)) (\<lambda>_.
       ret (''s3://'' @ cf_bucket cf @ ''/'' @ s3_key cf event_id filename))"

definition s3_load_artifact :: "s3_config \<Rightarrow> 's s3_client \<Rightarrow> string \<Rightarrow> string \<Rightarrow> ('s s3_state, string option) io" where
  "s3_load_artifact cf cl event_id filename =
     catchM (bindM (request (get_object cl (s3_key cf event_id filename))) (\<lambda>r.
         ret (case fst r of Text t \<Rightarrow> Some t | _ \<Rightarrow> None))) (\<lambda>_. ret None)"

definition s3_artifact_exists :: "s3_config \<Rightarrow> 's s3_client \<Rightarrow> string \<Rightarrow> string \<Rightarrow> ('s s3_state, bool) io" where
  "s3_artifact_exists cf cl event_id filename =
     catchM (bindM (request (head_object cl (s3_key cf event_id filename))) (\<lambda>_. ret True)) (\<lambda>_. ret False)"

definition s3_create_json :: "s3_config \<Rightarrow> 's s3_client \<Rightarrow> string \<Rightarrow> string \<Rightarrow> doc \<Rightarrow> ('s s3_state, bool) io" where
  "s3_create_json cf cl event_id filename document =
     catchM (bindM (request (put_object cl (s3_key cf event_id filename) (Json (stamp_version document)) If_none_match))
               (\<lambda>_. ret True))
       (\<lambda>e. if is_precondition_failure e then ret False else raise e)"

definition s3_list_json :: "s3_config \<Rightarrow> 's s3_client \<Rightarrow> string \<Rightarrow> string \<Rightarrow> ('s s3_state, string list) io" where
  "s3_list_json cf cl event_id subdir =
     (let prefix = s3_key cf event_id (rstrip (\<lambda>c. c = CHR ''/'') (lstrip (\<lambda>c. c = CHR ''/'') subdir)) @ ''/''
      in bindM (request (list_pages_below cl prefix)) (\<lambda>pages.
           ret (sort (filter (\<lambda>n. ends_with ''.json'' n \<and> CHR ''/'' \<notin> set n)
                        (map (drop (length prefix)) (concat (map fst pages)))))))"

definition s3_list_events :: "s3_config \<Rightarrow> 's s3_client \<Rightarrow> ('s s3_state, string list) io" where
  "s3_list_events cf cl =
     (let prefix = (if cf_prefix cf \<noteq> [] then cf_prefix cf @ ''/casebook_'' else ''casebook_'')
      in catchM (bindM (request (list_pages_below cl prefix)) (\<lambda>pages.
           ret (sort (filter (\<lambda>n. n \<noteq> [])
                        (map (\<lambda>p. rstrip (\<lambda>c. c = CHR ''/'') (drop (length prefix) p)) (concat (map snd pages)))))))
           (\<lambda>_. ret []))"


section \<open>Conditional update\<close>

fun put_forms :: "'s s3_client \<Rightarrow> string \<Rightarrow> content \<Rightarrow> string list \<Rightarrow> ('s s3_state, bool) io" where
  "put_forms cl key body [] = ret False"
| "put_forms cl key body (form # forms) =
     catchM (bindM (request (put_object cl key body (If_match form))) (\<lambda>_.
             bindM (latch_etag_style form) (\<lambda>_. ret True)))
       (\<lambda>e. if is_precondition_failure e then put_forms cl key body forms else raise e)"

definition put_conditional ::
    "'s s3_client \<Rightarrow> string \<Rightarrow> content \<Rightarrow> string option \<Rightarrow> ('s s3_state, bool) io" where
  "put_conditional cl key body etag st =
     (case etag of
        None \<Rightarrow>
          catchM (bindM (request (put_object cl key body If_none_match)) (\<lambda>_. ret True))
            (\<lambda>e. if is_precondition_failure e then ret False else raise e) st
      | Some e \<Rightarrow> put_forms cl key body (etag_forms (ss_etag_style st) e) st)"

datatype read_for_update = Read_failed | Read "doc option" "string option"

definition load_with_etag :: "'s s3_client \<Rightarrow> string \<Rightarrow> ('s s3_state, read_for_update) io" where
  "load_with_etag cl key =
     catchM (bindM (request (get_object cl key)) (\<lambda>r.
         ret (Read (case fst r of Json d \<Rightarrow> Some d | _ \<Rightarrow> None) (snd r))))
       (\<lambda>e. ret (if is_not_found e then Read None None else Read_failed))"

text \<open>
  The two points of a round at which other processes may act on the store: between the read and the
  conditional write, and during the back-off.
\<close>

datatype point = Before_write nat | Backing_off nat

type_synonym 's others = "point \<Rightarrow> 's \<Rightarrow> 's"

definition others_act :: "('s \<Rightarrow> 's) \<Rightarrow> ('s s3_state, unit) io" where
  "others_act f st = (Inr (), st\<lparr>ss_endpoint := f (ss_endpoint st)\<rparr>)"

fun update_rounds ::
    "'s others \<Rightarrow> 's s3_client \<Rightarrow> string \<Rightarrow> (doc option \<Rightarrow> exn + doc) \<Rightarrow> nat \<Rightarrow> nat \<Rightarrow> string option \<Rightarrow>
     ('s s3_state, doc) io" where
  "update_rounds others cl key mutate k 0 refused_etag = raise RuntimeError"
| "update_rounds others cl key mutate k (Suc n) refused_etag =
     bindM (load_with_etag cl key) (\<lambda>r.
       case r of
         Read_failed \<Rightarrow> raise StorageReadError
       | Read current etag \<Rightarrow>
           bindM (of_result (mutate current)) (\<lambda>u.
             bindM (others_act (others (Before_write k))) (\<lambda>_.
             bindM (put_conditional cl key (Json (stamp_version u)) etag) (\<lambda>landed.
               if landed then ret (stamp_version u)
               else if etag \<noteq> None \<and> etag = refused_etag then raise ConditionalWriteUnsupported
               else bindM (others_act (others (Backing_off k))) (\<lambda>_.
                      update_rounds others cl key mutate (Suc k) n etag)))))"

definition s3_update_json ::
    "'s others \<Rightarrow> s3_config \<Rightarrow> 's s3_client \<Rightarrow> string \<Rightarrow> string \<Rightarrow> (doc option \<Rightarrow> exn + doc) \<Rightarrow> ('s s3_state, doc) io" where
  "s3_update_json others cf cl event_id filename mutate =
     update_rounds others cl (s3_key cf event_id filename) mutate 0 (cf_max_attempts cf) None"

definition undisturbed :: "'s others" where
  "undisturbed = (\<lambda>_. id)"

definition s3_storage :: "s3_config \<Rightarrow> 's s3_client \<Rightarrow> 's s3_state storage" where
  "s3_storage cf cl =
     \<lparr>st_save = s3_save cf cl, st_load = s3_load cf cl, st_exists = s3_exists cf cl,
      st_update_json = s3_update_json undisturbed cf cl, st_create_json = s3_create_json cf cl,
      st_list_json = s3_list_json cf cl, st_list_events = s3_list_events cf cl\<rparr>"

section \<open>The capability probe\<close>

record capability =
  cp_create_only :: "bool option"
  cp_overwrite :: "bool option"
  cp_etag_style :: "string option"
  cp_error :: "exn option"

definition outcomeM :: "('s, 'a) io \<Rightarrow> ('s, exn + 'a) io" where
  "outcomeM m = catchM (bindM m (\<lambda>a. ret (Inr a))) (\<lambda>e. ret (Inl e))"

definition nothing_known :: capability where
  "nothing_known = \<lparr>cp_create_only = None, cp_overwrite = None, cp_etag_style = None, cp_error = None\<rparr>"

definition probe_doc :: "rat \<Rightarrow> content" where
  "probe_doc n = Json [(''probe'', JNum n)]"

fun probe_forms :: "'s s3_client \<Rightarrow> string \<Rightarrow> (string \<times> string) list \<Rightarrow> ('s, capability) io" where
  "probe_forms cl key [] = ret (nothing_known\<lparr>cp_overwrite := Some False\<rparr>)"
| "probe_forms cl key ((style, form) # forms) =
     bindM (outcomeM (put_object cl key (probe_doc 1) (If_match form))) (\<lambda>r.
       case r of
         Inr _ \<Rightarrow> ret (nothing_known\<lparr>cp_overwrite := Some True, cp_etag_style := Some style\<rparr>)
       | Inl e \<Rightarrow>
           if is_precondition_failure e then probe_forms cl key forms
           else ret (nothing_known\<lparr>cp_error := Some e\<rparr>))"

definition probe_create :: "'s s3_client \<Rightarrow> string \<Rightarrow> capability \<Rightarrow> ('s, capability) io" where
  "probe_create cl key found =
     bindM (outcomeM (put_object cl key (probe_doc 2) If_none_match)) (\<lambda>r.
       ret (case r of
              Inr _ \<Rightarrow> found\<lparr>cp_create_only := Some False\<rparr>
            | Inl e \<Rightarrow> if is_precondition_failure e then found\<lparr>cp_create_only := Some True\<rparr>
                       else found\<lparr>cp_error := Some e\<rparr>))"

definition probe_key :: "string \<Rightarrow> string" where
  "probe_key base =
     join_with ''/'' (filter (\<lambda>p. p \<noteq> [])
       [rstrip (\<lambda>c. c = CHR ''/'') (lstrip (\<lambda>c. c = CHR ''/'') base), ''_probe'', ''conditional_write.json''])"

definition probe_failed :: "exn \<Rightarrow> ('s, capability) io" where
  "probe_failed e = ret (nothing_known\<lparr>cp_error := Some e\<rparr>)"

definition probe_overwrite :: "'s s3_client \<Rightarrow> string \<Rightarrow> string \<Rightarrow> ('s, capability) io" where
  "probe_overwrite cl key etag =
     bindM (probe_forms cl key [(''quoted'', quoted etag), (''bare'', bare etag)]) (\<lambda>found.
       if cp_error found \<noteq> None then ret found else probe_create cl key found)"

definition probe_present :: "'s s3_client \<Rightarrow> string \<Rightarrow> ('s, capability) io" where
  "probe_present cl key =
     bindM (outcomeM (get_object cl key)) (\<lambda>g.
       case g of
         Inl e \<Rightarrow> probe_failed e
       | Inr r \<Rightarrow> probe_overwrite cl key (case snd r of None \<Rightarrow> [] | Some e \<Rightarrow> e))"

definition probe_conditional_write :: "'s s3_client \<Rightarrow> string \<Rightarrow> ('s, capability) io" where
  "probe_conditional_write cl base =
     (let key = probe_key base
      in bindM (bindM (outcomeM (put_object cl key (probe_doc 0) Always)) (\<lambda>w.
                  case w of Inl e \<Rightarrow> probe_failed e | Inr _ \<Rightarrow> probe_present cl key))
           (\<lambda>found. bindM (outcomeM (delete_object cl key)) (\<lambda>_. ret found)))"


section \<open>What the code relies on\<close>

definition precondition_met :: "precondition \<Rightarrow> (content \<times> string) option \<Rightarrow> bool" where
  "precondition_met pre found =
     (case pre of
        Always \<Rightarrow> True
      | If_none_match \<Rightarrow> found = None
      | If_match form \<Rightarrow> (case found of None \<Rightarrow> False | Some (b, etag) \<Rightarrow> bare etag = bare form))"

text \<open>
  \<open>obj s k\<close> is the object under a key with its ETag, \<open>later s t\<close> says that \<open>t\<close> comes after \<open>s\<close> in the life of
  the store. The laws: a read returns the object that is there and changes nothing; a successful write
  found its precondition met and stored its body; a failed one stored nothing, and a refused creation
  found an object; no write touches another key; one ETag of a key never stands for two bodies.
\<close>

locale s3_endpoint =
  fixes cl :: "'s s3_client"
    and obj :: "'s \<Rightarrow> string \<Rightarrow> (content \<times> string) option"
    and later :: "'s \<Rightarrow> 's \<Rightarrow> bool"
  assumes later_refl: "later s s"
    and later_trans: "later s t \<Longrightarrow> later t u \<Longrightarrow> later s u"
    and get_pure: "pureM (get_object cl k)"
    and list_pure: "pureM (list_pages_below cl p)"
    and get_found: "get_object cl k s = (Inr (b, et), t) \<Longrightarrow> \<exists>e. et = Some e \<and> obj s k = Some (b, e)"
    and put_stored: "put_object cl k b pre s = (Inr (), t) \<Longrightarrow>
          precondition_met pre (obj s k) \<and> (\<exists>e. obj t k = Some (b, e))"
    and put_failed: "put_object cl k b pre s = (Inl x, t) \<Longrightarrow> obj t k = obj s k"
    and put_frame: "put_object cl k b pre s = (r, t) \<Longrightarrow> k' \<noteq> k \<Longrightarrow> obj t k' = obj s k'"
    and put_later: "put_object cl k b pre s = (r, t) \<Longrightarrow> later s t"
    and create_refused: "put_object cl k b If_none_match s = (Inl x, t) \<Longrightarrow> is_precondition_failure x \<Longrightarrow>
          obj s k \<noteq> None"
    and etag_means_body: "later s t \<Longrightarrow> obj s k = Some (b, e) \<Longrightarrow> obj t k = Some (b', e') \<Longrightarrow>
          bare e = bare e' \<Longrightarrow> b = b'"

text \<open>Documents as the storage contract sees them.\<close>

definition document :: "(content \<times> string) option \<Rightarrow> doc option" where
  "document found = (case found of Some (Json d, _) \<Rightarrow> Some d | _ \<Rightarrow> None)"

definition s3_view ::
    "s3_config \<Rightarrow> ('s \<Rightarrow> string \<Rightarrow> (content \<times> string) option) \<Rightarrow> 's s3_state \<Rightarrow> string \<Rightarrow> string \<Rightarrow> doc option" where
  "s3_view cf obj st e f = document (obj (ss_endpoint st) (s3_key cf e f))"

definition s3_taken ::
    "s3_config \<Rightarrow> ('s \<Rightarrow> string \<Rightarrow> (content \<times> string) option) \<Rightarrow> 's s3_state \<Rightarrow> string \<Rightarrow> string \<Rightarrow> bool" where
  "s3_taken cf obj st e f \<longleftrightarrow> obj (ss_endpoint st) (s3_key cf e f) \<noteq> None"

definition s3_key_ok :: "string \<Rightarrow> string \<Rightarrow> bool" where
  "s3_key_ok e f \<longleftrightarrow> CHR ''/'' \<notin> set e \<and> f \<noteq> []"

lemma document_Json [simp]: "document (Some (Json d, e)) = Some d"
  by (simp add: document_def)

lemma document_None [simp]: "document None = None"
  by (simp add: document_def)

text \<open>Different keys of the contract are different keys of the bucket.\<close>

lemma append_slash_inj:
  assumes "a @ CHR ''/'' # b = a' @ CHR ''/'' # b'" and "CHR ''/'' \<notin> set a" and "CHR ''/'' \<notin> set a'"
  shows "a = a' \<and> b = b'"
  using assms
proof (induction a arbitrary: a')
  case Nil
  then show ?case by (cases a') auto
next
  case (Cons c a)
  then show ?case by (cases a') auto
qed

lemma s3_key_eq:
  assumes "s3_key_ok e f" and "s3_key_ok e' f'" and "s3_key cf e f = s3_key cf e' f'"
  shows "e = e' \<and> f = f'"
proof -
  have "e @ CHR ''/'' # f = e' @ CHR ''/'' # f'"
    using assms by (cases "cf_prefix cf = []") (simp_all add: s3_key_def s3_key_ok_def)
  then show ?thesis using assms by (intro append_slash_inj) (auto simp: s3_key_ok_def)
qed

lemma request_cases:
  assumes "request m st = (r, st')"
  obtains s where "m (ss_endpoint st) = (r, s)" "st' = st\<lparr>ss_endpoint := s\<rparr>"
  using assms by (auto simp: request_def split: prod.splits)

lemma request_pure: "pureM m \<Longrightarrow> pureM (request m)"
  unfolding pureM_def request_def by (simp add: split_beta)

lemma bare_quoted [simp]: "bare (quoted e) = bare e"
proof (cases "starts_with [CHR 0x22] e")
  case True
  then show ?thesis by (simp add: quoted_def)
next
  case False
  have "lstrip is_quote ([CHR 0x22] @ e @ [CHR 0x22]) = lstrip is_quote (e @ [CHR 0x22])"
    by (simp add: lstrip_def is_quote_def)
  moreover have "rstrip is_quote (lstrip is_quote (e @ [CHR 0x22])) = rstrip is_quote (lstrip is_quote e)"
    by (induction e) (simp_all add: lstrip_def rstrip_def is_quote_def)
  ultimately show ?thesis using False by (simp add: bare_def quoted_def)
qed

lemma bare_bare [simp]: "bare (bare e) = bare e"
proof -
  have l: "dropWhile is_quote (dropWhile is_quote xs) = dropWhile is_quote xs" for xs
    by (induction xs) auto
  let ?x = "rev (dropWhile is_quote e)"
  have "dropWhile is_quote (rev (dropWhile is_quote ?x)) = rev (dropWhile is_quote ?x)"
  proof (cases "dropWhile is_quote ?x = []")
    case False
    obtain q where "dropWhile is_quote e = rev (dropWhile is_quote ?x) @ q"
      by (metis rev_append rev_rev_ident takeWhile_dropWhile_id)
    then have "hd (rev (dropWhile is_quote ?x)) = hd (dropWhile is_quote e)"
      using False by (metis hd_append2 rev_is_Nil_conv)
    moreover have "dropWhile is_quote e \<noteq> []" using False by (metis dropWhile.simps(1) rev.simps(1))
    ultimately show ?thesis using hd_dropWhile [of is_quote e] False
      by (cases "rev (dropWhile is_quote ?x)") auto
  next
    case True
    then show ?thesis by (metis dropWhile.simps(1) rev.simps(1))
  qed
  then show ?thesis by (simp add: bare_def lstrip_def rstrip_def l)
qed

lemma etag_forms_bare: "form \<in> set (etag_forms resolved e) \<Longrightarrow> bare form = bare e"
  by (auto simp: etag_forms_def Let_def split: if_splits)

section \<open>The conditional write\<close>

lemma others_act_undisturbed [simp]: "others_act (undisturbed p) = ret ()"
  by (rule ext) (simp add: others_act_def undisturbed_def)

context s3_endpoint
begin

lemma put_failed_all: "put_object cl k b pre s = (Inl x, t) \<Longrightarrow> obj t = obj s"
  using put_failed put_frame by (metis ext)

lemma put_forms_landed:
  assumes "put_forms cl key body forms st = (Inr True, st')"
  shows "\<exists>s form. form \<in> set forms \<and> later (ss_endpoint st) s \<and> obj s = obj (ss_endpoint st) \<and>
    put_object cl key body (If_match form) s = (Inr (), ss_endpoint st')"
  using assms
proof (induction forms arbitrary: st)
  case Nil
  then show ?case by simp
next
  case (Cons form forms)
  from Cons.prems [unfolded put_forms.simps] show ?case
  proof (cases rule: catchM_cases)
    case (exn e st1)
    then obtain s1 where s1: "put_object cl key body (If_match form) (ss_endpoint st) = (Inl e, s1)" "ss_endpoint st1 = s1"
      by (auto simp: latch_etag_style_def elim!: bindM_cases request_cases)
    have "put_forms cl key body forms st1 = (Inr True, st')" using exn by (simp split: if_splits)
    from Cons.IH [OF this] obtain s form' where f: "form' \<in> set forms" "later (ss_endpoint st1) s"
      "obj s = obj (ss_endpoint st1)" "put_object cl key body (If_match form') s = (Inr (), ss_endpoint st')" by blast
    have "later (ss_endpoint st) s"
      using later_trans [OF put_later [OF s1(1)]] s1(2) f(2) by simp
    moreover have "obj s1 = obj (ss_endpoint st)" by (rule put_failed_all [OF s1(1)])
    ultimately show ?thesis using f s1(2) by auto
  next
    case (val b)
    then obtain s1 where "put_object cl key body (If_match form) (ss_endpoint st) = (Inr (), s1)" "ss_endpoint st' = s1"
      by (auto simp: latch_etag_style_def elim!: bindM_InrE request_cases)
    then show ?thesis using later_refl by auto
  qed
qed

text \<open>What a sequence of requests under one key leaves alone.\<close>

lemma put_forms_keeps:
  assumes "put_forms cl key body forms st = (r, st')"
  shows "later (ss_endpoint st) (ss_endpoint st') \<and>
    (\<forall>k. k \<noteq> key \<or> r \<noteq> Inr True \<longrightarrow> obj (ss_endpoint st') k = obj (ss_endpoint st) k)"
  using assms
proof (induction forms arbitrary: st)
  case Nil
  then show ?case by (simp add: later_refl)
next
  case (Cons form forms)
  from Cons.prems [unfolded put_forms.simps] show ?case
  proof (cases rule: catchM_cases)
    case (exn e st1)
    then obtain s1 where s1: "put_object cl key body (If_match form) (ss_endpoint st) = (Inl e, s1)" "ss_endpoint st1 = s1"
      by (auto simp: latch_etag_style_def elim!: bindM_cases request_cases)
    have same: "obj s1 = obj (ss_endpoint st)" by (rule put_failed_all [OF s1(1)])
    show ?thesis
    proof (cases "is_precondition_failure e")
      case True
      then have "put_forms cl key body forms st1 = (r, st')" using exn by simp
      from Cons.IH [OF this] show ?thesis
        using later_trans [OF put_later [OF s1(1)]] same s1(2) by auto
    next
      case False
      then have "st' = st1" using exn by simp
      then show ?thesis using put_later [OF s1(1)] same s1(2) by simp
    qed
  next
    case (val b)
    then obtain s1 where s1: "put_object cl key body (If_match form) (ss_endpoint st) = (Inr (), s1)" "ss_endpoint st' = s1" "b"
      by (auto simp: latch_etag_style_def elim!: bindM_InrE request_cases)
    then show ?thesis using put_later [OF s1(1)] put_frame [OF s1(1)] val by auto
  qed
qed

lemma put_conditional_landed:
  assumes "put_conditional cl key body etag st = (Inr True, st')"
  shows "\<exists>s pre. later (ss_endpoint st) s \<and> obj s = obj (ss_endpoint st) \<and>
    put_object cl key body pre s = (Inr (), ss_endpoint st') \<and>
    (case etag of None \<Rightarrow> pre = If_none_match | Some e \<Rightarrow> \<exists>form. pre = If_match form \<and> bare form = bare e)"
proof (cases etag)
  case None
  then obtain s where "put_object cl key body If_none_match (ss_endpoint st) = (Inr (), s)" "ss_endpoint st' = s"
    using assms by (auto simp: put_conditional_def elim!: catchM_cases bindM_InrE request_cases split: if_splits)
  then show ?thesis using None later_refl by (intro exI [of _ "ss_endpoint st"] exI [of _ If_none_match]) simp
next
  case (Some e)
  then show ?thesis
    using put_forms_landed [of key body "etag_forms (ss_etag_style st) e" st st'] assms etag_forms_bare
    by (fastforce simp: put_conditional_def)
qed

lemma put_conditional_keeps:
  assumes "put_conditional cl key body etag st = (r, st')"
  shows "later (ss_endpoint st) (ss_endpoint st') \<and>
    (\<forall>k. k \<noteq> key \<or> r \<noteq> Inr True \<longrightarrow> obj (ss_endpoint st') k = obj (ss_endpoint st) k)"
proof (cases etag)
  case (Some e)
  then show ?thesis using assms put_forms_keeps by (auto simp: put_conditional_def)
next
  case None
  obtain r1 s where s: "put_object cl key body If_none_match (ss_endpoint st) = (r1, s)"
    by (cases "put_object cl key body If_none_match (ss_endpoint st)")
  have e: "ss_endpoint st' = s" "r = Inr True \<longleftrightarrow> (\<exists>u. r1 = Inr u)"
    using assms None s
    by (auto simp: put_conditional_def catchM_def bindM_def request_def split: sum.splits if_splits)
  show ?thesis
  proof (cases r1)
    case (Inl x)
    then show ?thesis using e put_later [OF s] put_failed_all s by simp
  next
    case (Inr u)
    then show ?thesis using e put_later [OF s] put_frame [OF s] by auto
  qed
qed

lemma load_with_etag_read:
  assumes "load_with_etag cl key st = (r, st')"
  shows "st' = st \<and> (\<exists>x. r = Inr x) \<and>
    (\<forall>current e. r = Inr (Read current (Some e)) \<longrightarrow>
       (\<exists>b. obj (ss_endpoint st) key = Some (b, e) \<and> current = document (Some (b, e)))) \<and>
    (\<forall>current. r = Inr (Read current None) \<longrightarrow> current = None)"
proof -
  obtain g where g: "get_object cl key (ss_endpoint st) = (g, ss_endpoint st)"
    by (metis get_pure pureM_state prod.collapse)
  show ?thesis
  proof (cases g)
    case (Inl x)
    then show ?thesis using assms g
      by (auto simp: load_with_etag_def catchM_def bindM_def request_def split: if_splits)
  next
    case (Inr y)
    obtain b et where y: "y = (b, et)" by (cases y)
    obtain e where "et = Some e" "obj (ss_endpoint st) key = Some (b, e)"
      using get_found g Inr y by blast
    then show ?thesis using assms g Inr y
      by (auto simp: load_with_etag_def catchM_def bindM_def request_def document_def split: content.split)
  qed
qed

text \<open>
  A round that wins wrote what the mutation makes of the document that is there at the very moment of
  the write, although other processes may have acted since the read.
\<close>

lemma round_wins:
  assumes read: "load_with_etag cl key st = (Inr (Read current etag), st0)"
    and others: "later (ss_endpoint st) (ss_endpoint st1)"
    and put: "put_conditional cl key body etag st1 = (Inr True, st')"
  shows "\<exists>s pre. later (ss_endpoint st) s \<and> obj s = obj (ss_endpoint st1) \<and> document (obj s key) = current \<and>
    put_object cl key body pre s = (Inr (), ss_endpoint st')"
proof -
  obtain s pre where s: "later (ss_endpoint st1) s" "put_object cl key body pre s = (Inr (), ss_endpoint st')"
    "case etag of None \<Rightarrow> pre = If_none_match | Some e \<Rightarrow> \<exists>form. pre = If_match form \<and> bare form = bare e"
    and same: "obj s = obj (ss_endpoint st1)"
    using put_conditional_landed [OF put] by blast
  have met: "precondition_met pre (obj s key)" using put_stored [OF s(2)] by blast
  have l: "later (ss_endpoint st) s" by (rule later_trans [OF others s(1)])
  have "document (obj s key) = current"
  proof (cases etag)
    case None
    then show ?thesis using s(3) met load_with_etag_read [OF read] by (simp add: precondition_met_def)
  next
    case (Some e)
    then obtain b where b: "obj (ss_endpoint st) key = Some (b, e)" "current = document (Some (b, e))"
      using load_with_etag_read [OF read] by blast
    obtain b' e' where o: "obj s key = Some (b', e')" "bare e = bare e'"
      using Some s(3) met by (auto simp: precondition_met_def split: option.splits)
    then have "b = b'" using etag_means_body [OF l b(1) o(1)] by blast
    then show ?thesis using o b by (simp add: document_def)
  qed
  with l s(2) same show ?thesis by blast
qed

lemma update_rounds_wins:
  assumes "\<And>p s. later s (others p s)" and "update_rounds others cl key mutate k n refused st = (Inr d, st')"
  shows "\<exists>s pre d0. later (ss_endpoint st) s \<and> mutate (document (obj s key)) = Inr d0 \<and> d = stamp_version d0 \<and>
    put_object cl key (Json d) pre s = (Inr (), ss_endpoint st')"
  using assms(2)
proof (induction n arbitrary: k refused st)
  case 0
  then show ?case by simp
next
  case (Suc n)
  obtain r where r: "load_with_etag cl key st = (Inr r, st)"
    by (metis load_with_etag_read prod.collapse)
  obtain current etag where c: "r = Read current etag"
    using Suc.prems r by (cases r) (auto simp: bindM_def)
  obtain u where u: "mutate current = Inr u"
    using Suc.prems r c by (cases "mutate current") (auto simp: bindM_def)
  define st1 where "st1 = st\<lparr>ss_endpoint := others (Before_write k) (ss_endpoint st)\<rparr>"
  have l1: "later (ss_endpoint st) (ss_endpoint st1)" by (simp add: st1_def assms(1))
  obtain landed st2 where p: "put_conditional cl key (Json (stamp_version u)) etag st1 = (Inr landed, st2)"
    and rest: "(if landed then ret (stamp_version u)
         else if etag \<noteq> None \<and> etag = refused then raise ConditionalWriteUnsupported
         else bindM (others_act (others (Backing_off k))) (\<lambda>_.
                update_rounds others cl key mutate (Suc k) n etag)) st2 = (Inr d, st')"
    using Suc.prems r c u
    by (auto simp: bindM_Inr others_act_def st1_def elim!: bindM_InrE)
  show ?case
  proof (cases landed)
    case True
    then have d: "d = stamp_version u" "st2 = st'" using rest by simp_all
    obtain s pre where "later (ss_endpoint st) s" "document (obj s key) = current"
      "put_object cl key (Json d) pre s = (Inr (), ss_endpoint st')"
      using round_wins [OF r [unfolded c] l1, of "Json d" st'] p True d by auto
    then show ?thesis using u d by blast
  next
    case False
    define st3 where "st3 = st2\<lparr>ss_endpoint := others (Backing_off k) (ss_endpoint st2)\<rparr>"
    have 3: "update_rounds others cl key mutate (Suc k) n etag st3 = (Inr d, st')"
      using rest False by (auto simp: others_act_def bindM_def st3_def split: if_splits)
    have "later (ss_endpoint st2) (ss_endpoint st3)" by (simp add: st3_def assms(1))
    moreover have "later (ss_endpoint st1) (ss_endpoint st2)" using put_conditional_keeps [OF p] by blast
    ultimately have "later (ss_endpoint st) (ss_endpoint st3)" using l1 later_trans by blast
    then show ?thesis using Suc.IH [OF 3] later_trans by blast
  qed
qed

lemma undisturbed_wins:
  assumes "update_rounds undisturbed cl key mutate k n refused st = (Inr d, st')"
  shows "\<exists>d0. mutate (document (obj (ss_endpoint st) key)) = Inr d0 \<and> d = stamp_version d0 \<and>
    document (obj (ss_endpoint st') key) = Some d"
  using assms
proof (induction n arbitrary: k refused st)
  case 0
  then show ?case by simp
next
  case (Suc n)
  obtain r where r: "load_with_etag cl key st = (Inr r, st)"
    by (metis load_with_etag_read prod.collapse)
  obtain current etag where c: "r = Read current etag"
    using Suc.prems r by (cases r) (auto simp: bindM_def)
  obtain u where u: "mutate current = Inr u"
    using Suc.prems r c by (cases "mutate current") (auto simp: bindM_def)
  obtain landed st2 where p: "put_conditional cl key (Json (stamp_version u)) etag st = (Inr landed, st2)"
    and rest: "(if landed then ret (stamp_version u)
         else if etag \<noteq> None \<and> etag = refused then raise ConditionalWriteUnsupported
         else update_rounds undisturbed cl key mutate (Suc k) n etag) st2 = (Inr d, st')"
    using Suc.prems r c u by (auto simp: bindM_Inr elim!: bindM_InrE cong: if_cong)
  show ?case
  proof (cases landed)
    case True
    then have d: "d = stamp_version u" "st2 = st'" using rest by simp_all
    obtain s pre where "obj s = obj (ss_endpoint st)" "document (obj s key) = current"
      "put_object cl key (Json d) pre s = (Inr (), ss_endpoint st')"
      using round_wins [OF r [unfolded c] later_refl, of "Json d" st'] p True d by auto
    then show ?thesis using u d put_stored by fastforce
  next
    case False
    then have 3: "update_rounds undisturbed cl key mutate (Suc k) n etag st2 = (Inr d, st')"
      using rest by (auto split: if_splits)
    then show ?thesis using Suc.IH [OF 3] put_conditional_keeps [OF p] False by auto
  qed
qed

text \<open>Without other writers, an update that raises has changed no object, and no update touches another key.\<close>

lemma undisturbed_keeps:
  assumes "update_rounds undisturbed cl key mutate k n refused st = (r, st')"
  shows "\<forall>k'. k' \<noteq> key \<or> (\<exists>x. r = Inl x) \<longrightarrow> obj (ss_endpoint st') k' = obj (ss_endpoint st) k'"
  using assms
proof (induction n arbitrary: k refused st)
  case 0
  then show ?case by simp
next
  case (Suc n)
  obtain x where x: "load_with_etag cl key st = (Inr x, st)"
    by (metis load_with_etag_read prod.collapse)
  show ?case
  proof (cases "\<exists>current etag u. x = Read current etag \<and> mutate current = Inr u")
    case False
    then have "st' = st" using Suc.prems x
      by (cases x) (auto simp: bindM_def of_result_def split: sum.splits)
    then show ?thesis by simp
  next
    case True
    then obtain current etag u where c: "x = Read current etag" "mutate current = Inr u" by blast
    obtain y st2 where p: "put_conditional cl key (Json (stamp_version u)) etag st = (y, st2)"
      by (cases "put_conditional cl key (Json (stamp_version u)) etag st")
    note keeps = put_conditional_keeps [OF p]
    have run: "(case y of Inl e \<Rightarrow> raise e | Inr landed \<Rightarrow>
        if landed then ret (stamp_version u)
        else if etag \<noteq> None \<and> etag = refused then raise ConditionalWriteUnsupported
        else update_rounds undisturbed cl key mutate (Suc k) n etag) st2 = (r, st')"
      using Suc.prems x c p
      by (cases y) (auto simp: bindM_Inr bindM_Inl)
    show ?thesis
    proof (cases "y = Inr False \<and> \<not> (etag \<noteq> None \<and> etag = refused)")
      case True
      then show ?thesis using run Suc.IH [of "Suc k" etag st2] keeps by auto
    next
      case False
      then have "st' = st2" "y = Inr True \<longrightarrow> (\<exists>d. r = Inr d)" using run by (auto split: sum.splits if_splits)
      then show ?thesis using keeps by auto
    qed
  qed
qed

end

section \<open>The contract\<close>

lemma s3_storage_ops [simp]:
  "st_save (s3_storage cf cl) = s3_save cf cl" "st_load (s3_storage cf cl) = s3_load cf cl"
  "st_update_json (s3_storage cf cl) = s3_update_json undisturbed cf cl"
  "st_create_json (s3_storage cf cl) = s3_create_json cf cl" "st_list_events (s3_storage cf cl) = s3_list_events cf cl"
  by (simp_all add: s3_storage_def)

context s3_endpoint
begin

lemma s3_load_spec:
  assumes "s3_load cf cl e f st = (Inr (Some d), st')"
  shows "s3_view cf obj st e f = Some d"
proof -
  obtain b et s where g: "get_object cl (s3_key cf e f) (ss_endpoint st) = (Inr (b, et), s)" "b = Json d"
    using assms by (auto simp: s3_load_def elim!: catchM_cases bindM_InrE request_cases split: content.splits)
  then show ?thesis using get_found [OF g(1)] by (auto simp: s3_view_def)
qed

lemma s3_create_spec:
  assumes "s3_create_json cf cl e f d st = (r, st')"
  shows "r = Inr True \<Longrightarrow> \<not> s3_taken cf obj st e f \<and> s3_view cf obj st' e f = Some (stamp_version d)"
    and "r = Inr False \<Longrightarrow> s3_taken cf obj st e f"
    and "k \<noteq> s3_key cf e f \<or> s3_taken cf obj st e f \<Longrightarrow> obj (ss_endpoint st') k = obj (ss_endpoint st) k"
proof -
  let ?k = "s3_key cf e f"
  obtain x s where p: "put_object cl ?k (Json (stamp_version d)) If_none_match (ss_endpoint st) = (x, s)"
    by (cases "put_object cl ?k (Json (stamp_version d)) If_none_match (ss_endpoint st)")
  have s: "ss_endpoint st' = s"
    and r: "r = (case x of Inr u \<Rightarrow> Inr True | Inl e \<Rightarrow> if is_precondition_failure e then Inr False else Inl e)"
    using assms p by (auto simp: s3_create_json_def catchM_def bindM_def request_def split: sum.splits if_splits)
  show "\<not> s3_taken cf obj st e f \<and> s3_view cf obj st' e f = Some (stamp_version d)" if won: "r = Inr True"
  proof -
    have "x = Inr ()" using r won by (auto split: sum.splits if_splits)
    then show ?thesis using put_stored p s
      by (fastforce simp: s3_taken_def s3_view_def precondition_met_def)
  qed
  show "s3_taken cf obj st e f" if lost: "r = Inr False"
  proof -
    obtain y where "x = Inl y" "is_precondition_failure y" using r lost by (auto split: sum.splits if_splits)
    then show ?thesis using create_refused p by (simp add: s3_taken_def)
  qed
  show "obj (ss_endpoint st') k = obj (ss_endpoint st) k" if "k \<noteq> ?k \<or> s3_taken cf obj st e f"
  proof (cases "k = ?k")
    case False
    then show ?thesis using put_frame [OF p] s by simp
  next
    case True
    then have t: "obj (ss_endpoint st) ?k \<noteq> None" using that by (simp add: s3_taken_def)
    then obtain y where "x = Inl y"
      using put_stored [of ?k "Json (stamp_version d)" If_none_match "ss_endpoint st" s] p
      by (cases x) (auto simp: precondition_met_def)
    then show ?thesis using put_failed p s True by simp
  qed
qed

lemma s3_save_spec:
  assumes "s3_save cf cl e d f st = (r, st')"
  shows "r = Inr () \<Longrightarrow> \<exists>d'. same_fields d d' \<and> s3_view cf obj st' e f = Some d'"
    and "k \<noteq> s3_key cf e f \<or> (\<exists>x. r = Inl x) \<Longrightarrow> obj (ss_endpoint st') k = obj (ss_endpoint st) k"
proof -
  let ?k = "s3_key cf e f"
  consider (bad) x where "stamp_saved (ss_clock st) d = Inl x" "st' = st" "r = Inl x"
    | (good) d' where "stamp_saved (ss_clock st) d = Inr d'"
        "put_object cl ?k (Json d') Always (ss_endpoint st) = (r, ss_endpoint st')"
    using assms
    by (cases "stamp_saved (ss_clock st) d") (auto simp: s3_save_def elim!: request_cases)
  note sv = this
  show "\<exists>d'. same_fields d d' \<and> s3_view cf obj st' e f = Some d'" if ok: "r = Inr ()"
    using sv
  proof cases
    case (bad x)
    then show ?thesis using ok by simp
  next
    case (good d')
    then obtain et where "obj (ss_endpoint st') ?k = Some (Json d', et)" using put_stored ok by blast
    then show ?thesis using same_fields_saved [OF good(1)] by (auto simp: s3_view_def)
  qed
  show "obj (ss_endpoint st') k = obj (ss_endpoint st) k" if "k \<noteq> ?k \<or> (\<exists>x. r = Inl x)"
    using sv
  proof cases
    case (bad x)
    then show ?thesis by simp
  next
    case (good d')
    then show ?thesis using put_failed put_frame that by (cases "k = ?k") auto
  qed
qed

end

lemma view_frame:
  assumes "s3_key_ok e f" and "s3_key_ok e' f'" and "(e', f') \<noteq> (e, f)"
    and "\<And>k. k \<noteq> s3_key cf e f \<Longrightarrow> obj (ss_endpoint t) k = obj (ss_endpoint s) k"
  shows "s3_view cf obj t e' f' = s3_view cf obj s e' f' \<and> s3_taken cf obj t e' f' = s3_taken cf obj s e' f'"
proof -
  have "s3_key cf e' f' \<noteq> s3_key cf e f" using s3_key_eq [OF assms(1,2), of cf] assms(3) by auto
  then show ?thesis using assms(4) by (simp add: s3_view_def s3_taken_def)
qed

text \<open>The S3 backend meets the contract the local one meets, atomic update included.\<close>

sublocale s3_endpoint \<subseteq> s3: atomic_storage "s3_storage cf cl" "s3_view cf obj" "s3_taken cf obj" s3_key_ok
  for cf
proof unfold_locales
  fix s t :: "'s s3_state" and e f e' f' :: string and d :: doc and x :: exn
  show "s3_view cf obj s e f \<noteq> None \<Longrightarrow> s3_taken cf obj s e f"
    by (auto simp: s3_view_def s3_taken_def document_def split: option.splits)
  show "pureM (st_load (s3_storage cf cl) e f)"
    unfolding s3_storage_ops s3_load_def by (intro pureM_catchM pureM_bindM request_pure get_pure pureM_ret)
  show "pureM (st_list_events (s3_storage cf cl))"
    unfolding s3_storage_ops s3_list_events_def Let_def
    by (intro pureM_catchM pureM_bindM request_pure list_pure pureM_ret)
  show "s3_key_ok e f \<Longrightarrow> st_load (s3_storage cf cl) e f s = (Inr (Some d), t) \<Longrightarrow> s3_view cf obj s e f = Some d"
    using s3_load_spec by simp
  show "s3_key_ok e f \<Longrightarrow> st_create_json (s3_storage cf cl) e f d s = (Inr True, t) \<Longrightarrow>
      \<not> s3_taken cf obj s e f \<and> s3_view cf obj t e f = Some (stamp_version d)"
    using s3_create_spec(1) by simp
  show "s3_key_ok e f \<Longrightarrow> st_create_json (s3_storage cf cl) e f d s = (Inr False, t) \<Longrightarrow> s3_taken cf obj s e f"
    using s3_create_spec(2) by simp
next
  fix s t :: "'s s3_state" and e f e' f' :: string and d :: doc and r :: "exn + bool"
  assume k: "s3_key_ok e f" "s3_key_ok e' f'" "st_create_json (s3_storage cf cl) e f d s = (r, t)"
    "(e', f') \<noteq> (e, f) \<or> s3_taken cf obj s e' f'"
  have c: "s3_create_json cf cl e f d s = (r, t)" using k(3) by simp
  have "s3_key cf e' f' \<noteq> s3_key cf e f \<or> s3_taken cf obj s e f"
    using s3_key_eq [OF k(2,1)] k(4) by auto
  then show "s3_view cf obj t e' f' = s3_view cf obj s e' f' \<and> s3_taken cf obj t e' f' = s3_taken cf obj s e' f'"
    using s3_create_spec(3) [OF c] by (simp add: s3_view_def s3_taken_def)
next
  fix s t :: "'s s3_state" and e f e' f' :: string and d :: doc and u :: unit and x :: exn and r :: "exn + unit"
  show "s3_key_ok e f \<Longrightarrow> st_save (s3_storage cf cl) e d f s = (Inr u, t) \<Longrightarrow>
      \<exists>d'. same_fields d d' \<and> s3_view cf obj t e f = Some d'"
    using s3_save_spec(1) by simp
  show "s3_key_ok e f \<Longrightarrow> st_save (s3_storage cf cl) e d f s = (Inl x, t) \<Longrightarrow>
      s3_view cf obj t e f = s3_view cf obj s e f \<and> s3_taken cf obj t e f = s3_taken cf obj s e f"
    using s3_save_spec(2) by (simp add: s3_view_def s3_taken_def)
  show "s3_key_ok e f \<Longrightarrow> s3_key_ok e' f' \<Longrightarrow> st_save (s3_storage cf cl) e d f s = (r, t) \<Longrightarrow>
      (e', f') \<noteq> (e, f) \<Longrightarrow>
      s3_view cf obj t e' f' = s3_view cf obj s e' f' \<and> s3_taken cf obj t e' f' = s3_taken cf obj s e' f'"
    using s3_save_spec(2) [of cf e d f s r t] by (intro view_frame [where e = e and f = f]) auto
next
  fix s t :: "'s s3_state" and e f :: string and m :: "doc option \<Rightarrow> exn + doc" and d :: doc
  assume "st_update_json (s3_storage cf cl) e f m s = (Inr d, t)"
  then have "update_rounds undisturbed cl (s3_key cf e f) m 0 (cf_max_attempts cf) None s = (Inr d, t)"
    by (simp add: s3_update_json_def)
  then show "\<exists>d0. m (s3_view cf obj s e f) = Inr d0 \<and> d = stamp_version d0 \<and> s3_view cf obj t e f = Some d"
    unfolding s3_view_def by (rule undisturbed_wins)
next
  fix s t :: "'s s3_state" and e f e' f' :: string and m :: "doc option \<Rightarrow> exn + doc" and x :: exn and r :: "exn + doc"
  show "s3_key_ok e f \<Longrightarrow> st_update_json (s3_storage cf cl) e f m s = (Inl x, t) \<Longrightarrow>
      s3_view cf obj t e f = s3_view cf obj s e f"
    using undisturbed_keeps by (simp add: s3_update_json_def s3_view_def)
  show "s3_key_ok e f \<Longrightarrow> s3_key_ok e' f' \<Longrightarrow> st_update_json (s3_storage cf cl) e f m s = (r, t) \<Longrightarrow>
      (e', f') \<noteq> (e, f) \<Longrightarrow>
      s3_view cf obj t e' f' = s3_view cf obj s e' f' \<and> s3_taken cf obj t e' f' = s3_taken cf obj s e' f'"
    using undisturbed_keeps [of "s3_key cf e f" m 0 "cf_max_attempts cf" None s r t]
    by (intro view_frame [where e = e and f = f]) (auto simp: s3_update_json_def)
qed

section \<open>A reference endpoint\<close>

text \<open>
  An object store with the behaviours the code was written for: ETags compared in the quoted or in the
  bare form, stores that refuse every conditional overwrite, and keys whose requests fail. The store is
  the log of its writes and deletions, newest first; the position of a write in the log is its ETag.
\<close>

record bucket =
  bk_log :: "(string \<times> content option) list"
  bk_bare :: bool
  bk_no_overwrite :: bool
  bk_down :: "string \<Rightarrow> bool"

definition bk_etag :: "nat \<Rightarrow> string" where
  "bk_etag n = [CHR 0x22] @ show_nat n @ [CHR 0x22]"

fun last_put :: "(string \<times> content option) list \<Rightarrow> string \<Rightarrow> (content \<times> string) option" where
  "last_put [] k = None"
| "last_put ((k', b) # older) k =
     (if k' = k then map_option (\<lambda>c. (c, bk_etag (length older))) b else last_put older k)"

definition bk_obj :: "bucket \<Rightarrow> string \<Rightarrow> (content \<times> string) option" where
  "bk_obj s = last_put (bk_log s)"

definition bk_accepts :: "bucket \<Rightarrow> string \<Rightarrow> precondition \<Rightarrow> bool" where
  "bk_accepts s k pre =
     (case pre of
        Always \<Rightarrow> True
      | If_none_match \<Rightarrow> bk_obj s k = None
      | If_match form \<Rightarrow>
          \<not> bk_no_overwrite s \<and>
          (case bk_obj s k of None \<Rightarrow> False | Some (b, e) \<Rightarrow> form = (if bk_bare s then bare e else e)))"

definition bk_put :: "string \<Rightarrow> content \<Rightarrow> precondition \<Rightarrow> (bucket, unit) io" where
  "bk_put k b pre s =
     (if bk_down s k then (Inl (ServiceError ''unavailable''), s)
      else if bk_accepts s k pre
      then (Inr (), s\<lparr>bk_log := (k, Some b) # bk_log s\<rparr>)
      else (Inl (ClientError (Some ''PreconditionFailed'') (Some 412)), s))"

definition bk_get :: "string \<Rightarrow> (bucket, content \<times> string option) io" where
  "bk_get k s =
     (if bk_down s k then (Inl (ServiceError ''unavailable''), s)
      else (case bk_obj s k of
              None \<Rightarrow> (Inl (ClientError (Some ''NoSuchKey'') (Some 404)), s)
            | Some (b, e) \<Rightarrow> (Inr (b, Some e), s)))"

definition bk_keys :: "bucket \<Rightarrow> string list" where
  "bk_keys s = filter (\<lambda>k. bk_obj s k \<noteq> None) (remdups (map fst (bk_log s)))"

definition bk_list :: "string \<Rightarrow> (bucket, (string list \<times> string list) list) io" where
  "bk_list p s =
     (let ks = filter (starts_with p) (bk_keys s);
          rest = drop (length p);
          first = takeWhile (\<lambda>c. c \<noteq> CHR ''/'')
      in (Inr [(filter (\<lambda>k. CHR ''/'' \<notin> set (rest k)) ks,
                remdups (map (\<lambda>k. p @ first (rest k) @ ''/'') (filter (\<lambda>k. CHR ''/'' \<in> set (rest k)) ks)))], s))"

definition bk_client :: "bucket s3_client" where
  "bk_client =
     \<lparr>put_object = bk_put, get_object = bk_get, head_object = (\<lambda>k. bindM (bk_get k) (\<lambda>_. ret ())),
      delete_object = (\<lambda>k s. (Inr (), s\<lparr>bk_log := (k, None) # bk_log s\<rparr>)), list_pages_below = bk_list\<rparr>"

definition bk_later :: "bucket \<Rightarrow> bucket \<Rightarrow> bool" where
  "bk_later s t \<longleftrightarrow> suffix (bk_log s) (bk_log t)"

lemma last_put_nth:
  "last_put l k = Some (b, e) \<Longrightarrow> \<exists>n < length l. e = bk_etag n \<and> rev l ! n = (k, Some b)"
proof (induction l k rule: last_put.induct)
  case (1 k)
  then show ?case by simp
next
  case (2 k' c older k)
  show ?case
  proof (cases "k' = k")
    case True
    then have "e = bk_etag (length older)" "c = Some b" using "2.prems" by auto
    then show ?thesis using True by (intro exI [of _ "length older"]) (simp add: nth_append)
  next
    case False
    then obtain n where n: "n < length older" "e = bk_etag n" "rev older ! n = (k, Some b)" using 2 by auto
    have "rev ((k', c) # older) ! n = rev older ! n" using n(1) by (simp add: nth_append)
    then show ?thesis using n by (intro exI [of _ n]) simp
  qed
qed

lemma bk_etag_eq: "bare (bk_etag n) = bare (bk_etag m) \<Longrightarrow> n = m"
proof -
  have "bare (bk_etag n) = show_nat n" for n
  proof -
    have q: "\<not> is_quote c" if "c \<in> set (show_nat n)" for c
      using show_nat_digits [OF that] by (auto simp: is_quote_def is_digit_nat)
    have l: "lstrip is_quote (bk_etag n) = show_nat n @ [CHR 0x22]"
      using q show_nat_nonempty [of n] by (cases "show_nat n") (auto simp: bk_etag_def lstrip_def is_quote_def)
    show ?thesis
      unfolding bare_def l using q show_nat_nonempty [of n]
      by (cases "rev (show_nat n)") (auto simp: rstrip_def is_quote_def)
  qed
  moreover assume "bare (bk_etag n) = bare (bk_etag m)"
  ultimately have "nat_of_digits (show_nat n) = nat_of_digits (show_nat m)" by metis
  then show ?thesis by simp
qed

lemma bk_put_cases:
  assumes "bk_put k b pre s = (r, t)"
  obtains (stored) "r = Inr ()" "bk_accepts s k pre" "t = s\<lparr>bk_log := (k, Some b) # bk_log s\<rparr>"
  | (refused) x where "r = Inl x" "t = s" "is_precondition_failure x \<longrightarrow> \<not> bk_accepts s k pre"
proof -
  consider (up) "\<not> bk_down s k" "bk_accepts s k pre" | (down) "bk_down s k" | (no) "\<not> bk_down s k" "\<not> bk_accepts s k pre"
    by blast
  then show ?thesis
  proof cases
    case up
    then show ?thesis using assms by (intro stored) (simp_all add: bk_put_def)
  next
    case down
    then show ?thesis
      using assms by (intro refused [of "ServiceError ''unavailable''"]) (simp_all add: bk_put_def is_precondition_failure_def)
  next
    case no
    then show ?thesis
      using assms by (intro refused [of "ClientError (Some ''PreconditionFailed'') (Some 412)"]) (simp_all add: bk_put_def)
  qed
qed

interpretation bucket: s3_endpoint bk_client bk_obj bk_later
proof unfold_locales
  fix s t u :: bucket and k k' p :: string and b b' :: content and pre and r :: "exn + unit"
  show "bk_later s s" by (simp add: bk_later_def)
  show "bk_later s t \<Longrightarrow> bk_later t u \<Longrightarrow> bk_later s u" by (auto simp: bk_later_def)
  show "pureM (get_object bk_client k)"
    by (auto simp: pureM_def bk_client_def bk_get_def split: option.split)
  show "pureM (list_pages_below bk_client p)" by (simp add: pureM_def bk_client_def bk_list_def Let_def)
  show "\<exists>e. et = Some e \<and> bk_obj s k = Some (b, e)" if "get_object bk_client k s = (Inr (b, et), t)" for et
    using that by (auto simp: bk_client_def bk_get_def split: if_splits option.splits)
  show "bk_obj t k' = bk_obj s k'" if "put_object bk_client k b pre s = (r, t)" "k' \<noteq> k"
    using that(1) [unfolded bk_client_def, simplified] that(2)
    by (cases rule: bk_put_cases) (auto simp: bk_obj_def)
  show "bk_later s t" if "put_object bk_client k b pre s = (r, t)"
    using that [unfolded bk_client_def, simplified]
    by (cases rule: bk_put_cases) (auto simp: bk_later_def suffix_ConsI)
  show "bk_obj t k = bk_obj s k" if "put_object bk_client k b pre s = (Inl x, t)" for x
    using that [unfolded bk_client_def, simplified] by (cases rule: bk_put_cases) auto
  show "precondition_met pre (bk_obj s k) \<and> (\<exists>e. bk_obj t k = Some (b, e))"
    if "put_object bk_client k b pre s = (Inr (), t)"
    using that [unfolded bk_client_def, simplified]
  proof (cases rule: bk_put_cases)
    case stored
    then show ?thesis
      by (cases pre) (auto simp: bk_accepts_def precondition_met_def bk_obj_def split: option.splits if_splits)
  qed auto
  show "bk_obj s k \<noteq> None"
    if "put_object bk_client k b If_none_match s = (Inl x, t)" "is_precondition_failure x" for x
    using that(1) [unfolded bk_client_def, simplified] that(2)
    by (cases rule: bk_put_cases) (auto simp: bk_accepts_def)
  show "b = b'" if l: "bk_later s t" "bk_obj s k = Some (b, e)" "bk_obj t k = Some (b', e')" "bare e = bare e'" for e e'
  proof -
    obtain n m where n: "n < length (bk_log s)" "e = bk_etag n" "rev (bk_log s) ! n = (k, Some b)"
      and m: "e' = bk_etag m" "rev (bk_log t) ! m = (k, Some b')"
      using last_put_nth l(2,3) unfolding bk_obj_def by metis
    have "n = m" using bk_etag_eq l(4) n m by blast
    moreover have "rev (bk_log t) ! n = rev (bk_log s) ! n"
      using l(1) n(1) by (auto simp: bk_later_def suffix_def nth_append)
    ultimately show ?thesis using n m by simp
  qed
qed

section \<open>The probe\<close>

lemma bind_outcomeM:
  assumes "bindM (outcomeM m) f s = (x, t)"
  obtains r u where "m s = (r, u)" "f r u = (x, t)"
  using assms by (cases "m s"; cases "fst (m s)") (auto simp: outcomeM_def catchM_def bindM_def)

context s3_endpoint
begin

lemma put_present:
  assumes "put_object cl k b pre s = (r, t)" and "obj s k \<noteq> None"
  shows "obj t k \<noteq> None"
  using assms put_stored [of k b pre s t] put_failed [of k b pre s _ t] by (cases r) auto

lemma probe_forms_present:
  assumes "probe_forms cl key forms s = (Inr c, t)" and "obj s key \<noteq> None"
  shows "obj t key \<noteq> None \<and> cp_create_only c = None"
  using assms
proof (induction forms arbitrary: s)
  case Nil
  then show ?case by (auto simp: nothing_known_def)
next
  case (Cons a forms)
  obtain style form where a: "a = (style, form)" by (cases a)
  obtain r u where u: "put_object cl key (probe_doc 1) (If_match form) s = (r, u)"
    and rest: "(case r of
         Inr _ \<Rightarrow> ret (nothing_known\<lparr>cp_overwrite := Some True, cp_etag_style := Some style\<rparr>)
       | Inl e \<Rightarrow>
           if is_precondition_failure e then probe_forms cl key forms
           else ret (nothing_known\<lparr>cp_error := Some e\<rparr>)) u = (Inr c, t)"
    using Cons.prems(1) unfolding a probe_forms.simps by (rule bind_outcomeM)
  have "obj u key \<noteq> None" by (rule put_present [OF u Cons.prems(2)])
  then show ?case using rest Cons.IH [of u] by (auto simp: nothing_known_def split: sum.splits if_splits)
qed

lemma probe_create_sees:
  assumes "probe_create cl key found s = (Inr c, t)" and "obj s key \<noteq> None" and "cp_create_only found = None"
  shows "cp_create_only c \<noteq> Some False"
proof -
  obtain r u where u: "put_object cl key (probe_doc 2) If_none_match s = (r, u)"
    and c: "c = (case r of
              Inr _ \<Rightarrow> found\<lparr>cp_create_only := Some False\<rparr>
            | Inl e \<Rightarrow> if is_precondition_failure e then found\<lparr>cp_create_only := Some True\<rparr>
                       else found\<lparr>cp_error := Some e\<rparr>)"
    using assms(1) unfolding probe_create_def by (rule bind_outcomeM) auto
  have "r \<noteq> Inr ()"
    using put_stored [of key "probe_doc 2" If_none_match s u] u assms(2) by (auto simp: precondition_met_def)
  then show ?thesis using c assms(3) by (cases r) auto
qed

lemma probe_overwrite_sees:
  assumes "probe_overwrite cl key etag s = (Inr c, t)" and "obj s key \<noteq> None"
  shows "cp_create_only c \<noteq> Some False"
  using assms(1) [unfolded probe_overwrite_def]
proof (rule bindM_InrE)
  fix found u
  assume f: "probe_forms cl key [(''quoted'', quoted etag), (''bare'', bare etag)] s = (Inr found, u)"
    and l: "(if cp_error found \<noteq> None then ret found else probe_create cl key found) u = (Inr c, t)"
  show ?thesis
    using l probe_forms_present [OF f assms(2)] probe_create_sees [of key found u c t] by (auto split: if_splits)
qed

lemma probe_present_sees:
  assumes "probe_present cl key s = (Inr c, t)" and "obj s key \<noteq> None"
  shows "cp_create_only c \<noteq> Some False"
  using assms(1) [unfolded probe_present_def]
proof (rule bind_outcomeM)
  fix g u
  assume g: "get_object cl key s = (g, u)"
    and l: "(case g of Inl e \<Rightarrow> probe_failed e
       | Inr r \<Rightarrow> probe_overwrite cl key (case snd r of None \<Rightarrow> [] | Some e \<Rightarrow> e)) u = (Inr c, t)"
  have "u = s" by (rule pureM_state [OF get_pure g])
  then show ?thesis
    using l probe_overwrite_sees assms(2) by (cases g) (auto simp: probe_failed_def nothing_known_def)
qed

text \<open>An endpoint that obeys the laws is never reported as one without create-only writes.\<close>

lemma probe_never_denies_create:
  assumes "probe_conditional_write cl base s = (Inr c, t)"
  shows "cp_create_only c \<noteq> Some False"
proof -
  let ?key = "probe_key base"
  obtain u where u: "bindM (outcomeM (put_object cl ?key (probe_doc 0) Always)) (\<lambda>w.
      case w of Inl e \<Rightarrow> probe_failed e | Inr _ \<Rightarrow> probe_present cl ?key) s = (Inr c, u)"
    using assms unfolding probe_conditional_write_def Let_def
    by (rule bindM_InrE) (auto elim!: bind_outcomeM)
  from u show ?thesis
  proof (rule bind_outcomeM)
    fix w s1
    assume w: "put_object cl ?key (probe_doc 0) Always s = (w, s1)"
      and l: "(case w of Inl e \<Rightarrow> probe_failed e | Inr _ \<Rightarrow> probe_present cl ?key) s1 = (Inr c, u)"
    show ?thesis
    proof (cases w)
      case (Inl e)
      then show ?thesis using l by (auto simp: probe_failed_def nothing_known_def)
    next
      case (Inr x)
      then have "obj s1 ?key \<noteq> None" using put_stored w by fastforce
      then show ?thesis using l Inr probe_present_sees by auto
    qed
  qed
qed

end

section \<open>Properties\<close>

context s3_endpoint
begin

lemma contract: "atomic_storage (s3_storage cf cl) (s3_view cf obj) (s3_taken cf obj) s3_key_ok"
  by (rule s3.atomic_storage_axioms)

lemma update_wins:
  assumes "\<And>p u. later u (others p u)" and "s3_update_json others cf cl e f mutate st = (Inr d, st')"
  shows "\<exists>u pre d0. later (ss_endpoint st) u \<and> mutate (document (obj u (s3_key cf e f))) = Inr d0 \<and> d = stamp_version d0 \<and>
    put_object cl (s3_key cf e f) (Json d) pre u = (Inr (), ss_endpoint st')"
  using assms(2) unfolding s3_update_json_def by (rule update_rounds_wins [where others = others, OF assms(1)])

end


definition cases_cf :: s3_config where
  "cases_cf = \<lparr>cf_bucket = ''b'', cf_prefix = ''cases'', cf_max_attempts = 8\<rparr>"

definition fresh_bucket :: "bucket s3_state" where
  "fresh_bucket = \<lparr>ss_endpoint = \<lparr>bk_log = [], bk_bare = True, bk_no_overwrite = False, bk_down = (\<lambda>_. False)\<rparr>,
     ss_etag_style = None, ss_clock = ''T''\<rparr>"


text \<open>
  C2. A conditional update loses no other writer's update. Whatever other processes do to the store
  between its reads and its writes, an update that returns stored, in one write, what the mutation makes
  of the document that was there at the moment of that write.
\<close>

theorem s3_update_loses_nothing:
  assumes "s3_endpoint cl obj later" and "\<And>p u. later u (others p u)"
    and "s3_update_json others cf cl e f mutate st = (Inr d, st')"
  shows "\<exists>u pre d0. later (ss_endpoint st) u \<and> mutate (document (obj u (s3_key cf e f))) = Inr d0 \<and> d = stamp_version d0 \<and>
    put_object cl (s3_key cf e f) (Json d) pre u = (Inr (), ss_endpoint st')"
  using assms by (rule s3_endpoint.update_wins)

definition add_one :: "doc option \<Rightarrow> exn + doc" where
  "add_one found = (case found of None \<Rightarrow> Inr [(''n'', JNum 1)]
     | Some d \<Rightarrow> (case jget d ''n'' of JNum n \<Rightarrow> Inr (jset ''n'' (JNum (n + 1)) d) | _ \<Rightarrow> Inl ValueError))"

text \<open>Another writer adds one between the first read and the first write.\<close>

definition rival :: "bucket others" where
  "rival p b = (if p = Before_write 0
     then b\<lparr>bk_log := (s3_key cases_cf ''g'' ''meta.json'', Some (Json [(''n'', JNum 1)])) # bk_log b\<rparr> else b)"

theorem s3_update_loses_nothing_witness:
  "\<exists>d st'. s3_update_json rival cases_cf bk_client ''g'' ''meta.json'' add_one fresh_bucket = (Inr d, st') \<and>
     jget d ''n'' = JNum 2 \<and> (\<exists>u pre. put_object bk_client (s3_key cases_cf ''g'' ''meta.json'') (Json d) pre u = (Inr (), ss_endpoint st'))"
proof -
  let ?r = "s3_update_json rival cases_cf bk_client ''g'' ''meta.json'' add_one fresh_bucket"
  have n: "map_sum id (\<lambda>d. jget d ''n'') (fst ?r) = Inr (JNum 2)" by code_simp
  obtain x st' where x: "?r = (x, st')" by (cases ?r)
  with n obtain d where d: "?r = (Inr d, st')" "jget d ''n'' = JNum 2" by (cases x) auto
  have l: "bk_later u (rival p u)" for p u by (simp add: bk_later_def rival_def suffix_ConsI)
  from s3_update_loses_nothing [OF bucket.s3_endpoint_axioms l d(1)] d show ?thesis by blast
qed

lemma refused_forms:
  assumes "\<And>form. \<exists>x. put_object cl key b (If_match form) (ss_endpoint st) = (Inl x, ss_endpoint st) \<and> is_precondition_failure x"
  shows "put_forms cl key b forms st = (Inr False, st)"
proof (induction forms)
  case Nil
  show ?case by simp
next
  case (Cons form forms)
  obtain x where "put_object cl key b (If_match form) (ss_endpoint st) = (Inl x, ss_endpoint st)" "is_precondition_failure x"
    using assms by blast
  then show ?case using Cons by (simp add: catchM_def bindM_def request_def)
qed

text \<open>
  An endpoint that serves a document but refuses every conditional overwrite of it is reported as
  such: the second refusal of an unchanged ETag raises, and the store is as it was. The update neither
  spends its remaining rounds nor claims to have written.
\<close>

theorem s3_refusal_is_reported:
  assumes "get_object cl (s3_key cf e f) (ss_endpoint st) = (Inr (Json d, Some etag), ss_endpoint st)"
    and "\<And>b form. \<exists>x. put_object cl (s3_key cf e f) b (If_match form) (ss_endpoint st) = (Inl x, ss_endpoint st) \<and>
          is_precondition_failure x"
    and "mutate (Some d) = Inr u" and "2 \<le> cf_max_attempts cf"
  shows "s3_update_json undisturbed cf cl e f mutate st = (Inl ConditionalWriteUnsupported, st)"
proof -
  let ?key = "s3_key cf e f"
  have st: "st\<lparr>ss_endpoint := ss_endpoint st\<rparr> = st" by simp
  have r: "load_with_etag cl ?key st = (Inr (Read (Some d) (Some etag)), st)"
    using assms(1) by (simp add: load_with_etag_def catchM_def bindM_def request_def)
  have p: "put_conditional cl ?key b (Some etag) st = (Inr False, st)" for b
    using refused_forms [OF assms(2)] by (simp add: put_conditional_def)
  obtain n where n: "cf_max_attempts cf = Suc (Suc n)" using assms(4) by (metis Suc_le_D numeral_2_eq_2 Suc_le_mono)
  show ?thesis
    using r p assms(3) by (simp add: s3_update_json_def n bindM_def cong: if_cong)
qed

theorem s3_refusal_is_reported_witness:
  "let st = fresh_bucket\<lparr>ss_endpoint := (ss_endpoint fresh_bucket)
        \<lparr>bk_log := [(s3_key cases_cf ''g'' ''meta.json'', Some (Json [(''n'', JNum 1)]))], bk_no_overwrite := True\<rparr>\<rparr>
   in s3_update_json undisturbed cases_cf bk_client ''g'' ''meta.json'' add_one st = (Inl ConditionalWriteUnsupported, st)"
proof -
  let ?st = "fresh_bucket\<lparr>ss_endpoint := (ss_endpoint fresh_bucket)
        \<lparr>bk_log := [(s3_key cases_cf ''g'' ''meta.json'', Some (Json [(''n'', JNum 1)]))], bk_no_overwrite := True\<rparr>\<rparr>"
  have g: "get_object bk_client (s3_key cases_cf ''g'' ''meta.json'') (ss_endpoint ?st) =
      (Inr (Json [(''n'', JNum 1)], Some (bk_etag 0)), ss_endpoint ?st)"
    by (simp add: bk_client_def bk_get_def bk_obj_def fresh_bucket_def)
  have p: "\<exists>x. put_object bk_client (s3_key cases_cf ''g'' ''meta.json'') b (If_match form) (ss_endpoint ?st) =
      (Inl x, ss_endpoint ?st) \<and> is_precondition_failure x" for b form
    by (simp add: bk_client_def bk_put_def bk_accepts_def fresh_bucket_def is_precondition_failure_def)
  have m: "add_one (Some [(''n'', JNum 1)]) = Inr [(''n'', JNum 2)]" by code_simp
  have n: "2 \<le> cf_max_attempts cases_cf" by (simp add: cases_cf_def)
  show ?thesis unfolding Let_def by (rule s3_refusal_is_reported [where mutate = add_one, OF g _ m n]) (rule p)
qed

end
