(* ===== verification/Identity.thy ===== *)
theory Identity
  imports Local_Storage
begin

text \<open>
  Case identity of the dead-letter lane: \<^verbatim>\<open>src/dlt/identity.py\<close>, with the identifier pattern of
  \<^verbatim>\<open>src/models/schemas.py\<close>. A case id is built from the record's topic, partition, offset and
  consumer group and is then used as a storage key, so it has to be unique and safe as a path.

  The digest (the first ten hexadecimal digits of a SHA-256) is the parameter \<open>digest\<close>; what the
  code relies on, ten hexadecimal characters, is the named hypothesis \<open>digest_ok\<close>.
\<close>

section \<open>Identifiers\<close>

definition id_char :: "char \<Rightarrow> bool" where
  "id_char c \<longleftrightarrow> is_upper c \<or> is_lower c \<or> is_digit c \<or>
     c = CHR ''_'' \<or> c = CHR ''.'' \<or> c = CHR '':'' \<or> c = CHR ''-''"

text \<open>\<^verbatim>\<open>re.match("^[A-Za-z0-9_.:-]{1,128}$", s)\<close>: the dollar sign also matches before a final newline.\<close>

definition matches_event_id :: "string \<Rightarrow> bool" where
  "matches_event_id s \<longleftrightarrow>
     (let body = (if s \<noteq> [] \<and> last s = CHR 0x0A then butlast s else s)
      in 1 \<le> length body \<and> length body \<le> 128 \<and> list_all id_char body)"

text \<open>\<^verbatim>\<open>re.fullmatch\<close> of the same pattern.\<close>

definition fullmatch_event_id :: "string \<Rightarrow> bool" where
  "fullmatch_event_id s \<longleftrightarrow> 1 \<le> length s \<and> length s \<le> 128 \<and> list_all id_char s"

definition CASE_ID_PREFIX :: string where
  "CASE_ID_PREFIX = ''dlt''"

definition MAX_CASE_ID_LENGTH :: nat where
  "MAX_CASE_ID_LENGTH = 128"

definition sanitise :: "string \<Rightarrow> string" where
  "sanitise s = map (\<lambda>c. if id_char c then c else CHR ''-'') s"

definition is_valid_case_id :: "string option \<Rightarrow> bool" where
  "is_valid_case_id case_id = (case case_id of None \<Rightarrow> False | Some c \<Rightarrow> c \<noteq> [] \<and> matches_event_id c)"

definition show_int :: "int \<Rightarrow> string" where
  "show_int n = (if n < 0 then CHR ''-'' # show_nat (nat (- n)) else show_nat (nat n))"

definition coordinates :: "(string \<Rightarrow> string) \<Rightarrow> int \<Rightarrow> int \<Rightarrow> string option \<Rightarrow> string" where
  "coordinates digest part offset consumer_group =
     (let grp = py_strip (case consumer_group of None \<Rightarrow> [] | Some g \<Rightarrow> g)
      in ''-'' @ show_int part @ ''-'' @ show_int offset @
         (if grp \<noteq> [] then ''-g'' @ digest grp else []))"

definition derive_case_id ::
    "(string \<Rightarrow> string) \<Rightarrow> string option \<Rightarrow> int option \<Rightarrow> int option \<Rightarrow> string option \<Rightarrow> string option" where
  "derive_case_id digest topic part offset consumer_group =
     (case (topic, part, offset) of
        (Some t, Some p, Some off) \<Rightarrow>
          let suffix = coordinates digest p off consumer_group;
              case_id = CASE_ID_PREFIX @ ''-'' @ sanitise t @ suffix;
              case_id = (if length case_id > MAX_CASE_ID_LENGTH
                         then let d = digest t;
                                  room = MAX_CASE_ID_LENGTH - length suffix - length d - length CASE_ID_PREFIX - 2
                              in CASE_ID_PREFIX @ ''-'' @ take room (sanitise t) @ ''-'' @ d @ suffix
                         else case_id)
          in if is_valid_case_id (Some case_id) then Some case_id else None
      | _ \<Rightarrow> None)"

definition STORAGE_KEY_SEPARATOR :: string where
  "STORAGE_KEY_SEPARATOR = ''__''"

definition storage_key :: "(string \<Rightarrow> string) \<Rightarrow> string option \<Rightarrow> string \<Rightarrow> string" where
  "storage_key digest ref_id case_id =
     (case ref_id of
        None \<Rightarrow> case_id
      | Some r \<Rightarrow>
          if r = [] then case_id
          else (let key = r @ STORAGE_KEY_SEPARATOR @ digest case_id
                in if length key \<le> MAX_CASE_ID_LENGTH \<and> is_valid_case_id (Some key) then key else case_id))"

text \<open>What is known of the digest.\<close>

definition is_hex :: "char \<Rightarrow> bool" where
  "is_hex c \<longleftrightarrow> is_digit c \<or> CHR ''a'' \<le> c \<and> c \<le> CHR ''f''"

definition digest_ok :: "(string \<Rightarrow> string) \<Rightarrow> bool" where
  "digest_ok digest \<longleftrightarrow> (\<forall>t. length (digest t) = 10 \<and> list_all is_hex (digest t))"


section \<open>Lemmas\<close>

lemma is_hex_id [simp]: "is_hex c \<Longrightarrow> id_char c"
  by (auto simp: is_hex_def id_char_def less_eq_char_def)

lemma digit_id [simp]: "is_digit c \<Longrightarrow> id_char c"
  by (simp add: id_char_def)

lemma digit_hex [simp]: "is_digit c \<Longrightarrow> is_hex c"
  by (simp add: is_hex_def)

lemma dash_id [simp]: "id_char CHR ''-''"
  by (simp add: id_char_def)

lemma dash_not_hex [simp]: "\<not> is_hex CHR ''-''"
  by (simp add: is_hex_def is_digit_nat less_eq_char_def)

lemma dash_not_digit [simp]: "\<not> is_digit CHR ''-''"
  by (simp add: is_digit_nat)

lemma g_not_digit [simp]: "\<not> is_digit CHR ''g''"
  by (simp add: is_digit_nat)

lemma newline_not_id: "\<not> id_char (CHR 0x0A)"
  by (simp add: id_char_def is_digit_nat less_eq_char_def)

lemma sanitise_id: "list_all id_char (sanitise s)"
  by (auto simp: sanitise_def list_all_iff)

lemma show_nat_all: "list_all is_digit (show_nat n)"
  by (simp add: list_all_iff show_nat_digits)

lemma show_int_id: "list_all id_char (show_int n)"
  by (auto simp: show_int_def list_all_iff dest: show_nat_digits)

text \<open>Splitting at the last dash recovers what was appended.\<close>

lemma append_dash_cancel:
  assumes "a @ CHR ''-'' # x = b @ CHR ''-'' # y" and "CHR ''-'' \<notin> set x" and "CHR ''-'' \<notin> set y"
  shows "a = b \<and> x = y"
proof -
  have "rev x @ CHR ''-'' # rev a = rev y @ CHR ''-'' # rev b"
    using arg_cong [OF assms(1), of rev] by simp
  moreover have "takeWhile (\<lambda>c. c \<noteq> CHR ''-'') (rev z @ CHR ''-'' # w) = rev z"
    if "CHR ''-'' \<notin> set z" for z w
    using that by (subst takeWhile_append2) auto
  ultimately have "rev x = rev y" using assms(2,3) by metis
  with assms(1) show ?thesis by simp
qed

lemma show_int_inj:
  assumes "0 \<le> m" and "0 \<le> n" and "show_int m = show_int n"
  shows "m = n"
proof -
  have "nat_of_digits (show_nat (nat m)) = nat_of_digits (show_nat (nat n))"
    using assms by (simp add: show_int_def)
  then show ?thesis using assms by simp
qed

lemma no_dash_show: "0 \<le> n \<Longrightarrow> CHR ''-'' \<notin> set (show_int n)"
  using show_nat_digits [of "CHR ''-''" "nat n"] by (auto simp: show_int_def)

lemma no_dash_digest: "digest_ok digest \<Longrightarrow> CHR ''-'' \<notin> set (digest t)"
  using dash_not_hex unfolding digest_ok_def list_all_iff by blast

lemma digits_not_g: "0 \<le> n \<Longrightarrow> show_int n \<noteq> CHR ''g'' # t"
proof
  assume "0 \<le> n" and "show_int n = CHR ''g'' # t"
  then have "CHR ''g'' \<in> set (show_nat (nat n))" by (simp add: show_int_def)
  then have "is_digit CHR ''g''" by (rule show_nat_digits)
  then show False by simp
qed

lemma fullmatch_matches: "fullmatch_event_id s \<Longrightarrow> matches_event_id s"
proof -
  assume f: "fullmatch_event_id s"
  have "last s \<noteq> CHR 0x0A" if "s \<noteq> []"
  proof
    assume "last s = CHR 0x0A"
    then have "id_char (CHR 0x0A)"
      using f last_in_set [OF that] by (auto simp: fullmatch_event_id_def list_all_iff)
    then show False using newline_not_id by blast
  qed
  with f show ?thesis by (auto simp: matches_event_id_def fullmatch_event_id_def)
qed

lemma matches_no_slash: "matches_event_id s \<Longrightarrow> CHR ''/'' \<notin> set s"
proof
  assume m: "matches_event_id s" and "CHR ''/'' \<in> set s"
  have "\<not> id_char CHR ''/''" by (simp add: id_char_def is_digit_nat less_eq_char_def)
  moreover have "CHR ''/'' \<in> set (if s \<noteq> [] \<and> last s = CHR 0x0A then butlast s else s)"
    using \<open>CHR ''/'' \<in> set s\<close>
    by (cases s rule: rev_cases) auto
  ultimately show False using m by (auto simp: matches_event_id_def Let_def list_all_iff split: if_splits)
qed

lemma coordinates_id: "digest_ok digest \<Longrightarrow> list_all id_char (coordinates digest p off g)"
  using show_int_id
  by (auto simp: coordinates_def Let_def digest_ok_def list_all_iff id_char_def [of "CHR ''g''"] less_eq_char_def)

text \<open>The coordinates are readable off the end of a case id, whatever the topic in front of them.\<close>

lemma coordinates_cancel:
  assumes d: "digest_ok digest" and n: "0 \<le> p" "0 \<le> off" "0 \<le> p'" "0 \<le> off'"
    and eq: "a @ coordinates digest p off g = b @ coordinates digest p' off' g'"
  shows "a = b \<and> p = p' \<and> off = off'"
proof -
  let ?G = "py_strip (case g of None \<Rightarrow> [] | Some x \<Rightarrow> x)"
  let ?G' = "py_strip (case g' of None \<Rightarrow> [] | Some x \<Rightarrow> x)"
  have two: "a = b \<and> p = p' \<and> off = off'"
    if "a @ CHR ''-'' # show_int p @ CHR ''-'' # show_int off = b @ CHR ''-'' # show_int p' @ CHR ''-'' # show_int off'"
    for a b
  proof -
    have "(a @ CHR ''-'' # show_int p) @ CHR ''-'' # show_int off =
        (b @ CHR ''-'' # show_int p') @ CHR ''-'' # show_int off'" using that by simp
    then have "a @ CHR ''-'' # show_int p = b @ CHR ''-'' # show_int p'" and o: "show_int off = show_int off'"
      using append_dash_cancel no_dash_show n by blast+
    then have "a = b" and "show_int p = show_int p'"
      using append_dash_cancel no_dash_show n by blast+
    with o show ?thesis using show_int_inj n by blast
  qed
  have nd: "CHR ''-'' \<notin> set (CHR ''g'' # digest x)" for x using no_dash_digest [OF d] by simp
  let ?A = "a @ CHR ''-'' # show_int p @ CHR ''-'' # show_int off"
  let ?B = "b @ CHR ''-'' # show_int p' @ CHR ''-'' # show_int off'"
  show ?thesis
  proof (cases "?G = []"; cases "?G' = []")
    assume "?G = []" "?G' = []"
    with eq two show ?thesis by (simp add: coordinates_def)
  next
    assume g: "?G = []" "?G' \<noteq> []"
    then have "(a @ CHR ''-'' # show_int p) @ CHR ''-'' # show_int off = ?B @ CHR ''-'' # CHR ''g'' # digest ?G'"
      using eq by (simp add: coordinates_def)
    then have "show_int off = CHR ''g'' # digest ?G'"
      using append_dash_cancel [OF _ no_dash_show [OF n(2)] nd] by blast
    then show ?thesis using digits_not_g n by blast
  next
    assume g: "?G \<noteq> []" "?G' = []"
    then have "?A @ CHR ''-'' # CHR ''g'' # digest ?G = (b @ CHR ''-'' # show_int p') @ CHR ''-'' # show_int off'"
      using eq by (simp add: coordinates_def)
    then have "CHR ''g'' # digest ?G = show_int off'"
      using append_dash_cancel [OF _ nd no_dash_show [OF n(4)]] by blast
    then show ?thesis using digits_not_g n by metis
  next
    assume "?G \<noteq> []" "?G' \<noteq> []"
    then have "?A @ CHR ''-'' # CHR ''g'' # digest ?G = ?B @ CHR ''-'' # CHR ''g'' # digest ?G'"
      using eq by (simp add: coordinates_def)
    then have "?A = ?B" using append_dash_cancel [OF _ nd nd] by blast
    then show ?thesis by (rule two)
  qed
qed

lemma derive_case_id_shape:
  assumes "derive_case_id digest t p off g = Some c"
  shows "\<exists>t' p' off' h. t = Some t' \<and> p = Some p' \<and> off = Some off' \<and>
     c = CASE_ID_PREFIX @ ''-'' @ h @ coordinates digest p' off' g \<and> matches_event_id c \<and>
     (h = sanitise t' \<or> (\<exists>n. h = take n (sanitise t') @ ''-'' @ digest t'))"
  using assms
  by (auto simp: derive_case_id_def Let_def is_valid_case_id_def split: option.splits if_splits)

lemma case_id_matches:
  assumes "digest_ok digest" and "derive_case_id digest t p off g = Some c"
  shows "fullmatch_event_id c"
proof -
  obtain t' p' off' h where c: "c = CASE_ID_PREFIX @ ''-'' @ h @ coordinates digest p' off' g"
    and m: "matches_event_id c"
    and h: "h = sanitise t' \<or> (\<exists>n. h = take n (sanitise t') @ ''-'' @ digest t')"
    using derive_case_id_shape [OF assms(2)] by blast
  have "list_all id_char h"
    using h sanitise_id [of t'] assms(1) set_take_subset [of _ "sanitise t'"]
    by (auto simp: digest_ok_def list_all_iff) blast
  then have all: "list_all id_char c"
    using coordinates_id [OF assms(1)] unfolding c by (simp add: CASE_ID_PREFIX_def id_char_def less_eq_char_def)
  have "c \<noteq> []" unfolding c by (simp add: CASE_ID_PREFIX_def)
  then have "last c \<noteq> CHR 0x0A" using all last_in_set newline_not_id by (metis list_all_iff)
  then show ?thesis using m all \<open>c \<noteq> []\<close> by (auto simp: matches_event_id_def fullmatch_event_id_def Let_def)
qed


section \<open>Properties\<close>

text \<open>A derived case id is a safe storage key: it matches the identifier pattern and stays inside the
  storage root, with every character an identifier character and at most 128 of them.\<close>

theorem case_id_is_safe:
  assumes "digest_ok digest" and "derive_case_id digest t p off g = Some c"
  shows "fullmatch_event_id c \<and> resolve_dir base c = Inr (base @ [''casebook_'' @ c])"
proof -
  have "matches_event_id c" using derive_case_id_shape [OF assms(2)] by blast
  then show ?thesis using case_id_matches [OF assms] matches_no_slash resolve_dir_plain by blast
qed

theorem case_id_is_safe_witness:
  "derive_case_id (\<lambda>_. ''0123456789'') (Some ''a/b'') (Some 3) (Some 17) None = Some ''dlt-a-b-3-17'' \<and>
   fullmatch_event_id ''dlt-a-b-3-17''"
proof -
  have d: "digest_ok (\<lambda>_. ''0123456789'')" by (simp add: digest_ok_def is_hex_def is_digit_nat)
  have r: "derive_case_id (\<lambda>_. ''0123456789'') (Some ''a/b'') (Some 3) (Some 17) None = Some ''dlt-a-b-3-17''"
    by code_simp
  show ?thesis using case_id_is_safe [OF d r] r by blast
qed

text \<open>Case ids do not collide: two records with the same case id have the same partition and the same
  offset, and, when neither id had to be shortened, topics that read alike after sanitising. So no
  record is ever taken for another record of its topic.\<close>

theorem case_id_is_unique:
  assumes "digest_ok digest" and "0 \<le> p" and "0 \<le> off" and "0 \<le> p'" and "0 \<le> off'"
    and "derive_case_id digest (Some t) (Some p) (Some off) g = Some c"
    and "derive_case_id digest (Some t') (Some p') (Some off') g' = Some c"
  shows "p = p' \<and> off = off' \<and>
    (length (CASE_ID_PREFIX @ ''-'' @ sanitise t @ coordinates digest p off g) \<le> MAX_CASE_ID_LENGTH \<longrightarrow>
     length (CASE_ID_PREFIX @ ''-'' @ sanitise t' @ coordinates digest p' off' g') \<le> MAX_CASE_ID_LENGTH \<longrightarrow>
     sanitise t = sanitise t')"
proof (intro conjI impI)
  obtain h h' where e: "c = (CASE_ID_PREFIX @ ''-'' @ h) @ coordinates digest p off g"
    "c = (CASE_ID_PREFIX @ ''-'' @ h') @ coordinates digest p' off' g'"
    using derive_case_id_shape [OF assms(6)] derive_case_id_shape [OF assms(7)]
    by (metis append.assoc option.inject)
  then show "p = p'" "off = off'"
    using coordinates_cancel [OF assms(1-5), of "CASE_ID_PREFIX @ ''-'' @ h" g "CASE_ID_PREFIX @ ''-'' @ h'" g']
    by simp_all
next
  assume "length (CASE_ID_PREFIX @ ''-'' @ sanitise t @ coordinates digest p off g) \<le> MAX_CASE_ID_LENGTH"
    "length (CASE_ID_PREFIX @ ''-'' @ sanitise t' @ coordinates digest p' off' g') \<le> MAX_CASE_ID_LENGTH"
  then have "(CASE_ID_PREFIX @ ''-'' @ sanitise t) @ coordinates digest p off g =
      (CASE_ID_PREFIX @ ''-'' @ sanitise t') @ coordinates digest p' off' g'"
    using assms(6,7) by (auto simp: derive_case_id_def Let_def split: if_splits)
  from coordinates_cancel [OF assms(1-5) this] show "sanitise t = sanitise t'" by simp
qed

theorem case_id_is_unique_witness:
  "\<exists>p' off'. derive_case_id (\<lambda>_. ''0123456789'') (Some ''a/b'') (Some p') (Some off') (Some ''g1'') =
       Some ''dlt-a-b-3-17-g0123456789'' \<and> 0 \<le> p' \<and> 0 \<le> off' \<and> p' = 3 \<and> off' = 17"
proof -
  have d: "digest_ok (\<lambda>_. ''0123456789'')" by (simp add: digest_ok_def is_hex_def is_digit_nat)
  have r: "derive_case_id (\<lambda>_. ''0123456789'') (Some ''a/b'') (Some 3) (Some 17) (Some ''g1'') =
      Some ''dlt-a-b-3-17-g0123456789''" by code_simp
  have r': "derive_case_id (\<lambda>_. ''0123456789'') (Some ''a-b'') (Some 3) (Some 17) (Some ''g1'') =
      Some ''dlt-a-b-3-17-g0123456789''" by code_simp
  have "(3::int) = 3 \<and> (17::int) = 17"
    using case_id_is_unique [OF d _ _ _ _ r r'] by simp
  with r show ?thesis by (intro exI [of _ 3] exI [of _ 17]) simp
qed

end
