(* ===== verification/Packet_Claims.thy ===== *)
theory Packet_Claims
  imports Identity
begin

text \<open>
  One investigation per packet: \<^verbatim>\<open>src/utils/packet_claims.py\<close>. The first delivery of an event creates
  \<^verbatim>\<open>claim.json\<close> in a store of its own; a later one finds it and is skipped, unless the claim's run was
  abandoned at a shutdown or is older than the time to live. Any error lets the packet through.

  \<open>claims\<close> is the claim store, \<open>cases\<close> the casebook store, both over one state; \<open>now\<close> is the time of
  the call. The lemmas about claims are proved in the storage contract and used for the local backend.
\<close>

section \<open>Operations\<close>

definition CLAIM_FILENAME :: string where
  "CLAIM_FILENAME = ''claim.json''"

definition MIN_CLAIM_TTL_SECONDS :: rat where
  "MIN_CLAIM_TTL_SECONDS = 1800"

record packet_claim =
  pc_won :: bool
  pc_outcome :: string
  pc_age_seconds :: "rat option"

definition packet_claims_enabled :: "env \<Rightarrow> bool" where
  "packet_claims_enabled env = get_bool_env env ''PACKET_CLAIM_ENABLED'' True"

text \<open>\<^verbatim>\<open>os.environ.get(a) or ...\<close>: an empty setting counts as absent.\<close>

definition env_or :: "env \<Rightarrow> string \<Rightarrow> string \<Rightarrow> string" where
  "env_or env name other = (case env name of None \<Rightarrow> other | Some v \<Rightarrow> if v = [] then other else v)"

definition packet_claim_ttl_seconds :: "env \<Rightarrow> rat" where
  "packet_claim_ttl_seconds env =
     (let explicit = env_or env ''PACKET_CLAIM_TTL_SECONDS'' []
      in case (if explicit = [] then None else py_float explicit) of
           Some v \<Rightarrow> max 1 v
         | None \<Rightarrow>
             (let budget = env_or env ''AGENT_INVOKE_TIMEOUT_SECONDS''
                             (env_or env ''PACKET_TIMEOUT_SECONDS'' ''3600'')
              in case py_float budget of
                   Some b \<Rightarrow> max MIN_CLAIM_TTL_SECONDS (2 * b)
                 | None \<Rightarrow> MIN_CLAIM_TTL_SECONDS * 2))"

definition packet_is_finished :: "'s storage \<Rightarrow> string \<Rightarrow> ('s, bool) io" where
  "packet_is_finished cases event_id =
     catchM (bindM (terminal_status cases event_id status_files) (\<lambda>status.
               ret (case status of
                      None \<Rightarrow> False
                    | Some st \<Rightarrow> st \<in> set TERMINAL_STATUSES \<and> st \<notin> set REDELIVERABLE_TERMINAL_STATUSES)))
            (\<lambda>_. ret False)"

definition abandoned_at :: "'s storage \<Rightarrow> string \<Rightarrow> ('s, rat option) io" where
  "abandoned_at cases event_id =
     catchM (bindM (st_load cases event_id ''casebook.json'') (\<lambda>data.
             let casebook = (case data of None \<Rightarrow> [] | Some d \<Rightarrow> d)
             in bindM (of_result (sub_get casebook ''packet_status'' ''status'')) (\<lambda>status.
                if \<not> status_in status REDELIVERABLE_TERMINAL_STATUSES then ret None
                else bindM (of_result (sub_get casebook ''packet_metadata'' ''abandoned_at'')) (\<lambda>v.
                       if v = JNull then ret None
                       else bindM (of_result (json_float v)) (\<lambda>r. ret (Some r))))))
            (\<lambda>_. ret None)"

definition try_packet_claim ::
    "env \<Rightarrow> rat \<Rightarrow> 's storage \<Rightarrow> 's storage \<Rightarrow> string \<Rightarrow> ('s, packet_claim) io" where
  "try_packet_claim env now claims cases event_id =
     bindM (st_create_json claims event_id CLAIM_FILENAME
              [(''event_id'', JStr event_id), (''claimed_at'', JNum now)]) (\<lambda>created.
     if created then ret \<lparr>pc_won = True, pc_outcome = ''won'', pc_age_seconds = None\<rparr>
     else
       bindM (st_load claims event_id CLAIM_FILENAME) (\<lambda>data.
       let existing = (case data of None \<Rightarrow> [] | Some d \<Rightarrow> d)
       in bindM (of_result (json_float (py_or (jget existing ''claimed_at'') (JNum 0)))) (\<lambda>claimed_at.
          let age = now - claimed_at
          in bindM (abandoned_at cases event_id) (\<lambda>gone.
             if (case gone of None \<Rightarrow> False | Some a \<Rightarrow> claimed_at \<le> a)
             then bindM (st_save claims event_id
                           [(''event_id'', JStr event_id), (''claimed_at'', JNum now),
                            (''reclaimed_after_shutdown'', JBool True)] CLAIM_FILENAME) (\<lambda>_.
                    ret \<lparr>pc_won = True, pc_outcome = ''reclaimed'', pc_age_seconds = Some (py_round 1 age)\<rparr>)
             else bindM (packet_is_finished cases event_id) (\<lambda>finished.
                    if finished
                    then ret \<lparr>pc_won = False, pc_outcome = ''finished'', pc_age_seconds = Some (py_round 1 age)\<rparr>
                    else if age > packet_claim_ttl_seconds env
                    then bindM (st_save claims event_id
                                  [(''event_id'', JStr event_id), (''claimed_at'', JNum now),
                                   (''reclaimed_after_seconds'', JNum (py_round 1 age))] CLAIM_FILENAME) (\<lambda>_.
                           ret \<lparr>pc_won = True, pc_outcome = ''reclaimed'', pc_age_seconds = Some (py_round 1 age)\<rparr>)
                    else ret \<lparr>pc_won = False, pc_outcome = ''duplicate'',
                              pc_age_seconds = Some (py_round 1 age)\<rparr>)))))"

definition claim_packet ::
    "env \<Rightarrow> rat \<Rightarrow> 's storage \<Rightarrow> 's storage \<Rightarrow> string \<Rightarrow> ('s, packet_claim) io" where
  "claim_packet env now claims cases event_id =
     (if \<not> packet_claims_enabled env
      then ret \<lparr>pc_won = True, pc_outcome = ''disabled'', pc_age_seconds = None\<rparr>
      else catchM (try_packet_claim env now claims cases event_id)
             (\<lambda>_. ret \<lparr>pc_won = True, pc_outcome = ''error'', pc_age_seconds = None\<rparr>))"


section \<open>Claims over the storage contract\<close>

lemma claim_packet_total: "\<exists>c t. claim_packet env now claims cases e s = (Inr c, t)"
proof (cases "packet_claims_enabled env")
  case True
  have "\<exists>c t. catchM (try_packet_claim env now claims cases e)
      (\<lambda>_. ret \<lparr>pc_won = True, pc_outcome = ''error'', pc_age_seconds = None\<rparr>) s = (Inr c, t)"
    by (rule catchM_total) simp
  with True show ?thesis by (simp add: claim_packet_def)
qed (simp add: claim_packet_def)

lemma claim_packet_returns:
  obtains c t where "claim_packet env now claims cases e s = (Inr c, t)"
  using claim_packet_total [of env now claims cases e s] by auto

lemma abandoned_at_pure:
  assumes "\<And>f. pureM (st_load cases e f)"
  shows "pureM (abandoned_at cases e)"
  unfolding abandoned_at_def Let_def using assms by (auto intro!: pureM_catchM pureM_bindM)

lemma finished_pure:
  assumes "\<And>f. pureM (st_load cases e f)"
  shows "pureM (packet_is_finished cases e)"
  unfolding packet_is_finished_def using assms
  by (auto intro!: pureM_catchM pureM_bindM terminal_status_pure)

context casebook_storage
begin

text \<open>A claim that exists is never created again, and never disappears.\<close>

lemma try_claim_held:
  assumes k: "key_ok e CLAIM_FILENAME" and p: "\<And>f. pureM (st_load cases e f)"
    and h: "taken s e CLAIM_FILENAME" and t: "try_packet_claim env now sto cases e s = (r, t)"
  shows "taken t e CLAIM_FILENAME" and "r = Inr c \<Longrightarrow> pc_outcome c \<noteq> ''won''"
proof -
  note pure = pureM_state [OF load_pure] pureM_state [OF abandoned_at_pure [OF p]]
    pureM_state [OF finished_pure [OF p]] pureM_state [OF pureM_of_result]
  have "taken t e CLAIM_FILENAME \<and> (\<forall>c. r = Inr c \<longrightarrow> pc_outcome c \<noteq> ''won'')"
    using t [unfolded try_packet_claim_def]
  proof (cases rule: bindM_cases)
    case (exn x)
    then show ?thesis using create_keeps [OF k k exn(1)] h by simp
  next
    case (val created s1)
    have s1: "taken s1 e CLAIM_FILENAME" using create_keeps [OF k k val(1)] h by simp
    have nc: "\<not> created" using create_result [OF k val(1)] h by simp
    show ?thesis
      using val(2) nc s1 save_taken [OF k]
      by (auto elim!: bindM_cases dest!: pure simp: Let_def split: if_splits)
  qed
  then show "taken t e CLAIM_FILENAME" and "r = Inr c \<Longrightarrow> pc_outcome c \<noteq> ''won''" by auto
qed

lemma try_claim_won:
  assumes k: "key_ok e CLAIM_FILENAME" and p: "\<And>f. pureM (st_load cases e f)"
    and t: "try_packet_claim env now sto cases e s = (Inr c, t)" and w: "pc_outcome c = ''won''"
  shows "taken t e CLAIM_FILENAME"
proof (cases "taken s e CLAIM_FILENAME")
  case True
  then show ?thesis using try_claim_held [OF k p True t] by simp
next
  case False
  obtain created s1 where cr: "st_create_json sto e CLAIM_FILENAME
      [(''event_id'', JStr e), (''claimed_at'', JNum now)] s = (Inr created, s1)"
    using t unfolding try_packet_claim_def by (auto elim!: bindM_InrE)
  then have "created" using create_result [OF k] False by simp
  then have "t = s1" using t cr unfolding try_packet_claim_def by (simp add: bindM_Inr)
  then show ?thesis using create_taken [OF k cr] by simp
qed

text \<open>What becomes of a delivery that finds a claim.\<close>

lemma try_claim_decision:
  assumes k: "key_ok e CLAIM_FILENAME" and p: "\<And>f. pureM (st_load cases e f)"
    and h: "taken s e CLAIM_FILENAME"
    and ld: "\<And>s1 x. st_create_json sto e CLAIM_FILENAME x s = (Inr False, s1) \<Longrightarrow>
       fst (st_load sto e CLAIM_FILENAME s1) = Inr (Some d) \<and>
       fst (abandoned_at cases e s1) = Inr gone \<and> fst (packet_is_finished cases e s1) = Inr fin"
    and at: "json_float (py_or (jget d ''claimed_at'') (JNum 0)) = Inr claimed_at"
    and t: "try_packet_claim env now sto cases e s = (Inr c, t)"
  shows "pc_outcome c =
      (if (case gone of None \<Rightarrow> False | Some a \<Rightarrow> claimed_at \<le> a) then ''reclaimed''
       else if fin then ''finished''
       else if now - claimed_at > packet_claim_ttl_seconds env then ''reclaimed'' else ''duplicate'') \<and>
     pc_won c = (pc_outcome c = ''reclaimed'')"
proof -
  obtain created s1 where cr: "st_create_json sto e CLAIM_FILENAME
      [(''event_id'', JStr e), (''claimed_at'', JNum now)] s = (Inr created, s1)"
    using t unfolding try_packet_claim_def by (auto elim!: bindM_InrE)
  have nc: "\<not> created" using create_result [OF k cr] h by simp
  have r: "fst (st_load sto e CLAIM_FILENAME s1) = Inr (Some d) \<and>
       fst (abandoned_at cases e s1) = Inr gone \<and> fst (packet_is_finished cases e s1) = Inr fin"
    using ld cr nc by simp
  have l: "st_load sto e CLAIM_FILENAME s1 = (Inr (Some d), s1)"
    and g: "abandoned_at cases e s1 = (Inr gone, s1)" and f: "packet_is_finished cases e s1 = (Inr fin, s1)"
    using r pureM_state [OF load_pure] pureM_state [OF abandoned_at_pure [OF p]]
      pureM_state [OF finished_pure [OF p]] by (metis prod.collapse)+
  show ?thesis
    using t nc unfolding try_packet_claim_def
    by (auto simp: bindM_Inr cr l g f at Let_def
        elim!: bindM_InrE split: if_splits)
qed

end


section \<open>Histories of one claim\<close>

text \<open>
  Deliveries of one event, one after the other, with anything in between that leaves the claim
  document alone. The list collects what each was told.
\<close>

inductive claim_history :: "path \<Rightarrow> disk storage \<Rightarrow> string \<Rightarrow> disk \<Rightarrow> packet_claim list \<Rightarrow> bool"
  for base cases e where
  history_start: "\<not> local_taken base s e CLAIM_FILENAME \<Longrightarrow> claim_history base cases e s []"
| history_other: "claim_history base cases e s cs \<Longrightarrow>
    local_taken base t e CLAIM_FILENAME = local_taken base s e CLAIM_FILENAME \<Longrightarrow>
    local_view base t e CLAIM_FILENAME = local_view base s e CLAIM_FILENAME \<Longrightarrow>
    claim_history base cases e t cs"
| history_claim: "claim_history base cases e s cs \<Longrightarrow>
    claim_packet env now (local_storage base) cases e s = (Inr c, t) \<Longrightarrow>
    claim_history base cases e t (cs @ [c])"

lemma claim_packet_try:
  assumes "claim_packet env now claims cases e s = (Inr c, t)" and "pc_outcome c = ''won''"
  shows "try_packet_claim env now claims cases e s = (Inr c, t)"
  using assms by (auto simp: claim_packet_def elim!: catchM_cases split: if_splits)

lemma claim_packet_held:
  assumes k: "local_key_ok e CLAIM_FILENAME" and p: "\<And>f. pureM (st_load cases e f)"
    and h: "local_taken base s e CLAIM_FILENAME"
    and t: "claim_packet env now (local_storage base) cases e s = (Inr c, t)"
  shows "local_taken base t e CLAIM_FILENAME \<and> pc_outcome c \<noteq> ''won''"
  using t h loc.try_claim_held [OF k p h]
  by (auto simp: claim_packet_def elim!: catchM_cases split: if_splits)

lemma history_winners:
  assumes k: "local_key_ok e CLAIM_FILENAME" and p: "\<And>f. pureM (st_load cases e f)"
  shows "claim_history base cases e s cs \<Longrightarrow>
    length (filter (\<lambda>c. pc_outcome c = ''won'') cs) \<le> (if local_taken base s e CLAIM_FILENAME then 1 else 0)"
proof (induction rule: claim_history.induct)
  case (history_claim s cs env now c t)
  show ?case
  proof (cases "local_taken base s e CLAIM_FILENAME")
    case True
    then show ?thesis using history_claim claim_packet_held [OF k p True history_claim(2)] by simp
  next
    case False
    show ?thesis
    proof (cases "pc_outcome c = ''won''")
      case True
      then have "local_taken base t e CLAIM_FILENAME"
        using loc.try_claim_won [OF k p claim_packet_try [OF history_claim(2) True]] by simp
      then show ?thesis using history_claim False True by simp
    next
      case nw: False
      then show ?thesis using history_claim False by (simp split: if_splits)
    qed
  qed
qed auto


text \<open>Reads see only the files and the locks, which a losing create leaves alone.\<close>

definition same_reads :: "'s storage \<Rightarrow> string \<Rightarrow> 's \<Rightarrow> 's \<Rightarrow> bool" where
  "same_reads cases e s t \<longleftrightarrow> (\<forall>f. fst (st_load cases e f t) = fst (st_load cases e f s))"

lemma pure_same:
  assumes "pureM m" and "fst (m t) = fst (m s)"
  obtains r where "m s = (r, s)" and "m t = (r, t)"
  using assms unfolding pureM_def by (metis prod.collapse)

lemma terminal_status_cong:
  assumes "same_reads cases e s t" and p: "\<And>f. pureM (st_load cases e f)"
  shows "fst (terminal_status cases e fs t) = fst (terminal_status cases e fs s)"
proof (induction fs)
  case Nil
  show ?case by simp
next
  case (Cons f fs)
  obtain r where l: "st_load cases e f s = (r, s)" "st_load cases e f t = (r, t)"
    using pure_same [OF p] assms(1) unfolding same_reads_def by blast
  show ?case
    using Cons
    by (cases r)
       (auto simp: bindM_def l of_result_def split: option.split sum.split)
qed

lemma finished_cong:
  assumes "same_reads cases e s t" and p: "\<And>f. pureM (st_load cases e f)"
  shows "fst (packet_is_finished cases e t) = fst (packet_is_finished cases e s)"
proof -
  have q: "pureM (terminal_status cases e status_files)" using p by (rule terminal_status_pure)
  obtain r where l: "terminal_status cases e status_files s = (r, s)"
    "terminal_status cases e status_files t = (r, t)"
    using pure_same [OF q terminal_status_cong [OF assms]] by blast
  show ?thesis
    by (cases r)
       (simp_all add: packet_is_finished_def catchM_def bindM_def l)
qed

lemma abandoned_at_cong:
  assumes "same_reads cases e s t" and p: "\<And>f. pureM (st_load cases e f)"
  shows "fst (abandoned_at cases e t) = fst (abandoned_at cases e s)"
proof -
  obtain r where l: "st_load cases e ''casebook.json'' s = (r, s)" "st_load cases e ''casebook.json'' t = (r, t)"
    using pure_same [OF p] assms(1) unfolding same_reads_def by blast
  show ?thesis
    by (cases r)
       (auto simp: abandoned_at_def catchM_def bindM_def l of_result_def Let_def split: sum.split)
qed

lemma create_lost_reads:
  assumes "local_key_ok e f" and "local_create_json base e f doc s = (Inr False, t)"
  shows "same_reads (local_storage b) e' s t \<and> d_locked t = d_locked s \<and> file_at t = file_at s"
proof -
  have files: "file_at t = file_at s" and locks: "d_locked t = d_locked s"
    using assms unfolding local_create_json_def get_dir_def key_paths [OF assms(1)] Let_def
    by (auto elim!: bindM_InrE simp: makedirs_def catchM_def bindM_def write_file_def of_result_def
        split: if_splits sum.splits)
  then have "fst (local_load b e' f' t) = fst (local_load b e' f' s)" for f'
    by (cases "resolve_dir b e'") (simp_all add: local_load_def with_lock_def read_json_def)
  with files locks show ?thesis by (simp add: same_reads_def local_storage_def)
qed


section \<open>Properties\<close>



text \<open>What a delivery that finds a claim is told: it takes over the claim of a run abandoned at
  shutdown after it was claimed, is refused when the packet is finished, takes over a claim older
  than the time to live, and is refused as a duplicate in all other cases. It goes ahead exactly when
  it took the claim over.\<close>

theorem claim_decision:
  assumes "packet_claims_enabled env" and "CHR ''/'' \<notin> set e" and "\<And>p. \<not> d_locked s p"
    and "local_view base s e CLAIM_FILENAME = Some d"
    and "json_float (py_or (jget d ''claimed_at'') (JNum 0)) = Inr claimed_at"
    and "fst (abandoned_at (local_storage cb) e s) = Inr gone"
    and "fst (packet_is_finished (local_storage cb) e s) = Inr finished"
    and "claim_packet env now (local_storage base) (local_storage cb) e s = (Inr c, t)"
    and "pc_outcome c \<noteq> ''error''"
  shows "pc_outcome c =
      (if (case gone of None \<Rightarrow> False | Some a \<Rightarrow> claimed_at \<le> a) then ''reclaimed''
       else if finished then ''finished''
       else if now - claimed_at > packet_claim_ttl_seconds env then ''reclaimed'' else ''duplicate'') \<and>
     pc_won c = (pc_outcome c = ''reclaimed'')"
proof -
  have k: "local_key_ok e CLAIM_FILENAME"
    using assms(2) by (auto simp: local_key_ok_def CLAIM_FILENAME_def proper_name_def ends_with_def)
  have t: "try_packet_claim env now (local_storage base) (local_storage cb) e s = (Inr c, t)"
    using assms(1,8,9) by (auto simp: claim_packet_def elim!: catchM_cases)
  have tk: "local_taken base s e CLAIM_FILENAME" by (rule loc.view_taken) (simp add: assms(4))
  have f: "file_at s (key_path base e CLAIM_FILENAME) = Some (Json d)"
    using assms(4) by (simp add: local_view_def read_json_def split: option.splits content.splits)
  have r: "fst (st_load (local_storage base) e CLAIM_FILENAME s1) = Inr (Some d) \<and>
      fst (abandoned_at (local_storage cb) e s1) = Inr gone \<and>
      fst (packet_is_finished (local_storage cb) e s1) = Inr finished"
    if "st_create_json (local_storage base) e CLAIM_FILENAME x s = (Inr False, s1)" for s1 x
  proof -
    note c = create_lost_reads [OF k, of base x s s1] 
    have cr: "local_create_json base e CLAIM_FILENAME x s = (Inr False, s1)"
      using that by (simp add: local_storage_def)
    have same: "same_reads (local_storage cb) e s s1" and l: "d_locked s1 = d_locked s" and g: "file_at s1 = file_at s"
      using c [OF cr] by auto
    have "local_load base e CLAIM_FILENAME s1 = (Inr (Some d), s1)"
      using assms(3) l g f by (intro load_after [OF k]) auto
    then show ?thesis
      using abandoned_at_cong [OF same loc.load_pure] finished_cong [OF same loc.load_pure] assms(6,7)
      by (simp add: local_storage_def)
  qed
  show ?thesis by (rule loc.try_claim_decision [OF k loc.load_pure tk _ assms(5) t]) (rule r)
qed

theorem claim_decision_witness:
  "\<exists>c t. claim_packet (\<lambda>n. if n = ''PACKET_CLAIM_TTL_SECONDS'' then Some ''90'' else None) 160 (local_storage [''claims'']) (local_storage [''cases'']) ''E1''
       (put_file (key_path [''claims''] ''E1'' CLAIM_FILENAME) (Json [(''claimed_at'', JNum 100)]) empty_disk) =
       (Inr c, t) \<and> pc_outcome c = ''duplicate'' \<and> \<not> pc_won c"
proof -
  let ?s = "put_file (key_path [''claims''] ''E1'' CLAIM_FILENAME) (Json [(''claimed_at'', JNum 100)]) empty_disk"
  let ?att = "claim_packet (\<lambda>n. if n = ''PACKET_CLAIM_TTL_SECONDS'' then Some ''90'' else None) 160 (local_storage [''claims'']) (local_storage [''cases'']) ''E1'' ?s"
  have o: "map_sum id pc_outcome (fst ?att) = Inr ''duplicate''" by code_simp
  obtain c t where r: "?att = (Inr c, t)" by (rule claim_packet_returns)
  have oc: "pc_outcome c = ''duplicate''" using o unfolding r by simp
  have h: "packet_claims_enabled (\<lambda>n. if n = ''PACKET_CLAIM_TTL_SECONDS'' then Some ''90'' else None)" "CHR ''/'' \<notin> set ''E1''" "\<And>p. \<not> d_locked ?s p"
    "local_view [''claims''] ?s ''E1'' CLAIM_FILENAME = Some [(''claimed_at'', JNum 100)]"
    "json_float (py_or (jget [(''claimed_at'', JNum 100)] ''claimed_at'') (JNum 0)) = Inr 100"
    by (simp_all add: packet_claims_enabled_def put_file_def empty_disk_def local_view_def read_json_def
        file_at_def py_or_def)
  have g: "fst (abandoned_at (local_storage [''cases'']) ''E1'' ?s) = Inr None"
    "fst (packet_is_finished (local_storage [''cases'']) ''E1'' ?s) = Inr False" by code_simp+
  have ne: "pc_outcome c \<noteq> ''error''" using oc by simp
  show ?thesis using claim_decision [OF h g r ne] r oc by simp
qed

text \<open>The claim fails open: claiming a packet never raises, and when the claim store or a document in
  it cannot be used the packet goes ahead, under the outcome that is counted as an error.\<close>

theorem claim_fails_open:
  "\<exists>c t. claim_packet env now claims cases e s = (Inr c, t) \<and>
     (\<forall>x u. packet_claims_enabled env \<longrightarrow> try_packet_claim env now claims cases e s = (Inl x, u) \<longrightarrow>
        pc_won c \<and> pc_outcome c = ''error'' \<and> t = u) \<and>
     (\<not> packet_claims_enabled env \<longrightarrow> pc_won c \<and> t = s)"
proof -
  obtain c t where c: "claim_packet env now claims cases e s = (Inr c, t)"
    by (rule claim_packet_returns)
  then show ?thesis
    by (intro exI [of _ c] exI [of _ t]) (auto simp: claim_packet_def catchM_def split: sum.splits)
qed

theorem claim_fails_open_witness:
  "\<exists>c t. claim_packet (\<lambda>_. None) 5 (local_storage [''claims'']) (local_storage [''cases'']) ''E1''
       (empty_disk\<lparr>d_no_mkdir := (\<lambda>_. True)\<rparr>) = (Inr c, t) \<and> pc_won c \<and> pc_outcome c = ''error''"
proof -
  let ?s = "empty_disk\<lparr>d_no_mkdir := (\<lambda>_. True)\<rparr>"
  let ?t = "try_packet_claim (\<lambda>_. None) 5 (local_storage [''claims'']) (local_storage [''cases'']) ''E1''"
  have "fst (?t ?s) = Inl OSError" by code_simp
  then have r: "?t ?s = (Inl OSError, snd (?t ?s))" by (metis prod.collapse)
  have "packet_claims_enabled (\<lambda>_. None)" by (simp add: packet_claims_enabled_def)
  with claim_fails_open [of "\<lambda>_. None" 5 "local_storage [''claims'']" "local_storage [''cases'']" "''E1''" ?s] r
  show ?thesis by blast
qed

end
