(* ===== verification/Dlt_Claims.thy ===== *)
theory Dlt_Claims
  imports Packet_Claims
begin

text \<open>
  One analysis per dead-letter record, whatever reference id it arrives under: \<^verbatim>\<open>src/dlt/claims.py\<close>.
  The claim is keyed on the case id and names the reference id that holds it. A delivery under the
  holder's own id goes ahead, one under another id is a duplicate unless the holder never finished
  and its claim is older than the time to live. Every reference id a record was seen under is noted
  as an alias. Any error lets the case through.

  The reference id of a claim document is a string: this module writes nothing else there.
\<close>

section \<open>Operations\<close>

definition ALIASES_SUBDIR :: string where
  "ALIASES_SUBDIR = ''aliases''"

record dlt_claim =
  dc_won :: bool
  dc_outcome :: string
  dc_holder_ref_id :: json

definition dlt_claims_enabled :: "env \<Rightarrow> bool" where
  "dlt_claims_enabled env = get_bool_env env ''DLT_CLAIM_ENABLED'' True"

definition dlt_claim_ttl_seconds :: "env \<Rightarrow> exn + rat" where
  "dlt_claim_ttl_seconds env =
     (let explicit = env_or env ''DLT_CLAIM_TTL_SECONDS'' []
      in case (if explicit = [] then None else py_float explicit) of
           Some v \<Rightarrow> Inr (max 1 v)
         | None \<Rightarrow>
             (case py_float (env_get env ''DLT_ANALYSIS_TIMEOUT_SECONDS'' ''300'') of
                Some budget \<Rightarrow> Inr (max MIN_CLAIM_TTL_SECONDS (2 * budget))
              | None \<Rightarrow> Inl ValueError))"

definition alias_file :: "string \<Rightarrow> string" where
  "alias_file ref_id = ALIASES_SUBDIR @ ''/'' @ ref_id @ ''.json''"

definition record_alias :: "rat \<Rightarrow> 's storage \<Rightarrow> string \<Rightarrow> string \<Rightarrow> ('s, unit) io" where
  "record_alias now claims case_id ref_id =
     (if ref_id = [] \<or> \<not> matches_event_id ref_id then ret ()
      else catchM (bindM (st_create_json claims case_id (alias_file ref_id)
                     [(''ref_id'', JStr ref_id), (''seen_at'', JNum now)]) (\<lambda>_. ret ()))
             (\<lambda>_. ret ()))"

definition dlt_is_finished :: "(string \<Rightarrow> string) \<Rightarrow> 's storage \<Rightarrow> string \<Rightarrow> string \<Rightarrow> ('s, bool) io" where
  "dlt_is_finished digest cases ref_id case_id =
     catchM (let key = (if ref_id = case_id then case_id else storage_key digest (Some ref_id) case_id)
             in bindM (terminal_status cases key status_files) (\<lambda>status.
                  ret (case status of None \<Rightarrow> False | Some st \<Rightarrow> st \<in> set TERMINAL_STATUSES)))
            (\<lambda>_. ret False)"

definition try_dlt_claim ::
    "(string \<Rightarrow> string) \<Rightarrow> env \<Rightarrow> rat \<Rightarrow> 's storage \<Rightarrow> 's storage \<Rightarrow> string \<Rightarrow> string \<Rightarrow> ('s, dlt_claim) io" where
  "try_dlt_claim digest env now claims cases case_id ref_id =
     bindM (st_create_json claims case_id CLAIM_FILENAME
              [(''case_id'', JStr case_id), (''ref_id'', JStr ref_id), (''claimed_at'', JNum now)]) (\<lambda>created.
     if created
     then bindM (record_alias now claims case_id ref_id) (\<lambda>_.
            ret \<lparr>dc_won = True, dc_outcome = ''won'', dc_holder_ref_id = JStr ref_id\<rparr>)
     else
       bindM (st_load claims case_id CLAIM_FILENAME) (\<lambda>data.
       let existing = (case data of None \<Rightarrow> [] | Some d \<Rightarrow> d);
           holder = jget existing ''ref_id''
       in bindM (record_alias now claims case_id ref_id) (\<lambda>_.
          if holder = JStr ref_id
          then ret \<lparr>dc_won = True, dc_outcome = ''same_delivery'', dc_holder_ref_id = holder\<rparr>
          else
            bindM (case holder of
                     JStr h \<Rightarrow> if h = [] then ret False else dlt_is_finished digest cases h case_id
                   | _ \<Rightarrow> ret False) (\<lambda>finished.
            if finished
            then ret \<lparr>dc_won = False, dc_outcome = ''duplicate'', dc_holder_ref_id = holder\<rparr>
            else
              bindM (of_result (json_float (py_or (jget existing ''claimed_at'') (JNum 0)))) (\<lambda>claimed_at.
              let age = now - claimed_at
              in bindM (if \<not> truthy holder then ret True
                        else bindM (of_result (dlt_claim_ttl_seconds env)) (\<lambda>ttl. ret (age > ttl))) (\<lambda>dead.
                 if dead
                 then bindM (st_save claims case_id
                               [(''case_id'', JStr case_id), (''ref_id'', JStr ref_id), (''claimed_at'', JNum now),
                                (''reclaimed_from'', holder), (''reclaimed_after_seconds'', JNum (py_round 1 age))]
                               CLAIM_FILENAME) (\<lambda>_.
                        ret \<lparr>dc_won = True, dc_outcome = ''reclaimed'', dc_holder_ref_id = JStr ref_id\<rparr>)
                 else ret \<lparr>dc_won = False, dc_outcome = ''duplicate'', dc_holder_ref_id = holder\<rparr>))))))"

definition claim_case ::
    "(string \<Rightarrow> string) \<Rightarrow> env \<Rightarrow> rat \<Rightarrow> 's storage \<Rightarrow> 's storage \<Rightarrow> string \<Rightarrow> string \<Rightarrow> ('s, dlt_claim) io" where
  "claim_case digest env now claims cases case_id ref_id =
     (if \<not> dlt_claims_enabled env
      then ret \<lparr>dc_won = True, dc_outcome = ''disabled'', dc_holder_ref_id = JNull\<rparr>
      else catchM (try_dlt_claim digest env now claims cases case_id ref_id)
             (\<lambda>_. ret \<lparr>dc_won = True, dc_outcome = ''error'', dc_holder_ref_id = JNull\<rparr>))"

definition holder_of :: "env \<Rightarrow> 's storage \<Rightarrow> string \<Rightarrow> ('s, json) io" where
  "holder_of env claims case_id =
     (if \<not> dlt_claims_enabled env then ret JNull
      else catchM (bindM (st_load claims case_id CLAIM_FILENAME) (\<lambda>data.
                     ret (jget (case data of None \<Rightarrow> [] | Some d \<Rightarrow> d) ''ref_id'')))
             (\<lambda>_. ret JNull))"

definition aliases_of :: "'s storage \<Rightarrow> string \<Rightarrow> ('s, string list) io" where
  "aliases_of claims case_id =
     catchM (bindM (st_list_json claims case_id ALIASES_SUBDIR) (\<lambda>names.
               ret (map (\<lambda>n. take (length n - length ''.json'') n) names)))
            (\<lambda>_. ret [])"


section \<open>Claims over the storage contract\<close>

lemma claim_case_returns:
  obtains c t where "claim_case digest env now claims cases case_id ref_id s = (Inr c, t)"
proof -
  have "\<exists>c t. catchM (try_dlt_claim digest env now claims cases case_id ref_id)
      (\<lambda>_. ret \<lparr>dc_won = True, dc_outcome = ''error'', dc_holder_ref_id = JNull\<rparr>) s = (Inr c, t)"
    by (rule catchM_total) simp
  then show ?thesis using that by (cases "dlt_claims_enabled env") (auto simp: claim_case_def)
qed

lemma dlt_finished_pure:
  assumes "\<And>k f. pureM (st_load cases k f)"
  shows "pureM (dlt_is_finished digest cases r c)"
  unfolding dlt_is_finished_def Let_def using assms
  by (auto intro!: pureM_catchM pureM_bindM terminal_status_pure)

context casebook_storage
begin

text \<open>Noting an alias leaves the claim document alone.\<close>

lemma record_alias_keeps:
  assumes k: "key_ok c CLAIM_FILENAME" "matches_event_id r \<Longrightarrow> key_ok c (alias_file r)"
    and r: "record_alias now sto c r s = (x, t)"
  shows "view t c CLAIM_FILENAME = view s c CLAIM_FILENAME \<and> taken t c CLAIM_FILENAME = taken s c CLAIM_FILENAME"
proof (cases "r = [] \<or> \<not> matches_event_id r")
  case True
  then show ?thesis using r by (simp add: record_alias_def)
next
  case False
  have ne: "CLAIM_FILENAME \<noteq> alias_file r"
    by (simp add: CLAIM_FILENAME_def alias_file_def ALIASES_SUBDIR_def)
  obtain y where "st_create_json sto c (alias_file r) [(''ref_id'', JStr r), (''seen_at'', JNum now)] s = (y, t)"
    using r False by (auto simp: record_alias_def elim!: catchM_cases bindM_cases)
  then show ?thesis using create_keeps [OF k(2) k(1)] False ne by blast
qed

text \<open>
  A delivery that finds the claim taken is never told that it won, and unless it takes the claim
  over the document stays as it was.
\<close>

lemma dlt_claim_held:
  assumes k: "key_ok c CLAIM_FILENAME" "matches_event_id r \<Longrightarrow> key_ok c (alias_file r)"
    and p: "\<And>k f. pureM (st_load cases k f)" and h: "taken s c CLAIM_FILENAME"
    and t: "try_dlt_claim digest env now sto cases c r s = (x, t)"
  shows "taken t c CLAIM_FILENAME \<and>
     (\<forall>cl. x = Inr cl \<longrightarrow> dc_outcome cl \<noteq> ''won'' \<and>
        (dc_outcome cl \<noteq> ''reclaimed'' \<longrightarrow> view t c CLAIM_FILENAME = view s c CLAIM_FILENAME)) \<and>
     (\<forall>e. x = Inl e \<longrightarrow> view t c CLAIM_FILENAME = view s c CLAIM_FILENAME)"
proof -
  let ?P = "\<lambda>u. view u c CLAIM_FILENAME = view s c CLAIM_FILENAME \<and> taken u c CLAIM_FILENAME"
  let ?Q = "\<lambda>cl u. taken u c CLAIM_FILENAME \<and> dc_outcome cl \<noteq> ''won'' \<and>
      (dc_outcome cl \<noteq> ''reclaimed'' \<longrightarrow> view u c CLAIM_FILENAME = view s c CLAIM_FILENAME)"
  let ?E = "\<lambda>(e :: exn) u. ?P u"
  have cr: "triple ?P (st_create_json sto c CLAIM_FILENAME d) (\<lambda>b u. ?P u \<and> \<not> b) ?E" for d
  proof (rule tripleI)
    show "?P t \<and> \<not> b" if "?P u" "st_create_json sto c CLAIM_FILENAME d u = (Inr b, t)" for u b t
      using that create_keeps [OF k(1,1) that(2)] create_result [OF k(1) that(2)] by simp
    show "?P t" if "?P u" "st_create_json sto c CLAIM_FILENAME d u = (Inl e, t)" for u e t
      using that create_keeps [OF k(1,1) that(2)] by simp
  qed
  have al: "triple ?P (record_alias now sto c r) (\<lambda>_. ?P) ?E"
    using record_alias_keeps [OF k] by (intro tripleI) simp_all
  have sv: "triple ?P (st_save sto c d CLAIM_FILENAME) (\<lambda>_ u. taken u c CLAIM_FILENAME) ?E" for d
    using save_taken [OF k(1)] save_failed [OF k(1)] by (intro tripleI) auto
  have re: "triple ?P (bindM (st_save sto c d CLAIM_FILENAME) (\<lambda>_. ret cl)) ?Q ?E"
    if "dc_outcome cl = ''reclaimed''" for d cl
    by (rule tripleI) (use that tripleD [OF sv] in \<open>fastforce elim!: bindM_cases\<close>)+
  have pc: "pureM (case holder of JStr h \<Rightarrow> if h = [] then ret False else dlt_is_finished digest cases h c
      | _ \<Rightarrow> ret False)" for holder
    using dlt_finished_pure [OF p] by (cases holder) simp_all
  have pt: "pureM (if \<not> truthy holder then ret True
      else bindM (of_result (dlt_claim_ttl_seconds env)) (\<lambda>ttl. ret (age > ttl)))" for holder age
    by (cases "truthy holder") (auto intro!: pureM_bindM)
  have "triple ?P (try_dlt_claim digest env now sto cases c r) ?Q ?E"
    unfolding try_dlt_claim_def
  proof (rule triple_seq [OF cr], goal_cases)
    case (1 created)
    show ?case
    proof (cases created)
      case True
      then show ?thesis by (simp add: triple_False)
    next
      case False
      show ?thesis
        unfolding if_not_P [OF False] Let_def using False
        by (simp only: not_False_eq_True simp_thms)
           (intro triple_read [OF load_pure] triple_bind [OF al] triple_if triple_read [OF pc]
             triple_read [OF pureM_of_result] triple_read [OF pt] re triple_ret, simp_all)
    qed
  qed
  from tripleD [OF this _ t] h show ?thesis by (auto split: sum.splits)
qed

lemma dlt_claim_table:
  assumes k: "key_ok c CLAIM_FILENAME" "matches_event_id r \<Longrightarrow> key_ok c (alias_file r)"
    and p: "\<And>k f. pureM (st_load cases k f)" and h: "taken s c CLAIM_FILENAME"
    and ld: "\<And>s1 x. st_create_json sto c CLAIM_FILENAME x s = (Inr False, s1) \<Longrightarrow>
       fst (st_load sto c CLAIM_FILENAME s1) = Inr (Some d)"
    and hold: "jget d ''ref_id'' = JStr holder" "holder \<noteq> []"
    and at: "json_float (py_or (jget d ''claimed_at'') (JNum 0)) = Inr claimed_at"
    and ttl: "dlt_claim_ttl_seconds env = Inr ttl"
    and t: "try_dlt_claim digest env now sto cases c r s = (Inr cl, t)"
  shows "\<exists>u fin. dlt_is_finished digest cases holder c u = (Inr fin, u) \<and>
     view u c CLAIM_FILENAME = view s c CLAIM_FILENAME \<and>
     dc_outcome cl = (if holder = r then ''same_delivery'' else if fin then ''duplicate''
                      else if now - claimed_at > ttl then ''reclaimed'' else ''duplicate'') \<and>
     dc_won cl = (dc_outcome cl \<noteq> ''duplicate'') \<and>
     dc_holder_ref_id cl = JStr (if dc_outcome cl = ''reclaimed'' then r else holder)"
proof -
  obtain created s1 where cr: "st_create_json sto c CLAIM_FILENAME
      [(''case_id'', JStr c), (''ref_id'', JStr r), (''claimed_at'', JNum now)] s = (Inr created, s1)"
    using t unfolding try_dlt_claim_def by (auto elim!: bindM_InrE)
  have nc: "\<not> created" using create_result [OF k(1) cr] h by simp
  have l: "st_load sto c CLAIM_FILENAME s1 = (Inr (Some d), s1)"
  proof -
    have "fst (st_load sto c CLAIM_FILENAME s1) = Inr (Some d)" using ld cr nc by simp
    then show ?thesis using load_pure [of c CLAIM_FILENAME] unfolding pureM_def by (metis prod.collapse)
  qed
  obtain w u where al: "record_alias now sto c r s1 = (Inr w, u)"
    using t nc unfolding try_dlt_claim_def
    by (auto simp: bindM_Inr cr l Let_def elim!: bindM_InrE)
  have v: "view u c CLAIM_FILENAME = view s c CLAIM_FILENAME"
    using record_alias_keeps [OF k al] create_keeps [OF k(1,1) cr] h by simp
  have "\<exists>fin. dlt_is_finished digest cases holder c u = (Inr fin, u)"
  proof -
    have "\<exists>b y. dlt_is_finished digest cases holder c u = (Inr b, y)"
      unfolding dlt_is_finished_def by (rule catchM_total) (simp only: ret_def, blast)
    then show ?thesis using pureM_state [OF dlt_finished_pure [OF p]] by blast
  qed
  then obtain fin where f: "dlt_is_finished digest cases holder c u = (Inr fin, u)" ..
  show ?thesis
    using t nc hold v f unfolding try_dlt_claim_def
    by (intro exI [of _ u] exI [of _ fin])
       (auto simp: bindM_Inr cr l al f at ttl Let_def elim!: bindM_InrE split: if_splits)
qed

end


section \<open>Properties\<close>

lemma alias_key_ok:
  assumes "CHR ''/'' \<notin> set c" and "matches_event_id r"
  shows "local_key_ok c (alias_file r)"
proof -
  have ns: "CHR ''/'' \<notin> set (r @ ''.json'')" using matches_no_slash [OF assms(2)] by simp
  have "split_on CHR ''/'' (''aliases'' @ CHR ''/'' # r @ ''.json'') = [''aliases'', r @ ''.json'']"
    using split_on_id [OF ns] by simp
  then have sp: "split_on CHR ''/'' (alias_file r) = [''aliases'', r @ ''.json'']"
    by (simp add: alias_file_def ALIASES_SUBDIR_def)
  have "length (r @ ''.json'') > 2" by simp
  then have "r @ ''.json'' \<noteq> ''.''" "r @ ''.json'' \<noteq> ''..''" by fastforce+
  then have "\<forall>w\<in>set (split_on CHR ''/'' (alias_file r)). proper_name w"
    unfolding sp by (simp add: proper_name_def)
  moreover have "\<not> ends_with ''.tmp'' (alias_file r)"
    by (simp add: alias_file_def ends_with_suffix suffix_def)
  ultimately show ?thesis using assms(1) by (simp add: local_key_ok_def)
qed

lemma claim_key_ok: "CHR ''/'' \<notin> set c \<Longrightarrow> local_key_ok c CLAIM_FILENAME"
  by (auto simp: local_key_ok_def CLAIM_FILENAME_def proper_name_def ends_with_def)



text \<open>What a delivery of a claimed record is told: the holder's own delivery goes ahead; any other is a
  duplicate when the holder has finished, takes the claim over when the claim has outlived its time,
  and is a duplicate otherwise. It goes ahead exactly when it is not a duplicate, and it is told who
  holds the record from now on.\<close>

theorem dlt_claim_decision:
  assumes "dlt_claims_enabled env" and "CHR ''/'' \<notin> set case_id" and "\<And>p. \<not> d_locked s p"
    and "local_view base s case_id CLAIM_FILENAME = Some d"
    and "jget d ''ref_id'' = JStr holder" and "holder \<noteq> []"
    and "json_float (py_or (jget d ''claimed_at'') (JNum 0)) = Inr claimed_at"
    and "dlt_claim_ttl_seconds env = Inr ttl"
    and "claim_case digest env now (local_storage base) (local_storage cb) case_id ref_id s = (Inr cl, t)"
    and "dc_outcome cl \<noteq> ''error''"
  shows "\<exists>u fin. dlt_is_finished digest (local_storage cb) holder case_id u = (Inr fin, u) \<and>
     local_view base u case_id CLAIM_FILENAME = Some d \<and>
     dc_outcome cl = (if holder = ref_id then ''same_delivery'' else if fin then ''duplicate''
                      else if now - claimed_at > ttl then ''reclaimed'' else ''duplicate'') \<and>
     dc_won cl = (dc_outcome cl \<noteq> ''duplicate'') \<and>
     dc_holder_ref_id cl = JStr (if dc_outcome cl = ''reclaimed'' then ref_id else holder)"
proof -
  note k = claim_key_ok [OF assms(2)]
  have t: "try_dlt_claim digest env now (local_storage base) (local_storage cb) case_id ref_id s = (Inr cl, t)"
    using assms(1,9,10) by (auto simp: claim_case_def elim!: catchM_cases)
  have tk: "local_taken base s case_id CLAIM_FILENAME" by (rule loc.view_taken) (simp add: assms(4))
  have f: "file_at s (key_path base case_id CLAIM_FILENAME) = Some (Json d)"
    using assms(4) by (simp add: local_view_def read_json_def split: option.splits content.splits)
  have r: "fst (st_load (local_storage base) case_id CLAIM_FILENAME s1) = Inr (Some d)"
    if "st_create_json (local_storage base) case_id CLAIM_FILENAME x s = (Inr False, s1)" for s1 x
  proof -
    have cr: "local_create_json base case_id CLAIM_FILENAME x s = (Inr False, s1)"
      using that by (simp add: local_storage_def)
    have "local_load base case_id CLAIM_FILENAME s1 = (Inr (Some d), s1)"
      using assms(3) f create_lost_reads [OF k cr] by (intro load_after [OF k]) auto
    then show ?thesis by (simp add: local_storage_def)
  qed
  show ?thesis
    using loc.dlt_claim_table [OF k alias_key_ok [OF assms(2)] loc.load_pure tk _ assms(5,6,7,8) t] r assms(4)
    by auto
qed

theorem dlt_claim_decision_witness:
  "\<exists>cl t. claim_case (\<lambda>_. ''0123456789'') (\<lambda>n. if n = ''DLT_CLAIM_TTL_SECONDS'' then Some ''90'' else None) 160
       (local_storage [''claims'']) (local_storage [''cases'']) ''c1'' ''r2''
       (put_file (key_path [''claims''] ''c1'' CLAIM_FILENAME)
          (Json [(''ref_id'', JStr ''r1''), (''claimed_at'', JNum 10)]) empty_disk) =
       (Inr cl, t) \<and> dc_won cl \<and> dc_outcome cl = ''reclaimed'' \<and> dc_holder_ref_id cl = JStr ''r2''"
proof -
  let ?env = "\<lambda>n. if n = ''DLT_CLAIM_TTL_SECONDS'' then Some ''90'' else None"
  let ?d = "[(''ref_id'', JStr ''r1''), (''claimed_at'', JNum 10)]"
  let ?s = "put_file (key_path [''claims''] ''c1'' CLAIM_FILENAME) (Json ?d) empty_disk"
  let ?r = "claim_case (\<lambda>_. ''0123456789'') ?env 160 (local_storage [''claims''])
      (local_storage [''cases'']) ''c1'' ''r2'' ?s"
  obtain cl t where r: "?r = (Inr cl, t)" by (rule claim_case_returns)
  have o: "map_sum id dc_outcome (fst ?r) = Inr ''reclaimed''" by code_simp
  have oc: "dc_outcome cl = ''reclaimed''" using o unfolding r by simp
  have ttl: "dlt_claim_ttl_seconds ?env = Inr 90" by code_simp
  have h: "dlt_claims_enabled ?env" "CHR ''/'' \<notin> set ''c1''" "\<And>p. \<not> d_locked ?s p"
    "local_view [''claims''] ?s ''c1'' CLAIM_FILENAME = Some ?d" "jget ?d ''ref_id'' = JStr ''r1''" "''r1'' \<noteq> []"
    "json_float (py_or (jget ?d ''claimed_at'') (JNum 0)) = Inr 10"
    by (simp_all add: dlt_claims_enabled_def put_file_def empty_disk_def local_view_def read_json_def
        file_at_def py_or_def)
  have "dc_outcome cl \<noteq> ''error''" using oc by simp
  from dlt_claim_decision [OF h ttl r this] r oc show ?thesis by auto
qed

end
