(* ===== verification/Group_Store.thy ===== *)
theory Group_Store
  imports Dlt_Claims "HOL-Library.Product_Lexorder"
begin

text \<open>
  Per-fingerprint group records of the dead-letter lane, second layout: \<^verbatim>\<open>src/dlt/group_store.py\<close>. A
  group is a directory of small documents; an occurrence is one create-only document named after its
  case, and the occurrence count is the number of those documents, not a counter.

  The state is the store together with the two in-process caches (composed groups, which expire, and
  immutable per-item records); a cache is keyed on the store as well, which is fixed here. The cache
  of item records evicts nothing, an eviction only costs a read. The times and sequence numbers of
  records are numbers and verdicts are strings: this module writes nothing else there.
\<close>

section \<open>Process state\<close>

definition META_FILENAME :: string where "META_FILENAME = ''meta.json''"
definition RECOMMENDATION_FILENAME :: string where "RECOMMENDATION_FILENAME = ''recommendation.json''"
definition CODE_CHECK_FILENAME :: string where "CODE_CHECK_FILENAME = ''code_check.json''"
definition OCCURRENCES_SUBDIR :: string where "OCCURRENCES_SUBDIR = ''occurrences''"
definition CODE_CHECKS_SUBDIR :: string where "CODE_CHECKS_SUBDIR = ''code_checks''"
definition LEGACY_FILENAME :: string where "LEGACY_FILENAME = ''group.json''"
definition GROUP_SCHEMA_VERSION :: string where "GROUP_SCHEMA_VERSION = ''2.0''"
definition DEFAULT_MEMBER_CAP :: int where "DEFAULT_MEMBER_CAP = 200"

definition member_cap :: "env \<Rightarrow> nat" where
  "member_cap env = nat (int_env_at_least env ''DLT_GROUP_MEMBER_CAP'' 1 DEFAULT_MEMBER_CAP)"

record 's group_proc =
  gp_store :: 's
  gp_cache :: "(string \<times> (rat \<times> doc option)) list"
  gp_records :: "((string \<times> string \<times> string) \<times> doc) list"

text \<open>The settings and clocks of a call: the environment, the cache lifetime, the time, the tiebreaker.\<close>

record call =
  ca_env :: env
  ca_ttl :: rat
  ca_now :: rat
  ca_seq :: rat

definition on_store :: "('s, 'a) io \<Rightarrow> ('s group_proc, 'a) io" where
  "on_store m p = (case m (gp_store p) of (r, s) \<Rightarrow> (r, p\<lparr>gp_store := s\<rparr>))"

definition cache_get :: "call \<Rightarrow> string \<Rightarrow> 's group_proc \<Rightarrow> doc option option" where
  "cache_get ca fp p =
     (case map_of (gp_cache p) fp of
        None \<Rightarrow> None
      | Some (t, g) \<Rightarrow> if ca_now ca - t < ca_ttl ca then Some g else None)"

definition cache_put :: "call \<Rightarrow> string \<Rightarrow> doc option \<Rightarrow> ('s group_proc, unit) io" where
  "cache_put ca fp g p = (Inr (), p\<lparr>gp_cache := AList.update fp (ca_now ca, g) (gp_cache p)\<rparr>)"

definition invalidate :: "string \<Rightarrow> ('s group_proc, unit) io" where
  "invalidate fp p = (Inr (), p\<lparr>gp_cache := AList.delete fp (gp_cache p)\<rparr>)"

definition remember :: "string \<Rightarrow> string \<Rightarrow> string \<Rightarrow> doc \<Rightarrow> ('s group_proc, unit) io" where
  "remember fp sub name rec p =
     (Inr (), p\<lparr>gp_records := AList.update (fp, sub, name) (jset ''_name'' (JStr name) rec) (gp_records p)\<rparr>)"


section \<open>Composing a group\<close>

text \<open>\<^verbatim>\<open>int(value)\<close> of a document's value, where it is defined.\<close>

fun json_int :: "json \<Rightarrow> int option" where
  "json_int (JNum r) = Some (if r \<ge> 0 then \<lfloor>r\<rfloor> else \<lceil>r\<rceil>)"
| "json_int (JBool b) = Some (if b then 1 else 0)"
| "json_int (JStr s) = py_int s"
| "json_int _ = None"

definition non_negative_int :: "json \<Rightarrow> int" where
  "non_negative_int v = (case json_int (py_or v (JNum 0)) of None \<Rightarrow> 0 | Some n \<Rightarrow> max 0 n)"

definition counts :: "json \<Rightarrow> doc" where
  "counts raw =
     (case raw of
        JObj d \<Rightarrow> fold (\<lambda>(k, v) out. case json_int v of None \<Rightarrow> out | Some n \<Rightarrow> jset k (JNum (of_int n)) out) d []
      | _ \<Rightarrow> [])"

fun num :: "json \<Rightarrow> rat" where
  "num (JNum r) = r"
| "num _ = 0"

text \<open>\<^verbatim>\<open>history[verdict] = history.get(verdict, 0) + 1\<close> for a verdict that is there.\<close>

definition count_verdict :: "string \<Rightarrow> doc \<Rightarrow> doc \<Rightarrow> doc" where
  "count_verdict key rec history =
     (case jget rec key of
        JStr v \<Rightarrow> if v = [] then history else jset v (JNum (num (jget_default history v (JNum 0)) + 1)) history
      | _ \<Rightarrow> history)"

definition order_key :: "doc \<Rightarrow> rat \<times> rat" where
  "order_key r = (num (jget r ''at''), num (jget r ''seq''))"

definition member_strings :: "json \<Rightarrow> string list" where
  "member_strings raw =
     (case raw of
        JArr xs \<Rightarrow> concat (map (\<lambda>m. case m of JStr t \<Rightarrow> if t = [] then [] else [t] | _ \<Rightarrow> []) xs)
      | _ \<Rightarrow> [])"

definition listed :: "string list \<Rightarrow> doc \<Rightarrow> bool" where
  "listed ids r \<longleftrightarrow> (\<exists>k\<in>{''case_id'', ''ref_id''}. case jget r k of JStr t \<Rightarrow> t \<in> set ids | _ \<Rightarrow> False)"

definition numbers :: "json list \<Rightarrow> rat list" where
  "numbers xs = concat (map (\<lambda>v. case v of JNum r \<Rightarrow> [r] | _ \<Rightarrow> []) xs)"

definition opt_num :: "rat option \<Rightarrow> json" where
  "opt_num x = (case x of None \<Rightarrow> JNull | Some r \<Rightarrow> JNum r)"

definition min_default :: "rat list \<Rightarrow> rat option" where
  "min_default xs = (if xs = [] then None else Some (Min (set xs)))"

definition max_default :: "rat list \<Rightarrow> rat option \<Rightarrow> rat option" where
  "max_default xs d = (if xs = [] then d else Some (Max (set xs)))"

text \<open>The members a group shows: the newest, in arrival order.\<close>

definition last_n :: "nat \<Rightarrow> 'a list \<Rightarrow> 'a list" where
  "last_n n xs = drop (length xs - n) xs"

definition fresh_occurrences :: "doc list \<Rightarrow> doc \<Rightarrow> doc list" where
  "fresh_occurrences occurrences legacy =
     filter (\<lambda>r. \<not> listed (member_strings (jget legacy ''members'')) r) (sort_key order_key occurrences)"

definition compose_group ::
    "nat \<Rightarrow> string \<Rightarrow> doc list \<Rightarrow> doc list \<Rightarrow> doc \<Rightarrow> doc \<Rightarrow> doc \<Rightarrow> doc \<Rightarrow> doc" where
  "compose_group cap fp occurrences checks meta recommendation0 code_check0 legacy =
     (let legacy_members = member_strings (jget legacy ''members'');
          fresh = fresh_occurrences occurrences legacy;
          corroboration_history = fold (count_verdict ''corroboration'') fresh (counts (jget legacy ''corroboration_history''));
          code_check_history = fold (count_verdict ''verdict'') checks (counts (jget legacy ''code_check_history''));
          times = map (\<lambda>r. jget r ''at'') fresh;
          starts = numbers (jget meta ''first_seen'' # jget legacy ''first_seen'' # times);
          ends = numbers (jget legacy ''last_seen'' # times);
          recommendation =
            (if recommendation0 = [] \<and> truthy (jget legacy ''recommendation'')
             then [(''recommendation'', jget legacy ''recommendation''),
                   (''recommendation_state'', jget_default legacy ''recommendation_state'' (JStr ''none''))]
             else recommendation0);
          code_check =
            (if code_check0 = [] \<and> truthy (jget legacy ''code_check'')
             then [(''code_check'', jget legacy ''code_check'')] else code_check0);
          members = map JStr legacy_members @ map (\<lambda>r. py_or (jget r ''case_id'') (jget r ''_name'')) fresh
      in [(''fingerprint'', JStr fp),
          (''signature'', py_or (py_or (jget meta ''signature'') (jget legacy ''signature'')) (JStr [])),
          (''failure_class'', py_or (py_or (jget meta ''failure_class'') (jget legacy ''failure_class'')) (JStr ''U'')),
          (''business_code'', py_or (jget meta ''business_code'') (jget legacy ''business_code'')),
          (''first_seen'', opt_num (min_default starts)),
          (''last_seen'', opt_num (max_default ends (min_default starts))),
          (''occurrence_count'', JNum (of_int (non_negative_int (jget legacy ''occurrence_count'')) + of_nat (length fresh))),
          (''members'', JArr (last_n cap members)),
          (''recommendation'', jget recommendation ''recommendation''),
          (''recommendation_state'', jget_default recommendation ''recommendation_state'' (JStr ''none'')),
          (''recommendation_by_case_id'', jget recommendation ''by_case_id''),
          (''recommendation_corroboration'', jget recommendation ''corroboration''),
          (''corroboration_history'', JObj corroboration_history),
          (''code_check'', jget code_check ''code_check''),
          (''code_check_history'', JObj code_check_history),
          (''schema_version'', JStr GROUP_SCHEMA_VERSION)])"


section \<open>Reads\<close>

definition or_empty :: "doc option \<Rightarrow> doc" where
  "or_empty d = (case d of None \<Rightarrow> [] | Some x \<Rightarrow> x)"

definition drop_json_suffix :: "string \<Rightarrow> string" where
  "drop_json_suffix name = take (length name - length ''.json'') name"

definition read_one ::
    "'s storage \<Rightarrow> string \<Rightarrow> string \<Rightarrow> string \<Rightarrow> doc list \<Rightarrow> ('s group_proc, doc list) io" where
  "read_one sto fp sub filename records p =
     (let name = drop_json_suffix filename
      in case map_of (gp_records p) (fp, sub, name) of
           Some r \<Rightarrow> (Inr (records @ [r]), p)
         | None \<Rightarrow>
             bindM (on_store (st_load sto fp (sub @ ''/'' @ filename))) (\<lambda>loaded.
               case loaded of
                 None \<Rightarrow> ret records
               | Some d \<Rightarrow>
                   if d = [] then ret records
                   else bindM (remember fp sub name d) (\<lambda>_. ret (records @ [jset ''_name'' (JStr name) d]))) p)"

definition read_all :: "'s storage \<Rightarrow> string \<Rightarrow> string \<Rightarrow> ('s group_proc, doc list) io" where
  "read_all sto fp sub =
     bindM (on_store (st_list_json sto fp sub)) (\<lambda>names. foldM (read_one sto fp sub) names [])"

definition load_legacy :: "'s storage \<Rightarrow> string \<Rightarrow> ('s group_proc, doc option) io" where
  "load_legacy sto fp = catchM (on_store (st_load sto fp LEGACY_FILENAME)) (\<lambda>_. ret None)"

definition load_group :: "'s storage \<Rightarrow> call \<Rightarrow> string \<Rightarrow> ('s group_proc, doc option) io" where
  "load_group sto ca fp p =
     (if fp = [] then (Inr None, p)
      else case cache_get ca fp p of
        Some g \<Rightarrow> (Inr g, p)
      | None \<Rightarrow>
          bindM (read_all sto fp OCCURRENCES_SUBDIR) (\<lambda>occurrences.
          bindM (read_all sto fp CODE_CHECKS_SUBDIR) (\<lambda>checks.
          bindM (on_store (st_load sto fp META_FILENAME)) (\<lambda>meta.
          bindM (on_store (st_load sto fp RECOMMENDATION_FILENAME)) (\<lambda>recommendation.
          bindM (on_store (st_load sto fp CODE_CHECK_FILENAME)) (\<lambda>code_check.
          bindM (load_legacy sto fp) (\<lambda>legacy.
            if occurrences = [] \<and> checks = [] \<and> or_empty meta = [] \<and> or_empty recommendation = [] \<and>
               or_empty code_check = [] \<and> or_empty legacy = []
            then bindM (cache_put ca fp None) (\<lambda>_. ret None)
            else (let g = compose_group (member_cap (ca_env ca)) fp occurrences checks (or_empty meta)
                            (or_empty recommendation) (or_empty code_check) (or_empty legacy)
                  in bindM (cache_put ca fp (Some g)) (\<lambda>_. ret (Some g))))))))) p)"

definition reload :: "'s storage \<Rightarrow> call \<Rightarrow> string \<Rightarrow> ('s group_proc, doc) io" where
  "reload sto ca fp = catchM (bindM (load_group sto ca fp) (\<lambda>g. ret (or_empty g))) (\<lambda>_. ret [])"


section \<open>Writes\<close>

definition occurrence_file :: "string \<Rightarrow> string" where
  "occurrence_file case_id = OCCURRENCES_SUBDIR @ ''/'' @ case_id @ ''.json''"

definition occurrence_record :: "call \<Rightarrow> string \<Rightarrow> string option \<Rightarrow> string option \<Rightarrow> doc" where
  "occurrence_record ca case_id ref_id corroboration =
     [(''case_id'', JStr case_id), (''ref_id'', jopt ref_id), (''corroboration'', jopt corroboration),
      (''at'', JNum (ca_now ca)), (''seq'', JNum (ca_seq ca))]"

record occurrence =
  oc_case_id :: string
  oc_ref_id :: "string option"
  oc_signature :: string
  oc_failure_class :: string
  oc_business_code :: "string option"
  oc_corroboration :: "string option"

definition meta_of :: "call \<Rightarrow> string \<Rightarrow> occurrence \<Rightarrow> doc \<Rightarrow> doc" where
  "meta_of ca fp oc existing =
     [(''fingerprint'', JStr fp),
      (''signature'', py_or (py_or (JStr (oc_signature oc)) (jget existing ''signature'')) (JStr [])),
      (''failure_class'', py_or (py_or (JStr (oc_failure_class oc)) (jget existing ''failure_class'')) (JStr ''U'')),
      (''business_code'', py_or (jopt (oc_business_code oc)) (jget existing ''business_code'')),
      (''first_seen'', py_or (jget existing ''first_seen'') (JNum (ca_now ca)))]"

definition record_occurrence :: "'s storage \<Rightarrow> call \<Rightarrow> string \<Rightarrow> occurrence \<Rightarrow> ('s group_proc, doc) io" where
  "record_occurrence sto ca fp oc =
     (let rec = occurrence_record ca (oc_case_id oc) (oc_ref_id oc) (oc_corroboration oc)
      in bindM (on_store (st_create_json sto fp (occurrence_file (oc_case_id oc)) rec)) (\<lambda>created.
         bindM (if created then remember fp OCCURRENCES_SUBDIR (oc_case_id oc) rec else ret ()) (\<lambda>_.
         bindM (on_store (st_load sto fp META_FILENAME)) (\<lambda>existing.
         bindM (on_store (st_save sto fp (meta_of ca fp oc (or_empty existing)) META_FILENAME)) (\<lambda>_.
         bindM (invalidate fp) (\<lambda>_. reload sto ca fp))))))"

definition attach_recommendation ::
    "'s storage \<Rightarrow> call \<Rightarrow> string \<Rightarrow> json \<Rightarrow> string \<Rightarrow> string option \<Rightarrow> string option \<Rightarrow> ('s group_proc, doc) io" where
  "attach_recommendation sto ca fp recommendation state by_case_id corroboration =
     bindM (on_store (st_save sto fp
              [(''recommendation'', recommendation), (''recommendation_state'', JStr state),
               (''by_case_id'', jopt by_case_id), (''corroboration'', jopt corroboration),
               (''written_at'', JNum (ca_now ca))] RECOMMENDATION_FILENAME)) (\<lambda>_.
     bindM (invalidate fp) (\<lambda>_. reload sto ca fp))"

text \<open>The history key of a code check: its case, or a unique name (the random identifier is an argument).\<close>

definition attach_code_check ::
    "'s storage \<Rightarrow> call \<Rightarrow> string \<Rightarrow> string \<Rightarrow> doc \<Rightarrow> string option \<Rightarrow> ('s group_proc, doc) io" where
  "attach_code_check sto ca unique fp rec by_case_id =
     bindM (on_store (st_save sto fp
              [(''code_check'', JObj rec), (''by_case_id'', jopt by_case_id), (''written_at'', JNum (ca_now ca))]
              CODE_CHECK_FILENAME)) (\<lambda>_.
     let verdict = jget rec ''verdict'';
         key = (case by_case_id of None \<Rightarrow> ''anon-'' @ unique | Some c \<Rightarrow> if c = [] then ''anon-'' @ unique else c);
         entry = [(''verdict'', verdict), (''by_case_id'', jopt by_case_id), (''at'', JNum (ca_now ca)),
                  (''seq'', JNum (ca_seq ca))]
     in bindM (if truthy verdict
               then bindM (on_store (st_create_json sto fp (CODE_CHECKS_SUBDIR @ ''/'' @ key @ ''.json'') entry)) (\<lambda>created.
                      if created then remember fp CODE_CHECKS_SUBDIR key entry else ret ())
               else ret ()) (\<lambda>_.
        bindM (invalidate fp) (\<lambda>_. reload sto ca fp)))"

definition list_groups :: "'s storage \<Rightarrow> call \<Rightarrow> ('s group_proc, doc list) io" where
  "list_groups sto ca =
     catchM
       (bindM (on_store (st_list_events sto)) (\<lambda>identifiers.
        bindM (foldM (\<lambda>fp groups.
                 catchM (bindM (load_group sto ca fp) (\<lambda>g.
                           ret (case g of None \<Rightarrow> groups | Some d \<Rightarrow> if d = [] then groups else groups @ [d])))
                        (\<lambda>_. ret groups)) identifiers []) (\<lambda>groups.
          ret (rev (sort_key (\<lambda>g. num (jget g ''last_seen'')) (rev groups))))))
       (\<lambda>_. ret [])"


section \<open>Occurrences are a set\<close>

text \<open>The occurrence documents of a fingerprint in the local store, by file name.\<close>

definition occurrence_path :: "path \<Rightarrow> string \<Rightarrow> string \<Rightarrow> path" where
  "occurrence_path base fp n = base @ [''casebook_'' @ fp, OCCURRENCES_SUBDIR, n]"

definition occurrence_names :: "path \<Rightarrow> string \<Rightarrow> disk \<Rightarrow> string set" where
  "occurrence_names base fp d =
     {n. ends_with ''.json'' n \<and> file_at d (occurrence_path base fp n) \<noteq> None}"

definition occurrences_readable :: "path \<Rightarrow> string \<Rightarrow> disk \<Rightarrow> bool" where
  "occurrences_readable base fp d \<longleftrightarrow>
     (\<forall>n\<in>occurrence_names base fp d. CHR ''/'' \<notin> set n \<and>
        (\<exists>doc. doc \<noteq> [] \<and> file_at d (occurrence_path base fp n) = Some (Json doc)))"

lemma occurrence_path_inj: "occurrence_path base fp n = occurrence_path base fp m \<longleftrightarrow> n = m"
  by (simp add: occurrence_path_def)

lemma file_at_dom: "file_at d p \<noteq> None \<longleftrightarrow> p \<in> fst ` set (d_files d)"
  by (auto simp: file_at_def map_of_eq_None_iff)

lemma resolve_sub:
  assumes "CHR ''/'' \<notin> set sub" and "proper_name sub"
  shows "resolve dir sub = dir @ [sub]"
  using assms by (subst resolve_plain) (auto simp: split_on_id)

lemma list_json_names:
  assumes fp: "CHR ''/'' \<notin> set fp" and sub: "CHR ''/'' \<notin> set sub" "proper_name sub"
  shows "\<exists>ns. local_list_json base fp sub d = (Inr ns, d) \<and> distinct ns \<and>
    set ns = {n. ends_with ''.json'' n \<and> file_at d (base @ [''casebook_'' @ fp, sub, n]) \<noteq> None}"
proof -
  let ?dir = "base @ [''casebook_'' @ fp, sub]"
  let ?ps = "filter (\<lambda>p. p \<noteq> [] \<and> butlast p = ?dir \<and> ends_with ''.json'' (last p)) (remdups (map fst (d_files d)))"
  have r: "local_list_json base fp sub d = (Inr (sort (map last ?ps)), d)"
    by (simp add: local_list_json_def resolve_dir_plain [OF fp] resolve_sub [OF sub] Let_def)
  have "inj_on last (set ?ps)"
  proof (rule inj_onI)
    fix x y assume "x \<in> set ?ps" "y \<in> set ?ps" and l: "last x = last y"
    then have ne: "x \<noteq> []" "y \<noteq> []" and b: "butlast x = butlast y" by simp_all
    have "x = butlast x @ [last x]" using ne by simp
    also have "\<dots> = butlast y @ [last y]" by (simp only: b l)
    also have "\<dots> = y" using ne by simp
    finally show "x = y" .
  qed
  then have "distinct (map last ?ps)" by (simp add: distinct_map)
  moreover have "set (map last ?ps) = {n. ends_with ''.json'' n \<and> file_at d (?dir @ [n]) \<noteq> None}"
  proof (rule set_eqI, rule iffI)
    fix n assume "n \<in> set (map last ?ps)"
    then obtain p where p: "p \<noteq> []" "butlast p = ?dir" "ends_with ''.json'' (last p)" "n = last p"
      "p \<in> fst ` set (d_files d)" by auto
    then have "p = ?dir @ [n]" by (metis append_butlast_last_id)
    then have "file_at d (?dir @ [n]) \<noteq> None" unfolding file_at_dom using p(5) by (simp only:)
    with p(3,4) show "n \<in> {n. ends_with ''.json'' n \<and> file_at d (?dir @ [n]) \<noteq> None}" by simp
  next
    fix n assume "n \<in> {n. ends_with ''.json'' n \<and> file_at d (?dir @ [n]) \<noteq> None}"
    then have "?dir @ [n] \<in> set ?ps" unfolding file_at_dom by (simp add: butlast_append)
    then have "last (?dir @ [n]) \<in> last ` set ?ps" by (rule imageI)
    then show "n \<in> set (map last ?ps)" by simp
  qed
  ultimately show ?thesis using r by simp
qed

subsection \<open>Reading a directory of records\<close>

lemma gp_store_on_store: "on_store m p = (r, p') \<Longrightarrow> m (gp_store p) = (r, gp_store p') \<and>
    gp_cache p' = gp_cache p \<and> gp_records p' = gp_records p"
  by (auto simp: on_store_def split: prod.splits)

lemma on_store_pure: "m (gp_store p) = (r, gp_store p) \<Longrightarrow> on_store m p = (r, p)"
  by (simp add: on_store_def)

lemma read_one_appends:
  assumes "map_of (gp_records p) (fp, sub, drop_json_suffix n) \<noteq> None \<or>
     (\<exists>doc. doc \<noteq> [] \<and> st_load sto fp (sub @ ''/'' @ n) (gp_store p) = (Inr (Some doc), gp_store p))"
  shows "\<exists>r p'. read_one sto fp sub n acc p = (Inr (acc @ [r]), p') \<and> gp_store p' = gp_store p \<and>
     (\<forall>k. map_of (gp_records p) k \<noteq> None \<longrightarrow> map_of (gp_records p') k \<noteq> None)"
proof (cases "map_of (gp_records p) (fp, sub, drop_json_suffix n)")
  case (Some r)
  then show ?thesis by (simp add: read_one_def)
next
  case None
  with assms obtain doc where "doc \<noteq> []"
    "st_load sto fp (sub @ ''/'' @ n) (gp_store p) = (Inr (Some doc), gp_store p)" by auto
  then show ?thesis
    using None by (simp add: read_one_def bindM_def on_store_pure remember_def update_conv Let_def)
qed

lemma read_all_appends:
  assumes "\<forall>n\<in>set ns. map_of (gp_records p) (fp, sub, drop_json_suffix n) \<noteq> None \<or>
     (\<exists>doc. doc \<noteq> [] \<and> st_load sto fp (sub @ ''/'' @ n) (gp_store p) = (Inr (Some doc), gp_store p))"
  shows "\<exists>rs p'. foldM (read_one sto fp sub) ns acc p = (Inr (acc @ rs), p') \<and> gp_store p' = gp_store p \<and>
     length rs = length ns"
  using assms
proof (induction ns arbitrary: acc p)
  case Nil
  then show ?case by simp
next
  case (Cons n ns)
  obtain r p1 where 1: "read_one sto fp sub n acc p = (Inr (acc @ [r]), p1)" "gp_store p1 = gp_store p"
    "\<forall>k. map_of (gp_records p) k \<noteq> None \<longrightarrow> map_of (gp_records p1) k \<noteq> None"
    using read_one_appends [of p fp sub n sto acc] Cons.prems by auto
  have "\<forall>n\<in>set ns. map_of (gp_records p1) (fp, sub, drop_json_suffix n) \<noteq> None \<or>
     (\<exists>doc. doc \<noteq> [] \<and> st_load sto fp (sub @ ''/'' @ n) (gp_store p1) = (Inr (Some doc), gp_store p1))"
    using Cons.prems 1(2,3) by (metis list.set_intros(2))
  from Cons.IH [OF this, of "acc @ [r]"] obtain rs p' where
    "foldM (read_one sto fp sub) ns (acc @ [r]) p1 = (Inr ((acc @ [r]) @ rs), p')" "gp_store p' = gp_store p1"
    "length rs = length ns" by auto
  then show ?case using 1 by (intro exI [of _ "r # rs"] exI [of _ p']) (simp add: bindM_def)
qed

text \<open>Composing never fails to count: without a legacy record every occurrence counts once.\<close>

lemma compose_count:
  "jget (compose_group cap fp occs checks meta rec cc legacy) ''occurrence_count'' =
     JNum (of_int (non_negative_int (jget legacy ''occurrence_count'')) +
           of_nat (length (fresh_occurrences occs legacy)))"
  by (simp add: compose_group_def Let_def)

lemma fresh_no_legacy: "length (fresh_occurrences occs []) = length occs"
proof -
  have "\<not> listed [] r" for r by (auto simp: listed_def split: json.split)
  then show ?thesis by (simp add: fresh_occurrences_def member_strings_def)
qed

lemma compose_not_Nil: "compose_group cap fp occs checks meta rec cc legacy \<noteq> []"
  by (simp add: compose_group_def Let_def)

subsection \<open>Recording an occurrence\<close>

lemma occurrence_key_ok:
  assumes "CHR ''/'' \<notin> set fp" and "CHR ''/'' \<notin> set c"
  shows "local_key_ok fp (occurrence_file c)"
    and "key_path base fp (occurrence_file c) = occurrence_path base fp (c @ ''.json'')"
proof -
  have "CHR ''/'' \<notin> set (c @ ''.json'')" using assms(2) by simp
  then have "split_on CHR ''/'' (''occurrences'' @ CHR ''/'' # c @ ''.json'') = [''occurrences'', c @ ''.json'']"
    using split_on_id by simp
  then have sp: "split_on CHR ''/'' (occurrence_file c) = [''occurrences'', c @ ''.json'']"
    by (simp add: occurrence_file_def OCCURRENCES_SUBDIR_def)
  then show "key_path base fp (occurrence_file c) = occurrence_path base fp (c @ ''.json'')"
    by (simp add: key_path_def occurrence_path_def OCCURRENCES_SUBDIR_def)
  have "length (c @ ''.json'') > 2" by simp
  then have "c @ ''.json'' \<noteq> ''.''" "c @ ''.json'' \<noteq> ''..''" by fastforce+
  then have "\<forall>w\<in>set (split_on CHR ''/'' (occurrence_file c)). proper_name w"
    unfolding sp by (simp add: proper_name_def)
  moreover have "\<not> ends_with ''.tmp'' (occurrence_file c)"
    by (simp add: occurrence_file_def ends_with_suffix suffix_def)
  ultimately show "local_key_ok fp (occurrence_file c)" using assms(1) by (simp add: local_key_ok_def)
qed

lemma top_key:
  assumes "CHR ''/'' \<notin> set fp" and "CHR ''/'' \<notin> set f" and "proper_name f" and "\<not> ends_with ''.tmp'' f"
  shows "local_key_ok fp f" and "key_path base fp f = base @ [''casebook_'' @ fp, f]"
  using assms by (auto simp: local_key_ok_def key_path_def split_on_id)

lemma meta_save_keeps_occurrences:
  assumes "local_save base fp doc META_FILENAME d = (r, d')" and fp: "CHR ''/'' \<notin> set fp"
  shows "file_at d' (occurrence_path base fp n) = file_at d (occurrence_path base fp n)"
proof -
  have k: "local_key_ok fp META_FILENAME" "key_path base fp META_FILENAME = base @ [''casebook_'' @ fp, ''meta.json'']"
    "key_path base fp (tmp_name META_FILENAME) = base @ [''casebook_'' @ fp, ''meta.json.tmp'']"
    using fp by (auto simp: local_key_ok_def key_path_def META_FILENAME_def proper_name_def ends_with_def tmp_name_def)
  show ?thesis using local_save_spec [OF assms(1) k(1)] by (simp add: k occurrence_path_def)
qed

text \<open>Reading a group writes nothing to the store.\<close>

definition store_is :: "'s \<Rightarrow> 's group_proc \<Rightarrow> bool" where
  "store_is s p \<longleftrightarrow> gp_store p = s"

lemma keeps_on_store: "pureM m \<Longrightarrow> keepsM (store_is s) (on_store m)"
  by (auto simp: keepsM_def store_is_def on_store_def pureM_def split: prod.split dest: spec [of _ s])

lemma keeps_store: "(\<And>s. keepsM (store_is s) m) \<Longrightarrow> keepsM (\<lambda>u. Q (gp_store u)) m"
  unfolding keepsM_def store_is_def by metis

lemma keeps_caches [simp, intro]:
  "keepsM (store_is s) (remember fp sub n d)" "keepsM (store_is s) (cache_put ca fp g)"
  "keepsM (store_is s) (invalidate fp)"
  by (simp_all add: keepsM_def store_is_def remember_def cache_put_def invalidate_def)

lemma keeps_read_one:
  assumes "\<And>f. pureM (st_load sto fp f)"
  shows "keepsM (store_is s) (read_one sto fp sub n acc)"
proof -
  have "keepsM (store_is s) (bindM (on_store (st_load sto fp (sub @ ''/'' @ n))) (\<lambda>loaded.
               case loaded of
                 None \<Rightarrow> ret acc
               | Some d \<Rightarrow>
                   if d = [] then ret acc
                   else bindM (remember fp sub (drop_json_suffix n) d)
                     (\<lambda>_. ret (acc @ [jset ''_name'' (JStr (drop_json_suffix n)) d]))))"
    by (rule keepsM_bindM [OF keeps_on_store [OF assms]]) (auto intro!: keepsM_bindM split: option.split)
  then show ?thesis by (simp add: keepsM_def read_one_def Let_def split: option.split)
qed

lemma keeps_load_group:
  assumes "\<And>f. pureM (st_load sto fp f)" and "\<And>sub. pureM (st_list_json sto fp sub)"
  shows "keepsM (store_is s) (load_group sto ca fp)"
proof -
  have ra: "keepsM (store_is s) (read_all sto fp sub)" for sub
    unfolding read_all_def
    by (intro keepsM_bindM keeps_on_store assms keepsM_foldM keeps_read_one)
  have ll: "keepsM (store_is s) (load_legacy sto fp)"
    unfolding load_legacy_def by (intro keepsM_catchM keeps_on_store assms keepsM_ret)
  have "keepsM (store_is s) (
          bindM (read_all sto fp OCCURRENCES_SUBDIR) (\<lambda>occurrences.
          bindM (read_all sto fp CODE_CHECKS_SUBDIR) (\<lambda>checks.
          bindM (on_store (st_load sto fp META_FILENAME)) (\<lambda>meta.
          bindM (on_store (st_load sto fp RECOMMENDATION_FILENAME)) (\<lambda>recommendation.
          bindM (on_store (st_load sto fp CODE_CHECK_FILENAME)) (\<lambda>code_check.
          bindM (load_legacy sto fp) (\<lambda>legacy.
            if occurrences = [] \<and> checks = [] \<and> or_empty meta = [] \<and> or_empty recommendation = [] \<and>
               or_empty code_check = [] \<and> or_empty legacy = []
            then bindM (cache_put ca fp None) (\<lambda>_. ret None)
            else (let g = compose_group (member_cap (ca_env ca)) fp occurrences checks (or_empty meta)
                            (or_empty recommendation) (or_empty code_check) (or_empty legacy)
                  in bindM (cache_put ca fp (Some g)) (\<lambda>_. ret (Some g))))))))))"
    unfolding Let_def
    by (intro keepsM_bindM ra ll keeps_on_store assms) (auto intro!: keepsM_bindM)
  then show ?thesis by (simp add: keepsM_def load_group_def split: option.split)
qed

lemma keeps_reload:
  assumes "\<And>f. pureM (st_load sto fp f)" and "\<And>sub. pureM (st_list_json sto fp sub)"
  shows "keepsM (store_is s) (reload sto ca fp)"
  unfolding reload_def by (intro keepsM_catchM keepsM_bindM keeps_load_group assms keepsM_ret)

lemma local_reads_pure [simp]:
  "pureM (st_load (local_storage base) fp f)" "pureM (st_list_json (local_storage base) fp sub)"
proof -
  show "pureM (st_load (local_storage base) fp f)" by (rule loc.load_pure)
  show "pureM (st_list_json (local_storage base) fp sub)"
    by (cases "resolve_dir base fp")
       (simp_all add: local_storage_def local_list_json_def pureM_def Let_def)
qed

text \<open>
  What a call to record an occurrence does to the occurrence documents: the case's own document is
  added if it was missing, none is removed, and none that was there changes.
\<close>

lemma record_occurrence_files:
  assumes fp: "CHR ''/'' \<notin> set fp" and c: "CHR ''/'' \<notin> set (oc_case_id oc)"
    and r: "record_occurrence (local_storage base) ca fp oc p = (x, p')"
  shows "\<forall>n. file_at (gp_store p) (occurrence_path base fp n) \<noteq> None \<longrightarrow>
      file_at (gp_store p') (occurrence_path base fp n) = file_at (gp_store p) (occurrence_path base fp n)"
    and "\<forall>n. n \<noteq> oc_case_id oc @ ''.json'' \<longrightarrow>
      file_at (gp_store p') (occurrence_path base fp n) = file_at (gp_store p) (occurrence_path base fp n)"
    and "x = Inr g \<Longrightarrow> file_at (gp_store p) (occurrence_path base fp (oc_case_id oc @ ''.json'')) = None \<Longrightarrow>
      file_at (gp_store p') (occurrence_path base fp (oc_case_id oc @ ''.json'')) =
        Some (Json (stamp_version (occurrence_record ca (oc_case_id oc) (oc_ref_id oc) (oc_corroboration oc))))"
proof -
  let ?rec = "occurrence_record ca (oc_case_id oc) (oc_ref_id oc) (oc_corroboration oc)"
  let ?P = "occurrence_path base fp (oc_case_id oc @ ''.json'')"
  let ?sto = "local_storage base"
  have k: "local_key_ok fp (occurrence_file (oc_case_id oc))"
    "key_path base fp (occurrence_file (oc_case_id oc)) = ?P" using occurrence_key_ok [OF fp c] by auto
  let ?same = "\<lambda>d d'. \<forall>n. file_at d' (occurrence_path base fp n) = file_at d (occurrence_path base fp n)"
  have tail: "?same (gp_store q) (gp_store q')"
    if "bindM (if b then remember fp OCCURRENCES_SUBDIR (oc_case_id oc) ?rec else ret ()) (\<lambda>_.
         bindM (on_store (st_load ?sto fp META_FILENAME)) (\<lambda>existing.
         bindM (on_store (st_save ?sto fp (meta_of ca fp oc (or_empty existing)) META_FILENAME)) (\<lambda>_.
         bindM (invalidate fp) (\<lambda>_. reload ?sto ca fp)))) q = (y, q')" for b q y q'
  proof -
    let ?I = "\<lambda>u. ?same (gp_store q) (gp_store u)"
    have sv: "keepsM ?I (on_store (st_save ?sto fp doc META_FILENAME))" for doc
      using meta_save_keeps_occurrences [OF _ fp]
      by (auto simp: keepsM_def on_store_def local_storage_def split: prod.split)
    have "keepsM ?I (bindM (if b then remember fp OCCURRENCES_SUBDIR (oc_case_id oc) ?rec else ret ()) (\<lambda>_.
         bindM (on_store (st_load ?sto fp META_FILENAME)) (\<lambda>existing.
         bindM (on_store (st_save ?sto fp (meta_of ca fp oc (or_empty existing)) META_FILENAME)) (\<lambda>_.
         bindM (invalidate fp) (\<lambda>_. reload ?sto ca fp)))))"
      by (intro keepsM_bindM sv keeps_store [where Q = "?same (gp_store q)"] keeps_on_store keeps_reload local_reads_pure)
         (cases b, auto)
    then have "?I (snd (bindM (if b then remember fp OCCURRENCES_SUBDIR (oc_case_id oc) ?rec else ret ()) (\<lambda>_.
         bindM (on_store (st_load ?sto fp META_FILENAME)) (\<lambda>existing.
         bindM (on_store (st_save ?sto fp (meta_of ca fp oc (or_empty existing)) META_FILENAME)) (\<lambda>_.
         bindM (invalidate fp) (\<lambda>_. reload ?sto ca fp)))) q))" by (simp add: keepsM_def)
    then show ?thesis unfolding that by simp
  qed
  show "\<forall>n. file_at (gp_store p) (occurrence_path base fp n) \<noteq> None \<longrightarrow>
      file_at (gp_store p') (occurrence_path base fp n) = file_at (gp_store p) (occurrence_path base fp n)"
    and "\<forall>n. n \<noteq> oc_case_id oc @ ''.json'' \<longrightarrow>
      file_at (gp_store p') (occurrence_path base fp n) = file_at (gp_store p) (occurrence_path base fp n)"
    and "x = Inr g \<Longrightarrow> file_at (gp_store p) ?P = None \<Longrightarrow> file_at (gp_store p') ?P = Some (Json (stamp_version ?rec))"
  proof -
    have "(\<forall>n. file_at (gp_store p) (occurrence_path base fp n) \<noteq> None \<or> n \<noteq> oc_case_id oc @ ''.json'' \<longrightarrow>
        file_at (gp_store p') (occurrence_path base fp n) = file_at (gp_store p) (occurrence_path base fp n)) \<and>
      (x = Inr g \<longrightarrow> file_at (gp_store p) ?P = None \<longrightarrow> file_at (gp_store p') ?P = Some (Json (stamp_version ?rec)))"
      using r [unfolded record_occurrence_def Let_def]
    proof (cases rule: bindM_cases)
      case (exn e)
      then have "local_create_json base fp (occurrence_file (oc_case_id oc)) ?rec (gp_store p) = (Inl e, gp_store p')"
        using gp_store_on_store [OF exn(1)] by (simp add: local_storage_def)
      note sp = local_create_spec [OF this k(1), unfolded k(2)]
      have "file_at (gp_store p') (occurrence_path base fp n) = file_at (gp_store p) (occurrence_path base fp n)"
        if "file_at (gp_store p) (occurrence_path base fp n) \<noteq> None \<or> n \<noteq> oc_case_id oc @ ''.json''" for n
        using sp that occurrence_path_inj [of base fp n] by blast
      with exn(2) show ?thesis by blast
    next
      case (val b q)
      then have "local_create_json base fp (occurrence_file (oc_case_id oc)) ?rec (gp_store p) = (Inr b, gp_store q)"
        using gp_store_on_store [OF val(1)] by (simp add: local_storage_def)
      note sp = local_create_spec [OF this k(1), unfolded k(2)]
      have "file_at (gp_store q) (occurrence_path base fp n) = file_at (gp_store p) (occurrence_path base fp n)"
        if "file_at (gp_store p) (occurrence_path base fp n) \<noteq> None \<or> n \<noteq> oc_case_id oc @ ''.json''" for n
        using sp that occurrence_path_inj [of base fp n] by blast
      moreover have "file_at (gp_store q) ?P = Some (Json (stamp_version ?rec))" if "file_at (gp_store p) ?P = None"
        using sp that by (cases b) auto
      ultimately show ?thesis using tail [OF val(2)] by metis
    qed
    then show "\<forall>n. file_at (gp_store p) (occurrence_path base fp n) \<noteq> None \<longrightarrow>
        file_at (gp_store p') (occurrence_path base fp n) = file_at (gp_store p) (occurrence_path base fp n)"
      and "\<forall>n. n \<noteq> oc_case_id oc @ ''.json'' \<longrightarrow>
        file_at (gp_store p') (occurrence_path base fp n) = file_at (gp_store p) (occurrence_path base fp n)"
      and "x = Inr g \<Longrightarrow> file_at (gp_store p) ?P = None \<Longrightarrow> file_at (gp_store p') ?P = Some (Json (stamp_version ?rec))"
      by blast+
  qed
qed

lemma record_occurrence_names:
  assumes fp: "CHR ''/'' \<notin> set fp" and c: "CHR ''/'' \<notin> set (oc_case_id oc)"
    and r: "record_occurrence (local_storage base) ca fp oc p = (Inr g, p')"
  shows "occurrence_names base fp (gp_store p') =
      insert (oc_case_id oc @ ''.json'') (occurrence_names base fp (gp_store p))"
proof -
  let ?n = "oc_case_id oc @ ''.json''"
  note f = record_occurrence_files [OF fp c r]
  have new: "file_at (gp_store p') (occurrence_path base fp ?n) \<noteq> None"
    using f(1) f(3) [OF refl] by (cases "file_at (gp_store p) (occurrence_path base fp ?n)") auto
  have same: "file_at (gp_store p') (occurrence_path base fp n) = file_at (gp_store p) (occurrence_path base fp n)"
    if "n \<noteq> ?n" for n using f(2) that by blast
  have "ends_with ''.json'' ?n" by (auto simp: ends_with_suffix suffix_def)
  with new have "?n \<in> occurrence_names base fp (gp_store p')" by (simp add: occurrence_names_def)
  moreover have "n \<in> occurrence_names base fp (gp_store p') \<longleftrightarrow> n \<in> occurrence_names base fp (gp_store p)"
    if "n \<noteq> ?n" for n unfolding occurrence_names_def mem_Collect_eq same [OF that] by (rule refl)
  ultimately show ?thesis by (intro set_eqI) (metis insert_iff)
qed

lemma record_occurrence_readable:
  assumes fp: "CHR ''/'' \<notin> set fp" and c: "CHR ''/'' \<notin> set (oc_case_id oc)"
    and r: "record_occurrence (local_storage base) ca fp oc p = (Inr g, p')"
    and ok: "occurrences_readable base fp (gp_store p)"
  shows "occurrences_readable base fp (gp_store p')"
  unfolding occurrences_readable_def
proof
  fix n assume n: "n \<in> occurrence_names base fp (gp_store p')"
  note f = record_occurrence_files [OF fp c r]
  show "CHR ''/'' \<notin> set n \<and> (\<exists>doc. doc \<noteq> [] \<and> file_at (gp_store p') (occurrence_path base fp n) = Some (Json doc))"
  proof (cases "n \<in> occurrence_names base fp (gp_store p)")
    case True
    then have "file_at (gp_store p) (occurrence_path base fp n) \<noteq> None" by (simp add: occurrence_names_def)
    then have "file_at (gp_store p') (occurrence_path base fp n) = file_at (gp_store p) (occurrence_path base fp n)"
      using f(1) by blast
    with ok True show ?thesis unfolding occurrences_readable_def by auto
  next
    case False
    then have nn: "n = oc_case_id oc @ ''.json''" using n record_occurrence_names [OF fp c r] by blast
    then have "file_at (gp_store p) (occurrence_path base fp n) = None"
      using False by (auto simp: occurrence_names_def ends_with_suffix suffix_def)
    with f(3) [OF refl] nn c show ?thesis by auto
  qed
qed

subsection \<open>The count a reader sees\<close>

definition unlocked :: "disk \<Rightarrow> bool" where
  "unlocked d \<longleftrightarrow> (\<forall>q. \<not> d_locked d q)"

lemma local_load_unlocked:
  assumes "unlocked d" and "CHR ''/'' \<notin> set fp"
  shows "\<exists>x. local_load base fp f d = (Inr x, d)"
  using assms by (simp add: local_load_def resolve_dir_plain with_lock_def unlocked_def)

lemma read_one_total:
  assumes "unlocked (gp_store p)" and "CHR ''/'' \<notin> set fp"
  shows "\<exists>rs p'. read_one (local_storage base) fp sub n acc p = (Inr rs, p') \<and> gp_store p' = gp_store p"
proof -
  obtain x where "on_store (st_load (local_storage base) fp (sub @ ''/'' @ n)) p = (Inr x, p)"
    using local_load_unlocked [OF assms, of base "sub @ ''/'' @ n"] on_store_pure
    by (metis local_storage_def storage.select_convs(2))
  then show ?thesis
    by (auto simp: read_one_def Let_def bindM_def remember_def split: option.split)
qed

lemma read_all_total:
  assumes u: "unlocked (gp_store p)" and fp: "CHR ''/'' \<notin> set fp"
    and sub: "CHR ''/'' \<notin> set sub" "proper_name sub"
  shows "\<exists>rs p'. read_all (local_storage base) fp sub p = (Inr rs, p') \<and> gp_store p' = gp_store p"
proof -
  have f: "\<exists>rs p'. foldM (read_one (local_storage base) fp sub) ns acc p = (Inr rs, p') \<and> gp_store p' = gp_store p"
    if "unlocked (gp_store p)" for ns acc p
    using that
  proof (induction ns arbitrary: acc p)
    case Nil
    then show ?case by simp
  next
    case (Cons n ns)
    obtain rs p1 where 1: "read_one (local_storage base) fp sub n acc p = (Inr rs, p1)" "gp_store p1 = gp_store p"
      using read_one_total [OF Cons.prems fp, of base sub n acc] by auto
    obtain rs' p2 where "foldM (read_one (local_storage base) fp sub) ns rs p1 = (Inr rs', p2)" "gp_store p2 = gp_store p1"
      using Cons.IH [of p1 rs] Cons.prems 1 by auto
    with 1 show ?case by (simp add: bindM_def)
  qed
  obtain ns where "local_list_json base fp sub (gp_store p) = (Inr ns, gp_store p)"
    using list_json_names [OF fp sub, of base "gp_store p"] by auto
  then have "on_store (st_list_json (local_storage base) fp sub) p = (Inr ns, p)"
    by (intro on_store_pure) (simp add: local_storage_def)
  then show ?thesis using f [OF u, of ns "[]"] by (simp add: read_all_def bindM_def)
qed

lemma read_occurrences:
  assumes u: "unlocked (gp_store p)" and fp: "CHR ''/'' \<notin> set fp"
    and ok: "occurrences_readable base fp (gp_store p)"
  shows "\<exists>rs p'. read_all (local_storage base) fp OCCURRENCES_SUBDIR p = (Inr rs, p') \<and>
     gp_store p' = gp_store p \<and> length rs = card (occurrence_names base fp (gp_store p))"
proof -
  let ?d = "gp_store p" and ?sto = "local_storage base"
  have sub: "CHR ''/'' \<notin> set OCCURRENCES_SUBDIR" "proper_name OCCURRENCES_SUBDIR"
    by (simp_all add: OCCURRENCES_SUBDIR_def proper_name_def)
  obtain ns where ns: "local_list_json base fp OCCURRENCES_SUBDIR ?d = (Inr ns, ?d)" "distinct ns"
    "set ns = occurrence_names base fp ?d"
    using list_json_names [OF fp sub, of base ?d] by (auto simp: occurrence_names_def occurrence_path_def)
  have "\<exists>doc. doc \<noteq> [] \<and> st_load ?sto fp (OCCURRENCES_SUBDIR @ ''/'' @ n) ?d = (Inr (Some doc), ?d)" if "n \<in> set ns" for n
  proof -
    have n: "CHR ''/'' \<notin> set n" "ends_with ''.json'' n"
      and "\<exists>doc. doc \<noteq> [] \<and> file_at ?d (occurrence_path base fp n) = Some (Json doc)"
      using that ns(3) ok by (auto simp: occurrences_readable_def occurrence_names_def)
    then obtain doc where d: "doc \<noteq> []" "file_at ?d (occurrence_path base fp n) = Some (Json doc)" by auto
    obtain c where c: "n = c @ ''.json''" using n(2) by (auto simp: ends_with_suffix suffix_def)
    then have "CHR ''/'' \<notin> set c" using n(1) by simp
    from occurrence_key_ok [OF fp this] d(2) u have "local_load base fp (occurrence_file c) ?d = (Inr (Some doc), ?d)"
      by (intro load_after) (simp_all add: c unlocked_def)
    with d(1) c show ?thesis by (auto simp: local_storage_def occurrence_file_def)
  qed
  then obtain rs p' where "foldM (read_one ?sto fp OCCURRENCES_SUBDIR) ns [] p = (Inr ([] @ rs), p')"
    "gp_store p' = ?d" "length rs = length ns"
    using read_all_appends [of ns p fp OCCURRENCES_SUBDIR ?sto "[]"] by auto
  moreover have "on_store (st_list_json ?sto fp OCCURRENCES_SUBDIR) p = (Inr ns, p)"
    using ns(1) by (intro on_store_pure) (simp add: local_storage_def)
  moreover have "length ns = card (occurrence_names base fp ?d)"
    using ns(2,3) distinct_card by metis
  ultimately show ?thesis by (simp add: read_all_def bindM_def)
qed

lemma load_group_count:
  assumes u: "unlocked (gp_store p)" and fp: "CHR ''/'' \<notin> set fp" "fp \<noteq> []"
    and ok: "occurrences_readable base fp (gp_store p)" and some: "occurrence_names base fp (gp_store p) \<noteq> {}"
    and leg: "local_view base (gp_store p) fp LEGACY_FILENAME = None" and miss: "cache_get ca fp p = None"
    and fin: "finite (occurrence_names base fp (gp_store p))"
  shows "\<exists>g p'. load_group (local_storage base) ca fp p = (Inr (Some g), p') \<and> g \<noteq> [] \<and>
     jget g ''occurrence_count'' = JNum (of_nat (card (occurrence_names base fp (gp_store p))))"
proof -
  let ?sto = "local_storage base"
  obtain occs p1 where 1: "read_all ?sto fp OCCURRENCES_SUBDIR p = (Inr occs, p1)" "gp_store p1 = gp_store p"
    "length occs = card (occurrence_names base fp (gp_store p))"
    using read_occurrences [OF u fp(1) ok] by auto
  have sub: "CHR ''/'' \<notin> set CODE_CHECKS_SUBDIR" "proper_name CODE_CHECKS_SUBDIR"
    by (simp_all add: CODE_CHECKS_SUBDIR_def proper_name_def)
  have u1: "unlocked (gp_store p1)" using u 1 by simp
  obtain checks p2 where 2: "read_all ?sto fp CODE_CHECKS_SUBDIR p1 = (Inr checks, p2)" "gp_store p2 = gp_store p"
    using read_all_total [OF u1 fp(1) sub, of base] 1 by auto
  have ld: "\<exists>x. on_store (st_load ?sto fp f) p2 = (Inr x, p2)" for f
    using local_load_unlocked [OF _ fp(1), of "gp_store p2" base f] u 2 on_store_pure
    by (metis local_storage_def storage.select_convs(2))
  obtain meta rec cc where 3: "on_store (st_load ?sto fp META_FILENAME) p2 = (Inr meta, p2)"
    "on_store (st_load ?sto fp RECOMMENDATION_FILENAME) p2 = (Inr rec, p2)"
    "on_store (st_load ?sto fp CODE_CHECK_FILENAME) p2 = (Inr cc, p2)" using ld by metis
  obtain lg where lg: "on_store (st_load ?sto fp LEGACY_FILENAME) p2 = (Inr lg, p2)" using ld by metis
  have kl: "local_key_ok fp LEGACY_FILENAME"
    using fp(1) by (auto simp: local_key_ok_def LEGACY_FILENAME_def proper_name_def ends_with_def)
  have "lg = None"
    using loc.load_view [OF kl, of base "gp_store p2"] gp_store_on_store [OF lg] leg 2(2)
    by (cases lg) auto
  then have 4: "load_legacy ?sto fp p2 = (Inr None, p2)" using lg by (simp add: load_legacy_def catchM_def)
  have ne: "occs \<noteq> []" using 1(3) some fin by auto
  show ?thesis
    using fp(2) miss 1 2 3 4 ne
    by (simp add: load_group_def bindM_def cache_put_def Let_def compose_not_Nil compose_count or_empty_def
        fresh_no_legacy non_negative_int_def py_or_def)
qed

lemma local_create_locked: "local_create_json base e f doc d = (r, d') \<Longrightarrow> d_locked d' = d_locked d"
  unfolding local_create_json_def get_dir_def Let_def
  by (auto elim!: bindM_cases simp: makedirs_def catchM_def bindM_def write_file_def put_file_def remove_file_def
      of_result_def split: if_splits sum.splits)

lemma finite_occurrence_names: "CHR ''/'' \<notin> set fp \<Longrightarrow> finite (occurrence_names base fp d)"
  using list_json_names [of fp OCCURRENCES_SUBDIR base d]
  by (auto simp: occurrence_names_def occurrence_path_def OCCURRENCES_SUBDIR_def proper_name_def) (metis List.finite_set)

text \<open>The last step of a successful record: the store it reads back from.\<close>

lemma record_occurrence_reload:
  assumes fp: "CHR ''/'' \<notin> set fp" and c: "CHR ''/'' \<notin> set (oc_case_id oc)"
    and r: "record_occurrence (local_storage base) ca fp oc p = (Inr g, p')"
  obtains q where "reload (local_storage base) ca fp q = (Inr g, p')" and "cache_get ca fp q = None"
    and "gp_store p' = gp_store q" and "d_locked (gp_store q) = d_locked (gp_store p)"
    and "local_view base (gp_store q) fp LEGACY_FILENAME = local_view base (gp_store p) fp LEGACY_FILENAME"
proof -
  let ?sto = "local_storage base"
  let ?rec = "occurrence_record ca (oc_case_id oc) (oc_ref_id oc) (oc_corroboration oc)"
  obtain b q1 u2 q2 m q3 u4 q4 u5 q5 where
    s1: "on_store (st_create_json ?sto fp (occurrence_file (oc_case_id oc)) ?rec) p = (Inr b, q1)"
    and s2: "(if b then remember fp OCCURRENCES_SUBDIR (oc_case_id oc) ?rec else ret ()) q1 = (Inr u2, q2)"
    and s3: "on_store (st_load ?sto fp META_FILENAME) q2 = (Inr m, q3)"
    and s4: "on_store (st_save ?sto fp (meta_of ca fp oc (or_empty m)) META_FILENAME) q3 = (Inr u4, q4)"
    and s5: "invalidate fp q4 = (Inr u5, q5)" and s6: "reload ?sto ca fp q5 = (Inr g, p')"
    using r unfolding record_occurrence_def Let_def by (auto elim!: bindM_InrE)
  have kl: "local_key_ok fp LEGACY_FILENAME" and km: "local_key_ok fp META_FILENAME"
    using fp by (auto simp: local_key_ok_def LEGACY_FILENAME_def META_FILENAME_def proper_name_def ends_with_def)
  note ko = occurrence_key_ok(1) [OF fp c]
  have d1: "st_create_json ?sto fp (occurrence_file (oc_case_id oc)) ?rec (gp_store p) = (Inr b, gp_store q1)"
    and d2: "gp_store q2 = gp_store q1" and d3: "gp_store q3 = gp_store q2"
    and d4: "st_save ?sto fp (meta_of ca fp oc (or_empty m)) META_FILENAME (gp_store q3) = (Inr u4, gp_store q4)"
    and d5: "gp_store q5 = gp_store q4" "cache_get ca fp q5 = None"
    using gp_store_on_store [OF s1] s2 gp_store_on_store [OF s3] pureM_state [OF loc.load_pure] gp_store_on_store [OF s4] s5
    by (auto simp: remember_def invalidate_def cache_get_def delete_conv split: if_splits)
  have ne: "(fp, LEGACY_FILENAME) \<noteq> (fp, occurrence_file (oc_case_id oc))" "(fp, LEGACY_FILENAME) \<noteq> (fp, META_FILENAME)"
    by (auto simp: LEGACY_FILENAME_def META_FILENAME_def occurrence_file_def OCCURRENCES_SUBDIR_def)
  show ?thesis
  proof (rule that [OF s6 d5(2)])
    have "store_is (gp_store q5) p'"
      using keeps_reload [OF local_reads_pure] s6 unfolding keepsM_def store_is_def by (metis snd_conv)
    then show "gp_store p' = gp_store q5" by (simp add: store_is_def)
    show "d_locked (gp_store q5) = d_locked (gp_store p)"
      using local_create_locked [of base fp _ ?rec "gp_store p"] local_save_locked [of base fp _ META_FILENAME "gp_store q3"]
        d1 d2 d3 d4 d5 by (simp add: local_storage_def)
    show "local_view base (gp_store q5) fp LEGACY_FILENAME = local_view base (gp_store p) fp LEGACY_FILENAME"
      using loc.create_keeps [OF ko kl d1] loc.save_frame [OF km kl d4] ne d2 d3 d5 by simp
  qed
qed

section \<open>Properties\<close>



end
