(* ===== verification/Classify.thy ===== *)
theory Classify
  imports Prelude
begin

text \<open>
  Failure classification of a dead-letter record: \<^verbatim>\<open>src/dlt/classify.py\<close>. A parsed stack trace gets
  one of four classes (business, code defect, technical, unknown) and, where its text carries one,
  an enumerated business code.

  The parsed trace is its innermost link (class name and message); the reason-code catalog is the
  argument \<open>code_class\<close>, which may raise; reading JSON from the setting \<^verbatim>\<open>DLT_CLASS_MAP\<close> is the
  argument \<open>parse\<close>. The reason texts are constructors that carry what the text interpolates.
\<close>

section \<open>Data\<close>

datatype failure_class = BUSINESS | CODE_DEFECT | TECHNICAL | UNKNOWN

fun class_value :: "failure_class \<Rightarrow> string" where
  "class_value BUSINESS = ''A''"
| "class_value CODE_DEFECT = ''B''"
| "class_value TECHNICAL = ''C''"
| "class_value UNKNOWN = ''U''"

datatype class_reason =
    Recovered_technical string
  | Recovered_business
  | Unparseable
  | Catalog_technical string
  | Business_with_code string
  | Business_without_code
  | Defect_routed
  | Technical_fault
  | Mapped_business
  | Wraps_technical string string
  | Wraps_business string string
  | Unrecognised string

record classification =
  cn_failure_class :: failure_class
  cn_root_fqcn :: string
  cn_business_code :: "string option"
  cn_reason :: class_reason

record root_link =
  rt_fqcn :: string
  rt_message :: "string option"

definition needs_llm :: "classification \<Rightarrow> bool" where
  "needs_llm c \<longleftrightarrow> cn_failure_class c = BUSINESS"


section \<open>Settings\<close>

definition BUSINESS_SUFFIX :: string where
  "BUSINESS_SUFFIX = ''BusinessException''"

definition DEFAULT_BUSINESS_EXCEPTIONS :: "string list" where
  "DEFAULT_BUSINESS_EXCEPTIONS = [''in.gov.uidai.common.exception.BusinessException'']"

definition DEFAULT_CLASS_MAP :: "(string \<times> string) list" where
  "DEFAULT_CLASS_MAP =
     [(''java.lang.NullPointerException'', ''B''),
      (''java.lang.IndexOutOfBoundsException'', ''B''),
      (''java.lang.ArrayIndexOutOfBoundsException'', ''B''),
      (''java.lang.StringIndexOutOfBoundsException'', ''B''),
      (''java.lang.ClassCastException'', ''B''),
      (''java.lang.NumberFormatException'', ''B''),
      (''java.lang.ArithmeticException'', ''B''),
      (''java.lang.IllegalArgumentException'', ''B''),
      (''java.lang.IllegalStateException'', ''B''),
      (''java.lang.UnsupportedOperationException'', ''B''),
      (''java.lang.StackOverflowError'', ''B''),
      (''java.util.NoSuchElementException'', ''B''),
      (''java.util.ConcurrentModificationException'', ''B''),
      (''java.lang.ClassNotFoundException'', ''B''),
      (''java.lang.NoSuchMethodError'', ''B''),
      (''java.net.SocketTimeoutException'', ''C''),
      (''java.net.ConnectException'', ''C''),
      (''java.net.UnknownHostException'', ''C''),
      (''java.net.SocketException'', ''C''),
      (''java.util.concurrent.TimeoutException'', ''C''),
      (''javax.net.ssl'', ''C''),
      (''java.sql.SQLTransientException'', ''C''),
      (''java.sql.SQLTimeoutException'', ''C''),
      (''java.sql.SQLRecoverableException'', ''C''),
      (''org.springframework.dao.QueryTimeoutException'', ''C''),
      (''org.springframework.dao.DataAccessResourceFailureException'', ''C''),
      (''org.springframework.dao.TransientDataAccessException'', ''C''),
      (''org.springframework.dao.CannotAcquireLockException'', ''C''),
      (''org.springframework.jdbc.CannotGetJdbcConnectionException'', ''C''),
      (''org.springframework.web.client.ResourceAccessException'', ''C''),
      (''org.springframework.web.client.HttpServerErrorException'', ''C''),
      (''feign.RetryableException'', ''C''),
      (''io.github.resilience4j.circuitbreaker.CallNotPermittedException'', ''C''),
      (''org.apache.kafka.common.errors.TimeoutException'', ''C''),
      (''org.apache.kafka.common.errors.RetriableException'', ''C''),
      (''org.apache.kafka.common.errors.NotLeaderOrFollowerException'', ''C''),
      (''org.springframework.kafka.support.serializer.DeserializationException'', ''C''),
      (''org.apache.kafka.common.errors.SerializationException'', ''C''),
      (''com.fasterxml.jackson.core.JsonProcessingException'', ''C''),
      (''com.fasterxml.jackson.databind.JsonMappingException'', ''C'')]"

definition business_exceptions :: "env \<Rightarrow> string list" where
  "business_exceptions env =
     (let raw = py_strip (env_get env ''DLT_BUSINESS_EXCEPTIONS'' [])
      in if raw = [] then DEFAULT_BUSINESS_EXCEPTIONS
         else filter (\<lambda>v. v \<noteq> []) (map py_strip (split_on CHR '','' raw)))"

text \<open>An override counts only when its value is the letter of a class.\<close>

definition add_override :: "string \<times> json \<Rightarrow> (string \<times> string) list \<Rightarrow> (string \<times> string) list" where
  "add_override kv merged =
     (case snd kv of
        JStr v \<Rightarrow> (let letter = py_upper (py_strip v)
                   in if letter \<in> {''A'', ''B'', ''C'', ''U''} then AList.update (fst kv) letter merged else merged)
      | _ \<Rightarrow> merged)"

definition class_map :: "(string \<Rightarrow> json option) \<Rightarrow> env \<Rightarrow> (string \<times> string) list" where
  "class_map parse env =
     (let raw = py_strip (env_get env ''DLT_CLASS_MAP'' [])
      in if raw = [] then DEFAULT_CLASS_MAP
         else (case parse raw of
                 Some (JObj overrides) \<Rightarrow> fold add_override overrides DEFAULT_CLASS_MAP
               | _ \<Rightarrow> DEFAULT_CLASS_MAP))"

definition reason_code_classification_enabled :: "env \<Rightarrow> bool" where
  "reason_code_classification_enabled env \<longleftrightarrow>
     py_lower (py_strip (env_get env ''DLT_REASON_CODE_CLASSIFY'' [])) \<notin> {''false'', ''0'', ''no'', ''off''}"


section \<open>Operations\<close>

definition code_start :: "char \<Rightarrow> bool" where
  "code_start c \<longleftrightarrow> is_upper c"

definition code_char :: "char \<Rightarrow> bool" where
  "code_char c \<longleftrightarrow> code_start c \<or> is_digit c \<or> c = CHR ''_''"

text \<open>The match of \<^verbatim>\<open>\[([A-Z][A-Z0-9_]{2,})\]\<close> at the front of a text, and its first match anywhere.\<close>

fun code_at :: "string \<Rightarrow> string option" where
  "code_at [] = None"
| "code_at (c # s) =
     (let w = takeWhile code_char s
      in if c = CHR ''['' \<and> length w \<ge> 3 \<and> code_start (hd w) \<and> drop (length w) s \<noteq> [] \<and> s ! length w = CHR '']''
         then Some w else None)"

fun find_code :: "string \<Rightarrow> string option" where
  "find_code [] = None"
| "find_code (c # s) = (case code_at (c # s) of Some w \<Rightarrow> Some w | None \<Rightarrow> find_code s)"

fun extract_business_code :: "string option list \<Rightarrow> string option" where
  "extract_business_code [] = None"
| "extract_business_code (t # ts) =
     (case t of
        None \<Rightarrow> extract_business_code ts
      | Some s \<Rightarrow> (case find_code s of Some w \<Rightarrow> Some w | None \<Rightarrow> extract_business_code ts))"

definition is_business_exception :: "env \<Rightarrow> string \<Rightarrow> bool" where
  "is_business_exception env fqcn \<longleftrightarrow>
     fqcn \<noteq> [] \<and> (fqcn \<in> set (business_exceptions env) \<or> ends_with BUSINESS_SUFFIX fqcn)"

definition better_prefix :: "string \<Rightarrow> string \<times> string \<Rightarrow> (string \<times> string) option \<Rightarrow> (string \<times> string) option" where
  "better_prefix fqcn kv best =
     (if starts_with (fst kv) fqcn \<and>
         (case best of None \<Rightarrow> True | Some b \<Rightarrow> length (fst kv) > length (fst b))
      then Some kv else best)"

definition lookup_class :: "(string \<times> string) list \<Rightarrow> string \<Rightarrow> string option" where
  "lookup_class mapping fqcn =
     (case map_of mapping fqcn of
        Some v \<Rightarrow> Some v
      | None \<Rightarrow> map_option snd (fold (better_prefix fqcn) mapping None))"

definition catalog_class :: "env \<Rightarrow> string option \<Rightarrow> (string \<Rightarrow> exn + string option) option \<Rightarrow> string option" where
  "catalog_class env code code_class =
     (case (code, code_class) of
        (Some c, Some f) \<Rightarrow>
          if c = [] \<or> \<not> reason_code_classification_enabled env then None
          else (case f c of Inl e \<Rightarrow> None | Inr r \<Rightarrow> r)
      | _ \<Rightarrow> None)"

definition mentions_business :: "env \<Rightarrow> string option \<Rightarrow> bool" where
  "mentions_business env message \<longleftrightarrow>
     (let m = (case message of None \<Rightarrow> [] | Some t \<Rightarrow> t)
      in contains BUSINESS_SUFFIX m \<or> (\<exists>be\<in>set (business_exceptions env). contains be m))"

definition mk_class :: "failure_class \<Rightarrow> string \<Rightarrow> string option \<Rightarrow> class_reason \<Rightarrow> classification" where
  "mk_class k fqcn code r =
     \<lparr>cn_failure_class = k, cn_root_fqcn = fqcn, cn_business_code = code, cn_reason = r\<rparr>"

definition classify ::
    "(string \<Rightarrow> json option) \<Rightarrow> env \<Rightarrow> root_link option \<Rightarrow> string option \<Rightarrow>
     (string \<Rightarrow> exn + string option) option \<Rightarrow> classification" where
  "classify parse env rt exception_message code_class =
     (let fqcn = (case rt of None \<Rightarrow> [] | Some r \<Rightarrow> rt_fqcn r);
          message = (case rt of None \<Rightarrow> None | Some r \<Rightarrow> rt_message r)
      in if fqcn = [] then
           (case extract_business_code [exception_message] of
              Some code \<Rightarrow>
                if catalog_class env (Some code) code_class = Some ''C''
                then mk_class TECHNICAL [] (Some code) (Recovered_technical code)
                else mk_class BUSINESS [] (Some code) Recovered_business
            | None \<Rightarrow> mk_class UNKNOWN [] None Unparseable)
         else if is_business_exception env fqcn then
           (case extract_business_code [message, exception_message] of
              Some code \<Rightarrow>
                if catalog_class env (Some code) code_class = Some ''C''
                then mk_class TECHNICAL fqcn (Some code) (Catalog_technical code)
                else mk_class BUSINESS fqcn (Some code) (Business_with_code code)
            | None \<Rightarrow> mk_class BUSINESS fqcn None Business_without_code)
         else
           (let mapped = lookup_class (class_map parse env) fqcn
            in if mapped = Some ''B'' then mk_class CODE_DEFECT fqcn None Defect_routed
               else if mapped = Some ''C'' then mk_class TECHNICAL fqcn None Technical_fault
               else if mapped = Some ''A''
               then mk_class BUSINESS fqcn (extract_business_code [message, exception_message]) Mapped_business
               else (case extract_business_code [message, exception_message] of
                       Some code \<Rightarrow>
                         if mentions_business env message
                         then (if catalog_class env (Some code) code_class = Some ''C''
                               then mk_class TECHNICAL fqcn (Some code) (Wraps_technical fqcn code)
                               else mk_class BUSINESS fqcn (Some code) (Wraps_business fqcn code))
                         else mk_class UNKNOWN fqcn None (Unrecognised fqcn)
                     | None \<Rightarrow> mk_class UNKNOWN fqcn None (Unrecognised fqcn))))"


section \<open>Lemmas\<close>

lemma mk_class_sel [simp]:
  "cn_failure_class (mk_class k f c r) = k" "cn_root_fqcn (mk_class k f c r) = f"
  "cn_business_code (mk_class k f c r) = c" "cn_reason (mk_class k f c r) = r"
  by (simp_all add: mk_class_def)

text \<open>A code is a bracketed run of at least three code characters of the text it was found in.\<close>

lemma code_at_shape:
  assumes "code_at s = Some w"
  shows "starts_with (''['' @ w @ '']'') s \<and> length w \<ge> 3 \<and> code_start (hd w) \<and> list_all code_char w"
proof (cases s)
  case Nil
  with assms show ?thesis by simp
next
  case (Cons c t)
  have w: "w = takeWhile code_char t" and c: "c = CHR ''[''" and len: "length w \<ge> 3" "code_start (hd w)"
    and r: "drop (length w) t \<noteq> []" "t ! length w = CHR '']''"
    using assms Cons by (auto simp: Let_def split: if_splits)
  have "t = w @ drop (length w) t" using w by (metis takeWhile_eq_take append_take_drop_id)
  moreover obtain u where "drop (length w) t = CHR '']'' # u"
    using r by (metis Cons_nth_drop_Suc length_drop length_greater_0_conv zero_less_diff)
  ultimately have "t = w @ CHR '']'' # u" by simp
  moreover have "list_all code_char w" using w set_takeWhileD by (fastforce simp: list_all_iff)
  ultimately show ?thesis using Cons c len by (simp add: starts_with_prefix)
qed

lemma find_code_shape:
  assumes "find_code s = Some w"
  shows "contains (''['' @ w @ '']'') s \<and> length w \<ge> 3 \<and> code_start (hd w) \<and> list_all code_char w"
  using assms
proof (induction s)
  case Nil
  then show ?case by simp
next
  case (Cons c s)
  show ?case
  proof (cases "code_at (c # s)")
    case None
    then show ?thesis using Cons by simp
  next
    case (Some v)
    then show ?thesis using Cons.prems code_at_shape [OF Some] by simp
  qed
qed

lemma extract_code_shape:
  assumes "extract_business_code ts = Some w"
  shows "\<exists>s. Some s \<in> set ts \<and> contains (''['' @ w @ '']'') s \<and> length w \<ge> 3 \<and> code_start (hd w) \<and> list_all code_char w"
  using assms
proof (induction ts)
  case Nil
  then show ?case by simp
next
  case (Cons t ts)
  show ?case
  proof (cases "\<exists>x. t = Some x \<and> find_code x = Some w")
    case True
    then obtain x where "t = Some x" "find_code x = Some w" by blast
    then show ?thesis using find_code_shape by (intro exI [of _ x]) simp
  next
    case False
    then have "extract_business_code ts = Some w"
      using Cons.prems by (auto split: option.splits)
    then show ?thesis using Cons.IH by auto
  qed
qed

text \<open>The fold keeps the longest matching prefix, the first of several.\<close>

lemma better_prefix_cases:
  "better_prefix fqcn x b = Some x \<and> starts_with (fst x) fqcn \<and> (\<forall>q. b = Some q \<longrightarrow> length (fst q) \<le> length (fst x)) \<or>
   better_prefix fqcn x b = b \<and>
     (starts_with (fst x) fqcn \<longrightarrow> (\<exists>q. b = Some q \<and> length (fst x) \<le> length (fst q)))"
  by (cases b) (auto simp: better_prefix_def)

lemma fold_better_prefix_None:
  assumes "fold (better_prefix fqcn) kvs b = None"
  shows "b = None \<and> (\<forall>kv\<in>set kvs. \<not> starts_with (fst kv) fqcn)"
  using assms
proof (induction kvs arbitrary: b)
  case (Cons x kvs)
  have "better_prefix fqcn x b = None \<and> (\<forall>kv\<in>set kvs. \<not> starts_with (fst kv) fqcn)"
    using Cons.IH [of "better_prefix fqcn x b"] Cons.prems by simp
  then show ?case using better_prefix_cases [of fqcn x b] by auto
qed simp

lemma fold_better_prefix_Some:
  assumes "fold (better_prefix fqcn) kvs b = Some kv"
  shows "(b = Some kv \<or> kv \<in> set kvs \<and> starts_with (fst kv) fqcn) \<and>
         (\<forall>q\<in>set kvs. starts_with (fst q) fqcn \<longrightarrow> length (fst q) \<le> length (fst kv)) \<and>
         (\<forall>q. b = Some q \<longrightarrow> length (fst q) \<le> length (fst kv))"
  using assms
proof (induction kvs arbitrary: b)
  case (Cons x kvs)
  from Cons.IH [of "better_prefix fqcn x b"] Cons.prems
  have IH: "better_prefix fqcn x b = Some kv \<or> kv \<in> set kvs \<and> starts_with (fst kv) fqcn"
    "\<forall>q\<in>set kvs. starts_with (fst q) fqcn \<longrightarrow> length (fst q) \<le> length (fst kv)"
    "\<And>q. better_prefix fqcn x b = Some q \<Longrightarrow> length (fst q) \<le> length (fst kv)"
    by simp_all
  from better_prefix_cases [of fqcn x b] show ?case
  proof
    assume "better_prefix fqcn x b = Some x \<and> starts_with (fst x) fqcn \<and>
      (\<forall>q. b = Some q \<longrightarrow> length (fst q) \<le> length (fst x))"
    then show ?thesis using IH(1,2) IH(3) [of x] le_trans by auto
  next
    assume "better_prefix fqcn x b = b \<and>
      (starts_with (fst x) fqcn \<longrightarrow> (\<exists>q. b = Some q \<and> length (fst x) \<le> length (fst q)))"
    then show ?thesis using IH le_trans by auto
  qed
qed simp

text \<open>With a catalog that never answers \<open>''C''\<close> for the code found, the result is the one without a catalog.\<close>

lemma catalog_none [simp]: "catalog_class env code None = None"
  by (simp add: catalog_class_def split: option.split)

lemma catalog_technicalD:
  assumes "catalog_class env (Some c) (Some f) = Some k"
  shows "f c = Inr (Some k) \<and> reason_code_classification_enabled env"
  using assms by (auto simp: catalog_class_def split: if_splits sum.splits)


section \<open>Properties\<close>

text \<open>
  The reason-code catalog moves a case only from business to technical. Without a catalog the
  same record either gets exactly the same classification, or it is a business failure with a code
  the catalog (switched on and answering without an error) declares technical, and then code and
  root exception are unchanged.
\<close>

theorem catalog_moves_only_a_to_c:
  "classify parse env rt msg (Some f) = classify parse env rt msg None \<or>
   (\<exists>code. cn_failure_class (classify parse env rt msg None) = BUSINESS \<and>
      cn_failure_class (classify parse env rt msg (Some f)) = TECHNICAL \<and>
      cn_business_code (classify parse env rt msg None) = Some code \<and>
      cn_business_code (classify parse env rt msg (Some f)) = Some code \<and>
      cn_root_fqcn (classify parse env rt msg (Some f)) = cn_root_fqcn (classify parse env rt msg None) \<and>
      f code = Inr (Some ''C'') \<and> reason_code_classification_enabled env)"
proof -
  have "f c = Inr (Some ''C'') \<and> reason_code_classification_enabled env"
    if "catalog_class env (Some c) (Some f) = Some ''C''" for c
    using that by (rule catalog_technicalD)
  then show ?thesis
    by (simp add: classify_def Let_def split: option.split)
qed

text \<open>
  C40. A code defect is recognised by its exception type alone, and an unrecognised exception is
  unknown, never a defect: class B is given exactly when the trace names a root exception that is no
  business exception and whose longest match in the class map says B. A record of class B or U
  carries no business code and is never sent to the model.
\<close>

theorem defect_only_by_exception_type:
  "(cn_failure_class (classify parse env rt msg hook) = CODE_DEFECT \<longleftrightarrow>
      (case rt of None \<Rightarrow> False
       | Some r \<Rightarrow> rt_fqcn r \<noteq> [] \<and> \<not> is_business_exception env (rt_fqcn r) \<and>
                   lookup_class (class_map parse env) (rt_fqcn r) = Some ''B'')) \<and>
   (cn_failure_class (classify parse env rt msg hook) \<in> {CODE_DEFECT, UNKNOWN} \<longrightarrow>
      cn_business_code (classify parse env rt msg hook) = None \<and>
      \<not> needs_llm (classify parse env rt msg hook))"
  by (cases rt) (simp_all add: classify_def needs_llm_def Let_def split: option.split)

theorem defect_only_by_exception_type_witness:
  "cn_business_code (classify (\<lambda>_. None) (\<lambda>_. None)
     (Some \<lparr>rt_fqcn = ''java.lang.NullPointerException'', rt_message = None\<rparr>) (Some ''[ABC]'') None) = None"
proof -
  let ?c = "classify (\<lambda>_. None) (\<lambda>_. None)
     (Some \<lparr>rt_fqcn = ''java.lang.NullPointerException'', rt_message = None\<rparr>) (Some ''[ABC]'') None"
  have "cn_failure_class ?c = CODE_DEFECT" by code_simp
  then show ?thesis
    using defect_only_by_exception_type [of "\<lambda>_. None" "\<lambda>_. None"
      "Some \<lparr>rt_fqcn = ''java.lang.NullPointerException'', rt_message = None\<rparr>" "Some ''[ABC]''" None] by simp
qed

text \<open>
  The class map answers with the longest entry that is a prefix of the exception's name, an
  exact entry counting as the longest, and answers nothing exactly when no entry is a prefix.
\<close>

theorem lookup_takes_longest_prefix:
  "(case lookup_class m fqcn of
      None \<Rightarrow> (\<forall>kv\<in>set m. \<not> prefix (fst kv) fqcn)
    | Some v \<Rightarrow> (\<exists>p. (p, v) \<in> set m \<and> prefix p fqcn \<and>
                   (\<forall>kv\<in>set m. prefix (fst kv) fqcn \<longrightarrow> length (fst kv) \<le> length p)))"
proof (cases "map_of m fqcn")
  case (Some v)
  then have "(fqcn, v) \<in> set m" by (rule map_of_SomeD)
  moreover have "length q \<le> length fqcn" if "prefix q fqcn" for q
    using that by (rule prefix_length_le)
  ultimately show ?thesis using Some by (auto simp: lookup_class_def)
next
  case None
  show ?thesis
  proof (cases "fold (better_prefix fqcn) m None")
    case N: None
    then show ?thesis
      using None fold_better_prefix_None [OF N] by (simp add: lookup_class_def starts_with_prefix)
  next
    case (Some kv)
    then show ?thesis
      using None fold_better_prefix_Some [OF Some]
      by (cases kv) (auto simp: lookup_class_def starts_with_prefix)
  qed
qed

theorem lookup_takes_longest_prefix_witness:
  "\<exists>p. (p, ''B'') \<in> set DEFAULT_CLASS_MAP \<and> prefix p ''java.lang.ArithmeticExceptionX''"
proof -
  have "lookup_class DEFAULT_CLASS_MAP ''java.lang.ArithmeticExceptionX'' = Some ''B''" by code_simp
  then show ?thesis
    using lookup_takes_longest_prefix [of DEFAULT_CLASS_MAP "''java.lang.ArithmeticExceptionX''"] by auto
qed

text \<open>
  The business code of a classification is quoted from the record, not made up: it stands in
  square brackets in the root exception's message or in the exception header, is at least three
  characters long, starts with a capital letter and consists of capitals, digits and underscores.
\<close>

theorem business_code_is_quoted:
  assumes "cn_business_code (classify parse env rt msg hook) = Some w"
  shows "(\<exists>s. (msg = Some s \<or> (\<exists>r. rt = Some r \<and> rt_message r = Some s)) \<and> sublist (''['' @ w @ '']'') s) \<and>
         length w \<ge> 3 \<and> code_start (hd w) \<and> list_all code_char w"
proof -
  have "\<exists>ts. extract_business_code ts = Some w \<and>
         (\<forall>s. Some s \<in> set ts \<longrightarrow> msg = Some s \<or> (\<exists>r. rt = Some r \<and> rt_message r = Some s))"
  proof (cases "extract_business_code [msg] = Some w")
    case True
    then show ?thesis by (intro exI [of _ "[msg]"]) auto
  next
    case False
    then obtain r where "rt = Some r" "extract_business_code [rt_message r, msg] = Some w"
      using assms by (cases rt) (auto simp: classify_def Let_def split: option.splits if_splits)
    then show ?thesis by (intro exI [of _ "[rt_message r, msg]"]) auto
  qed
  then show ?thesis using extract_code_shape unfolding contains_sublist by metis
qed

theorem business_code_is_quoted_witness:
  "sublist ''[ABC_1]'' ''x [ABC_1] y''"
proof -
  have "cn_business_code (classify (\<lambda>_. None) (\<lambda>_. None) None (Some ''x [ABC_1] y'') None) = Some ''ABC_1''"
    by code_simp
  from business_code_is_quoted [OF this] show ?thesis by auto
qed

end
