(* ===== verification/Regex.thy ===== *)
theory Regex
  imports Prelude
begin

text \<open>
  The part of Python's \<^verbatim>\<open>re\<close> module the analysis modules use: greedy patterns without captures inside
  repetitions, matched by backtracking. \<open>ends r s i\<close> lists the ends of the matches of \<open>r\<close> in \<open>s\<close> from
  position \<open>i\<close> in the order the engine tries them, so its head is where the match it reports ends.
\<close>

datatype rx =
    Chr "char \<Rightarrow> bool"
  | Eps
  | Seq rx rx
  | Alt rx rx
  | Star rx
  | Boundary
  | Around "char option \<Rightarrow> bool" "char option \<Rightarrow> bool"

text \<open>\<^verbatim>\<open>\w\<close>, for characters below 128.\<close>

definition is_word :: "char \<Rightarrow> bool" where
  "is_word c \<longleftrightarrow> is_digit c \<or> is_lower c \<or> is_upper c \<or> c = CHR ''_''"

definition word_at :: "string \<Rightarrow> nat \<Rightarrow> bool" where
  "word_at s i \<longleftrightarrow> i < length s \<and> is_word (s ! i)"

definition boundary_at :: "string \<Rightarrow> nat \<Rightarrow> bool" where
  "boundary_at s i \<longleftrightarrow> (0 < i \<and> word_at s (i - 1)) \<noteq> word_at s i"

text \<open>The characters before and behind a position, for a negative look-behind or look-ahead of one character.\<close>

definition before_at :: "string \<Rightarrow> nat \<Rightarrow> char option" where
  "before_at s i = (if 0 < i \<and> i \<le> length s then Some (s ! (i - 1)) else None)"

definition behind_at :: "string \<Rightarrow> nat \<Rightarrow> char option" where
  "behind_at s i = (if i < length s then Some (s ! i) else None)"

text \<open>A repetition tries its body first and stops when the body matches nothing.\<close>

primrec star_ends :: "(nat \<Rightarrow> nat list) \<Rightarrow> nat \<Rightarrow> nat \<Rightarrow> nat list" where
  "star_ends f 0 i = [i]"
| "star_ends f (Suc n) i = concat (map (star_ends f n) (filter (\<lambda>j. i < j) (f i))) @ [i]"

fun ends :: "rx \<Rightarrow> string \<Rightarrow> nat \<Rightarrow> nat list" where
  "ends (Chr p) s i = (if i < length s \<and> p (s ! i) then [Suc i] else [])"
| "ends Eps s i = [i]"
| "ends (Seq r q) s i = concat (map (ends q s) (ends r s i))"
| "ends (Alt r q) s i = ends r s i @ ends q s i"
| "ends (Star r) s i = star_ends (ends r s) (length s - i) i"
| "ends Boundary s i = (if boundary_at s i then [i] else [])"
| "ends (Around p q) s i = (if p (before_at s i) \<and> q (behind_at s i) then [i] else [])"

definition Lit :: "string \<Rightarrow> rx" where
  "Lit w = foldr (\<lambda>c r. Seq (Chr (\<lambda>x. x = c)) r) w Eps"

text \<open>A literal under \<^verbatim>\<open>re.IGNORECASE\<close>, given in capitals, and a counted repetition.\<close>

definition any_case :: "char \<Rightarrow> rx" where
  "any_case c = Chr (\<lambda>x. upper_char x = c)"

definition word_in_any_case :: "string \<Rightarrow> rx" where
  "word_in_any_case w = foldr (\<lambda>c r. Seq (any_case c) r) w Eps"

definition times_rx :: "nat \<Rightarrow> rx \<Rightarrow> rx" where
  "times_rx n r = foldr Seq (replicate n r) Eps"

definition slice :: "string \<Rightarrow> nat \<Rightarrow> nat \<Rightarrow> string" where
  "slice s i j = take (j - i) (drop i s)"

text \<open>\<^verbatim>\<open>search\<close>, and \<^verbatim>\<open>findall\<close> of a pattern whose group is the whole match.\<close>

definition search :: "rx \<Rightarrow> string \<Rightarrow> bool" where
  "search r s = list_ex (\<lambda>i. ends r s i \<noteq> []) [0..<Suc (length s)]"

definition match_start :: "rx \<Rightarrow> string \<Rightarrow> bool" where
  "match_start r s \<longleftrightarrow> ends r s 0 \<noteq> []"

function find_from :: "rx \<Rightarrow> string \<Rightarrow> nat \<Rightarrow> string list" where
  "find_from r s i =
     (if length s < i then []
      else case ends r s i of
             [] \<Rightarrow> find_from r s (Suc i)
           | j # js \<Rightarrow> slice s i j # find_from r s (if i < j then j else Suc i))"
  by auto
termination
  by (relation "measure (\<lambda>(r, s, i). Suc (length s) - i)") auto

declare find_from.simps [simp del]

definition findall :: "rx \<Rightarrow> string \<Rightarrow> string list" where
  "findall r s = find_from r s 0"


section \<open>What a match consists of\<close>

fun only :: "(char \<Rightarrow> bool) \<Rightarrow> rx \<Rightarrow> bool" where
  "only p (Chr q) \<longleftrightarrow> (\<forall>c. q c \<longrightarrow> p c)"
| "only p Eps \<longleftrightarrow> True"
| "only p (Seq r q) \<longleftrightarrow> only p r \<and> only p q"
| "only p (Alt r q) \<longleftrightarrow> only p r \<and> only p q"
| "only p (Star r) \<longleftrightarrow> only p r"
| "only p Boundary \<longleftrightarrow> True"
| "only p (Around _ _) \<longleftrightarrow> True"

definition spans :: "(char \<Rightarrow> bool) \<Rightarrow> string \<Rightarrow> nat \<Rightarrow> nat \<Rightarrow> bool" where
  "spans p s i j \<longleftrightarrow> i \<le> j \<and> (\<forall>k. i \<le> k \<longrightarrow> k < j \<longrightarrow> k < length s \<and> p (s ! k))"

lemma spans_refl [simp]: "spans p s i i"
  by (simp add: spans_def)

lemma spans_trans: "spans p s i j \<Longrightarrow> spans p s j k \<Longrightarrow> spans p s i k"
  unfolding spans_def by (meson le_trans not_le)

lemma star_ends_spans:
  assumes "\<And>i j. j \<in> set (f i) \<Longrightarrow> spans p s i j" and "j \<in> set (star_ends f n i)"
  shows "spans p s i j"
  using assms(2)
proof (induction n arbitrary: i)
  case 0
  then show ?case by simp
next
  case (Suc n)
  then show ?case using assms(1) by (auto intro: spans_trans)
qed

lemma ends_spans: "only p r \<Longrightarrow> j \<in> set (ends r s i) \<Longrightarrow> spans p s i j"
proof (induction r arbitrary: i j)
  case (Chr q)
  then have "j = Suc i" "i < length s" "p (s ! i)" by (auto split: if_splits)
  moreover have "k = i" if "i \<le> k" "k < Suc i" for k using that by simp
  ultimately show ?case unfolding spans_def by (metis le_Suc_eq order_refl)
next
  case (Seq r q)
  then show ?case by (fastforce intro: spans_trans)
next
  case (Star r)
  then show ?case using star_ends_spans [of "ends r s" p s j "length s - i" i] by auto
qed (auto split: if_splits)

lemma slice_spans: "spans p s i j \<Longrightarrow> c \<in> set (slice s i j) \<Longrightarrow> p c"
proof -
  assume s: "spans p s i j" and "c \<in> set (slice s i j)"
  then obtain k where "k < length (slice s i j)" "c = slice s i j ! k" by (auto simp: in_set_conv_nth)
  then have "i + k < j" "i + k < length s" "c = s ! (i + k)" by (auto simp: slice_def)
  then show ?thesis using s by (simp add: spans_def)
qed

lemma find_from_slice:
  assumes "x \<in> set (find_from r s i)"
  shows "\<exists>k j. j \<in> set (ends r s k) \<and> x = slice s k j"
  using assms
proof (induction r s i rule: find_from.induct)
  case (1 r s i)
  show ?case
  proof (cases "length s < i")
    case True
    then show ?thesis using "1.prems" by (simp add: find_from.simps [of r s i])
  next
    case in_range: False
    show ?thesis
    proof (cases "ends r s i")
      case Nil
      then show ?thesis using "1.prems" "1.IH"(1) in_range by (simp add: find_from.simps [of r s i])
    next
      case (Cons j js)
      then have "x = slice s i j \<or> x \<in> set (find_from r s (if i < j then j else Suc i))"
        using "1.prems" in_range by (simp add: find_from.simps [of r s i] split: if_splits)
      then show ?thesis
      proof
        assume "x = slice s i j"
        then show ?thesis using Cons by (intro exI [of _ i] exI [of _ j]) simp
      next
        assume "x \<in> set (find_from r s (if i < j then j else Suc i))"
        then show ?thesis by (rule "1.IH"(2) [OF in_range Cons])
      qed
    qed
  qed
qed

lemma findall_only:
  assumes "only p r" and "x \<in> set (findall r s)"
  shows "(\<forall>c\<in>set x. p c) \<and> sublist x s"
proof -
  obtain k j where kj: "j \<in> set (ends r s k)" "x = slice s k j"
    using find_from_slice assms(2) unfolding findall_def by blast
  have "sublist (slice s k j) s"
    unfolding slice_def by (meson sublist_drop sublist_take sublist_order.order.trans)
  then show ?thesis using slice_spans [OF ends_spans [OF assms(1) kj(1)]] kj(2) by blast
qed

text \<open>A pattern that consumes a character finds no empty match.\<close>

fun consumes :: "rx \<Rightarrow> bool" where
  "consumes (Chr q) \<longleftrightarrow> True"
| "consumes (Seq r q) \<longleftrightarrow> consumes r \<or> consumes q"
| "consumes (Alt r q) \<longleftrightarrow> consumes r \<and> consumes q"
| "consumes r \<longleftrightarrow> False"

lemma only_True: "only (\<lambda>_. True) r"
  by (induction r) auto

lemma ends_mono: "j \<in> set (ends r s i) \<Longrightarrow> i \<le> j"
  using ends_spans [OF only_True] by (simp add: spans_def)

lemma consumes_ends: "consumes r \<Longrightarrow> j \<in> set (ends r s i) \<Longrightarrow> i < j"
proof (induction r arbitrary: i j)
  case (Seq r q)
  then obtain k where k: "k \<in> set (ends r s i)" "j \<in> set (ends q s k)" by auto
  show ?case
  proof (cases "consumes r")
    case True
    then show ?thesis using Seq.IH(1) [OF True k(1)] ends_mono [OF k(2)] by simp
  next
    case False
    then have "consumes q" using Seq.prems(1) by simp
    then show ?thesis using Seq.IH(2) [OF _ k(2)] ends_mono [OF k(1)] by fastforce
  qed
qed (auto split: if_splits)

lemma findall_nonempty:
  assumes "consumes r"
  shows "[] \<notin> set (findall r s)"
proof
  assume "[] \<in> set (findall r s)"
  then obtain k j where kj: "j \<in> set (ends r s k)" "slice s k j = []"
    using find_from_slice unfolding findall_def by metis
  have "k < j" by (rule consumes_ends [OF assms kj(1)])
  moreover have "k < length s" using ends_spans [OF only_True kj(1)] \<open>k < j\<close> by (simp add: spans_def)
  ultimately show False using kj(2) by (simp add: slice_def)
qed


lemma find_from_Nil: "find_from r s i \<noteq> [] \<longleftrightarrow> (\<exists>k. i \<le> k \<and> k \<le> length s \<and> ends r s k \<noteq> [])"
proof (induction r s i rule: find_from.induct)
  case (1 r s i)
  show ?case
  proof (cases "length s < i")
    case True
    then show ?thesis by (auto simp: find_from.simps [of r s i])
  next
    case in_range: False
    show ?thesis
    proof (cases "ends r s i")
      case Nil
      have "(\<exists>k. i \<le> k \<and> k \<le> length s \<and> ends r s k \<noteq> []) \<longleftrightarrow> (\<exists>k. Suc i \<le> k \<and> k \<le> length s \<and> ends r s k \<noteq> [])"
        using Nil by (metis Suc_leD le_antisym not_less_eq_eq)
      then show ?thesis using "1.IH"(1) [OF in_range Nil] in_range Nil by (simp add: find_from.simps [of r s i])
    next
      case (Cons j js)
      then have "find_from r s i \<noteq> []" using in_range by (simp add: find_from.simps [of r s i])
      moreover have "i \<le> length s" "ends r s i \<noteq> []" using Cons in_range by simp_all
      ultimately show ?thesis by blast
    qed
  qed
qed

lemma findall_Nil: "findall r s \<noteq> [] \<longleftrightarrow> (\<exists>k \<le> length s. ends r s k \<noteq> [])"
  by (simp add: findall_def find_from_Nil)

section \<open>The language of a pattern\<close>

text \<open>
  For patterns without word boundaries and look-arounds the matcher is exact: it finds an end \<open>j\<close> from \<open>i\<close> if and only if
  the text in between is in the language of the pattern. In particular no match is missed because an
  iteration stops at an empty step.
\<close>

inductive_set star :: "string set \<Rightarrow> string set" for A where
  star_Nil [intro, simp]: "[] \<in> star A"
| star_append [intro]: "u \<in> A \<Longrightarrow> v \<in> star A \<Longrightarrow> u @ v \<in> star A"

fun lang :: "rx \<Rightarrow> string set" where
  "lang (Chr p) = {[c] |c. p c}"
| "lang Eps = {[]}"
| "lang (Seq r q) = {u @ v |u v. u \<in> lang r \<and> v \<in> lang q}"
| "lang (Alt r q) = lang r \<union> lang q"
| "lang (Star r) = star (lang r)"
| "lang Boundary = {}"
| "lang (Around _ _) = {}"

fun plain :: "rx \<Rightarrow> bool" where
  "plain (Seq r q) \<longleftrightarrow> plain r \<and> plain q"
| "plain (Alt r q) \<longleftrightarrow> plain r \<and> plain q"
| "plain (Star r) \<longleftrightarrow> plain r"
| "plain Boundary \<longleftrightarrow> False"
| "plain (Around _ _) \<longleftrightarrow> False"
| "plain r \<longleftrightarrow> True"

definition match_ends :: "string set \<Rightarrow> string \<Rightarrow> nat \<Rightarrow> nat set" where
  "match_ends A s i = {j. i \<le> j \<and> j \<le> length s \<and> slice s i j \<in> A}"

lemma slice_same [simp]: "slice s i i = []"
  by (simp add: slice_def)

lemma slice_all [simp]: "slice s 0 (length s) = s"
  by (simp add: slice_def)

lemma slice_append: "i \<le> k \<Longrightarrow> k \<le> j \<Longrightarrow> slice s i k @ slice s k j = slice s i j"
proof -
  assume "i \<le> k" "k \<le> j"
  then have "take (j - i) (drop i s) = take (k - i) (drop i s) @ take (j - i - (k - i)) (drop (k - i) (drop i s))"
    by (metis append_take_drop_id diff_le_mono drop_take take_add le_add_diff_inverse)
  then show ?thesis using \<open>i \<le> k\<close> \<open>k \<le> j\<close> by (simp add: slice_def)
qed

lemma slice_split:
  assumes "slice s i j = u @ v" and "i \<le> j" and "j \<le> length s"
  shows "i + length u \<le> j \<and> slice s i (i + length u) = u \<and> slice s (i + length u) j = v"
proof -
  have "length (u @ v) = j - i" using assms by (metis slice_def length_take length_drop diff_le_mono min.absorb2)
  then have le: "i + length u \<le> j" using assms(2) by simp
  have "slice s i (i + length u) @ slice s (i + length u) j = u @ v" using slice_append [of i "i + length u" j s] le assms(1) by simp
  moreover have "length (slice s i (i + length u)) = length u" using le assms(3) by (simp add: slice_def)
  ultimately show ?thesis using le by simp
qed

lemma star_ends_sound:
  assumes "\<And>i. i \<le> length s \<Longrightarrow> set (f i) = match_ends A s i" and "i \<le> length s" and "j \<in> set (star_ends f n i)"
  shows "j \<in> match_ends (star A) s i"
  using assms(2,3)
proof (induction n arbitrary: i)
  case 0
  then show ?case by (simp add: match_ends_def)
next
  case (Suc n)
  show ?case
  proof (cases "j = i")
    case True
    then show ?thesis using Suc.prems by (simp add: match_ends_def)
  next
    case False
    then obtain k where k: "k \<in> set (f i)" "j \<in> set (star_ends f n k)" using Suc.prems by auto
    then have k': "i \<le> k" "k \<le> length s" "slice s i k \<in> A" using assms(1) Suc.prems by (auto simp: match_ends_def)
    have "j \<in> match_ends (star A) s k" by (rule Suc.IH [OF k'(2) k(2)])
    then have "i \<le> j" "j \<le> length s" "slice s i k @ slice s k j \<in> star A"
      using k' by (auto simp: match_ends_def)
    then show ?thesis using slice_append [of i k j s] k'(1) \<open>j \<in> match_ends (star A) s k\<close> by (simp add: match_ends_def)
  qed
qed

lemma star_ends_complete:
  assumes "\<And>i. i \<le> length s \<Longrightarrow> set (f i) = match_ends A s i"
    and "v \<in> star A" and "v = slice s i j" and "i \<le> j" and "j \<le> length s" and "j - i \<le> n"
  shows "j \<in> set (star_ends f n i)"
  using assms(2-6)
proof (induction v arbitrary: i n rule: star.induct)
  case star_Nil
  then have "i = j" by (auto simp: slice_def)
  then show ?case by (cases n) simp_all
next
  case (star_append u v)
  have sp: "i + length u \<le> j" "slice s i (i + length u) = u" "slice s (i + length u) j = v"
    using slice_split [of s i j u v] star_append.prems by auto
  show ?case
  proof (cases "u = []")
    case True
    then show ?thesis using star_append.IH [of i n] star_append.prems by simp
  next
    case False
    let ?k = "i + length u"
    have "0 < length u" using False by simp
    then have "n \<noteq> 0" using star_append.prems sp(1) by linarith
    then obtain n' where n: "n = Suc n'" by (cases n) auto
    have "?k \<in> set (f i)" using assms(1) [of i] sp star_append.hyps(1) star_append.prems by (simp add: match_ends_def)
    moreover have "j - ?k \<le> n'" using star_append.prems n \<open>0 < length u\<close> by linarith
    then have "j \<in> set (star_ends f n' ?k)"
      using star_append.IH [of ?k n'] sp star_append.prems n False by simp
    moreover have "i < ?k" using False by simp
    ultimately show ?thesis unfolding n star_ends.simps by force
  qed
qed

theorem ends_exact: "plain r \<Longrightarrow> i \<le> length s \<Longrightarrow> set (ends r s i) = match_ends (lang r) s i"
proof (induction r arbitrary: i)
  case (Chr p)
  show ?case
  proof (cases "i < length s")
    case True
    have "slice s i j \<in> {[c] |c. p c} \<longleftrightarrow> j = Suc i \<and> p (s ! i)" if "i \<le> j" "j \<le> length s" for j
    proof -
      have "slice s i j = [c] \<longleftrightarrow> j = Suc i \<and> c = s ! i" for c
        using that True by (auto simp: slice_def list_eq_iff_nth_eq)
      then show ?thesis by auto
    qed
    then show ?thesis using True by (auto simp: match_ends_def)
  next
    case False
    then show ?thesis using Chr by (auto simp: match_ends_def slice_def)
  qed
next
  case Eps
  then show ?case by (auto simp: match_ends_def slice_def)
next
  case (Seq r q)
  show ?case
  proof (intro equalityI subsetI)
    fix j assume "j \<in> set (ends (Seq r q) s i)"
    then obtain k where k: "k \<in> set (ends r s i)" "j \<in> set (ends q s k)" by auto
    then have "k \<in> match_ends (lang r) s i" using Seq by simp
    moreover have "j \<in> match_ends (lang q) s k" using Seq k calculation by (simp add: match_ends_def)
    ultimately show "j \<in> match_ends (lang (Seq r q)) s i"
      using slice_append [of i k j s] by (auto simp: match_ends_def) metis
  next
    fix j assume "j \<in> match_ends (lang (Seq r q)) s i"
    then obtain u v where uv: "u \<in> lang r" "v \<in> lang q" "slice s i j = u @ v" "i \<le> j" "j \<le> length s"
      by (auto simp: match_ends_def)
    then have "i + length u \<in> set (ends r s i)" "j \<in> set (ends q s (i + length u))"
      using slice_split [OF uv(3,4,5)] Seq by (auto simp: match_ends_def)
    then show "j \<in> set (ends (Seq r q) s i)" by auto
  qed
next
  case (Alt r q)
  then show ?case by (auto simp: match_ends_def)
next
  case (Star r)
  have f: "set (ends r s i) = match_ends (lang r) s i" if "i \<le> length s" for i using Star that by simp
  show ?case
  proof (intro equalityI subsetI)
    fix j assume "j \<in> set (ends (Star r) s i)"
    then show "j \<in> match_ends (lang (Star r)) s i" using star_ends_sound [OF f] Star.prems by simp
  next
    fix j assume "j \<in> match_ends (lang (Star r)) s i"
    then show "j \<in> set (ends (Star r) s i)"
      using star_ends_complete [OF f, where n = "length s - i" and v = "slice s i j" and i = i and j = j]
      by (simp add: match_ends_def diff_le_mono)
  qed
qed simp_all

definition fullmatch :: "rx \<Rightarrow> string \<Rightarrow> bool" where
  "fullmatch r s \<longleftrightarrow> length s \<in> set (ends r s 0)"

lemma fullmatch_lang: "plain r \<Longrightarrow> fullmatch r s \<longleftrightarrow> s \<in> lang r"
  by (simp add: fullmatch_def ends_exact match_ends_def)

lemma star_chars: "star {[c] |c. p c} = {v. \<forall>c\<in>set v. p c}"
proof (intro equalityI subsetI)
  fix v assume "v \<in> star {[c] |c. p c}"
  then show "v \<in> {v. \<forall>c\<in>set v. p c}" by (induction rule: star.induct) auto
next
  fix v assume "v \<in> {v. \<forall>c\<in>set v. p c}"
  then show "v \<in> star {[c] |c. p c}"
  proof (induction v)
    case Nil
    show ?case by simp
  next
    case (Cons c v)
    then have "[c] @ v \<in> star {[c] |c. p c}" by (intro star_append) auto
    then show ?case by simp
  qed
qed

lemma in_Seq: "t \<in> lang (Seq r q) \<longleftrightarrow> (\<exists>u v. t = u @ v \<and> u \<in> lang r \<and> v \<in> lang q)"
  by auto

lemma in_Chr_Seq: "t \<in> lang (Seq (Chr p) q) \<longleftrightarrow> (\<exists>c v. t = c # v \<and> p c \<and> v \<in> lang q)"
  by (auto simp: in_Seq) (metis append_Cons append_Nil)

lemma in_Star_Chr: "t \<in> lang (Star (Chr p)) \<longleftrightarrow> list_all p t"
  by (simp add: star_chars list_all_iff)

lemma lang_times: "t \<in> lang (times_rx n (Chr p)) \<longleftrightarrow> length t = n \<and> list_all p t"
proof (induction n arbitrary: t)
  case (Suc n)
  have "t \<in> lang (times_rx (Suc n) (Chr p)) \<longleftrightarrow> (\<exists>c v. t = c # v \<and> p c \<and> v \<in> lang (times_rx n (Chr p)))"
    unfolding times_rx_def by (simp add: in_Chr_Seq del: lang.simps)
  then show ?case using Suc by (cases t) auto
qed (auto simp: times_rx_def)

lemma plain_times [simp]: "plain r \<Longrightarrow> plain (times_rx n r)"
  by (induction n) (auto simp: times_rx_def)

end
