(* ===== verification/Corroborate.thy ===== *)
theory Corroborate
  imports Regex
begin

text \<open>
  Checking a stack trace against the logs: \<^verbatim>\<open>src/dlt/corroborate.py\<close>. The reason texts are constructors
  that carry what the code interpolates; an absent frame or chain link is the empty string.
\<close>

section \<open>Patterns\<close>

definition name_char :: "char \<Rightarrow> bool" where
  "name_char c \<longleftrightarrow> is_word c \<or> c = CHR ''$''"

definition ERROR_LINE :: rx where
  "ERROR_LINE = Seq Boundary (Seq (Alt (Lit ''ERROR'') (Alt (Lit ''FATAL'') (Lit ''SEVERE''))) Boundary)"

definition MATCHABLE_LINE :: rx where
  "MATCHABLE_LINE =
     Seq Boundary (Seq (Alt (Lit ''ERROR'') (Alt (Lit ''FATAL'') (Alt (Lit ''SEVERE'')
       (Seq (Lit ''WARN'') (Alt (Lit ''ING'') Eps))))) Boundary)"

definition package_part :: rx where
  "package_part = Seq (Chr (\<lambda>c. is_lower c)) (Seq (Star (Chr name_char)) (Chr (\<lambda>c. c = CHR ''.'')))"

definition FQCN_IN_TEXT :: rx where
  "FQCN_IN_TEXT =
     Seq Boundary (Seq (Seq package_part (Seq package_part (Star package_part)))
       (Seq (Seq (Chr (\<lambda>c. is_upper c)) (Star (Chr name_char)))
         (Seq (Alt (Lit ''Exception'') (Alt (Lit ''Error'') (Lit ''Throwable''))) Boundary)))"

definition LINE_START :: rx where
  "LINE_START =
     Seq (Star (Chr is_space)) (Seq (Alt (Seq (Lit ''***'') (Star (Chr is_space))) Eps) (Chr (\<lambda>c. c = CHR ''['')))"

definition MAX_CITATIONS :: nat where "MAX_CITATIONS = 20"
definition CONTEXT_LINE_MARKER :: string where "CONTEXT_LINE_MARKER = ''[context]''"

definition SKIP_MARKERS :: "string list" where
  "SKIP_MARKERS = [''No refId available'', ''No usable timestamp'', ''Log window too old'', ''Log fetch failed'',
     ''Log fetching disabled'']"

definition EMPTY_MARKERS :: "string list" where
  "EMPTY_MARKERS = [''No logs found for ID:'']"


section \<open>Shapes\<close>

datatype corroboration_verdict = CORROBORATED | PARTIAL | CONTRADICTED | UNVERIFIABLE

datatype matched_label = By_fqcn | By_simple_name | By_business_code

datatype corroboration_reason =
    No_logs_fetched
  | Fetch_skipped
  | No_lines_for_id
  | No_error_or_warning
  | Root_appears matched_label bool bool
  | Root_and_others
  | Root_absent string "string list"
  | Only_set_aside string nat nat
  | Nothing_named

record match_details =
  md_matched_on :: "matched_label option"
  md_frame_hits :: "string list"
  md_exceptions_in_logs :: "string list"
  md_exceptions_in_declared_chain :: "string list"
  md_exceptions_on_context_lines :: "string list"
  md_exceptions_on_warn_lines :: "string list"
  md_context_error_lines :: nat
  md_warn_lines_seen :: nat
  md_matched_in_context_only :: bool
  md_matched_on_warn_only :: bool

record corroboration =
  co_verdict :: corroboration_verdict
  co_reason :: corroboration_reason
  co_citations :: "string list"
  co_unexplained :: "string list"
  co_matched_declared :: bool
  co_error_lines_seen :: nat
  co_could_not_look :: bool
  co_details :: "match_details option"

definition is_discrepancy :: "corroboration \<Rightarrow> bool" where
  "is_discrepancy c \<longleftrightarrow> co_verdict c \<in> {CONTRADICTED, PARTIAL}"

definition unverifiable :: "corroboration_reason \<Rightarrow> bool \<Rightarrow> corroboration" where
  "unverifiable r blind =
     \<lparr>co_verdict = UNVERIFIABLE, co_reason = r, co_citations = [], co_unexplained = [], co_matched_declared = False,
      co_error_lines_seen = 0, co_could_not_look = blind, co_details = None\<rparr>"


section \<open>Reading the window\<close>

definition simple_name :: "string option \<Rightarrow> string" where
  "simple_name fqcn = (case fqcn of None \<Rightarrow> [] | Some n \<Rightarrow> after_last CHR ''.'' n)"

definition matches_any :: "string \<Rightarrow> string option list \<Rightarrow> bool" where
  "matches_any t needles = list_ex (\<lambda>n. case n of None \<Rightarrow> False | Some w \<Rightarrow> w \<noteq> [] \<and> contains w t) needles"

record scanned_line =
  sl_text :: string
  sl_attributed :: bool
  sl_error_level :: bool

fun scan_from :: "bool \<Rightarrow> string list \<Rightarrow> scanned_line list" where
  "scan_from inherited0 [] = []"
| "scan_from inherited0 (l # ls) =
     (let inherited = (if match_start LINE_START l then \<not> contains CONTEXT_LINE_MARKER l else inherited0)
      in if search MATCHABLE_LINE l
         then \<lparr>sl_text = py_strip l, sl_attributed = inherited, sl_error_level = search ERROR_LINE l\<rparr> # scan_from inherited ls
         else scan_from inherited ls)"

definition scan_lines :: "string \<Rightarrow> scanned_line list" where
  "scan_lines logs = scan_from True (lines_of logs)"

definition joined :: "scanned_line list \<Rightarrow> string" where
  "joined ls = join_with [CHR 0x0A] (map sl_text ls)"

fun find_match :: "scanned_line list \<Rightarrow> (string option \<times> matched_label) list \<Rightarrow> (matched_label \<times> scanned_line) option" where
  "find_match scanned [] = None"
| "find_match scanned ((needle, label) # rest) =
     (case needle of
        None \<Rightarrow> find_match scanned rest
      | Some w \<Rightarrow>
          if w = [] then find_match scanned rest
          else (case find (\<lambda>l. contains w (sl_text l)) scanned of
                  Some l \<Rightarrow> Some (label, l)
                | None \<Rightarrow> find_match scanned rest))"

definition explained :: "string option \<Rightarrow> string list \<Rightarrow> string \<Rightarrow> bool" where
  "explained root_fqcn chain fqcn \<longleftrightarrow>
     Some fqcn = root_fqcn \<or> simple_name (Some fqcn) = simple_name root_fqcn \<or> fqcn \<in> set (filter (\<lambda>c. c \<noteq> []) chain)"

definition unexplained_in :: "string option \<Rightarrow> string list \<Rightarrow> string \<Rightarrow> string list" where
  "unexplained_in root_fqcn chain t =
     sort (filter (\<lambda>f. \<not> explained root_fqcn chain f) (remdups (findall FQCN_IN_TEXT t)))"

text \<open>\<^verbatim>\<open>dict.fromkeys\<close>: the first of every group of equals, in order.\<close>

definition first_occurrences :: "'a list \<Rightarrow> 'a list" where
  "first_occurrences xs = rev (remdups (rev xs))"


section \<open>The verdict\<close>

definition details_of ::
    "scanned_line list \<Rightarrow> string option \<Rightarrow> string option \<Rightarrow> string list \<Rightarrow> string list \<Rightarrow> (matched_label \<times> scanned_line) option \<Rightarrow>
     match_details" where
  "details_of scanned root_fqcn business_code frames chain hit =
     (let haystack = joined scanned;
          accusable = joined (filter (\<lambda>l. sl_attributed l \<and> sl_error_level l) scanned);
          context = joined (filter (\<lambda>l. \<not> sl_attributed l) scanned);
          warn = joined (filter (\<lambda>l. sl_attributed l \<and> \<not> sl_error_level l) scanned);
          unexplained = unexplained_in root_fqcn chain accusable;
          seen = remdups (findall FQCN_IN_TEXT accusable);
          spellings = [root_fqcn, Some (simple_name root_fqcn), business_code]
      in \<lparr>md_matched_on = map_option fst hit,
          md_frame_hits = filter (\<lambda>f. after_last CHR ''.'' f \<noteq> [] \<and> contains (after_last CHR ''.'' f) haystack) frames,
          md_exceptions_in_logs = sort seen,
          md_exceptions_in_declared_chain =
            sort (filter (\<lambda>f. f \<in> set (filter (\<lambda>c. c \<noteq> []) chain) \<and> Some f \<noteq> root_fqcn) seen),
          md_exceptions_on_context_lines = filter (\<lambda>f. f \<notin> set unexplained) (unexplained_in root_fqcn chain context),
          md_exceptions_on_warn_lines = filter (\<lambda>f. f \<notin> set unexplained) (unexplained_in root_fqcn chain warn),
          md_context_error_lines = length (filter (\<lambda>l. \<not> sl_attributed l) scanned),
          md_warn_lines_seen = length (filter (\<lambda>l. \<not> sl_error_level l) scanned),
          md_matched_in_context_only = (hit \<noteq> None \<and> \<not> matches_any (joined (filter sl_attributed scanned)) spellings),
          md_matched_on_warn_only = (hit \<noteq> None \<and> \<not> matches_any (joined (filter sl_error_level scanned)) spellings)\<rparr>)"

definition judge ::
    "scanned_line list \<Rightarrow> string option \<Rightarrow> string option \<Rightarrow> string list \<Rightarrow> string list \<Rightarrow> corroboration" where
  "judge scanned root_fqcn business_code frames chain =
     (let error_lines = map sl_text (filter sl_error_level scanned);
          simple = simple_name root_fqcn;
          hit = find_match scanned [(root_fqcn, By_fqcn), (Some simple, By_simple_name), (business_code, By_business_code)];
          unexplained = unexplained_in root_fqcn chain (joined (filter (\<lambda>l. sl_attributed l \<and> sl_error_level l) scanned));
          details = details_of scanned root_fqcn business_code frames chain hit;
          citations = take MAX_CITATIONS (first_occurrences ((case hit of None \<Rightarrow> [] | Some (_, l) \<Rightarrow> [sl_text l]) @ error_lines));
          base = (unverifiable Nothing_named False)\<lparr>co_citations := citations,
                   co_error_lines_seen := length error_lines, co_details := Some details\<rparr>
      in case hit of
           Some (label, _) \<Rightarrow>
             if unexplained = []
             then base\<lparr>co_verdict := CORROBORATED,
                       co_reason := Root_appears label (md_matched_on_warn_only details) (md_matched_in_context_only details),
                       co_matched_declared := True\<rparr>
             else base\<lparr>co_verdict := PARTIAL, co_reason := Root_and_others, co_unexplained := unexplained,
                       co_matched_declared := True\<rparr>
         | None \<Rightarrow>
             if unexplained \<noteq> []
             then base\<lparr>co_verdict := CONTRADICTED,
                       co_reason := Root_absent simple (map (\<lambda>f. simple_name (Some f)) (take 3 unexplained)),
                       co_unexplained := unexplained\<rparr>
             else if md_exceptions_on_context_lines details \<noteq> [] \<or> md_exceptions_on_warn_lines details \<noteq> []
             then base\<lparr>co_reason := Only_set_aside simple (length (md_exceptions_on_context_lines details))
                         (length (md_exceptions_on_warn_lines details))\<rparr>
             else base)"

definition corroborate ::
    "string option \<Rightarrow> string option \<Rightarrow> string option \<Rightarrow> string list \<Rightarrow> string list \<Rightarrow> corroboration" where
  "corroborate logs root_fqcn business_code frames chain =
     (case logs of
        None \<Rightarrow> unverifiable No_logs_fetched True
      | Some t \<Rightarrow>
          if py_strip t = [] then unverifiable No_logs_fetched True
          else if list_ex (\<lambda>m. contains m t) SKIP_MARKERS then unverifiable Fetch_skipped True
          else if list_ex (\<lambda>m. contains m t) EMPTY_MARKERS then unverifiable No_lines_for_id False
          else if scan_lines t = [] then unverifiable No_error_or_warning False
          else judge (scan_lines t) root_fqcn business_code frames chain)"


section \<open>Lemmas\<close>

lemma fqcn_only: "only (\<lambda>c. name_char c \<or> c = CHR ''.'') FQCN_IN_TEXT"
  by (auto simp: FQCN_IN_TEXT_def package_part_def Lit_def name_char_def is_word_def)

text \<open>A piece of text without the separator comes from one of the joined parts.\<close>

lemma sublist_join:
  assumes "sublist x (join_with [c] ws)" and "c \<notin> set x" and "x \<noteq> []"
  shows "\<exists>w\<in>set ws. sublist x w"
  using assms(1)
proof (induction ws rule: induct_list012)
  case 1
  then show ?case using assms(3) by simp
next
  case (2 w)
  then show ?case by simp
next
  case (3 w v rest)
  from "3.prems" have "sublist x (w @ (c # join_with [c] (v # rest)))" by simp
  then consider "sublist x w" | "sublist x (c # join_with [c] (v # rest))"
    | xs1 xs2 where "x = xs1 @ xs2" "suffix xs1 w" "prefix xs2 (c # join_with [c] (v # rest))"
    by (auto simp: sublist_append)
  then show ?case
  proof cases
    case 1
    then show ?thesis by simp
  next
    case 2
    have "\<not> prefix x (c # join_with [c] (v # rest))" using assms(2,3) by (cases x) auto
    then have "sublist x (join_with [c] (v # rest))" using 2 by (auto simp: sublist_Cons_right)
    then show ?thesis using "3.IH"(2) by auto
  next
    case 3
    then have "xs2 = []" using assms(2) by (cases xs2) auto
    then show ?thesis using 3 by (auto intro: suffix_imp_sublist)
  qed
qed

lemma fqcn_nonempty: "[] \<notin> set (findall FQCN_IN_TEXT t)"
  by (rule findall_nonempty) (simp add: FQCN_IN_TEXT_def package_part_def)

lemma unexplained_on_a_line:
  assumes "f \<in> set (unexplained_in root_fqcn chain (joined ls))"
  shows "\<not> explained root_fqcn chain f \<and> (\<exists>l\<in>set ls. contains f (sl_text l))"
proof -
  have f: "f \<in> set (findall FQCN_IN_TEXT (joined ls))" "\<not> explained root_fqcn chain f"
    using assms by (auto simp: unexplained_in_def)
  have "\<not> name_char (CHR 0x0A)" by code_simp
  then have "CHR 0x0A \<notin> set f" and sub: "sublist f (joined ls)"
    using findall_only [OF fqcn_only f(1)] by auto
  moreover have "f \<noteq> []" using f(1) fqcn_nonempty by blast
  ultimately show ?thesis
    using sublist_join [of f "CHR 0x0A" "map sl_text ls"] f(2) by (auto simp: joined_def contains_sublist)
qed

lemma find_match_Some:
  assumes "find_match scanned needles = Some (label, l)"
  shows "l \<in> set scanned \<and> (\<exists>w. (Some w, label) \<in> set needles \<and> w \<noteq> [] \<and> contains w (sl_text l))"
  using assms
  by (induction scanned needles rule: find_match.induct)
    (auto split: option.splits if_splits simp: find_Some_iff)

lemma find_match_None:
  assumes "find_match scanned needles = None" and "(Some w, label) \<in> set needles" and "w \<noteq> []" and "l \<in> set scanned"
  shows "\<not> contains w (sl_text l)"
  using assms
  by (induction scanned needles rule: find_match.induct)
    (auto split: option.splits if_splits simp: find_None_iff)

text \<open>The accusable lines of a window, and the spellings of the declared root.\<close>

definition accusable :: "string \<Rightarrow> scanned_line list" where
  "accusable t = filter (\<lambda>l. sl_attributed l \<and> sl_error_level l) (scan_lines t)"

definition spellings :: "string option \<Rightarrow> string option \<Rightarrow> string set" where
  "spellings root_fqcn business_code =
     {w. w \<noteq> [] \<and> (Some w = root_fqcn \<or> w = simple_name root_fqcn \<or> Some w = business_code)}"

definition appears :: "string \<Rightarrow> string option \<Rightarrow> string option \<Rightarrow> bool" where
  "appears t root_fqcn business_code \<longleftrightarrow>
     (\<exists>w\<in>spellings root_fqcn business_code. \<exists>l\<in>set (scan_lines t). contains w (sl_text l))"

lemma judge_hit:
  fixes root_fqcn business_code t
  defines "hit \<equiv> find_match (scan_lines t) [(root_fqcn, By_fqcn), (Some (simple_name root_fqcn), By_simple_name), (business_code, By_business_code)]"
  shows "hit \<noteq> None \<longleftrightarrow> appears t root_fqcn business_code"
proof
  assume "hit \<noteq> None"
  then obtain label l where "hit = Some (label, l)" by auto
  from find_match_Some [OF this [unfolded hit_def]] show "appears t root_fqcn business_code"
    by (auto simp: appears_def spellings_def)
next
  assume a: "appears t root_fqcn business_code"
  show "hit \<noteq> None"
  proof
    assume "hit = None"
    note none = find_match_None [OF this [unfolded hit_def]]
    from a none show False unfolding appears_def spellings_def by fastforce
  qed
qed

text \<open>The verdict on a window that was read, and what is held against the trace.\<close>

lemma judge_verdict:
  assumes "hit = find_match scanned [(root_fqcn, By_fqcn), (Some (simple_name root_fqcn), By_simple_name), (business_code, By_business_code)]"
    and "us = unexplained_in root_fqcn chain (joined (filter (\<lambda>l. sl_attributed l \<and> sl_error_level l) scanned))"
  shows "co_verdict (judge scanned root_fqcn business_code frames chain) =
      (if hit \<noteq> None then (if us = [] then CORROBORATED else PARTIAL) else (if us \<noteq> [] then CONTRADICTED else UNVERIFIABLE))"
    and "co_unexplained (judge scanned root_fqcn business_code frames chain) = us"
    and "co_could_not_look (judge scanned root_fqcn business_code frames chain) = False"
  unfolding judge_def assms [symmetric] Let_def
  by (cases hit; cases "us = []"; simp add: unverifiable_def split: prod.split)+

lemma judge_citations:
  assumes "hit = find_match scanned [(root_fqcn, By_fqcn), (Some (simple_name root_fqcn), By_simple_name), (business_code, By_business_code)]"
  shows "co_citations (judge scanned root_fqcn business_code frames chain) = take MAX_CITATIONS (first_occurrences
    ((case hit of None \<Rightarrow> [] | Some (_, l) \<Rightarrow> [sl_text l]) @ map sl_text (filter sl_error_level scanned)))"
  unfolding judge_def assms [symmetric] Let_def by (cases hit) (auto simp: unverifiable_def split: prod.split)

lemma first_occurrences_Cons: "first_occurrences (x # xs) = x # filter (\<lambda>y. y \<noteq> x) (first_occurrences xs)"
proof -
  have "remdups (ys @ [x]) = filter (\<lambda>y. y \<noteq> x) (remdups ys) @ [x]" for ys by (induction ys) auto
  then show ?thesis by (simp add: first_occurrences_def rev_filter)
qed

lemma corroborate_cases:
  obtains (unread) r b where "corroborate logs root_fqcn business_code frames chain = unverifiable r b"
  | (read) t where "logs = Some t" "corroborate logs root_fqcn business_code frames chain = judge (scan_lines t) root_fqcn business_code frames chain"
      "scan_lines t \<noteq> []"
proof (cases "\<exists>t. logs = Some t \<and> py_strip t \<noteq> [] \<and> \<not> list_ex (\<lambda>m. contains m t) SKIP_MARKERS \<and>
    \<not> list_ex (\<lambda>m. contains m t) EMPTY_MARKERS \<and> scan_lines t \<noteq> []")
  case True
  then obtain t where "logs = Some t" "corroborate logs root_fqcn business_code frames chain =
      judge (scan_lines t) root_fqcn business_code frames chain" "scan_lines t \<noteq> []"
    by (auto simp: corroborate_def)
  then show ?thesis by (rule read)
next
  case False
  have "\<exists>r b. corroborate logs root_fqcn business_code frames chain = unverifiable r b"
  proof (cases logs)
    case None
    then show ?thesis by (auto simp: corroborate_def)
  next
    case (Some t)
    then show ?thesis using False unfolding corroborate_def
      by (cases "py_strip t = []"; cases "list_ex (\<lambda>m. contains m t) SKIP_MARKERS";
          cases "list_ex (\<lambda>m. contains m t) EMPTY_MARKERS") auto
  qed
  then show ?thesis using unread by blast
qed


lemma discrepancy_unexplained:
  "is_discrepancy (corroborate logs root_fqcn business_code frames chain) \<longleftrightarrow>
   co_unexplained (corroborate logs root_fqcn business_code frames chain) \<noteq> []"
proof (cases rule: corroborate_cases [of logs root_fqcn business_code frames chain])
  case (unread r b)
  then show ?thesis by (simp add: unverifiable_def is_discrepancy_def)
next
  case (read t)
  show ?thesis unfolding is_discrepancy_def read(2) judge_verdict [OF refl refl] by simp
qed

section \<open>Properties\<close>

text \<open>
  C12. A trace is accused only on its own packet's error lines. A verdict is a discrepancy exactly when
  some exception is held against the trace, and every exception so held is named on a line that carries
  the packet's identifier and is logged as an error, and is neither the declared root, nor of its name,
  nor a link of the declared chain. Contradicted means that no spelling of the root occurs in the window.
\<close>

theorem accusation_is_attributed:
  assumes "c = corroborate logs root_fqcn business_code frames chain"
  shows "(is_discrepancy c \<longleftrightarrow> co_unexplained c \<noteq> []) \<and>
    (\<forall>f\<in>set (co_unexplained c). \<exists>t l. logs = Some t \<and> l \<in> set (scan_lines t) \<and> sl_attributed l \<and> sl_error_level l \<and>
       contains f (sl_text l) \<and> Some f \<noteq> root_fqcn \<and> simple_name (Some f) \<noteq> simple_name root_fqcn \<and>
       (f \<in> set chain \<longrightarrow> f = [])) \<and>
    (co_verdict c = CONTRADICTED \<longrightarrow> (\<exists>t. logs = Some t \<and> \<not> appears t root_fqcn business_code))"
proof (cases rule: corroborate_cases [of logs root_fqcn business_code frames chain])
  case (unread r b)
  then show ?thesis unfolding assms by (simp add: unverifiable_def is_discrepancy_def)
next
  case (read t)
  note v = judge_verdict [OF refl refl, of "scan_lines t" root_fqcn business_code frames chain]
  have c: "c = judge (scan_lines t) root_fqcn business_code frames chain" using read assms by simp
  have u: "co_unexplained c = unexplained_in root_fqcn chain (joined (accusable t))"
    unfolding c v accusable_def by (rule refl)
  have "\<exists>l. l \<in> set (scan_lines t) \<and> sl_attributed l \<and> sl_error_level l \<and> contains f (sl_text l) \<and>
      \<not> explained root_fqcn chain f" if "f \<in> set (co_unexplained c)" for f
    using unexplained_on_a_line [of f root_fqcn chain "accusable t"] that u by (auto simp: accusable_def)
  moreover have "is_discrepancy c \<longleftrightarrow> co_unexplained c \<noteq> []"
    unfolding assms by (rule discrepancy_unexplained)
  moreover have "co_verdict c = CONTRADICTED \<Longrightarrow> \<not> appears t root_fqcn business_code"
    unfolding c v judge_hit by (simp split: if_splits)
  ultimately show ?thesis using read(1) by (fastforce simp: explained_def)
qed

definition busy_window :: string where
  "busy_window = ''[t] [pod] [ERROR] java.net.http.ConnectException: x'' @ [CHR 0x0A] @
     ''[t] [pod] [context] [ERROR] java.lang.IllegalStateError: y''"

theorem accusation_is_attributed_witness:
  "let c = corroborate (Some busy_window) (Some ''a.b.Biz'') None [] []
   in co_verdict c = CONTRADICTED \<and> co_unexplained c = [''java.net.http.ConnectException''] \<and>
      \<not> appears busy_window (Some ''a.b.Biz'') None"
proof -
  let ?c = "corroborate (Some busy_window) (Some ''a.b.Biz'') None [] []"
  have v: "co_verdict ?c = CONTRADICTED" by code_simp
  have u: "co_unexplained ?c = [''java.net.http.ConnectException'']" by code_simp
  show ?thesis unfolding Let_def using accusation_is_attributed [OF refl, of "Some busy_window" "Some ''a.b.Biz''" None "[]" "[]"] v u by simp
qed

text \<open>
  A corroboration can be checked: when the logs bear the trace out, some spelling of the declared
  root (its full name, its simple name, or its business code) is in the first line cited, which is a line
  of the window; and no verdict cites more than twenty lines or one line twice.
\<close>

theorem corroboration_is_cited:
  assumes "c = corroborate logs root_fqcn business_code frames chain"
  shows "length (co_citations c) \<le> MAX_CITATIONS \<and> distinct (co_citations c) \<and>
    (co_verdict c \<in> {CORROBORATED, PARTIAL} \<longrightarrow>
      (\<exists>t w l. logs = Some t \<and> w \<in> spellings root_fqcn business_code \<and> l \<in> set (scan_lines t) \<and>
         contains w (sl_text l) \<and> co_citations c \<noteq> [] \<and> hd (co_citations c) = sl_text l))"
proof (cases rule: corroborate_cases [of logs root_fqcn business_code frames chain])
  case (unread r b)
  then show ?thesis unfolding assms by (simp add: unverifiable_def)
next
  case (read t)
  define hit where "hit = find_match (scan_lines t)
    [(root_fqcn, By_fqcn), (Some (simple_name root_fqcn), By_simple_name), (business_code, By_business_code)]"
  have c: "c = judge (scan_lines t) root_fqcn business_code frames chain" using read assms by simp
  have cit: "co_citations c = take MAX_CITATIONS (first_occurrences
      ((case hit of None \<Rightarrow> [] | Some (_, l) \<Rightarrow> [sl_text l]) @ map sl_text (filter sl_error_level (scan_lines t))))"
    unfolding c by (rule judge_citations [OF hit_def])
  have "\<exists>w l. w \<in> spellings root_fqcn business_code \<and> l \<in> set (scan_lines t) \<and> contains w (sl_text l) \<and>
      co_citations c \<noteq> [] \<and> hd (co_citations c) = sl_text l" if "co_verdict c \<in> {CORROBORATED, PARTIAL}"
  proof -
    have "hit \<noteq> None" using that unfolding c judge_verdict(1) [OF hit_def refl] by (auto split: if_splits)
    then obtain label l where l: "hit = Some (label, l)" by auto
    from find_match_Some [OF this [unfolded hit_def]] obtain w where
      "w \<in> spellings root_fqcn business_code" "l \<in> set (scan_lines t)" "contains w (sl_text l)"
      by (auto simp: spellings_def)
    moreover have "co_citations c \<noteq> [] \<and> hd (co_citations c) = sl_text l"
      unfolding cit l by (simp add: first_occurrences_Cons MAX_CITATIONS_def)
    ultimately show ?thesis by blast
  qed
  then show ?thesis using cit read(1) by (auto simp: first_occurrences_def)
qed

theorem corroboration_is_cited_witness:
  "let c = corroborate (Some ''[t] [pod] [WARN] a.b.Biz: z'') (Some ''a.b.Biz'') None [] []
   in co_verdict c = CORROBORATED \<and> co_citations c = [''[t] [pod] [WARN] a.b.Biz: z''] \<and> length (co_citations c) \<le> MAX_CITATIONS"
proof -
  let ?c = "corroborate (Some ''[t] [pod] [WARN] a.b.Biz: z'') (Some ''a.b.Biz'') None [] []"
  have v: "co_verdict ?c = CORROBORATED" by code_simp
  have u: "co_citations ?c = [''[t] [pod] [WARN] a.b.Biz: z'']" by code_simp
  show ?thesis unfolding Let_def using corroboration_is_cited [OF refl, of "Some ''[t] [pod] [WARN] a.b.Biz: z''" "Some ''a.b.Biz''" None "[]" "[]"] v u by simp
qed

end
