(* ===== verification/Findings.thy ===== *)
theory Findings
  imports Prelude
begin

text \<open>
  The finding contract of the dead-letter lane and its confidence ceilings:
  \<^verbatim>\<open>src/models/dlt_synthesis.py\<close>, with the gap ceiling of \<^verbatim>\<open>src/models/synthesis.py\<close>. Confidences and
  ceilings are rationals; a ceiling setting that is not a decimal numeral counts as unset, as in the code.
\<close>

section \<open>Data and settings\<close>

definition DLT_ACTIONS :: "string list" where
  "DLT_ACTIONS = [''NEEDS_MANUAL_REVIEW'', ''ROUTE_TO_DEV'', ''REDRIVE_AFTER_RECOVERY'', ''DATA_FIX_REQUIRED'', ''NO_ACTION'']"

definition UNVERIFIABLE_LABEL :: string where "UNVERIFIABLE_LABEL = ''unverifiable''"
definition UNREVIEWED_LABEL :: string where "UNREVIEWED_LABEL = ''unreviewed''"
definition DISCREPANCY_VERDICTS :: "string list" where "DISCREPANCY_VERDICTS = [''CONTRADICTED'', ''PARTIAL'']"
definition BANNER_HEADER :: string where
  "BANNER_HEADER = ''--- EVIDENCE GAPS (the trace below is INCOMPLETE) ---''"

record finding =
  fi_narrative :: string
  fi_discrepancy :: "string option"
  fi_recommendation :: string
  fi_action :: string
  fi_confidence :: "rat option"
  fi_ceilings_applied :: "string list"
  fi_abstained :: bool
  fi_reviewer_approved :: "bool option"

text \<open>What the data model validates: a known action, a confidence between 0 and 1.\<close>

definition valid_finding :: "finding \<Rightarrow> bool" where
  "valid_finding f \<longleftrightarrow>
     fi_action f \<in> set DLT_ACTIONS \<and>
     (case fi_confidence f of None \<Rightarrow> True | Some c \<Rightarrow> 0 \<le> c \<and> c \<le> 1)"

definition class_b_ceiling :: "env \<Rightarrow> rat" where
  "class_b_ceiling env = float_env env ''DLT_CLASS_B_CEILING'' (3/10)"

definition unverified_ceiling :: "env \<Rightarrow> rat" where
  "unverified_ceiling env = float_env env ''DLT_UNVERIFIED_CONFIDENCE_CEILING'' (1/2)"

text \<open>An old single ceiling that was changed stays the default of the two that replaced it.\<close>

definition doc_primary_default :: "env \<Rightarrow> rat \<Rightarrow> rat" where
  "doc_primary_default env dflt =
     (case env ''DLT_UNVERIFIED_CONFIDENCE_CEILING'' of
        None \<Rightarrow> dflt
      | Some raw \<Rightarrow> if raw \<noteq> [] \<and> unverified_ceiling env \<noteq> 1/2 then unverified_ceiling env else dflt)"

definition logs_unavailable_ceiling :: "env \<Rightarrow> rat" where
  "logs_unavailable_ceiling env = float_env env ''DLT_LOGS_UNAVAILABLE_CEILING'' (doc_primary_default env (3/4))"

definition logs_silent_ceiling :: "env \<Rightarrow> rat" where
  "logs_silent_ceiling env = float_env env ''DLT_LOGS_SILENT_CEILING'' (doc_primary_default env (6/10))"

definition contradicted_ceiling :: "env \<Rightarrow> rat" where
  "contradicted_ceiling env = float_env env ''DLT_CONTRADICTED_CEILING'' (6/10)"

definition registry_miss_ceiling :: "env \<Rightarrow> rat" where
  "registry_miss_ceiling env = float_env env ''DLT_REGISTRY_MISS_CEILING'' (1/2)"

definition unreviewed_ceiling :: "env \<Rightarrow> rat" where
  "unreviewed_ceiling env = float_env env ''DLT_UNREVIEWED_CEILING'' (1/2)"

definition reuse_decay :: "env \<Rightarrow> rat" where
  "reuse_decay env = float_env env ''DLT_REUSE_DECAY'' (95/100)"

definition gap_confidence_ceiling :: "env \<Rightarrow> rat" where
  "gap_confidence_ceiling env = float_env env ''SYNTHESIS_GAP_CONFIDENCE_CEILING'' (6/10)"


section \<open>The policy\<close>

text \<open>What is known of a case when its finding is capped.\<close>

record evidence =
  ev_failure_class :: string
  ev_corroboration :: string
  ev_registry_hit :: bool
  ev_reused :: bool
  ev_logs :: string
  ev_could_not_look :: "bool option"

type_synonym caps = "rat \<times> string list"

definition cap :: "rat \<Rightarrow> string \<Rightarrow> caps \<Rightarrow> caps" where
  "cap v label st = (case st of (bound, applied) \<Rightarrow> (min bound v, applied @ [label]))"

definition label_only :: "string \<Rightarrow> caps \<Rightarrow> caps" where
  "label_only label st = (case st of (bound, applied) \<Rightarrow> (bound, applied @ [label]))"

definition cap_class :: "env \<Rightarrow> evidence \<Rightarrow> caps \<Rightarrow> caps" where
  "cap_class env ev =
     (if ev_failure_class ev \<in> {''B'', ''U''}
      then cap (class_b_ceiling env) (''class_'' @ py_lower (ev_failure_class ev)) else id)"

definition cap_corroboration :: "env \<Rightarrow> evidence \<Rightarrow> caps \<Rightarrow> caps" where
  "cap_corroboration env ev =
     (if ev_corroboration ev = ''UNVERIFIABLE''
      then (case ev_could_not_look ev of
              Some True \<Rightarrow> label_only ''logs_unavailable'' \<circ> cap (logs_unavailable_ceiling env) UNVERIFIABLE_LABEL
            | Some False \<Rightarrow> label_only ''logs_silent'' \<circ> cap (logs_silent_ceiling env) UNVERIFIABLE_LABEL
            | None \<Rightarrow> cap (unverified_ceiling env) UNVERIFIABLE_LABEL)
      else if ev_corroboration ev = ''CONTRADICTED''
      then cap (contradicted_ceiling env) ''contradicted'' else id)"

definition cap_registry :: "env \<Rightarrow> evidence \<Rightarrow> caps \<Rightarrow> caps" where
  "cap_registry env ev =
     (if ev_failure_class ev = ''A'' \<and> \<not> ev_registry_hit ev
      then cap (registry_miss_ceiling env) ''registry_miss'' else id)"

definition cap_review :: "env \<Rightarrow> finding \<Rightarrow> caps \<Rightarrow> caps" where
  "cap_review env f =
     (if fi_reviewer_approved f = Some False then cap (unreviewed_ceiling env) UNREVIEWED_LABEL else id)"

definition cap_gaps :: "env \<Rightarrow> evidence \<Rightarrow> caps \<Rightarrow> caps" where
  "cap_gaps env ev =
     (if ev_logs ev \<noteq> [] \<and> contains BANNER_HEADER (ev_logs ev)
      then cap (gap_confidence_ceiling env) ''evidence_gap'' else id)"

definition ceilings :: "env \<Rightarrow> finding \<Rightarrow> evidence \<Rightarrow> caps" where
  "ceilings env f ev =
     cap_gaps env ev (cap_review env f (cap_registry env ev (cap_corroboration env ev (cap_class env ev (1, [])))))"

definition apply_dlt_confidence_policy :: "env \<Rightarrow> finding \<Rightarrow> evidence \<Rightarrow> finding" where
  "apply_dlt_confidence_policy env f ev =
     (let (bound, applied0) = ceilings env f ev;
          confidence =
            (case fi_confidence f of
               None \<Rightarrow> None
             | Some c \<Rightarrow> Some (min (if ev_reused ev then c * reuse_decay env else c) bound));
          applied = (if fi_confidence f \<noteq> None \<and> ev_reused ev then applied0 @ [''reuse_decay''] else applied0);
          discrepancy =
            (if fi_discrepancy f \<noteq> None \<and> fi_discrepancy f \<noteq> Some [] \<and>
                ev_corroboration ev \<notin> set DISCREPANCY_VERDICTS
             then None else fi_discrepancy f);
          updated = f\<lparr>fi_confidence := confidence, fi_ceilings_applied := applied, fi_discrepancy := discrepancy\<rparr>
      in if ev_failure_class ev \<in> {''B'', ''U''} \<and>
            fi_action updated \<notin> {''NEEDS_MANUAL_REVIEW'', ''ROUTE_TO_DEV''}
         then updated\<lparr>fi_action := ''NEEDS_MANUAL_REVIEW''\<rparr> else updated)"


section \<open>Lemmas\<close>

lemma cap_fst [simp]: "fst (cap v l st) = min (fst st) v"
  by (simp add: cap_def split: prod.split)

lemma cap_snd [simp]: "snd (cap v l st) = snd st @ [l]"
  by (simp add: cap_def split: prod.split)

lemma label_only_fst [simp]: "fst (label_only l st) = fst st"
  by (simp add: label_only_def split: prod.split)

lemma label_only_snd [simp]: "snd (label_only l st) = snd st @ [l]"
  by (simp add: label_only_def split: prod.split)

lemmas cap_steps = cap_class_def cap_corroboration_def cap_registry_def cap_review_def cap_gaps_def

text \<open>Every step only lowers the ceiling and only adds labels.\<close>

lemma steps_lower:
  "fst (cap_class env ev st) \<le> fst st" "fst (cap_corroboration env ev st) \<le> fst st"
  "fst (cap_registry env ev st) \<le> fst st" "fst (cap_review env f st) \<le> fst st" "fst (cap_gaps env ev st) \<le> fst st"
  by (simp_all add: cap_steps split: option.split bool.split)

lemma policy_fields:
  "fi_confidence (apply_dlt_confidence_policy env f ev) =
     map_option (\<lambda>c. min (if ev_reused ev then c * reuse_decay env else c) (fst (ceilings env f ev))) (fi_confidence f)"
  "set (fi_ceilings_applied (apply_dlt_confidence_policy env f ev)) =
     set (snd (ceilings env f ev)) \<union> (if fi_confidence f \<noteq> None \<and> ev_reused ev then {''reuse_decay''} else {})"
  "fi_discrepancy (apply_dlt_confidence_policy env f ev) =
     (if ev_corroboration ev \<in> set DISCREPANCY_VERDICTS \<or> fi_discrepancy f = Some [] then fi_discrepancy f else None)"
  "fi_action (apply_dlt_confidence_policy env f ev) =
     (if ev_failure_class ev \<in> {''B'', ''U''} \<and> fi_action f \<notin> {''NEEDS_MANUAL_REVIEW'', ''ROUTE_TO_DEV''}
      then ''NEEDS_MANUAL_REVIEW'' else fi_action f)"
  "fi_reviewer_approved (apply_dlt_confidence_policy env f ev) = fi_reviewer_approved f"
  by (auto simp: apply_dlt_confidence_policy_def Let_def split: prod.split option.split)

text \<open>The labels a case triggers, step by step.\<close>

lemma in_if_set: "x \<in> (if b then A else {}) \<longleftrightarrow> b \<and> x \<in> A"
  by simp

definition corroboration_labels :: "evidence \<Rightarrow> string set" where
  "corroboration_labels ev =
     (if ev_corroboration ev = ''UNVERIFIABLE''
      then insert UNVERIFIABLE_LABEL
             (case ev_could_not_look ev of Some True \<Rightarrow> {''logs_unavailable''} | Some False \<Rightarrow> {''logs_silent''} | None \<Rightarrow> {})
      else if ev_corroboration ev = ''CONTRADICTED'' then {''contradicted''} else {})"

lemma step_labels:
  "set (snd (cap_class env ev st)) =
     (if ev_failure_class ev \<in> {''B'', ''U''} then {''class_'' @ py_lower (ev_failure_class ev)} else {}) \<union> set (snd st)"
  "set (snd (cap_corroboration env ev st)) = corroboration_labels ev \<union> set (snd st)"
  "set (snd (cap_registry env ev st)) =
     (if ev_failure_class ev = ''A'' \<and> \<not> ev_registry_hit ev then {''registry_miss''} else {}) \<union> set (snd st)"
  "set (snd (cap_review env f st)) =
     (if fi_reviewer_approved f = Some False then {UNREVIEWED_LABEL} else {}) \<union> set (snd st)"
  "set (snd (cap_gaps env ev st)) =
     (if ev_logs ev \<noteq> [] \<and> contains BANNER_HEADER (ev_logs ev) then {''evidence_gap''} else {}) \<union> set (snd st)"
  by (simp_all add: cap_class_def cap_registry_def cap_review_def cap_gaps_def)
     (auto simp: cap_corroboration_def corroboration_labels_def split: option.split bool.split)

lemma in_corroboration_labels:
  "UNVERIFIABLE_LABEL \<in> corroboration_labels ev \<longleftrightarrow> ev_corroboration ev = ''UNVERIFIABLE''"
  "''contradicted'' \<in> corroboration_labels ev \<longleftrightarrow> ev_corroboration ev = ''CONTRADICTED''"
  "UNREVIEWED_LABEL \<notin> corroboration_labels ev" "''registry_miss'' \<notin> corroboration_labels ev"
  "''evidence_gap'' \<notin> corroboration_labels ev" "''class_b'' \<notin> corroboration_labels ev"
  "''class_u'' \<notin> corroboration_labels ev"
  by (simp_all add: corroboration_labels_def UNVERIFIABLE_LABEL_def UNREVIEWED_LABEL_def split: option.split bool.split)

text \<open>Membership of one label in what the policy applied, reduced to the steps that may add it.\<close>

lemma label_iff:
  "l \<in> set (fi_ceilings_applied (apply_dlt_confidence_policy env f ev)) \<longleftrightarrow>
     (ev_failure_class ev \<in> {''B'', ''U''} \<and> l = ''class_'' @ py_lower (ev_failure_class ev)) \<or>
     l \<in> corroboration_labels ev \<or>
     (ev_failure_class ev = ''A'' \<and> \<not> ev_registry_hit ev \<and> l = ''registry_miss'') \<or>
     (fi_reviewer_approved f = Some False \<and> l = UNREVIEWED_LABEL) \<or>
     (contains BANNER_HEADER (ev_logs ev) \<and> l = ''evidence_gap'') \<or>
     (fi_confidence f \<noteq> None \<and> ev_reused ev \<and> l = ''reuse_decay'')"
proof -
  have banner: "ev_logs ev \<noteq> [] \<and> contains BANNER_HEADER (ev_logs ev) \<longleftrightarrow> contains BANNER_HEADER (ev_logs ev)"
    by (auto simp: BANNER_HEADER_def)
  show ?thesis
    unfolding policy_fields ceilings_def step_labels Un_iff in_if_set banner by auto
qed

text \<open>The ceilings a case triggers, as the set of their values; the one that applies is the least.\<close>

definition triggered :: "env \<Rightarrow> finding \<Rightarrow> evidence \<Rightarrow> rat set" where
  "triggered env f ev =
     {1} \<union>
     (if ev_failure_class ev \<in> {''B'', ''U''} then {class_b_ceiling env} else {}) \<union>
     (if ev_corroboration ev = ''UNVERIFIABLE''
      then {case ev_could_not_look ev of Some True \<Rightarrow> logs_unavailable_ceiling env
            | Some False \<Rightarrow> logs_silent_ceiling env | None \<Rightarrow> unverified_ceiling env}
      else if ev_corroboration ev = ''CONTRADICTED'' then {contradicted_ceiling env} else {}) \<union>
     (if ev_failure_class ev = ''A'' \<and> \<not> ev_registry_hit ev then {registry_miss_ceiling env} else {}) \<union>
     (if fi_reviewer_approved f = Some False then {unreviewed_ceiling env} else {}) \<union>
     (if ev_logs ev \<noteq> [] \<and> contains BANNER_HEADER (ev_logs ev) then {gap_confidence_ceiling env} else {})"

text \<open>Folding a step into the least value of a set.\<close>

definition caps_to :: "caps \<Rightarrow> rat set \<Rightarrow> bool" where
  "caps_to st A \<longleftrightarrow> finite A \<and> A \<noteq> {} \<and> fst st = Min A"

lemma caps_to_cap: "caps_to st A \<Longrightarrow> caps_to (cap v l st) (insert v A)"
  by (simp add: caps_to_def min.commute)

lemma caps_to_label: "caps_to st A \<Longrightarrow> caps_to (label_only l st) A"
  by (simp add: caps_to_def)

lemma caps_to_steps:
  assumes "caps_to st A"
  shows "caps_to (cap_class env ev st) (A \<union> (if ev_failure_class ev \<in> {''B'', ''U''} then {class_b_ceiling env} else {}))"
    and "caps_to (cap_corroboration env ev st) (A \<union>
     (if ev_corroboration ev = ''UNVERIFIABLE''
      then {case ev_could_not_look ev of Some True \<Rightarrow> logs_unavailable_ceiling env
            | Some False \<Rightarrow> logs_silent_ceiling env | None \<Rightarrow> unverified_ceiling env}
      else if ev_corroboration ev = ''CONTRADICTED'' then {contradicted_ceiling env} else {}))"
    and "caps_to (cap_registry env ev st) (A \<union>
     (if ev_failure_class ev = ''A'' \<and> \<not> ev_registry_hit ev then {registry_miss_ceiling env} else {}))"
    and "caps_to (cap_review env f st) (A \<union>
     (if fi_reviewer_approved f = Some False then {unreviewed_ceiling env} else {}))"
    and "caps_to (cap_gaps env ev st) (A \<union>
     (if ev_logs ev \<noteq> [] \<and> contains BANNER_HEADER (ev_logs ev) then {gap_confidence_ceiling env} else {}))"
  using assms
  by (auto simp: cap_steps intro!: caps_to_cap caps_to_label split: option.split bool.split)

lemma ceilings_least: "fst (ceilings env f ev) = Min (triggered env f ev)"
proof -
  have "caps_to (1, []) {1}" by (simp add: caps_to_def)
  then have "caps_to (ceilings env f ev) (triggered env f ev)"
    unfolding ceilings_def triggered_def by (intro caps_to_steps)
  then show ?thesis by (simp add: caps_to_def)
qed


section \<open>Properties\<close>

text \<open>
  Ceilings compose by taking the least, whatever the order in which they are checked: a finding
  without a confidence never gets one, and one with a confidence comes out as the smaller of that
  confidence (decayed when it was served from the cache) and the least of the ceilings its evidence
  triggers.
\<close>

theorem confidence_is_least_ceiling:
  "fi_confidence (apply_dlt_confidence_policy env f ev) =
     map_option (\<lambda>c. min (if ev_reused ev then c * reuse_decay env else c) (Min (triggered env f ev))) (fi_confidence f)"
  by (simp add: policy_fields ceilings_least)

text \<open>
  Every reason a finding is untrusted is named, and nothing else: a finding is labelled
  unverifiable exactly when its logs could not verify it, unreviewed exactly when the reviewer
  refused it, and so on for each of the labels.
\<close>

theorem labels_name_every_reason:
  "(UNVERIFIABLE_LABEL \<in> set (fi_ceilings_applied (apply_dlt_confidence_policy env f ev)) \<longleftrightarrow>
      ev_corroboration ev = ''UNVERIFIABLE'') \<and>
   (UNREVIEWED_LABEL \<in> set (fi_ceilings_applied (apply_dlt_confidence_policy env f ev)) \<longleftrightarrow>
      fi_reviewer_approved f = Some False) \<and>
   (''contradicted'' \<in> set (fi_ceilings_applied (apply_dlt_confidence_policy env f ev)) \<longleftrightarrow>
      ev_corroboration ev = ''CONTRADICTED'') \<and>
   (''registry_miss'' \<in> set (fi_ceilings_applied (apply_dlt_confidence_policy env f ev)) \<longleftrightarrow>
      ev_failure_class ev = ''A'' \<and> \<not> ev_registry_hit ev) \<and>
   (''class_b'' \<in> set (fi_ceilings_applied (apply_dlt_confidence_policy env f ev)) \<longleftrightarrow> ev_failure_class ev = ''B'') \<and>
   (''class_u'' \<in> set (fi_ceilings_applied (apply_dlt_confidence_policy env f ev)) \<longleftrightarrow> ev_failure_class ev = ''U'') \<and>
   (''evidence_gap'' \<in> set (fi_ceilings_applied (apply_dlt_confidence_policy env f ev)) \<longleftrightarrow>
      contains BANNER_HEADER (ev_logs ev))"
proof -
  have lower: "py_lower ''B'' = ''b''" "py_lower ''U'' = ''u''" by code_simp+
  have cls: "ev_failure_class ev \<in> {''B'', ''U''} \<and> ''class_b'' = ''class_'' @ py_lower (ev_failure_class ev) \<longleftrightarrow> ev_failure_class ev = ''B''"
    "ev_failure_class ev \<in> {''B'', ''U''} \<and> ''class_u'' = ''class_'' @ py_lower (ev_failure_class ev) \<longleftrightarrow> ev_failure_class ev = ''U''"
    by (auto simp: lower)
  show ?thesis
    unfolding label_iff in_corroboration_labels cls
    by (simp add: in_corroboration_labels [unfolded UNVERIFIABLE_LABEL_def UNREVIEWED_LABEL_def]
        UNVERIFIABLE_LABEL_def UNREVIEWED_LABEL_def)
qed

lemma policy_valid:
  assumes "valid_finding f" and "0 \<le> reuse_decay env" and "\<forall>v\<in>triggered env f ev. 0 \<le> v"
  shows "valid_finding (apply_dlt_confidence_policy env f ev)"
proof -
  have fin: "finite (triggered env f ev)" and one: "1 \<in> triggered env f ev"
    by (simp_all add: triggered_def)
  have lo: "0 \<le> Min (triggered env f ev)" using assms(3) fin one by (subst Min_ge_iff) auto
  have hi: "Min (triggered env f ev) \<le> 1" using fin one by (rule Min_le)
  have "(case fi_confidence (apply_dlt_confidence_policy env f ev) of None \<Rightarrow> True | Some c \<Rightarrow> 0 \<le> c \<and> c \<le> 1)"
    using assms(1,2) lo hi
    by (auto simp: policy_fields ceilings_least valid_finding_def min_le_iff_disj split: option.splits)
  moreover have "fi_action (apply_dlt_confidence_policy env f ev) \<in> set DLT_ACTIONS"
    using assms(1) by (simp add: policy_fields valid_finding_def DLT_ACTIONS_def)
  ultimately show ?thesis by (simp add: valid_finding_def)
qed

text \<open>
  The policy keeps a finding within its contract: with ceilings and a decay that are not
  negative, an action of the vocabulary and a confidence between 0 and 1 stay that, classes B and U
  end up with a routing action, and a discrepancy is shown only when the logs disagreed with the
  trace.
\<close>

theorem policy_keeps_contract:
  assumes "valid_finding f" and "0 \<le> reuse_decay env" and "\<forall>v\<in>triggered env f ev. 0 \<le> v"
  shows "valid_finding (apply_dlt_confidence_policy env f ev) \<and>
    (ev_failure_class ev \<in> {''B'', ''U''} \<longrightarrow>
       fi_action (apply_dlt_confidence_policy env f ev) \<in> {''NEEDS_MANUAL_REVIEW'', ''ROUTE_TO_DEV''}) \<and>
    (\<forall>d. fi_discrepancy (apply_dlt_confidence_policy env f ev) = Some d \<longrightarrow>
       d = [] \<or> ev_corroboration ev \<in> set DISCREPANCY_VERDICTS)"
  using policy_valid [OF assms] by (auto simp: policy_fields split: if_splits)

theorem policy_keeps_contract_witness:
  "valid_finding (apply_dlt_confidence_policy (\<lambda>_. None)
     \<lparr>fi_narrative = ''n'', fi_discrepancy = Some ''d'', fi_recommendation = ''r'', fi_action = ''NO_ACTION'',
      fi_confidence = Some (9/10), fi_ceilings_applied = [], fi_abstained = False, fi_reviewer_approved = Some False\<rparr>
     \<lparr>ev_failure_class = ''B'', ev_corroboration = ''UNVERIFIABLE'', ev_registry_hit = False, ev_reused = True,
      ev_logs = [], ev_could_not_look = Some True\<rparr>)"
  (is "valid_finding (apply_dlt_confidence_policy ?e ?f ?ev)")
proof -
  have "valid_finding ?f" by (simp add: valid_finding_def DLT_ACTIONS_def)
  moreover have "0 \<le> reuse_decay ?e" by (simp add: reuse_decay_def)
  moreover have "\<forall>v\<in>triggered ?e ?f ?ev. 0 \<le> v"
    by (simp add: triggered_def class_b_ceiling_def logs_unavailable_ceiling_def doc_primary_default_def unreviewed_ceiling_def)
  ultimately show ?thesis using policy_keeps_contract by blast
qed

end
