(* ===== verification/Group_Reuse.thy ===== *)
theory Group_Reuse
  imports Group_Store Classify Corroborate Findings
begin

text \<open>
  The facade over the group stores, \<^verbatim>\<open>src/dlt/groups.py\<close>, and the decision to serve a group's
  recommendation or to ask the model, \<^verbatim>\<open>src/dlt/reuse.py\<close>.

  The single-document store (\<^verbatim>\<open>DLT_GROUP_STORE=v1\<close>) is modelled by its mutations, which run inside the
  backend's atomic update. A member list or history that is no list or dict, which the code never writes,
  raises there.
\<close>

section \<open>Which store\<close>

definition STATE_NONE :: string where "STATE_NONE = ''none''"
definition STATE_DRAFT :: string where "STATE_DRAFT = ''draft''"
definition STATE_FINAL :: string where "STATE_FINAL = ''final''"

definition store_version :: "env \<Rightarrow> string" where
  "store_version env =
     (if py_lower (py_strip (env_get env ''DLT_GROUP_STORE'' ''v2'')) = ''v1'' then ''v1'' else ''v2'')"

definition is_v2 :: "env \<Rightarrow> bool" where
  "is_v2 env \<longleftrightarrow> store_version env = ''v2''"


section \<open>The single-document store\<close>

definition blank_group :: "string \<Rightarrow> doc" where
  "blank_group fp =
     [(''fingerprint'', JStr fp), (''signature'', JStr []), (''failure_class'', JStr ''U''), (''business_code'', JNull),
      (''first_seen'', JNull), (''last_seen'', JNull), (''occurrence_count'', JNum 0), (''members'', JArr []),
      (''recommendation'', JNull), (''recommendation_state'', JStr STATE_NONE), (''corroboration_history'', JObj []),
      (''code_check'', JNull), (''code_check_history'', JObj [])]"

definition current_or_blank :: "string \<Rightarrow> doc option \<Rightarrow> doc" where
  "current_or_blank fp current = (case current of None \<Rightarrow> blank_group fp | Some d \<Rightarrow> if d = [] then blank_group fp else d)"

definition int_or_raise :: "json \<Rightarrow> exn + int" where
  "int_or_raise v =
     (case json_int v of
        Some n \<Rightarrow> Inr n
      | None \<Rightarrow> Inl (case v of JStr _ \<Rightarrow> ValueError | _ \<Rightarrow> TypeError))"

definition bump :: "string \<Rightarrow> json \<Rightarrow> exn + doc" where
  "bump verdict history =
     (case py_or history (JObj []) of
        JObj h \<Rightarrow>
          (case int_or_raise (jget_default h verdict (JNum 0)) of
             Inl e \<Rightarrow> Inl e
           | Inr n \<Rightarrow> Inr (jset verdict (JNum (of_int (n + 1))) h))
      | _ \<Rightarrow> Inl TypeError)"

definition add_member :: "nat \<Rightarrow> string \<Rightarrow> doc \<Rightarrow> exn + doc" where
  "add_member most case_id grp =
     (case (jget_default grp ''members'' (JArr []), int_or_raise (jget_default grp ''occurrence_count'' (JNum 0))) of
        (JArr ms, Inr n) \<Rightarrow>
          Inr (jset ''members'' (JArr (last_n most (ms @ [JStr case_id])))
                 (jset ''occurrence_count'' (JNum (of_int (n + 1))) grp))
      | (JArr ms, Inl e) \<Rightarrow> Inl e
      | _ \<Rightarrow> Inl TypeError)"

definition is_member :: "string \<Rightarrow> doc \<Rightarrow> bool" where
  "is_member case_id grp =
     (case jget_default grp ''members'' (JArr []) of JArr ms \<Rightarrow> JStr case_id \<in> set ms | _ \<Rightarrow> False)"

definition stamp_group :: "rat \<Rightarrow> occurrence \<Rightarrow> doc \<Rightarrow> doc" where
  "stamp_group now oc grp =
     jset ''last_seen'' (JNum now)
       (jset ''first_seen'' (py_or (jget grp ''first_seen'') (JNum now))
         (jset ''business_code'' (py_or (jopt (oc_business_code oc)) (jget grp ''business_code''))
           (jset ''failure_class'' (py_or (py_or (JStr (oc_failure_class oc)) (jget grp ''failure_class'')) (JStr ''U''))
             (jset ''signature'' (py_or (py_or (JStr (oc_signature oc)) (jget grp ''signature'')) (JStr [])) grp))))"

definition v1_occurrence :: "env \<Rightarrow> rat \<Rightarrow> string \<Rightarrow> occurrence \<Rightarrow> doc option \<Rightarrow> exn + doc" where
  "v1_occurrence env now fp oc current =
     (let group0 = current_or_blank fp current;
          already_member = is_member (oc_case_id oc) group0
      in case (if already_member then Inr group0 else add_member (member_cap env) (oc_case_id oc) group0) of
           Inl e \<Rightarrow> Inl e
         | Inr group1 \<Rightarrow>
             (let group2 = stamp_group now oc group1
              in case oc_corroboration oc of
                   None \<Rightarrow> Inr group2
                 | Some c \<Rightarrow>
                     if c = [] \<or> already_member then Inr group2
                     else (case bump c (jget group2 ''corroboration_history'') of
                             Inl e \<Rightarrow> Inl e
                           | Inr h \<Rightarrow> Inr (jset ''corroboration_history'' (JObj h) group2))))"

definition v1_recommendation :: "string \<Rightarrow> json \<Rightarrow> string \<Rightarrow> string option \<Rightarrow> doc option \<Rightarrow> exn + doc" where
  "v1_recommendation fp recommendation state corroboration current =
     Inr (jset ''recommendation_corroboration'' (jopt corroboration)
            (jset ''recommendation_state'' (JStr state)
              (jset ''recommendation'' recommendation (current_or_blank fp current))))"

definition v1_code_check :: "string \<Rightarrow> doc \<Rightarrow> doc option \<Rightarrow> exn + doc" where
  "v1_code_check fp record current =
     (let grp = jset ''code_check'' (JObj record) (current_or_blank fp current)
      in case jget record ''verdict'' of
           JStr v \<Rightarrow>
             if v = [] then Inr grp
             else (case bump v (jget grp ''code_check_history'') of
                     Inl e \<Rightarrow> Inl e
                   | Inr h \<Rightarrow> Inr (jset ''code_check_history'' (JObj h) grp))
         | _ \<Rightarrow> Inr grp)"


section \<open>The facade\<close>

definition any_load_group :: "'s storage \<Rightarrow> call \<Rightarrow> string \<Rightarrow> ('s group_proc, doc option) io" where
  "any_load_group sto ca fp =
     (if fp = [] then ret None
      else catchM
             (if is_v2 (ca_env ca) then load_group sto ca fp else on_store (st_load sto fp LEGACY_FILENAME))
             (\<lambda>_. ret None))"

definition any_record_occurrence :: "'s storage \<Rightarrow> call \<Rightarrow> string \<Rightarrow> occurrence \<Rightarrow> ('s group_proc, doc) io" where
  "any_record_occurrence sto ca fp oc =
     (if is_v2 (ca_env ca) then record_occurrence sto ca fp oc
      else on_store (st_update_json sto fp LEGACY_FILENAME (v1_occurrence (ca_env ca) (ca_now ca) fp oc)))"

definition any_attach_recommendation ::
    "'s storage \<Rightarrow> call \<Rightarrow> string \<Rightarrow> json \<Rightarrow> string \<Rightarrow> string option \<Rightarrow> string option \<Rightarrow> ('s group_proc, doc) io" where
  "any_attach_recommendation sto ca fp recommendation state by_case_id corroboration =
     (if is_v2 (ca_env ca) then attach_recommendation sto ca fp recommendation state by_case_id corroboration
      else on_store (st_update_json sto fp LEGACY_FILENAME (v1_recommendation fp recommendation state corroboration)))"

definition any_attach_code_check ::
    "'s storage \<Rightarrow> call \<Rightarrow> string \<Rightarrow> string \<Rightarrow> doc \<Rightarrow> string option \<Rightarrow> ('s group_proc, doc) io" where
  "any_attach_code_check sto ca unique fp record by_case_id =
     (if is_v2 (ca_env ca) then attach_code_check sto ca unique fp record by_case_id
      else on_store (st_update_json sto fp LEGACY_FILENAME (v1_code_check fp record)))"


section \<open>Serving a recommendation\<close>

definition describes_one_occurrence :: "doc \<Rightarrow> bool" where
  "describes_one_occurrence grp \<longleftrightarrow>
     status_in (jget grp ''recommendation_corroboration'') DISCREPANCY_VERDICTS \<or>
     (case py_or (jget grp ''recommendation'') (JObj []) of
        JObj r \<Rightarrow>
          truthy (jget r ''discrepancy'') \<or>
          (case py_or (jget r ''ceilings_applied'') (JArr []) of
             JArr xs \<Rightarrow> JStr ''contradicted'' \<in> set xs
           | JStr t \<Rightarrow> contains ''contradicted'' t
           | JObj m \<Rightarrow> ''contradicted'' \<in> fst ` set m
           | _ \<Rightarrow> False)
      | _ \<Rightarrow> False)"

definition has_usable_recommendation :: "doc option \<Rightarrow> bool" where
  "has_usable_recommendation grp =
     (case grp of
        None \<Rightarrow> False
      | Some g \<Rightarrow>
          g \<noteq> [] \<and> truthy (jget g ''recommendation'') \<and>
          status_in (jget g ''recommendation_state'') [STATE_DRAFT, STATE_FINAL] \<and>
          \<not> describes_one_occurrence g)"

fun verdict_value :: "corroboration_verdict \<Rightarrow> string" where
  "verdict_value CORROBORATED = ''CORROBORATED''"
| "verdict_value PARTIAL = ''PARTIAL''"
| "verdict_value CONTRADICTED = ''CONTRADICTED''"
| "verdict_value UNVERIFIABLE = ''UNVERIFIABLE''"

datatype decision = LLM_REQUIRED | REUSE_GROUP | CANNED

datatype reuse_reason =
    Fixed_treatment string
  | Discrepancy_leads string
  | Reuse_off
  | Novel_fingerprint
  | Logs_corroborate
  | Served_capped

record reuse_decision =
  ru_decision :: decision
  ru_reason :: reuse_reason
  ru_awaits_cache :: bool

definition calls_llm :: "reuse_decision \<Rightarrow> bool" where
  "calls_llm d \<longleftrightarrow> ru_decision d = LLM_REQUIRED"

definition reuse_enabled :: "env \<Rightarrow> bool" where
  "reuse_enabled env = get_bool_env env ''DLT_REUSE_ENABLED'' True"

definition decide_reuse :: "env \<Rightarrow> string \<Rightarrow> string \<Rightarrow> doc option \<Rightarrow> reuse_decision" where
  "decide_reuse env fclass verdict grp =
     (if fclass \<noteq> class_value BUSINESS
      then \<lparr>ru_decision = CANNED, ru_reason = Fixed_treatment fclass, ru_awaits_cache = False\<rparr>
      else if verdict \<in> {verdict_value CONTRADICTED, verdict_value PARTIAL}
      then \<lparr>ru_decision = LLM_REQUIRED, ru_reason = Discrepancy_leads verdict, ru_awaits_cache = False\<rparr>
      else if \<not> reuse_enabled env
      then \<lparr>ru_decision = LLM_REQUIRED, ru_reason = Reuse_off, ru_awaits_cache = False\<rparr>
      else if \<not> has_usable_recommendation grp
      then \<lparr>ru_decision = LLM_REQUIRED, ru_reason = Novel_fingerprint, ru_awaits_cache = True\<rparr>
      else if verdict = verdict_value CORROBORATED
      then \<lparr>ru_decision = REUSE_GROUP, ru_reason = Logs_corroborate, ru_awaits_cache = False\<rparr>
      else \<lparr>ru_decision = REUSE_GROUP, ru_reason = Served_capped, ru_awaits_cache = False\<rparr>)"

definition llm_calls_avoided :: "int \<Rightarrow> int \<Rightarrow> rat" where
  "llm_calls_avoided messages groups = (if messages \<le> 0 then 0 else max 0 (1 - of_int groups / of_int messages))"


section \<open>Lemmas\<close>

lemma jget_default_jset_same [simp]: "jget_default (jset k v d) k x = v"
  by (simp add: jget_default_def jset_def update_conv')

lemma jget_default_jset_other [simp]: "k' \<noteq> k \<Longrightarrow> jget_default (jset k v d) k' x = jget_default d k' x"
  by (simp add: jget_default_def jset_def update_conv')

lemma stamp_group_default:
  "k \<notin> {''last_seen'', ''first_seen'', ''business_code'', ''failure_class'', ''signature''} \<Longrightarrow>
   jget_default (stamp_group now oc g) k x = jget_default g k x"
  by (simp add: stamp_group_def)

text \<open>The count and the members of a group of the single-document store.\<close>

definition v1_count :: "doc \<Rightarrow> json" where
  "v1_count g = jget_default g ''occurrence_count'' (JNum 0)"

definition v1_members :: "doc \<Rightarrow> json" where
  "v1_members g = jget_default g ''members'' (JArr [])"

lemma v1_occurrence_fields:
  assumes "v1_occurrence env now fp oc current = Inr g'" and "g = current_or_blank fp current"
    and "v1_members g = JArr ms" and "v1_count g = JNum (of_int n)"
  shows "v1_members g' = JArr (if JStr (oc_case_id oc) \<in> set ms then ms else last_n (member_cap env) (ms @ [JStr (oc_case_id oc)])) \<and>
    v1_count g' = JNum (of_int (if JStr (oc_case_id oc) \<in> set ms then n else n + 1))"
proof -
  have i: "int_or_raise (JNum (of_int n)) = Inr n" by (simp add: int_or_raise_def)
  have m: "is_member (oc_case_id oc) g \<longleftrightarrow> JStr (oc_case_id oc) \<in> set ms"
    using assms(3) by (simp add: is_member_def v1_members_def)
  obtain group1 where 1: "(if is_member (oc_case_id oc) g then Inr g else add_member (member_cap env) (oc_case_id oc) g) = Inr group1"
    and rest: "(case oc_corroboration oc of
          None \<Rightarrow> Inr (stamp_group now oc group1)
        | Some c \<Rightarrow>
            if c = [] \<or> is_member (oc_case_id oc) g then Inr (stamp_group now oc group1)
            else (case bump c (jget (stamp_group now oc group1) ''corroboration_history'') of
                    Inl e \<Rightarrow> Inl e
                  | Inr h \<Rightarrow> Inr (jset ''corroboration_history'' (JObj h) (stamp_group now oc group1)))) = Inr g'"
    using assms(1) unfolding v1_occurrence_def assms(2) [symmetric] Let_def
    by (cases "if is_member (oc_case_id oc) g then Inr g else add_member (member_cap env) (oc_case_id oc) g")
      (auto split: sum.splits)
  have "v1_members g' = v1_members group1 \<and> v1_count g' = v1_count group1"
    using rest by (auto simp: v1_members_def v1_count_def stamp_group_default split: option.splits if_splits sum.splits)
  moreover have "v1_members group1 = JArr (if JStr (oc_case_id oc) \<in> set ms then ms else last_n (member_cap env) (ms @ [JStr (oc_case_id oc)])) \<and>
      v1_count group1 = JNum (of_int (if JStr (oc_case_id oc) \<in> set ms then n else n + 1))"
    using 1 m assms(3,4) i
    by (auto simp: add_member_def v1_members_def v1_count_def split: if_splits)
  ultimately show ?thesis by simp
qed

text \<open>
  The single-document store counts a redelivered case again as soon as the case has left the capped member
  list: with room for one member, the deliveries of a, b and a again count three occurrences.
\<close>

definition delivery :: "string \<Rightarrow> occurrence" where
  "delivery c = \<lparr>oc_case_id = c, oc_ref_id = None, oc_signature = [], oc_failure_class = ''A'', oc_business_code = None,
     oc_corroboration = None\<rparr>"

definition room_for_one :: env where
  "room_for_one k = (if k = ''DLT_GROUP_MEMBER_CAP'' then Some ''1'' else None)"

lemma v1_recounts_a_forgotten_case:
  "\<exists>g1 g2 g3. v1_occurrence room_for_one 1 ''f'' (delivery ''a'') None = Inr g1 \<and>
     v1_occurrence room_for_one 2 ''f'' (delivery ''b'') (Some g1) = Inr g2 \<and>
     v1_occurrence room_for_one 3 ''f'' (delivery ''a'') (Some g2) = Inr g3 \<and> v1_count g3 = JNum 3"
proof -
  let ?g1 = "projr (v1_occurrence room_for_one 1 ''f'' (delivery ''a'') None)"
  let ?g2 = "projr (v1_occurrence room_for_one 2 ''f'' (delivery ''b'') (Some ?g1))"
  let ?g3 = "projr (v1_occurrence room_for_one 3 ''f'' (delivery ''a'') (Some ?g2))"
  have "v1_occurrence room_for_one 1 ''f'' (delivery ''a'') None = Inr ?g1" by code_simp
  moreover have "v1_occurrence room_for_one 2 ''f'' (delivery ''b'') (Some ?g1) = Inr ?g2" by code_simp
  moreover have "v1_occurrence room_for_one 3 ''f'' (delivery ''a'') (Some ?g2) = Inr ?g3" by code_simp
  moreover have "v1_count ?g3 = JNum 3" by code_simp
  ultimately show ?thesis by blast
qed


section \<open>Properties\<close>

text \<open>
  C37. No recommendation is served blind. The cached recommendation of a group is served exactly when the
  failure is a business failure, its logs do not disagree with its trace, reuse is on, and the group has a
  draft or final recommendation that was not written for the discrepancy of one occurrence; every other
  business failure goes to the model, and only business failures do. Waiting for another investigation's
  answer is proposed only where such an answer would have been served.
\<close>

theorem reuse_is_never_blind:
  "(ru_decision (decide_reuse env fclass verdict grp) = REUSE_GROUP \<longleftrightarrow>
      fclass = ''A'' \<and> verdict \<notin> {''CONTRADICTED'', ''PARTIAL''} \<and> reuse_enabled env \<and>
      (\<exists>g. grp = Some g \<and> truthy (jget g ''recommendation'') \<and>
         jget g ''recommendation_state'' \<in> {JStr ''draft'', JStr ''final''} \<and>
         jget g ''recommendation_corroboration'' \<notin> {JStr ''CONTRADICTED'', JStr ''PARTIAL''} \<and>
         \<not> describes_one_occurrence g)) \<and>
   (ru_decision (decide_reuse env fclass verdict grp) = CANNED \<longleftrightarrow> fclass \<noteq> ''A'') \<and>
   (ru_awaits_cache (decide_reuse env fclass verdict grp) \<longleftrightarrow>
      ru_decision (decide_reuse env fclass verdict grp) = LLM_REQUIRED \<and>
      (\<exists>g. ru_decision (decide_reuse env fclass verdict (Some g)) = REUSE_GROUP))"
proof -
  have s: "status_in v [STATE_DRAFT, STATE_FINAL] \<longleftrightarrow> v \<in> {JStr ''draft'', JStr ''final''}" for v
    by (auto simp: status_in_def STATE_DRAFT_def STATE_FINAL_def split: json.splits)
  have d: "status_in v DISCREPANCY_VERDICTS \<longleftrightarrow> v \<in> {JStr ''CONTRADICTED'', JStr ''PARTIAL''}" for v
    by (auto simp: status_in_def DISCREPANCY_VERDICTS_def split: json.splits)
  have u: "has_usable_recommendation grp \<longleftrightarrow>
      (\<exists>g. grp = Some g \<and> truthy (jget g ''recommendation'') \<and>
         jget g ''recommendation_state'' \<in> {JStr ''draft'', JStr ''final''} \<and>
         jget g ''recommendation_corroboration'' \<notin> {JStr ''CONTRADICTED'', JStr ''PARTIAL''} \<and>
         \<not> describes_one_occurrence g)" for grp
    unfolding has_usable_recommendation_def s
    by (cases grp) (auto simp: describes_one_occurrence_def d jget_def)
  have "has_usable_recommendation (Some [(''recommendation'', JStr ''r''), (''recommendation_state'', JStr ''draft'')])"
    by code_simp
  then have some: "\<exists>g. has_usable_recommendation (Some g)" by blast
  show ?thesis
    unfolding u [symmetric] decide_reuse_def using some by auto
qed

end
