(* ===== verification/Versions.thy ===== *)
theory Versions
  imports Prelude
begin

text \<open>
  Version strings (\<^verbatim>\<open>src/dlt/versions.py\<close>): extracting the version from a container image
  reference, parsing it, and ordering two of them. The replay precheck and the release of parked
  replays both rest on this order.

  A \<open>ver_arg\<close> is what the Python functions accept: text that may be absent, or a version parsed
  before. The optional operator-supplied pattern \<^verbatim>\<open>DLT_VERSION_PATTERN\<close> is a regular
  expression of the deployment, so the compiler of patterns is the argument \<open>re_compile\<close> of
  \<open>custom_pattern\<close> (\<open>None\<close> when the text does not compile, otherwise whether the pattern has a
  \<^verbatim>\<open>version\<close> group and its search function) and a compiled pattern is an argument of \<open>parse\<close>.

  The lemmas show that the strict order is a strict partial order although equality of versions
  is not transitive (a build counter orders only against another counter), that \<open>lowest\<close> returns
  a minimal element of its argument and refuses any list with an unparsable entry, and that a
  printed version parses back to its own numbers.
\<close>

section \<open>Extraction and parsing\<close>

record version =
  ver_raw :: string
  ver_core :: "nat list"
  ver_qualifier :: string
  ver_snapshot :: bool
  ver_build :: "nat option"

datatype ver_arg = VText "string option" | VObj version

type_synonym pattern = "string \<Rightarrow> string option option"

definition custom_pattern :: "(string \<Rightarrow> (bool \<times> pattern) option) \<Rightarrow> env \<Rightarrow> pattern option" where
  "custom_pattern re_compile e =
     (let raw = py_strip (env_get e ''DLT_VERSION_PATTERN'' '''')
      in if raw = [] then None
         else (case re_compile raw of
                 None \<Rightarrow> None
               | Some (has_version_group, search) \<Rightarrow>
                   if has_version_group then Some search else None))"

definition version_of :: "string option \<Rightarrow> string" where
  "version_of reference =
     (case reference of None \<Rightarrow> []
      | Some r \<Rightarrow>
          if r = [] then []
          else (let head = py_strip (before_first CHR ''@'' r)
                in if head = [] then []
                   else (let last = after_last CHR ''/'' head
                         in if CHR '':'' \<in> set last then after_last CHR '':'' last else last)))"

text \<open>\<^verbatim>\<open>_CORE_RE\<close>, \<^verbatim>\<open>^(\d+(?:\.\d+)*)\<close>: the numbers of the core and the rest of the text.\<close>

function core_tail :: "string \<Rightarrow> nat list \<times> string" where
  "core_tail s =
     (if s \<noteq> [] \<and> hd s = CHR ''.'' \<and> tl s \<noteq> [] \<and> is_digit (hd (tl s))
      then (case core_tail (dropWhile is_digit (tl s)) of
              (ns, r) \<Rightarrow> (nat_of_digits (takeWhile is_digit (tl s)) # ns, r))
      else ([], s))"
  by pat_completeness auto
termination
proof (relation "measure length", simp)
  fix s :: string
  assume *: "s \<noteq> [] \<and> hd s = CHR ''.'' \<and> tl s \<noteq> [] \<and> is_digit (hd (tl s))"
  have "length (dropWhile is_digit (tl s)) \<le> length (tl s)"
    by (rule length_dropWhile_le)
  also have "\<dots> < length s" using * by simp
  finally show "(dropWhile is_digit (tl s), s) \<in> measure length" by simp
qed

declare core_tail.simps [simp del]

definition match_core :: "string \<Rightarrow> (nat list \<times> string) option" where
  "match_core s =
     (if takeWhile is_digit s = [] then None
      else (case core_tail (dropWhile is_digit s) of
              (ns, r) \<Rightarrow> Some (nat_of_digits (takeWhile is_digit s) # ns, r)))"

text \<open>\<^verbatim>\<open>_ORDINAL_RE\<close>, \<^verbatim>\<open>[.\-_](\d+)$\<close>.\<close>

definition match_ordinal :: "string \<Rightarrow> nat option" where
  "match_ordinal t =
     (let ds = takeWhile is_digit (rev t); rest = dropWhile is_digit (rev t)
      in if ds \<noteq> [] \<and> rest \<noteq> [] \<and> hd rest \<in> {CHR ''.'', CHR ''-'', CHR ''_''}
         then Some (nat_of_digits (rev ds)) else None)"

definition parse_candidate :: "string \<Rightarrow> version option" where
  "parse_candidate raw =
     (let candidate =
            (if raw \<noteq> [] \<and> hd raw \<in> {CHR ''v'', CHR ''V''} \<and> tl raw \<noteq> [] \<and> is_digit (hd (tl raw))
             then lstrip (\<lambda>c. c \<in> {CHR ''v'', CHR ''V''}) raw else raw)
      in (case match_core candidate of
            None \<Rightarrow> None
          | Some (core, t) \<Rightarrow>
              Some \<lparr>ver_raw = raw, ver_core = core,
                    ver_qualifier = lstrip (\<lambda>c. c \<in> {CHR ''-'', CHR ''_'', CHR ''.''}) t,
                    ver_snapshot = contains ''snapshot'' (py_lower t),
                    ver_build = (if t = [] then None else match_ordinal t)\<rparr>))"

definition parse :: "pattern option \<Rightarrow> string option \<Rightarrow> version option" where
  "parse pat text =
     (case text of None \<Rightarrow> None
      | Some t \<Rightarrow>
          (let raw = py_strip t
           in if raw = [] then None
              else (let raw1 = (let v = version_of (Some raw) in if v = [] then raw else v);
                        raw2 = (case pat of None \<Rightarrow> raw1
                                | Some search \<Rightarrow>
                                    (case search raw1 of None \<Rightarrow> raw1
                                     | Some grp \<Rightarrow>
                                         (let g = py_strip (case grp of None \<Rightarrow> [] | Some g \<Rightarrow> g)
                                          in if g = [] then raw1 else g)))
                    in parse_candidate raw2)))"

definition as_version :: "pattern option \<Rightarrow> ver_arg \<Rightarrow> version option" where
  "as_version pat a = (case a of VObj v \<Rightarrow> Some v | VText t \<Rightarrow> parse pat t)"


section \<open>Ordering\<close>

definition pad :: "nat list \<Rightarrow> nat list \<Rightarrow> nat list \<times> nat list" where
  "pad a b =
     (let width = max (length a) (length b)
      in (a @ replicate (width - length a) 0, b @ replicate (width - length b) 0))"

definition compare_versions :: "version \<Rightarrow> version \<Rightarrow> int" where
  "compare_versions a b =
     (case pad (ver_core a) (ver_core b) of (l, r) \<Rightarrow>
        if l \<noteq> r then (if l < r then -1 else 1)
        else if ver_snapshot a \<noteq> ver_snapshot b then (if ver_snapshot a then -1 else 1)
        else (case (ver_build a, ver_build b) of
                (Some m, Some n) \<Rightarrow> if m \<noteq> n then (if m < n then -1 else 1) else 0
              | _ \<Rightarrow> 0))"

definition compare :: "pattern option \<Rightarrow> ver_arg \<Rightarrow> ver_arg \<Rightarrow> int option" where
  "compare pat left right =
     (case (as_version pat left, as_version pat right) of
        (Some a, Some b) \<Rightarrow> Some (compare_versions a b)
      | _ \<Rightarrow> None)"

definition at_least :: "pattern option \<Rightarrow> ver_arg \<Rightarrow> ver_arg \<Rightarrow> bool option" where
  "at_least pat candidate required =
     (case compare pat candidate required of None \<Rightarrow> None | Some r \<Rightarrow> Some (r \<ge> 0))"

definition is_ahead :: "pattern option \<Rightarrow> ver_arg \<Rightarrow> ver_arg \<Rightarrow> bool option" where
  "is_ahead pat candidate baseline =
     (case compare pat candidate baseline of None \<Rightarrow> None | Some r \<Rightarrow> Some (r > 0))"

fun parse_all :: "pattern option \<Rightarrow> ver_arg list \<Rightarrow> version list option" where
  "parse_all pat [] = Some []"
| "parse_all pat (x # xs) =
     (case as_version pat x of None \<Rightarrow> None
      | Some v \<Rightarrow> map_option (\<lambda>vs. v # vs) (parse_all pat xs))"

fun lowest_loop :: "version \<Rightarrow> version list \<Rightarrow> version" where
  "lowest_loop winner [] = winner"
| "lowest_loop winner (v # vs) =
     lowest_loop (if compare_versions v winner < 0 then v else winner) vs"

definition lowest :: "pattern option \<Rightarrow> ver_arg list \<Rightarrow> version option" where
  "lowest pat xs =
     (case parse_all pat xs of
        Some (v # vs) \<Rightarrow> Some (lowest_loop v vs)
      | _ \<Rightarrow> None)"


section \<open>Reference definitions\<close>

text \<open>A core read as an infinite sequence with zeros past its end; the reference order on cores.\<close>

definition core_at :: "nat list \<Rightarrow> nat \<Rightarrow> nat" where
  "core_at c i = (if i < length c then c ! i else 0)"

definition core_less :: "nat list \<Rightarrow> nat list \<Rightarrow> bool" where
  "core_less a b \<longleftrightarrow> (\<exists>i. (\<forall>j<i. core_at a j = core_at b j) \<and> core_at a i < core_at b i)"

text \<open>A core as dotted decimal text.\<close>

definition render_core :: "nat list \<Rightarrow> string" where
  "render_core c = join_with ''.'' (map show_nat c)"


section \<open>The order on numeric cores\<close>

lemma core_at_pad: "core_at (a @ replicate n 0) i = core_at a i"
  by (auto simp: core_at_def nth_append)

lemma core_at_ext:
  assumes "length xs = length ys" and "\<And>i. core_at xs i = core_at ys i"
  shows "xs = ys"
proof (rule nth_equalityI)
  fix i assume "i < length xs"
  then show "xs ! i = ys ! i" using assms(1) assms(2) [of i] by (simp add: core_at_def)
qed (rule assms(1))

lemma core_less_same_length:
  assumes len: "length xs = length ys"
  shows "xs < ys \<longleftrightarrow> core_less xs ys"
proof
  assume "xs < ys"
  then obtain i where i: "i < length xs" "take i xs = take i ys" "xs ! i < ys ! i"
    using len by (auto simp: list_less_def lexord_take_index_conv)
  have "core_at xs j = core_at ys j" if "j < i" for j
    using i that len by (simp add: core_at_def) (metis nth_take)
  then show "core_less xs ys"
    unfolding core_less_def using i len by (intro exI [of _ i]) (simp add: core_at_def)
next
  assume "core_less xs ys"
  then obtain i where eq: "\<forall>j<i. core_at xs j = core_at ys j" and lt: "core_at xs i < core_at ys i"
    by (auto simp: core_less_def)
  from lt len have i: "i < length xs" by (auto simp: core_at_def split: if_splits)
  have "take i xs = take i ys"
    using i len eq by (intro nth_equalityI) (auto simp: core_at_def)
  with lt i len show "xs < ys"
    by (auto simp: list_less_def lexord_take_index_conv core_at_def)
qed

lemma core_less_cong:
  "core_at a = core_at a' \<Longrightarrow> core_at b = core_at b' \<Longrightarrow> core_less a b = core_less a' b'"
  by (simp add: core_less_def)

lemma pad_less: "pad a b = (l, r) \<Longrightarrow> l < r \<longleftrightarrow> core_less a b"
proof -
  assume p: "pad a b = (l, r)"
  then have "length l = length r" by (auto simp: pad_def Let_def)
  then have "l < r \<longleftrightarrow> core_less l r" by (rule core_less_same_length)
  also have "\<dots> \<longleftrightarrow> core_less a b"
    using p by (intro core_less_cong) (auto simp: pad_def Let_def core_at_pad fun_eq_iff)
  finally show ?thesis .
qed

lemma pad_eq: "pad a b = (l, r) \<Longrightarrow> l = r \<longleftrightarrow> core_at a = core_at b"
proof
  assume "pad a b = (l, r)" "l = r"
  then show "core_at a = core_at b"
    by (auto simp: pad_def Let_def) (metis core_at_pad ext)
next
  assume "pad a b = (l, r)" "core_at a = core_at b"
  then show "l = r"
    by (intro core_at_ext) (auto simp: pad_def Let_def core_at_pad)
qed

lemma core_less_trans: "core_less a b \<Longrightarrow> core_less b c \<Longrightarrow> core_less a c"
proof -
  assume "core_less a b" "core_less b c"
  then obtain i k where i: "\<forall>j<i. core_at a j = core_at b j" "core_at a i < core_at b i"
    and k: "\<forall>j<k. core_at b j = core_at c j" "core_at b k < core_at c k"
    by (auto simp: core_less_def)
  show "core_less a c"
    unfolding core_less_def
    using i k by (intro exI [of _ "min i k"]) (cases i k rule: linorder_cases; force)
qed

lemma core_less_irrefl: "core_at a = core_at b \<Longrightarrow> \<not> core_less a b"
  by (auto simp: core_less_def)

lemma core_less_asym: "core_less a b \<Longrightarrow> \<not> core_less b a"
  using core_less_trans core_less_irrefl by blast

lemma core_less_linear: "core_at a \<noteq> core_at b \<Longrightarrow> core_less a b \<or> core_less b a"
proof -
  assume "core_at a \<noteq> core_at b"
  then have ex: "\<exists>i. core_at a i \<noteq> core_at b i" by auto
  define i where "i = (LEAST i. core_at a i \<noteq> core_at b i)"
  have "core_at a i \<noteq> core_at b i" using LeastI_ex [OF ex] by (simp add: i_def)
  moreover have "\<forall>j<i. core_at a j = core_at b j"
    using not_less_Least by (auto simp: i_def)
  ultimately show ?thesis
    unfolding core_less_def by (metis linorder_neqE_nat)
qed


section \<open>The order on versions\<close>

text \<open>The comparison, over the reference order on cores: what the three proofs below unfold.\<close>

lemma compare_versions_alt:
  "compare_versions a b =
     (if core_less (ver_core a) (ver_core b) then -1
      else if core_less (ver_core b) (ver_core a) then 1
      else if ver_snapshot a \<noteq> ver_snapshot b then (if ver_snapshot a then -1 else 1)
      else (case (ver_build a, ver_build b) of
              (Some m, Some n) \<Rightarrow> if m < n then -1 else if n < m then 1 else 0
            | _ \<Rightarrow> 0))"
proof -
  obtain l r where p: "pad (ver_core a) (ver_core b) = (l, r)" by fastforce
  have lt: "l < r \<longleftrightarrow> core_less (ver_core a) (ver_core b)" by (rule pad_less [OF p])
  have eq: "l = r \<longleftrightarrow> core_at (ver_core a) = core_at (ver_core b)" by (rule pad_eq [OF p])
  show ?thesis
  proof (cases "l = r")
    case True
    with eq have same: "core_at (ver_core a) = core_at (ver_core b)" by simp
    have n1: "\<not> core_less (ver_core a) (ver_core b)" by (rule core_less_irrefl [OF same])
    have n2: "\<not> core_less (ver_core b) (ver_core a)" by (rule core_less_irrefl [OF same [symmetric]])
    from True n1 n2 p show ?thesis
      by (auto simp: compare_versions_def split: option.split)
  next
    case False
    with eq have "core_less (ver_core a) (ver_core b) \<or> core_less (ver_core b) (ver_core a)"
      using core_less_linear by blast
    with False p lt show ?thesis
      by (auto simp: compare_versions_def)
  qed
qed

lemma compare_versions_antisym: "compare_versions b a = - compare_versions a b"
  by (auto simp: compare_versions_alt dest: core_less_asym split: option.splits)

lemma compare_versions_range: "compare_versions a b \<in> {-1, 0, 1}"
  by (auto simp: compare_versions_alt split: option.splits)

lemma compare_versions_refl [simp]: "compare_versions a a = 0"
  using compare_versions_antisym [of a a] by simp

lemma compare_versions_less_core:
  assumes "compare_versions a b < 0"
  shows "core_less (ver_core a) (ver_core b) \<or> core_at (ver_core a) = core_at (ver_core b)"
  using assms core_less_linear [of "ver_core a" "ver_core b"]
  by (auto simp: compare_versions_alt split: if_splits)

lemma compare_versions_same_core:
  assumes "core_at (ver_core a) = core_at (ver_core b)"
  shows "compare_versions a b < 0 \<longleftrightarrow>
           (ver_snapshot a \<and> \<not> ver_snapshot b) \<or>
           (ver_snapshot a = ver_snapshot b \<and>
            (\<exists>m n. ver_build a = Some m \<and> ver_build b = Some n \<and> m < n))"
  using core_less_irrefl [OF assms] core_less_irrefl [OF assms [symmetric]]
  by (auto simp: compare_versions_alt split: option.splits)

lemma compare_versions_less_trans:
  assumes ab: "compare_versions a b < 0" and bc: "compare_versions b c < 0"
  shows "compare_versions a c < 0"
proof (cases "core_less (ver_core a) (ver_core b) \<or> core_less (ver_core b) (ver_core c)")
  case True
  have "core_less (ver_core a) (ver_core c)"
    using True compare_versions_less_core [OF ab] compare_versions_less_core [OF bc]
    by (metis core_less_trans core_less_cong)
  then show ?thesis by (simp add: compare_versions_alt)
next
  case False
  with compare_versions_less_core [OF ab] compare_versions_less_core [OF bc]
  have eq: "core_at (ver_core a) = core_at (ver_core b)" "core_at (ver_core b) = core_at (ver_core c)"
    by auto
  with ab bc show ?thesis
    using compare_versions_same_core [of a b] compare_versions_same_core [of b c]
      compare_versions_same_core [of a c]
    by auto
qed

lemma compare_None_iff:
  "compare pat l r = None \<longleftrightarrow> as_version pat l = None \<or> as_version pat r = None"
  by (auto simp: compare_def split: option.split)

lemma compare_flip: "compare pat r l = map_option uminus (compare pat l r)"
  by (auto simp: compare_def intro: compare_versions_antisym split: option.split)


section \<open>The lowest of several versions\<close>

lemma lowest_loop_mem: "lowest_loop w vs \<in> insert w (set vs)"
  by (induction vs arbitrary: w) (auto split: if_splits)

lemma lowest_loop_le:
  "lowest_loop w vs = w \<or> compare_versions (lowest_loop w vs) w < 0"
proof (induction vs arbitrary: w)
  case Nil
  then show ?case by simp
next
  case (Cons v vs)
  show ?case
  proof (cases "compare_versions v w < 0")
    case True
    with Cons.IH [of v] show ?thesis
      using compare_versions_less_trans by auto
  next
    case False
    with Cons.IH [of w] show ?thesis by simp
  qed
qed

lemma lowest_loop_minimal:
  "v \<in> insert w (set vs) \<Longrightarrow> \<not> compare_versions v (lowest_loop w vs) < 0"
proof (induction vs arbitrary: w v)
  case Nil
  then show ?case by simp
next
  case (Cons x xs)
  define w' where "w' = (if compare_versions x w < 0 then x else w)"
  have step: "lowest_loop w (x # xs) = lowest_loop w' xs" by (simp add: w'_def)
  have below: "\<not> compare_versions v (lowest_loop w' xs) < 0" if "\<not> compare_versions v w' < 0"
    using that lowest_loop_le [of w' xs] compare_versions_less_trans by auto
  have "\<not> compare_versions w w' < 0"
    using compare_versions_antisym [of w x] by (auto simp: w'_def)
  moreover have "\<not> compare_versions x w' < 0"
    by (auto simp: w'_def)
  moreover have "\<not> compare_versions v (lowest_loop w' xs) < 0" if "v \<in> set xs"
    using that Cons.IH by blast
  ultimately show ?case
    using Cons.prems below step by auto
qed

lemma parse_all_Some_iff:
  "parse_all pat xs = Some vs \<longleftrightarrow> map (as_version pat) xs = map Some vs"
proof (induction xs arbitrary: vs)
  case Nil
  then show ?case by auto
next
  case (Cons x xs)
  then show ?case by (cases vs) (auto split: option.splits)
qed

lemma parse_all_None: "x \<in> set xs \<Longrightarrow> as_version pat x = None \<Longrightarrow> parse_all pat xs = None"
  by (induction xs) (auto split: option.split)

lemma lowest_SomeD:
  assumes "lowest pat xs = Some w"
  shows "\<forall>x\<in>set xs. \<exists>v. as_version pat x = Some v \<and> \<not> compare_versions v w < 0"
    and "\<exists>x\<in>set xs. as_version pat x = Some w"
proof -
  from assms obtain v vs where vs: "parse_all pat xs = Some (v # vs)" and w: "w = lowest_loop v vs"
    by (auto simp: lowest_def split: option.splits list.splits)
  then have m: "map (as_version pat) xs = map Some (v # vs)" by (simp add: parse_all_Some_iff)
  show "\<forall>x\<in>set xs. \<exists>v. as_version pat x = Some v \<and> \<not> compare_versions v w < 0"
  proof
    fix x assume "x \<in> set xs"
    then have "as_version pat x \<in> set (map Some (v # vs))" unfolding m [symmetric] by simp
    then obtain u where "as_version pat x = Some u" "u \<in> insert v (set vs)" by auto
    then show "\<exists>v. as_version pat x = Some v \<and> \<not> compare_versions v w < 0"
      using lowest_loop_minimal w by auto
  qed
  have "Some w \<in> set (map Some (v # vs))" using lowest_loop_mem [of v vs] w by auto
  then have "Some w \<in> set (map (as_version pat) xs)" unfolding m .
  then show "\<exists>x\<in>set xs. as_version pat x = Some w" by (auto dest: sym)
qed


section \<open>Printed versions parse back\<close>

lemma takeWhile_show_nat: "takeWhile is_digit (show_nat n @ t) = show_nat n @ takeWhile is_digit t"
  by (rule takeWhile_append2) (simp add: show_nat_digits)

lemma dropWhile_show_nat: "dropWhile is_digit (show_nat n @ t) = dropWhile is_digit t"
  by (rule dropWhile_append2) (simp add: show_nat_digits)

lemma core_tail_render:
  "core_tail (concat (map (\<lambda>n. CHR ''.'' # show_nat n) ns)) = (ns, [])"
proof (induction ns)
  case Nil
  show ?case by (simp add: core_tail.simps)
next
  case (Cons n ns)
  let ?rest = "concat (map (\<lambda>n. CHR ''.'' # show_nat n) ns)"
  have stop: "takeWhile is_digit ?rest = []" "dropWhile is_digit ?rest = ?rest"
    by (cases ns; simp)+
  have "is_digit (hd (show_nat n @ ?rest))"
    using show_nat_digits [of "hd (show_nat n)" n] by (simp add: hd_append)
  with Cons stop show ?case
    by (subst core_tail.simps) (simp add: takeWhile_show_nat dropWhile_show_nat)
qed

lemma render_core_Cons:
  "render_core (n # ns) = show_nat n @ concat (map (\<lambda>n. CHR ''.'' # show_nat n) ns)"
  by (induction ns arbitrary: n) (auto simp: render_core_def join_with_Cons)

lemma match_core_render:
  assumes "c \<noteq> []"
  shows "match_core (render_core c) = Some (c, [])"
proof -
  from assms obtain n ns where c: "c = n # ns" by (cases c) auto
  let ?rest = "concat (map (\<lambda>n. CHR ''.'' # show_nat n) ns)"
  have stop: "takeWhile is_digit ?rest = []" "dropWhile is_digit ?rest = ?rest"
    by (cases ns; simp)+
  then show ?thesis
    by (simp add: match_core_def c render_core_Cons takeWhile_show_nat dropWhile_show_nat
        core_tail_render)
qed

lemma render_core_chars:
  assumes "x \<in> set (render_core c)"
  shows "is_digit x \<or> x = CHR ''.''"
proof (cases c)
  case Nil
  with assms show ?thesis by (simp add: render_core_def)
next
  case (Cons n ns)
  with assms show ?thesis by (auto simp: render_core_Cons dest: show_nat_digits split: if_splits)
qed

lemma render_core_plain:
  assumes "x \<in> set (render_core c)"
  shows "\<not> is_space x" and "x \<notin> {CHR ''@'', CHR ''/'', CHR '':'', CHR ''v'', CHR ''V''}"
proof -
  from render_core_chars [OF assms] have *: "is_digit x \<or> x = CHR ''.''" .
  then show "\<not> is_space x" using digit_not_space by (auto simp: is_space_def)
  from * show "x \<notin> {CHR ''@'', CHR ''/'', CHR '':'', CHR ''v'', CHR ''V''}"
    by (auto simp: is_digit_nat)
qed

lemma render_core_not_Nil: "c \<noteq> [] \<Longrightarrow> render_core c \<noteq> []"
  by (cases c) (auto simp: render_core_Cons)

lemma version_of_plain:
  assumes "s \<noteq> []" and "\<And>x. x \<in> set s \<Longrightarrow> \<not> is_space x \<and> x \<notin> {CHR ''@'', CHR ''/'', CHR '':''}"
  shows "version_of (Some s) = s"
proof -
  have n: "CHR ''@'' \<notin> set s" "CHR ''/'' \<notin> set s" "CHR '':'' \<notin> set s"
    using assms(2) by blast+
  have st: "py_strip s = s" using assms(2) by (simp add: py_strip_id)
  show ?thesis using assms(1) n st by (simp add: version_of_def before_first_id after_last_id)
qed

lemma parse_render_core:
  assumes "c \<noteq> []"
  shows "parse None (Some (render_core c)) =
           Some \<lparr>ver_raw = render_core c, ver_core = c, ver_qualifier = [],
                 ver_snapshot = False, ver_build = None\<rparr>"
proof -
  let ?s = "render_core c"
  have ne: "?s \<noteq> []" using assms by (rule render_core_not_Nil)
  have st: "py_strip ?s = ?s" by (rule py_strip_id) (simp add: render_core_plain(1))
  have vo: "version_of (Some ?s) = ?s"
    using ne by (rule version_of_plain) (use render_core_plain in auto)
  have hd: "hd ?s \<notin> {CHR ''v'', CHR ''V''}"
    using render_core_plain(2) [OF hd_in_set [OF ne]] by auto
  show ?thesis
    using ne hd match_core_render [OF assms]
    by (simp add: parse_def parse_candidate_def st vo lstrip_def py_lower_def)
qed


section \<open>Properties\<close>

text \<open>The strict order on versions is a strict partial order, and a comparison flips its sign
  when its arguments are exchanged; equality, by contrast, is not transitive, since a bare version
  equals every build of it. This is what the choice of a lowest running version relies on.\<close>

theorem compare_strict_order:
  "compare pat r l = map_option uminus (compare pat l r) \<and>
   (compare pat a b = Some (-1) \<longrightarrow> compare pat b c = Some (-1) \<longrightarrow> compare pat a c = Some (-1)) \<and>
   (compare pat l r = None \<longleftrightarrow> as_version pat l = None \<or> as_version pat r = None)"
proof (intro conjI impI)
  show "compare pat r l = map_option uminus (compare pat l r)" by (rule compare_flip)
  show "compare pat l r = None \<longleftrightarrow> as_version pat l = None \<or> as_version pat r = None"
    by (rule compare_None_iff)
  assume "compare pat a b = Some (-1)" and "compare pat b c = Some (-1)"
  then obtain x y z where v: "as_version pat a = Some x" "as_version pat b = Some y"
      "as_version pat c = Some z" and lt: "compare_versions x y < 0" "compare_versions y z < 0"
    by (auto simp: compare_def split: option.splits)
  from lt have "compare_versions x z < 0" by (rule compare_versions_less_trans)
  with compare_versions_range [of x z] v show "compare pat a c = Some (-1)"
    by (auto simp: compare_def)
qed

theorem compare_strict_order_witness:
  "compare None (VText (Some ''1.0.9'')) (VText (Some ''1.0.10'')) = Some (-1) \<and>
   compare None (VText (Some ''1.0.10'')) (VText (Some ''1.1-release.3'')) = Some (-1) \<and>
   compare None (VText (Some ''1.0.9'')) (VText (Some ''1.1-release.3'')) = Some (-1)"
proof -
  have a: "compare None (VText (Some ''1.0.9'')) (VText (Some ''1.0.10'')) = Some (-1)"
    by code_simp
  have b: "compare None (VText (Some ''1.0.10'')) (VText (Some ''1.1-release.3'')) = Some (-1)"
    by code_simp
  show ?thesis
    using a b compare_strict_order [of None "VText (Some ''1.0.9'')" "VText (Some ''1.0.10'')"
        "VText (Some ''1.0.9'')" "VText (Some ''1.0.10'')" "VText (Some ''1.1-release.3'')"]
    by blast
qed

text \<open>The lowest of several versions is one of them and no entry is strictly below it; a single
  unparsable entry makes the answer unknown instead of being skipped.\<close>

theorem lowest_is_minimal:
  "(lowest pat xs = Some w \<longrightarrow>
      (\<exists>x\<in>set xs. as_version pat x = Some w) \<and>
      (\<forall>x\<in>set xs. \<exists>v. as_version pat x = Some v \<and> compare pat x (VObj w) \<noteq> Some (-1))) \<and>
   ((\<exists>x\<in>set xs. as_version pat x = None) \<longrightarrow> lowest pat xs = None)"
proof (intro conjI impI)
  assume w: "lowest pat xs = Some w"
  show "\<exists>x\<in>set xs. as_version pat x = Some w" using lowest_SomeD(2) [OF w] .
  show "\<forall>x\<in>set xs. \<exists>v. as_version pat x = Some v \<and> compare pat x (VObj w) \<noteq> Some (-1)"
    using lowest_SomeD(1) [OF w] by (fastforce simp: compare_def as_version_def)
next
  assume "\<exists>x\<in>set xs. as_version pat x = None"
  then show "lowest pat xs = None" using parse_all_None by (fastforce simp: lowest_def)
qed

theorem lowest_is_minimal_witness:
  "\<exists>w. lowest None [VText (Some ''app:1.2.0''), VText (Some ''app:1.1.7-release.4''),
                     VText (Some ''app:1.1.7'')] = Some w \<and>
       compare None (VText (Some ''app:1.1.7'')) (VObj w) \<noteq> Some (-1) \<and>
   lowest None [VText (Some ''1.2.0''), VText (Some ''latest'')] = None"
proof -
  let ?xs = "[VText (Some ''app:1.2.0''), VText (Some ''app:1.1.7-release.4''),
              VText (Some ''app:1.1.7'')]"
  have "lowest None ?xs \<noteq> None" by code_simp
  then obtain w where w: "lowest None ?xs = Some w" by auto
  have u: "\<exists>x\<in>set [VText (Some ''1.2.0''), VText (Some ''latest'')]. as_version None x = None"
    by code_simp
  show ?thesis
    using w u lowest_is_minimal [of None ?xs w]
      lowest_is_minimal [of None "[VText (Some ''1.2.0''), VText (Some ''latest'')]"]
    by auto
qed

text \<open>A dotted version number, printed, parses back to exactly its numbers, with no qualifier,
  not a snapshot and with no build counter: parsing loses and invents nothing.\<close>

theorem parse_render_roundtrip:
  assumes "c \<noteq> []"
  shows "\<exists>v. parse None (Some (render_core c)) = Some v \<and> ver_core v = c \<and>
             ver_raw v = render_core c \<and> \<not> ver_snapshot v \<and> ver_build v = None"
  using parse_render_core [OF assms] by simp

theorem parse_render_roundtrip_witness:
  "\<exists>v. parse None (Some (render_core [1, 0, 10])) = Some v \<and> ver_core v = [1, 0, 10]"
  using parse_render_roundtrip [of "[1, 0, 10]"] by auto

end
