(* ===== verification/Stacktrace.thy ===== *)
theory Stacktrace
  imports Regex
begin

text \<open>
  Java stack traces: \<^verbatim>\<open>src/dlt/stacktrace.py\<close>. The text of a header is split into its chain of
  \<^verbatim>\<open>Caused by:\<close> links, the frames of the innermost link are reduced to application code, and a
  failure gets its fingerprint and its signature from what remains.

  The patterns of frame and elision lines are written as functions; \<open>frame_match_iff\<close> and
  \<open>elided_match_iff\<close> show that they accept exactly the lines of the patterns, with the captures the
  engine reports. The pattern of generated classes runs on the engine of \<open>Regex\<close>. SHA-256 of the UTF-8
  text is the parameter \<open>sha256\<close>.
\<close>

section \<open>Patterns\<close>

definition DEFAULT_APP_PACKAGES :: "string list" where
  "DEFAULT_APP_PACKAGES = [''com.uidai.'', ''in.gov.uidai.'']"

definition DEFAULT_FINGERPRINT_FRAMES :: int where
  "DEFAULT_FINGERPRINT_FRAMES = 5"

definition DEFAULT_BOILERPLATE_FRAMES :: "string list" where
  "DEFAULT_BOILERPLATE_FRAMES = [''in.gov.uidai.common.factory.CommonErrorFactory'']"

abbreviation newline :: char where
  "newline \<equiv> CHR 0x0A"

abbreviation tab :: char where
  "tab \<equiv> CHR 0x09"

definition target_char :: "char \<Rightarrow> bool" where
  "target_char c \<longleftrightarrow> \<not> is_space c \<and> c \<noteq> CHR ''(''"

text \<open>The optional location behind a target: the text up to the last closing parenthesis.\<close>

definition location_match :: "string \<Rightarrow> string option option" where
  "location_match s =
     (if list_all is_space s then Some None
      else if hd s \<noteq> CHR ''('' then None
      else (let body = rstrip is_space (tl s)
            in if body \<noteq> [] \<and> last body = CHR '')'' then Some (Some (butlast body)) else None))"

definition frame_match :: "string \<Rightarrow> (string \<times> string option) option" where
  "frame_match line =
     (let s = lstrip is_space line
      in if \<not> starts_with ''at'' s \<or> drop 2 s = [] \<or> \<not> is_space (s ! 2) then None
         else (let r = lstrip is_space (drop 2 s);
                   target = takeWhile target_char r
               in if target = [] then None
                  else map_option (Pair target) (location_match (drop (length target) r))))"

definition elided_match :: "string \<Rightarrow> nat option" where
  "elided_match line =
     (let s = lstrip is_space line
      in if \<not> starts_with ''...'' s \<or> drop 3 s = [] \<or> \<not> is_space (s ! 3) then None
         else (let r = lstrip is_space (drop 3 s);
                   count = takeWhile is_digit r;
                   u = drop (length count) r;
                   v = lstrip is_space u
               in if count = [] \<or> u = [] \<or> \<not> is_space (hd u) \<or> \<not> starts_with ''more'' v
                     \<or> \<not> list_all is_space (drop 4 v)
                  then None else Some (nat_of_digits count)))"

definition fqcn_start :: "char \<Rightarrow> bool" where
  "fqcn_start c \<longleftrightarrow> is_upper c \<or> is_lower c \<or> c = CHR ''_'' \<or> c = CHR ''$''"

definition fqcn_char :: "char \<Rightarrow> bool" where
  "fqcn_char c \<longleftrightarrow> is_word c \<or> c = CHR ''$''"

definition java_name :: "string \<Rightarrow> bool" where
  "java_name s \<longleftrightarrow> s \<noteq> [] \<and> fqcn_start (hd s) \<and> list_all fqcn_char s"

text \<open>The dollar sign at the end of the pattern also matches before a final newline.\<close>

definition fqcn_match :: "string \<Rightarrow> bool" where
  "fqcn_match s \<longleftrightarrow>
     (let body = (if s \<noteq> [] \<and> last s = newline then butlast s else s)
      in list_all java_name (split_on CHR ''.'' body))"

definition digits_rx :: rx where
  "digits_rx = Seq (Chr is_digit) (Star (Chr is_digit))"

definition SYNTHETIC :: rx where
  "SYNTHETIC =
     Alt (Seq (Lit ''$$'') (Alt (Lit ''SpringCGLIB'') (Alt (Lit ''EnhancerBySpringCGLIB'')
            (Alt (Lit ''FastClassBySpringCGLIB'') (Lit ''Lambda'')))))
         (Alt (Seq (Lit ''GeneratedMethodAccessor'') digits_rx)
            (Alt (Seq (Lit ''GeneratedConstructorAccessor'') digits_rx) (Seq (Lit ''$Proxy'') digits_rx)))"

definition CAUSED_BY_PREFIX :: string where
  "CAUSED_BY_PREFIX = ''Caused by: ''"

definition CAUSED_BY :: string where
  "CAUSED_BY = newline # CAUSED_BY_PREFIX"


section \<open>Settings\<close>

definition comma_list :: "string \<Rightarrow> string list" where
  "comma_list raw = filter (\<lambda>p. p \<noteq> []) (map py_strip (split_on CHR '','' raw))"

definition app_packages :: "env \<Rightarrow> string list" where
  "app_packages env =
     (let raw = py_strip (env_get env ''DLT_APP_PACKAGES'' [])
      in if raw = [] \<or> comma_list raw = [] then DEFAULT_APP_PACKAGES else comma_list raw)"

definition boilerplate_frames :: "env \<Rightarrow> string list" where
  "boilerplate_frames env =
     (case env ''DLT_BOILERPLATE_FRAMES'' of None \<Rightarrow> DEFAULT_BOILERPLATE_FRAMES | Some raw \<Rightarrow> comma_list raw)"

definition fingerprint_frame_count :: "env \<Rightarrow> int" where
  "fingerprint_frame_count env = int_env_at_least env ''DLT_FINGERPRINT_FRAMES'' 1 DEFAULT_FINGERPRINT_FRAMES"

definition fingerprint_includes_type :: "env \<Rightarrow> bool" where
  "fingerprint_includes_type env \<longleftrightarrow>
     py_lower (py_strip (env_get env ''DLT_FINGERPRINT_TYPE_ID'' [])) \<in> {''true'', ''1'', ''yes''}"


section \<open>Parsed shapes\<close>

record frame_location =
  fl_target :: string
  fl_file :: "string option"
  fl_line :: "int option"

text \<open>\<^verbatim>\<open>s.rsplit(c, 1)[0]\<close>, where \<open>c\<close> occurs in \<open>s\<close>.\<close>

definition before_last :: "char \<Rightarrow> string \<Rightarrow> string" where
  "before_last c s = rev (tl (dropWhile (\<lambda>x. x \<noteq> c) (rev s)))"

definition class_fqcn :: "frame_location \<Rightarrow> string" where
  "class_fqcn l = (if CHR ''.'' \<in> set (fl_target l) then before_last CHR ''.'' (fl_target l) else fl_target l)"

definition package :: "frame_location \<Rightarrow> string" where
  "package l = (let outer = before_first CHR ''$'' (class_fqcn l)
                in if CHR ''.'' \<in> set outer then before_last CHR ''.'' outer else [])"

definition in_package :: "frame_location \<Rightarrow> string \<Rightarrow> string" where
  "in_package l name =
     (if package l \<noteq> [] then map (\<lambda>c. if c = CHR ''.'' then CHR ''/'' else c) (package l) @ ''/'' @ name else name)"

definition source_path_suffix :: "frame_location \<Rightarrow> string" where
  "source_path_suffix l =
     (let reported = (case fl_file l of None \<Rightarrow> [] | Some f \<Rightarrow> f)
      in if reported = [] \<or> \<not> ends_with ''.java'' reported
         then (let simple = after_last CHR ''.'' (before_first CHR ''$'' (class_fqcn l))
               in if simple = [] then [] else in_package l (simple @ ''.java''))
         else in_package l reported)"

record exception_link =
  el_fqcn :: string
  el_message :: string
  el_frames :: "string list"
  el_elided :: "nat option"
  el_locations :: "string option list"

definition simple_link_name :: "exception_link \<Rightarrow> string" where
  "simple_link_name l = after_last CHR ''.'' (el_fqcn l)"

record parsed_trace =
  tr_chain :: "exception_link list"
  tr_truncated :: bool

definition trace_root :: "parsed_trace \<Rightarrow> exception_link option" where
  "trace_root t = (if tr_chain t = [] then None else Some (last (tr_chain t)))"

definition root_frames :: "parsed_trace \<Rightarrow> string list" where
  "root_frames t = (case trace_root t of None \<Rightarrow> [] | Some l \<Rightarrow> el_frames l)"

definition root_locations :: "parsed_trace \<Rightarrow> string option list" where
  "root_locations t = (case trace_root t of None \<Rightarrow> [] | Some l \<Rightarrow> el_locations l)"

definition depth :: "parsed_trace \<Rightarrow> nat" where
  "depth t = length (tr_chain t)"


section \<open>Parsing\<close>

definition strip_module :: "string \<Rightarrow> string" where
  "strip_module target =
     (if CHR ''/'' \<in> set target then tl (dropWhile (\<lambda>c. c \<noteq> CHR ''/'') target) else target)"

record link_scan =
  ls_header :: "string list"
  ls_frames :: "string list"
  ls_locations :: "string option list"
  ls_elided :: "nat option"
  ls_in_frames :: bool

definition scan_start :: link_scan where
  "scan_start = \<lparr>ls_header = [], ls_frames = [], ls_locations = [], ls_elided = None, ls_in_frames = False\<rparr>"

definition scan_line :: "string \<Rightarrow> link_scan \<Rightarrow> link_scan" where
  "scan_line line st =
     (case frame_match line of
        Some (target, location) \<Rightarrow>
          st\<lparr>ls_in_frames := True, ls_frames := ls_frames st @ [strip_module target],
             ls_locations := ls_locations st @ [location]\<rparr>
      | None \<Rightarrow>
          (case elided_match line of
             Some n \<Rightarrow> st\<lparr>ls_in_frames := True, ls_elided := Some n\<rparr>
           | None \<Rightarrow> if ls_in_frames st then st else st\<lparr>ls_header := ls_header st @ [line]\<rparr>))"

definition read_header :: "string \<Rightarrow> string \<times> string" where
  "read_header header =
     (if header = [] then ([], header)
      else case split_str '': '' header of
             candidate # rest \<Rightarrow>
               if fqcn_match candidate then (candidate, py_strip (join_with '': '' rest))
               else if fqcn_match header then (header, [])
               else ([], header)
           | [] \<Rightarrow> ([], header))"

definition parse_link :: "string \<Rightarrow> exception_link" where
  "parse_link block =
     (let st = fold scan_line (split_on newline block) scan_start;
          header = py_strip (join_with [newline] (ls_header st))
      in case read_header header of (fqcn, message) \<Rightarrow>
           \<lparr>el_fqcn = fqcn, el_message = message, el_frames = ls_frames st, el_elided = ls_elided st,
            el_locations = ls_locations st\<rparr>)"

definition parse_stacktrace :: "string option \<Rightarrow> parsed_trace" where
  "parse_stacktrace txt =
     (case txt of
        None \<Rightarrow> \<lparr>tr_chain = [], tr_truncated = True\<rparr>
      | Some t \<Rightarrow>
          if py_strip t = [] then \<lparr>tr_chain = [], tr_truncated = True\<rparr>
          else (let chain = map parse_link (split_str CAUSED_BY t); final = last chain
                in \<lparr>tr_chain = chain, tr_truncated = (el_frames final = [] \<and> el_elided final = None)\<rparr>))"


section \<open>Normalisation and fingerprints\<close>

definition is_synthetic :: "string \<Rightarrow> bool" where
  "is_synthetic target \<longleftrightarrow> search SYNTHETIC target"

definition starts_with_any :: "string list \<Rightarrow> string \<Rightarrow> bool" where
  "starts_with_any ps s \<longleftrightarrow> list_ex (\<lambda>p. starts_with p s) ps"

definition is_app_frame :: "string list \<Rightarrow> string list \<Rightarrow> string \<Rightarrow> bool" where
  "is_app_frame ours noise frame \<longleftrightarrow>
     frame \<noteq> [] \<and> starts_with_any ours frame \<and> \<not> is_synthetic frame \<and>
     \<not> (noise \<noteq> [] \<and> starts_with_any noise frame)"

definition frame_filters :: "env \<Rightarrow> string list option \<Rightarrow> string list option \<Rightarrow> string list \<times> string list" where
  "frame_filters env packages boilerplate =
     (case packages of None \<Rightarrow> app_packages env | Some p \<Rightarrow> if p = [] then app_packages env else p,
      case boilerplate of None \<Rightarrow> boilerplate_frames env | Some b \<Rightarrow> b)"

definition normalise_frames ::
    "env \<Rightarrow> string list option \<Rightarrow> string list option \<Rightarrow> string list \<Rightarrow> string list" where
  "normalise_frames env packages boilerplate frames =
     (case frame_filters env packages boilerplate of (ours, noise) \<Rightarrow>
        filter (is_app_frame ours noise) frames)"

definition split_location :: "string option \<Rightarrow> string option \<times> int option" where
  "split_location txt =
     (case txt of
        None \<Rightarrow> (None, None)
      | Some t \<Rightarrow>
          let v = py_strip t
          in if v = [] then (None, None)
             else (let tail = after_last CHR '':'' v
                   in if CHR '':'' \<in> set v \<and> tail \<noteq> [] \<and> list_all is_digit tail
                      then (let name = before_last CHR '':'' v
                            in (if name = [] then None else Some name, Some (int (nat_of_digits tail))))
                      else (Some v, None)))"

definition locate_frames ::
    "string list \<Rightarrow> string list \<Rightarrow> string option list \<Rightarrow> nat \<Rightarrow> string list \<Rightarrow> frame_location list" where
  "locate_frames ours noise locations i frames =
     concat (map (\<lambda>(index, frame).
       if \<not> is_app_frame ours noise frame then []
       else (let raw = (if index < length locations then locations ! index else None)
             in case split_location raw of (file, line) \<Rightarrow>
                  [\<lparr>fl_target = frame, fl_file = file, fl_line = line\<rparr>])) (enumerate i frames))"

definition normalise_frame_locations ::
    "env \<Rightarrow> string list option \<Rightarrow> string list option \<Rightarrow> string list \<Rightarrow> string option list \<Rightarrow> frame_location list" where
  "normalise_frame_locations env packages boilerplate frames locations =
     (case frame_filters env packages boilerplate of (ours, noise) \<Rightarrow>
        locate_frames ours noise locations 0 frames)"

definition stripped :: "string option \<Rightarrow> string" where
  "stripped x = py_strip (case x of None \<Rightarrow> [] | Some s \<Rightarrow> s)"

text \<open>The parts that are hashed.\<close>

definition fingerprint_parts ::
    "env \<Rightarrow> string option \<Rightarrow> string list \<Rightarrow> string option \<Rightarrow> int option \<Rightarrow> string option \<Rightarrow> string option \<Rightarrow> string list" where
  "fingerprint_parts env root_fqcn frames code limit type_id service =
     (let count = (case limit of None \<Rightarrow> fingerprint_frame_count env | Some l \<Rightarrow> max 1 l)
      in [stripped root_fqcn, stripped code, join_with [newline] (take (nat count) frames)] @
         (if stripped type_id \<noteq> [] \<and> fingerprint_includes_type env then [stripped type_id] else []) @
         (if stripped service \<noteq> [] then [''service:'' @ stripped service] else []))"

definition compute_fingerprint ::
    "(string \<Rightarrow> string) \<Rightarrow> env \<Rightarrow> string option \<Rightarrow> string list \<Rightarrow> string option \<Rightarrow> int option \<Rightarrow> string option \<Rightarrow>
     string option \<Rightarrow> string" where
  "compute_fingerprint sha256 env root_fqcn frames code limit type_id service =
     sha256 (join_with ''|'' (fingerprint_parts env root_fqcn frames code limit type_id service))"

text \<open>\<^verbatim>\<open>".".join(site.rsplit(".", 2)[-2:])\<close>: the class and the method.\<close>

definition last_two :: "string \<Rightarrow> string" where
  "last_two site =
     (if CHR ''.'' \<in> set site
      then after_last CHR ''.'' (before_last CHR ''.'' site) @ ''.'' @ after_last CHR ''.'' site else site)"

definition build_signature :: "string option \<Rightarrow> string list \<Rightarrow> string \<Rightarrow> string" where
  "build_signature root_fqcn frames code =
     (let simple = (case root_fqcn of None \<Rightarrow> ''UnknownException''
                    | Some r \<Rightarrow> if r = [] then ''UnknownException'' else after_last CHR ''.'' r);
          tagged = simple @ (if code \<noteq> [] then ''['' @ code @ '']'' else [])
      in if frames = [] then tagged else tagged @ '' @ '' @ last_two (hd frames))"


section \<open>What the line patterns accept\<close>

lemma lstrip_append: "list_all p a \<Longrightarrow> r = [] \<or> \<not> p (hd r) \<Longrightarrow> lstrip p (a @ r) = r"
  by (induction a) (auto simp: lstrip_def dropWhile_eq_self_iff)

lemma lstrip_split: "\<exists>a. s = a @ lstrip p s \<and> list_all p a"
  by (intro exI [of _ "takeWhile p s"]) (auto simp: lstrip_def list_all_iff dest: set_takeWhileD)

lemma lstrip_hd: "lstrip p s = [] \<or> \<not> p (hd (lstrip p s))"
  by (metis hd_dropWhile dropWhile_eq_Nil_conv lstrip_def)

lemma takeWhile_stop: "list_all p t \<Longrightarrow> u = [] \<or> \<not> p (hd u) \<Longrightarrow> takeWhile p (t @ u) = t"
  by (induction t) (auto simp: takeWhile_eq_Nil_iff)

lemma takeWhile_split: "s = takeWhile p s @ drop (length (takeWhile p s)) s"
  using takeWhile_dropWhile_id [of p s] dropWhile_eq_drop [of p s] by simp

lemma rstrip_append: "list_all p w \<Longrightarrow> r \<noteq> [] \<Longrightarrow> \<not> p (last r) \<Longrightarrow> rstrip p (r @ w) = r"
  using lstrip_append [of p "rev w" "rev r"] by (simp add: rstrip_def lstrip_def hd_rev)

lemma rstrip_split: "\<exists>w. s = rstrip p s @ w \<and> list_all p w"
proof -
  obtain a where a: "rev s = a @ lstrip p (rev s)" "list_all p a" using lstrip_split by blast
  then have "s = rstrip p s @ rev a" by (metis rev_append rev_rev_ident rstrip_def lstrip_def)
  with a(2) show ?thesis by (intro exI [of _ "rev a"]) simp
qed

definition location_text :: "string option \<Rightarrow> string" where
  "location_text loc = (case loc of None \<Rightarrow> [] | Some l \<Rightarrow> ''('' @ l @ '')'')"

lemma paren_not_space [simp]: "\<not> is_space CHR ''(''" "\<not> is_space CHR '')''"
  by (simp_all add: is_space_def)

lemma location_match_iff:
  "location_match s = Some loc \<longleftrightarrow> (\<exists>w. list_all is_space w \<and> s = location_text loc @ w)"
proof
  assume m: "location_match s = Some loc"
  show "\<exists>w. list_all is_space w \<and> s = location_text loc @ w"
  proof (cases "list_all is_space s")
    case True
    then show ?thesis using m by (auto simp: location_match_def location_text_def)
  next
    case False
    obtain w where w: "tl s = rstrip is_space (tl s) @ w" "list_all is_space w" using rstrip_split by blast
    from m False have b: "s \<noteq> []" "hd s = CHR ''(''" "rstrip is_space (tl s) \<noteq> []"
      "last (rstrip is_space (tl s)) = CHR '')''" "loc = Some (butlast (rstrip is_space (tl s)))"
      by (auto simp: location_match_def Let_def split: if_splits)
    have "s = CHR ''('' # (butlast (rstrip is_space (tl s)) @ [CHR '')'']) @ w"
      using b w(1) append_butlast_last_id [OF b(3)] by (metis list.collapse)
    then show ?thesis using b(5) w(2) by (intro exI [of _ w]) (simp add: location_text_def)
  qed
next
  assume "\<exists>w. list_all is_space w \<and> s = location_text loc @ w"
  then obtain w where w: "list_all is_space w" "s = location_text loc @ w" by blast
  show "location_match s = Some loc"
  proof (cases loc)
    case None
    with w show ?thesis by (simp add: location_match_def location_text_def)
  next
    case (Some l)
    with w have "s = CHR ''('' # (l @ '')'') @ w" by (simp add: location_text_def)
    moreover have "rstrip is_space ((l @ '')'') @ w) = l @ '')''" using w(1) by (intro rstrip_append) auto
    ultimately show ?thesis using Some by (simp add: location_match_def)
  qed
qed

lemma at_not_space [simp]: "\<not> is_space CHR ''a''" "\<not> is_space CHR ''.''" "\<not> is_space CHR ''m''"
  by (simp_all add: is_space_def)

definition blank_text :: "string \<Rightarrow> bool" where
  "blank_text s \<longleftrightarrow> list_all is_space s"

lemma lstrip_blank: "\<exists>a. blank_text a \<and> s = a @ lstrip is_space s"
  using lstrip_split [of s is_space] by (auto simp: blank_text_def)

theorem frame_match_iff:
  "frame_match line = Some (target, loc) \<longleftrightarrow>
   (\<exists>a b w. blank_text a \<and> blank_text b \<and> b \<noteq> [] \<and> blank_text w \<and> target \<noteq> [] \<and> list_all target_char target \<and>
      line = a @ ''at'' @ b @ target @ location_text loc @ w)"
proof
  assume m: "frame_match line = Some (target, loc)"
  obtain a where a: "blank_text a" "line = a @ lstrip is_space line" using lstrip_blank by blast
  let ?s = "lstrip is_space line"
  obtain b where b: "blank_text b" "drop 2 ?s = b @ lstrip is_space (drop 2 ?s)" using lstrip_blank by blast
  let ?r = "lstrip is_space (drop 2 ?s)"
  have at2: "take 2 ?s = ''at''" and s2: "drop 2 ?s \<noteq> []" "is_space (?s ! 2)"
    and t: "target = takeWhile target_char ?r" "target \<noteq> []"
    and l: "location_match (drop (length target) ?r) = Some loc"
    using m by (auto simp: frame_match_def Let_def starts_with_def numeral_2_eq_2 split: if_splits)
  have s: "?s = ''at'' @ drop 2 ?s" "drop 2 ?s \<noteq> []" "is_space (?s ! 2)"
    using append_take_drop_id [of 2 ?s] at2 s2 by metis+
  have "b \<noteq> []"
  proof
    assume "b = []"
    with b(2) have "drop 2 ?s = ?r" by simp
    then have "\<not> is_space (hd (drop 2 ?s))" using lstrip_hd [of is_space "drop 2 ?s"] s(2) by metis
    then show False using s(2,3) by (simp add: hd_drop_conv_nth)
  qed
  obtain w where w: "blank_text w" "drop (length target) ?r = location_text loc @ w"
    using l by (auto simp: location_match_iff blank_text_def)
  have "list_all target_char target" using t(1) by (auto simp: list_all_iff dest: set_takeWhileD)
  moreover have "line = a @ ''at'' @ b @ target @ location_text loc @ w"
    using a(2) s(1) b(2) t(1) w(2) takeWhile_split [of ?r target_char] by metis
  ultimately show "\<exists>a b w. blank_text a \<and> blank_text b \<and> b \<noteq> [] \<and> blank_text w \<and> target \<noteq> [] \<and> list_all target_char target \<and>
      line = a @ ''at'' @ b @ target @ location_text loc @ w"
    using a(1) b(1) \<open>b \<noteq> []\<close> w(1) t(2) by blast
next
  assume "\<exists>a b w. blank_text a \<and> blank_text b \<and> b \<noteq> [] \<and> blank_text w \<and> target \<noteq> [] \<and> list_all target_char target \<and>
      line = a @ ''at'' @ b @ target @ location_text loc @ w"
  then obtain a b w where h: "blank_text a" "blank_text b" "b \<noteq> []" "blank_text w" "target \<noteq> []" "list_all target_char target"
    "line = a @ ''at'' @ b @ target @ location_text loc @ w" by blast
  let ?u = "location_text loc @ w"
  have s: "lstrip is_space line = ''at'' @ b @ target @ ?u"
    unfolding h(7) using h(1) by (intro lstrip_append) (auto simp: blank_text_def)
  have "\<not> is_space (hd target)" using h(5,6) by (cases target) (auto simp: target_char_def)
  then have r: "lstrip is_space (b @ target @ ?u) = target @ ?u"
    using h(2,5) by (intro lstrip_append) (auto simp: blank_text_def)
  have "?u = [] \<or> \<not> target_char (hd ?u)"
    using h(4) by (cases loc; cases w) (auto simp: location_text_def target_char_def blank_text_def)
  then have t: "takeWhile target_char (target @ ?u) = target" using h(6) by (intro takeWhile_stop)
  have "is_space (hd b)" using h(2,3) by (cases b) (auto simp: blank_text_def)
  then have "is_space (b ! 0)" using h(3) by (simp add: hd_conv_nth)
  moreover have "location_match ?u = Some loc" using h(4) by (auto simp: location_match_iff blank_text_def)
  ultimately show "frame_match line = Some (target, loc)"
    using h(3,5) by (simp add: frame_match_def s r t starts_with_def nth_append Let_def)
qed

lemma is_digit_target: "is_digit c \<Longrightarrow> \<not> is_space c"
  by (rule digit_not_space)

theorem elided_match_iff:
  "elided_match line = Some n \<longleftrightarrow>
   (\<exists>a b d c w. blank_text a \<and> blank_text b \<and> b \<noteq> [] \<and> d \<noteq> [] \<and> list_all is_digit d \<and> blank_text c \<and> c \<noteq> [] \<and> blank_text w \<and>
      line = a @ ''...'' @ b @ d @ c @ ''more'' @ w \<and> n = nat_of_digits d)"
  (is "_ \<longleftrightarrow> ?R")
proof
  assume m: "elided_match line = Some n"
  obtain a where a: "blank_text a" "line = a @ lstrip is_space line" using lstrip_blank by blast
  let ?s = "lstrip is_space line"
  obtain b where b: "blank_text b" "drop 3 ?s = b @ lstrip is_space (drop 3 ?s)" using lstrip_blank by blast
  let ?r = "lstrip is_space (drop 3 ?s)"
  let ?d = "takeWhile is_digit ?r"
  let ?u = "drop (length ?d) ?r"
  obtain c where c: "blank_text c" "?u = c @ lstrip is_space ?u" using lstrip_blank by blast
  let ?v = "lstrip is_space ?u"
  have sw: "starts_with ''...'' ?s" "starts_with ''more'' ?v" and dots: "drop 3 ?s \<noteq> []" "is_space (?s ! 3)"
    and d: "?d \<noteq> []" and u: "?u \<noteq> []" "is_space (hd ?u)" and v: "blank_text (drop 4 ?v)" and n: "n = nat_of_digits ?d"
    using m by (simp_all add: elided_match_def Let_def blank_text_def split: if_splits)
  have pieces: "take 3 ?s = ''...''" "take 4 ?v = ''more''" using sw by (simp_all add: starts_with_def eval_nat_numeral)
  have "b \<noteq> []"
  proof
    assume "b = []"
    with b(2) have "\<not> is_space (hd (drop 3 ?s))" using lstrip_hd [of is_space "drop 3 ?s"] dots(1) by (metis append_Nil)
    then show False using dots by (simp add: hd_drop_conv_nth)
  qed
  moreover have "c \<noteq> []"
  proof
    assume "c = []"
    with c(2) show False using lstrip_hd [of is_space ?u] u by (metis append_Nil)
  qed
  moreover have "line = a @ ''...'' @ b @ ?d @ c @ ''more'' @ drop 4 ?v"
    using a(2) b(2) c(2) takeWhile_split [of ?r is_digit] append_take_drop_id [of 3 ?s]
      append_take_drop_id [of 4 ?v] pieces by metis
  moreover have "list_all is_digit ?d" by (auto simp: list_all_iff dest: set_takeWhileD)
  ultimately show ?R
    using a(1) b(1) c(1) d v n
    by (intro exI [of _ a] exI [of _ b] exI [of _ ?d] exI [of _ c] exI [of _ "drop 4 ?v"] conjI)
next
  assume ?R
  then obtain a b d c w where h: "blank_text a" "blank_text b" "b \<noteq> []" "d \<noteq> []" "list_all is_digit d" "blank_text c" "c \<noteq> []"
    "blank_text w" "line = a @ ''...'' @ b @ d @ c @ ''more'' @ w" "n = nat_of_digits d" by blast
  define u where "u = c @ ''more'' @ w"
  have s: "lstrip is_space line = ''...'' @ b @ d @ u"
    unfolding h(9) u_def using h(1) by (intro lstrip_append) (auto simp: blank_text_def)
  have "\<not> is_space (hd d)" using h(4,5) by (cases d) (auto simp: is_digit_target)
  then have r: "lstrip is_space (b @ d @ u) = d @ u" using h(2,4) by (intro lstrip_append) (auto simp: blank_text_def)
  have hu: "u \<noteq> []" "is_space (hd u)" using h(6,7) by (auto simp: u_def blank_text_def neq_Nil_conv)
  then have t: "takeWhile is_digit (d @ u) = d" using h(5) is_digit_target by (intro takeWhile_stop) auto
  have v: "lstrip is_space u = ''more'' @ w" unfolding u_def using h(6) by (intro lstrip_append) (auto simp: blank_text_def)
  have "is_space (b ! 0)" using h(2,3) by (cases b) (auto simp: blank_text_def)
  then show "elided_match line = Some n"
    using h(3,4,8,10) hu by (simp add: elided_match_def s r t v starts_with_def nth_append Let_def blank_text_def)
qed


section \<open>What Java prints\<close>

text \<open>
  A stack trace as \<^verbatim>\<open>Throwable.printStackTrace\<close> writes it, from the links it is made of: the header, a line
  per frame, the count of elided frames.
\<close>

definition header_text :: "exception_link \<Rightarrow> string" where
  "header_text l = el_fqcn l @ (if el_message l = [] then [] else '': '' @ el_message l)"

definition frame_line :: "string \<times> string option \<Rightarrow> string" where
  "frame_line f = [tab] @ ''at '' @ fst f @ location_text (snd f)"

definition elided_lines :: "nat option \<Rightarrow> string list" where
  "elided_lines e = (case e of None \<Rightarrow> [] | Some n \<Rightarrow> [[tab] @ ''... '' @ show_nat n @ '' more''])"

definition link_lines :: "exception_link \<Rightarrow> string list" where
  "link_lines l = split_on newline (header_text l) @ map frame_line (zip (el_frames l) (el_locations l)) @
     elided_lines (el_elided l)"

definition render_trace :: "exception_link list \<Rightarrow> string" where
  "render_trace ls = join_with CAUSED_BY (map (\<lambda>l. join_with [newline] (link_lines l)) ls)"

text \<open>
  A link Java can print and the parser can read: the class has a name, a location follows every frame or
  none, and the message, which is free text, has no line of its own that looks like part of a trace.
\<close>

definition message_line :: "string \<Rightarrow> bool" where
  "message_line s \<longleftrightarrow> frame_match s = None \<and> elided_match s = None \<and> \<not> starts_with CAUSED_BY_PREFIX s"

definition printable :: "exception_link \<Rightarrow> bool" where
  "printable l \<longleftrightarrow>
     list_all java_name (split_on CHR ''.'' (el_fqcn l)) \<and>
     py_strip (el_message l) = el_message l \<and> list_all message_line (tl (split_on newline (el_message l))) \<and>
     length (el_locations l) = length (el_frames l) \<and>
     list_all (\<lambda>t. t \<noteq> [] \<and> list_all target_char t \<and> CHR ''/'' \<notin> set t) (el_frames l) \<and>
     list_all (\<lambda>loc. case loc of None \<Rightarrow> True | Some t \<Rightarrow> newline \<notin> set t) (el_locations l)"

lemma split_on_prefix: "c \<notin> set u \<Longrightarrow> split_on c (u @ s) = (u @ hd (split_on c s)) # tl (split_on c s)"
proof (induction u)
  case Nil
  show ?case by (cases "split_on c s") auto
qed auto

lemma split_str_nonempty [simp]: "split_str sep s \<noteq> []"
  by (induction sep s rule: split_str.induct) (auto split: list.split)

lemma join_split_str: "sep \<noteq> [] \<Longrightarrow> join_with sep (split_str sep s) = s"
proof (induction sep s rule: split_str.induct)
  case (2 sep c s)
  show ?case
  proof (cases "starts_with sep (c # s)")
    case True
    have "sep @ drop (length sep - 1) s = c # s"
      using "2.prems" True append_take_drop_id [of "length sep" "c # s"] by (cases sep) (auto simp: starts_with_def)
    moreover have "split_str sep (c # s) = [] # split_str sep (drop (length sep - 1) s)" using True "2.prems" by simp
    ultimately show ?thesis using "2.IH"(1) "2.prems" True by (simp only: join_with_Cons) simp
  next
    case False
    then show ?thesis using 2 by (cases "split_str sep s") (auto simp: join_with_Cons)
  qed
qed simp

lemma py_strip_ends: "s \<noteq> [] \<Longrightarrow> \<not> is_space (hd s) \<Longrightarrow> \<not> is_space (last s) \<Longrightarrow> py_strip s = s"
  using lstrip_append [of is_space "[]" s] rstrip_append [of is_space "[]" s] by (simp add: py_strip_def)

lemma rstrip_last: "rstrip p s = [] \<or> \<not> p (last (rstrip p s))"
  using lstrip_hd [of p "rev s"] by (auto simp: rstrip_def lstrip_def last_rev)

lemma py_strip_last: "py_strip s = s \<Longrightarrow> s \<noteq> [] \<Longrightarrow> \<not> is_space (last s)"
  using rstrip_last [of is_space "lstrip is_space s"] by (simp add: py_strip_def)

lemma py_strip_nonempty:
  assumes "c \<in> set s" and "\<not> is_space c"
  shows "py_strip s \<noteq> []"
proof
  assume e: "py_strip s = []"
  obtain a where a: "s = a @ lstrip is_space s" "blank_text a" using lstrip_blank by blast
  obtain w where w: "lstrip is_space s = py_strip s @ w" "list_all is_space w"
    using rstrip_split [of "lstrip is_space s" is_space] by (auto simp: py_strip_def)
  have "list_all is_space s" using a w e by (metis append_Nil blank_text_def list_all_append)
  with assms show False by (auto simp: list_all_iff)
qed

lemma set_join: "set (join_with sep ws) \<subseteq> \<Union> (set ` set ws) \<union> set sep"
  by (induction ws) (auto simp: join_with_Cons)

text \<open>The characters of a class name.\<close>

definition dotted_char :: "char \<Rightarrow> bool" where
  "dotted_char c \<longleftrightarrow> fqcn_char c \<or> c = CHR ''.''"

lemma dotted_space [simp]: "dotted_char c \<Longrightarrow> \<not> is_space c"
  by (auto simp: dotted_char_def fqcn_char_def is_word_def is_digit_nat is_space_def Let_def less_eq_char_def)

lemma dotted_bar [simp]: "\<not> dotted_char CHR ''|''" and dotted_colon [simp]: "\<not> dotted_char CHR '':''"
  by (simp_all add: dotted_char_def fqcn_char_def is_word_def is_digit_nat less_eq_char_def)

lemma newline_space [simp]: "is_space newline" "is_space tab"
  by (simp_all add: is_space_def)

lemma fqcn_chars:
  assumes "list_all java_name (split_on CHR ''.'' f)"
  shows "list_all dotted_char f"
proof -
  have "set f \<subseteq> \<Union> (set ` set (split_on CHR ''.'' f)) \<union> {CHR ''.''}"
    using set_join [of "[CHR ''.'']" "split_on CHR ''.'' f"] by (simp add: join_split)
  with assms show ?thesis by (fastforce simp: list_all_iff java_name_def dotted_char_def)
qed

lemma fqcn_first:
  assumes "list_all java_name (split_on CHR ''.'' f)"
  shows "f \<noteq> []" and "fqcn_start (hd f)"
proof -
  obtain w ws where w: "split_on CHR ''.'' f = w # ws" by (cases "split_on CHR ''.'' f") auto
  then have "w \<noteq> []" "fqcn_start (hd w)" using assms by (simp_all add: java_name_def)
  moreover have "w = takeWhile (\<lambda>x. x \<noteq> CHR ''.'') f" using hd_split_on [of "CHR ''.''" f] w by simp
  ultimately show "f \<noteq> []" and "fqcn_start (hd f)" by (cases f; auto split: if_splits)+
qed

lemma fqcn_start_dotted: "fqcn_start c \<Longrightarrow> dotted_char c"
  by (auto simp: fqcn_start_def dotted_char_def fqcn_char_def is_word_def)

lemma fqcn_start_dot [simp]: "\<not> fqcn_start CHR ''.''"
  by (simp add: fqcn_start_def less_eq_char_def)

lemma fqcn_match_name:
  assumes "list_all java_name (split_on CHR ''.'' f)"
  shows "fqcn_match f"
proof -
  have "dotted_char (last f)" using fqcn_chars [OF assms] fqcn_first [OF assms] by (auto simp: list_all_iff)
  then have "last f \<noteq> newline" using dotted_space newline_space by metis
  then show ?thesis using assms by (simp add: fqcn_match_def)
qed

lemma fqcn_no_newline: "list_all dotted_char f \<Longrightarrow> newline \<notin> set f"
  unfolding list_all_iff using dotted_space newline_space(1) by metis

lemma printableD:
  assumes "printable l"
  shows "list_all java_name (split_on CHR ''.'' (el_fqcn l))" and "list_all dotted_char (el_fqcn l)"
    and "newline \<notin> set (el_fqcn l)" and "py_strip (el_message l) = el_message l"
    and "list_all message_line (tl (split_on newline (el_message l)))"
    and "length (el_locations l) = length (el_frames l)"
    and "list_all (\<lambda>t. t \<noteq> [] \<and> list_all target_char t \<and> CHR ''/'' \<notin> set t) (el_frames l)"
    and "list_all (\<lambda>loc. case loc of None \<Rightarrow> True | Some t \<Rightarrow> newline \<notin> set t) (el_locations l)"
  using assms fqcn_chars fqcn_no_newline by (auto simp: printable_def)

lemma header_lines:
  assumes "printable l"
  shows "split_on newline (header_text l) =
    (el_fqcn l @ (if el_message l = [] then [] else '': '' @ hd (split_on newline (el_message l)))) #
    tl (split_on newline (el_message l))"
proof (cases "el_message l = []")
  case True
  then show ?thesis using printableD(3) [OF assms] by (simp add: header_text_def split_on_id)
next
  case False
  have "newline \<notin> set (el_fqcn l @ '': '')" using printableD(3) [OF assms] by simp
  from split_on_prefix [OF this, of "el_message l"] False show ?thesis by (simp add: header_text_def)
qed

text \<open>The first line of a header is no line of the trace.\<close>

lemma first_line_split:
  assumes f: "f \<noteq> []" "fqcn_start (hd f)" "list_all dotted_char f" and r: "r = [] \<or> hd r = CHR '':''"
  shows "frame_match (f @ r) = None" and "elided_match (f @ r) = None"
proof -
  have s: "lstrip is_space (f @ r) = f @ r"
    using f(1,2) fqcn_start_dotted dotted_space lstrip_append [of is_space "[]" "f @ r"] by auto
  have "\<not> (starts_with ''at'' (f @ r) \<and> drop 2 (f @ r) \<noteq> [] \<and> is_space ((f @ r) ! 2))"
  proof
    assume h: "starts_with ''at'' (f @ r) \<and> drop 2 (f @ r) \<noteq> [] \<and> is_space ((f @ r) ! 2)"
    then have n: "2 \<le> length f"
      using f(1) r by (cases f; cases "tl f"; cases r) (auto simp: starts_with_def)
    show False
    proof (cases "length f = 2")
      case True
      then show False using h r by (cases r) (auto simp: nth_append is_space_def)
    next
      case False
      then have "2 < length f" using n by simp
      then show False using h f(3) by (auto simp: nth_append list_all_length)
    qed
  qed
  then have "\<not> starts_with ''at'' (f @ r) \<or> drop 2 (f @ r) = [] \<or> \<not> is_space ((f @ r) ! 2)" by blast
  then show "frame_match (f @ r) = None" unfolding frame_match_def s Let_def by (rule if_P)
  have "\<not> starts_with ''...'' (f @ r)" using f(1,2) by (cases f) (auto simp: starts_with_def)
  then show "elided_match (f @ r) = None" by (simp add: elided_match_def s)
qed

lemma scan_header:
  "list_all (\<lambda>h. frame_match h = None \<and> elided_match h = None) hs \<Longrightarrow> \<not> ls_in_frames st \<Longrightarrow>
   fold scan_line hs st = st\<lparr>ls_header := ls_header st @ hs\<rparr>"
  by (induction hs arbitrary: st) (auto simp: scan_line_def)

lemma frame_line_match:
  assumes "t \<noteq> []" and "list_all target_char t"
  shows "frame_match (frame_line (t, loc)) = Some (t, loc)"
  unfolding frame_match_iff frame_line_def using assms
  by (intro exI [of _ "[tab]"] exI [of _ "'' ''"] exI [of _ "[]"]) (simp add: blank_text_def is_space_def)

lemma scan_frames:
  "length locs = length fs \<Longrightarrow> list_all (\<lambda>t. t \<noteq> [] \<and> list_all target_char t \<and> CHR ''/'' \<notin> set t) fs \<Longrightarrow>
   fold scan_line (map frame_line (zip fs locs)) st =
     st\<lparr>ls_frames := ls_frames st @ fs, ls_locations := ls_locations st @ locs,
        ls_in_frames := ls_in_frames st \<or> fs \<noteq> []\<rparr>"
proof (induction fs arbitrary: locs st)
  case (Cons f fs)
  then obtain loc locs' where "locs = loc # locs'" by (cases locs) auto
  with Cons show ?case by (simp add: scan_line_def frame_line_match strip_module_def)
qed simp

lemma elided_line_match: "elided_match ([tab] @ ''... '' @ show_nat n @ '' more'') = Some n"
proof -
  have "blank_text [tab]" "blank_text '' ''" "blank_text []" "list_all is_digit (show_nat n)"
    by (simp_all add: blank_text_def is_space_def list_all_iff show_nat_digits)
  then have "\<exists>a b d c w. blank_text a \<and> blank_text b \<and> b \<noteq> [] \<and> d \<noteq> [] \<and> list_all is_digit d \<and> blank_text c \<and> c \<noteq> [] \<and> blank_text w \<and>
      [tab] @ ''... '' @ show_nat n @ '' more'' = a @ ''...'' @ b @ d @ c @ ''more'' @ w \<and> n = nat_of_digits d"
    by (intro exI [of _ "[tab]"] exI [of _ "'' ''"] exI [of _ "show_nat n"] exI [of _ "'' ''"] exI [of _ "[]"]) simp
  then show ?thesis by (simp only: elided_match_iff)
qed

lemma elided_line_no_frame: "frame_match ([tab] @ ''... '' @ s) = None"
proof -
  have "lstrip is_space ([tab] @ ''... '' @ s) = ''... '' @ s" by (rule lstrip_append) simp_all
  then show ?thesis by (simp add: frame_match_def starts_with_def)
qed

lemma scan_elided:
  "fold scan_line (elided_lines e) st =
     (case e of None \<Rightarrow> st | Some n \<Rightarrow> st\<lparr>ls_in_frames := True, ls_elided := Some n\<rparr>)"
  using elided_line_match elided_line_no_frame
  by (auto simp: elided_lines_def scan_line_def split: option.split)

lemma location_text_newline:
  "(case loc of None \<Rightarrow> True | Some t \<Rightarrow> newline \<notin> set t) \<Longrightarrow> newline \<notin> set (location_text loc)"
  by (auto simp: location_text_def split: option.splits)

lemma target_no_newline: "list_all target_char t \<Longrightarrow> newline \<notin> set t"
  unfolding list_all_iff target_char_def using newline_space(1) by metis

lemma link_lines_newline:
  assumes "printable l"
  shows "\<forall>w\<in>set (link_lines l). newline \<notin> set w"
proof
  fix w assume "w \<in> set (link_lines l)"
  then consider "w \<in> set (split_on newline (header_text l))"
    | t loc where "w = frame_line (t, loc)" "(t, loc) \<in> set (zip (el_frames l) (el_locations l))"
    | "w \<in> set (elided_lines (el_elided l))" by (auto simp: link_lines_def)
  then show "newline \<notin> set w"
  proof cases
    case 1
    then show ?thesis by (rule split_on_no_sep)
  next
    case 2
    then have "t \<in> set (el_frames l)" "loc \<in> set (el_locations l)" by (auto dest: set_zip_leftD set_zip_rightD)
    then have "newline \<notin> set t" "newline \<notin> set (location_text loc)"
      using printableD(7,8) [OF assms] target_no_newline location_text_newline by (auto simp: list_all_iff)
    then show ?thesis using 2(1) by (simp add: frame_line_def)
  next
    case 3
    have "newline \<notin> set (show_nat n)" for n using show_nat_digits is_digit_target newline_space(1) by metis
    then show ?thesis using 3 by (auto simp: elided_lines_def split: option.splits)
  qed
qed

lemma link_text_lines: "printable l \<Longrightarrow> split_on newline (join_with [newline] (link_lines l)) = link_lines l"
  by (rule split_on_join [OF _ link_lines_newline]) (simp_all add: link_lines_def)

lemma header_strip:
  assumes "printable l"
  shows "py_strip (header_text l) = header_text l"
proof (rule py_strip_ends)
  note f = fqcn_first [OF printableD(1) [OF assms]] and d = printableD(2) [OF assms]
  show "header_text l \<noteq> []" using f(1) by (simp add: header_text_def)
  show "\<not> is_space (hd (header_text l))"
    using f fqcn_start_dotted dotted_space by (auto simp: header_text_def)
  show "\<not> is_space (last (header_text l))"
  proof (cases "el_message l = []")
    case True
    then show ?thesis using f(1) d dotted_space by (auto simp: header_text_def list_all_iff)
  next
    case False
    then show ?thesis using py_strip_last [OF printableD(4) [OF assms] False] by (simp add: header_text_def)
  qed
qed

lemma read_header_text:
  assumes "printable l"
  shows "read_header (header_text l) = (el_fqcn l, el_message l)"
proof -
  note f = fqcn_first [OF printableD(1) [OF assms]] and m = fqcn_match_name [OF printableD(1) [OF assms]]
  have "CHR '':'' \<notin> set (el_fqcn l)" using printableD(2) [OF assms] by (auto simp: list_all_iff)
  then have c: "\<not> contains '': '' (el_fqcn l)"
    by (simp add: contains_split_on split_on_id)
  show ?thesis
  proof (cases "el_message l = []")
    case True
    then show ?thesis using f(1) m split_str_id [OF c]
      by (simp add: read_header_def header_text_def py_strip_def lstrip_def rstrip_def)
  next
    case False
    have "split_str '': '' (el_fqcn l @ '': '' @ el_message l) = el_fqcn l # split_str '': '' (el_message l)"
      using split_str_append [of "CHR '':''" "'' ''" "el_fqcn l" "el_message l"] c by simp
    then show ?thesis using False f(1) m printableD(4) [OF assms] join_split_str [of "'': ''" "el_message l"]
      by (simp add: read_header_def header_text_def)
  qed
qed

lemma header_no_trace:
  assumes "printable l"
  shows "list_all (\<lambda>h. frame_match h = None \<and> elided_match h = None) (split_on newline (header_text l))"
proof -
  note f = fqcn_first [OF printableD(1) [OF assms]] and d = printableD(2) [OF assms]
  define r where "r = (if el_message l = [] then [] else '': '' @ hd (split_on newline (el_message l)))"
  have "r = [] \<or> hd r = CHR '':''" by (simp add: r_def)
  from first_line_split [OF f d this] show ?thesis
    using printableD(5) [OF assms] unfolding header_lines [OF assms] r_def [symmetric]
    by (auto simp: message_line_def list_all_iff)
qed

lemma parse_link_text:
  assumes "printable l"
  shows "parse_link (join_with [newline] (link_lines l)) = l"
proof -
  have st: "fold scan_line (link_lines l) scan_start =
    \<lparr>ls_header = split_on newline (header_text l), ls_frames = el_frames l, ls_locations = el_locations l,
     ls_elided = el_elided l, ls_in_frames = (el_frames l \<noteq> [] \<or> el_elided l \<noteq> None)\<rparr>"
    using scan_header [OF header_no_trace [OF assms], of scan_start]
      scan_frames [OF printableD(6,7) [OF assms]]
    by (simp add: link_lines_def scan_elided scan_start_def split: option.split)
  show ?thesis
    by (simp add: parse_link_def link_text_lines [OF assms] st join_split header_strip [OF assms]
        read_header_text [OF assms])
qed

lemma link_not_caused:
  assumes "printable l"
  shows "\<not> contains CAUSED_BY (join_with [newline] (link_lines l))"
proof -
  have "\<not> list_ex (starts_with CAUSED_BY_PREFIX) (tl (link_lines l))"
  proof
    assume "list_ex (starts_with CAUSED_BY_PREFIX) (tl (link_lines l))"
    then obtain w where w: "w \<in> set (tl (link_lines l))" "starts_with CAUSED_BY_PREFIX w" by (auto simp: list_ex_iff)
    have "w \<in> set (tl (split_on newline (header_text l))) \<or> (\<exists>v. w = tab # v)"
      using w(1) by (auto simp: link_lines_def frame_line_def elided_lines_def split: option.splits)
    then have "w \<in> set (tl (split_on newline (header_text l)))"
      using w(2) by (auto simp: CAUSED_BY_PREFIX_def starts_with_def)
    then have "w \<in> set (tl (split_on newline (el_message l)))" by (simp add: header_lines [OF assms])
    then show False using w(2) printableD(5) [OF assms] by (auto simp: message_line_def list_all_iff)
  qed
  then show ?thesis
    unfolding CAUSED_BY_def
    by (subst contains_split_on) (simp_all add: CAUSED_BY_PREFIX_def link_text_lines [OF assms])
qed

lemma set_join_sup: "w \<in> set ws \<Longrightarrow> set w \<subseteq> set (join_with sep ws)"
  by (induction ws) (auto simp: join_with_Cons)

lemma render_not_blank:
  assumes "ls \<noteq> []" and "printable (hd ls)"
  shows "py_strip (render_trace ls) \<noteq> []"
proof (rule py_strip_nonempty)
  let ?l = "hd ls"
  note f = fqcn_first [OF printableD(1) [OF assms(2)]]
  have "hd (el_fqcn ?l) \<in> set (hd (link_lines ?l))" using f(1) by (simp add: link_lines_def header_lines [OF assms(2)])
  moreover have "hd (link_lines ?l) \<in> set (link_lines ?l)" by (simp add: link_lines_def)
  ultimately have "hd (el_fqcn ?l) \<in> set (join_with [newline] (link_lines ?l))" using set_join_sup by blast
  moreover have "join_with [newline] (link_lines ?l) \<in> set (map (\<lambda>l. join_with [newline] (link_lines l)) ls)"
    using assms(1) by simp
  ultimately show "hd (el_fqcn ?l) \<in> set (render_trace ls)" unfolding render_trace_def using set_join_sup by blast
  show "\<not> is_space (hd (el_fqcn ?l))" using f(2) fqcn_start_dotted dotted_space by blast
qed


lemma parse_printed:
  assumes "ls \<noteq> []" and "list_all printable ls"
  shows "parse_stacktrace (Some (render_trace ls)) =
    \<lparr>tr_chain = ls, tr_truncated = (el_frames (last ls) = [] \<and> el_elided (last ls) = None)\<rparr>"
proof -
  have "split_str CAUSED_BY (render_trace ls) = map (\<lambda>l. join_with [newline] (link_lines l)) ls"
    unfolding render_trace_def CAUSED_BY_def
  proof (rule split_str_join)
    show "\<forall>w\<in>set (map (\<lambda>l. join_with [newline] (link_lines l)) ls). \<not> contains (newline # CAUSED_BY_PREFIX) w"
      using assms(2) link_not_caused by (auto simp: list_all_iff CAUSED_BY_def)
  qed (use assms(1) in \<open>simp_all add: CAUSED_BY_PREFIX_def\<close>)
  moreover have "map parse_link (map (\<lambda>l. join_with [newline] (link_lines l)) ls) = ls"
    unfolding map_map by (rule map_idI) (use assms(2) in \<open>simp add: parse_link_text list_all_iff\<close>)
  moreover have "py_strip (render_trace ls) \<noteq> []"
    using assms by (intro render_not_blank) (auto simp: list_all_iff)
  ultimately show ?thesis by (simp add: parse_stacktrace_def Let_def)
qed


section \<open>Frames, locations and fingerprints\<close>

lemma scan_parallel: "length (ls_locations st) = length (ls_frames st) \<Longrightarrow>
  length (ls_locations (fold scan_line ls st)) = length (ls_frames (fold scan_line ls st))"
  by (induction ls arbitrary: st) (auto simp: scan_line_def split: option.split)

lemma link_parallel: "length (el_locations (parse_link s)) = length (el_frames (parse_link s))"
  using scan_parallel [of scan_start "split_on newline s"]
  by (simp add: parse_link_def scan_start_def Let_def split: prod.split)

lemma root_parallel: "length (root_locations (parse_stacktrace txt)) = length (root_frames (parse_stacktrace txt))"
proof -
  have "\<exists>s. l = parse_link s" if "trace_root (parse_stacktrace txt) = Some l" for l
  proof -
    have "l \<in> set (tr_chain (parse_stacktrace txt))" using that by (auto simp: trace_root_def split: if_splits)
    then show ?thesis by (auto simp: parse_stacktrace_def Let_def split: option.splits if_splits)
  qed
  then show ?thesis using link_parallel
    by (cases "trace_root (parse_stacktrace txt)") (auto simp: root_frames_def root_locations_def)
qed

definition located :: "string \<times> string option \<Rightarrow> frame_location" where
  "located f = (case split_location (snd f) of (file, line) \<Rightarrow>
     \<lparr>fl_target = fst f, fl_file = file, fl_line = line\<rparr>)"

lemma located_target [simp]: "fl_target (located f) = fst f"
  by (simp add: located_def split: prod.split)

lemma locate_frames_zip:
  "i + length fs \<le> length locs \<Longrightarrow>
   locate_frames ours noise locs i fs = map located (filter (\<lambda>f. is_app_frame ours noise (fst f)) (zip fs (drop i locs)))"
proof (induction fs arbitrary: i)
  case (Cons f fs)
  then have "drop i locs = locs ! i # drop (Suc i) locs" by (simp add: Cons_nth_drop_Suc)
  with Cons show ?case by (simp add: locate_frames_def located_def split: prod.split)
qed (simp add: locate_frames_def)

lemma map_fst_filter_zip:
  "length fs \<le> length ls \<Longrightarrow> map fst (filter (\<lambda>f. P (fst f)) (zip fs ls)) = filter P fs"
proof (induction fs arbitrary: ls)
  case (Cons f fs)
  then show ?case by (cases ls) auto
qed simp

lemma normalised_targets:
  assumes "length fs \<le> length ls"
  shows "map fl_target (normalise_frame_locations env p b fs ls) = normalise_frames env p b fs"
  using assms
  by (simp add: normalise_frame_locations_def normalise_frames_def locate_frames_zip o_def map_fst_filter_zip
      split: prod.split)

text \<open>The fingerprint of a parsed trace, as the routes compute it.\<close>

definition trace_fingerprint ::
    "(string \<Rightarrow> string) \<Rightarrow> env \<Rightarrow> parsed_trace \<Rightarrow> string option \<Rightarrow> string option \<Rightarrow> string option \<Rightarrow> string" where
  "trace_fingerprint sha256 env t code type_id service =
     compute_fingerprint sha256 env (map_option el_fqcn (trace_root t)) (normalise_frames env None None (root_frames t))
       code None type_id service"

definition printed_fingerprint ::
    "(string \<Rightarrow> string) \<Rightarrow> env \<Rightarrow> exception_link list \<Rightarrow> string option \<Rightarrow> string option \<Rightarrow> string option \<Rightarrow> string" where
  "printed_fingerprint sha256 env ls = trace_fingerprint sha256 env (parse_stacktrace (Some (render_trace ls)))"

definition app_frames :: "env \<Rightarrow> exception_link \<Rightarrow> string list" where
  "app_frames env l = take (nat (fingerprint_frame_count env)) (normalise_frames env None None (el_frames l))"

definition same_failure ::
    "env \<Rightarrow> exception_link \<Rightarrow> string option \<Rightarrow> string option \<Rightarrow> exception_link \<Rightarrow> string option \<Rightarrow> string option \<Rightarrow> bool" where
  "same_failure env l code service l' code' service' \<longleftrightarrow>
     el_fqcn l = el_fqcn l' \<and> stripped code = stripped code' \<and> app_frames env l = app_frames env l' \<and>
     stripped service = stripped service'"

definition bar_free :: "string \<Rightarrow> bool" where
  "bar_free s \<longleftrightarrow> CHR ''|'' \<notin> set s"

lemma stripped_fqcn: "printable l \<Longrightarrow> stripped (Some (el_fqcn l)) = el_fqcn l"
  using printableD(2) dotted_space by (auto simp: stripped_def list_all_iff intro!: py_strip_id)

lemma set_app_frames: "set (app_frames env l) \<subseteq> set (el_frames l)"
  unfolding app_frames_def using set_take_subset
  by (fastforce simp: normalise_frames_def split: prod.splits)

lemma join_frames_inject:
  assumes "join_with [newline] xs = join_with [newline] ys"
    and "\<forall>x\<in>set xs. newline \<notin> set x \<and> x \<noteq> []" and "\<forall>x\<in>set ys. newline \<notin> set x \<and> x \<noteq> []"
  shows "xs = ys"
proof (cases "xs = [] \<or> ys = []")
  case True
  then show ?thesis using assms by (cases xs; cases ys) (auto simp: join_with_Cons split: if_splits)
next
  case False
  then show ?thesis using assms join_inject [OF assms(1)] by blast
qed

lemma parts_inject:
  assumes "printable l" "printable l'" and "\<not> fingerprint_includes_type env"
    and "\<forall>s \<in> {stripped code, stripped code', stripped service, stripped service'}. bar_free s"
    and "\<forall>t \<in> set (el_frames l) \<union> set (el_frames l'). bar_free t"
  shows "join_with ''|'' (fingerprint_parts env (Some (el_fqcn l)) (normalise_frames env None None (el_frames l)) code None ty service) =
      join_with ''|'' (fingerprint_parts env (Some (el_fqcn l')) (normalise_frames env None None (el_frames l')) code' None ty' service')
    \<longleftrightarrow> same_failure env l code service l' code' service'"
proof -
  define parts where "parts l code service =
    [el_fqcn l, stripped code, join_with [newline] (app_frames env l)] @
      (if stripped service = [] then [] else [''service:'' @ stripped service])" for l code service
  have p: "fingerprint_parts env (Some (el_fqcn l)) (normalise_frames env None None (el_frames l)) code None ty service
      = parts l code service" if "printable l" for l code ty service
    using that assms(3) by (simp add: fingerprint_parts_def parts_def stripped_fqcn app_frames_def)
  have frames: "\<forall>x\<in>set (app_frames env l). newline \<notin> set x \<and> x \<noteq> []" if "printable l" for l
    using printableD(7) [OF that] set_app_frames [of env l] target_no_newline by (fastforce simp: list_all_iff)
  have free: "\<forall>w\<in>set (parts l code service). CHR ''|'' \<notin> set w"
    if "printable l" "bar_free (stripped code)" "bar_free (stripped service)" "\<forall>t\<in>set (el_frames l). bar_free t"
    for l code service
  proof -
    have "CHR ''|'' \<notin> set (el_fqcn l)" using printableD(2) [OF that(1)] by (auto simp: list_all_iff)
    moreover have "CHR ''|'' \<notin> set (join_with [newline] (app_frames env l))"
    proof
      assume "CHR ''|'' \<in> set (join_with [newline] (app_frames env l))"
      then obtain t where "t \<in> set (app_frames env l)" "CHR ''|'' \<in> set t"
        using set_join [of "[newline]" "app_frames env l"] by fastforce
      with that(4) set_app_frames [of env l] show False by (auto simp: bar_free_def)
    qed
    ultimately show ?thesis using that(2,3) by (simp add: parts_def bar_free_def)
  qed
  have "parts l code service = parts l' code' service' \<longleftrightarrow> same_failure env l code service l' code' service'"
    using join_frames_inject [OF _ frames [OF assms(1)] frames [OF assms(2)]]
    by (auto simp: parts_def same_failure_def)
  moreover have "join_with ''|'' (parts l code service) = join_with ''|'' (parts l' code' service') \<longleftrightarrow>
      parts l code service = parts l' code' service'"
    using join_inject [of "CHR ''|''" "parts l code service" "parts l' code' service'"] free assms
    by (auto simp: parts_def)
  ultimately show ?thesis by (simp only: p [OF assms(1)] p [OF assms(2)])
qed


section \<open>Properties\<close>


text \<open>A trace of a listener that wraps a business failure.\<close>

definition sample_trace :: "exception_link list" where
  "sample_trace =
     [\<lparr>el_fqcn = ''a.Wrapper'', el_message = ''failed'', el_frames = [''com.uidai.L.on''], el_elided = Some 14,
       el_locations = [None]\<rparr>,
      \<lparr>el_fqcn = ''a.b.Biz'', el_message = ''[CODE] no''  @ [newline] @ ''such: id'',
       el_frames = [''com.uidai.S.find'', ''com.uidai.S$$Lambda.run''], el_elided = None,
       el_locations = [Some ''S.java:42'', None]\<rparr>]"



text \<open>The same failure a release later: another line, another message, another wrapper.\<close>

definition later_trace :: "exception_link list" where
  "later_trace =
     [\<lparr>el_fqcn = ''a.b.Biz'', el_message = ''[CODE] no such id for 77'',
       el_frames = [''com.uidai.S.find'', ''java.lang.Thread.run''], el_elided = None,
       el_locations = [Some ''S.java:48'', None]\<rparr>]"


text \<open>Locations never drift from their frames: for any text at all, the frames that name the failure site and the
  locations a source lookup reads are the same application frames in the same order, each with the
  location its own line carries.\<close>

theorem locations_follow_frames:
  "let t = parse_stacktrace trace;
       located_frames = normalise_frame_locations env p b (root_frames t) (root_locations t);
       (ours, noise) = frame_filters env p b
   in length (root_locations t) = length (root_frames t) \<and>
      map fl_target located_frames = normalise_frames env p b (root_frames t) \<and>
      located_frames = map located (filter (\<lambda>f. is_app_frame ours noise (fst f)) (zip (root_frames t) (root_locations t)))"
  using root_parallel [of trace]
    normalised_targets [of "root_frames (parse_stacktrace trace)" "root_locations (parse_stacktrace trace)" env p b]
  by (simp add: Let_def normalise_frame_locations_def locate_frames_zip split: prod.split)

end
