(* ===== verification/Bitbucket.thy ===== *)
theory Bitbucket
  imports Versions Stacktrace
begin

text \<open>
  Read-only access to the source repository: \<^verbatim>\<open>src/dlt/bitbucket.py\<close>; it resolves the frame locations of
  \<open>Stacktrace\<close>.

  The transport below \<^verbatim>\<open>_request\<close> (requests, retries and circuit breaker) is the field \<open>ne_answer\<close> of
  a network: the answer to a request given every request sent before it, \<open>None\<close> when the read was
  abandoned. The state of the module is its cache and the requests sent so far; \<^verbatim>\<open>time.monotonic()\<close> is
  \<open>ne_clock\<close>. Parsing JSON, XML and ISO dates are fields as well, and so is \<open>ne_render\<close>, the way
  \<^verbatim>\<open>str()\<close> writes a JSON value that is no string. Identifiers and messages in an answer are text.
\<close>

section \<open>Data\<close>

definition DEFAULT_BRANCH :: string where "DEFAULT_BRANCH = ''release''"
definition DEFAULT_VERSION_FILE :: string where "DEFAULT_VERSION_FILE = ''pom.xml''"
definition DEFAULT_SOURCE_ROOTS :: "string list" where "DEFAULT_SOURCE_ROOTS = [''src/main/java'']"
definition MAX_FILE_BYTES :: int where "MAX_FILE_BYTES = 2 * 1024 * 1024"
definition MAX_LISTED_FILES :: nat where "MAX_LISTED_FILES = 20000"

record repo =
  rp_project :: string
  rp_repo :: string
  rp_branch :: string
  rp_version_file :: string
  rp_source_roots :: "string list"
  rp_prefix :: string

definition slug :: "repo \<Rightarrow> string" where
  "slug r = rp_project r @ ''/'' @ rp_repo r"

record bb_commit =
  cm_id :: string
  cm_subject :: string
  cm_timestamp_ms :: "int option"

definition short :: "bb_commit \<Rightarrow> string" where
  "short c = take 10 (cm_id c)"


section \<open>The network\<close>

record request =
  rq_path :: string
  rq_params :: doc
  rq_raw :: bool

record response =
  rs_status :: int
  rs_bytes :: int
  rs_text :: string

datatype xml = Xml (xml_tag: string) (xml_text: "string option") (xml_children: "xml list")

record net =
  ne_env :: env
  ne_answer :: "request list \<Rightarrow> request \<Rightarrow> response option"
  ne_clock :: "request list \<Rightarrow> rat"
  ne_json :: "string \<Rightarrow> json option"
  ne_xml :: "string \<Rightarrow> xml option"
  ne_iso :: "string \<Rightarrow> int option"
  ne_render :: "json \<Rightarrow> string"
  ne_pattern :: "pattern option"

record bb_state =
  bs_sent :: "request list"
  bs_commits :: "((string \<times> string \<times> string \<times> int) \<times> rat \<times> bb_commit list) list"
  bs_changes :: "((string \<times> string) \<times> rat \<times> string list) list"
  bs_texts :: "((string \<times> string \<times> string) \<times> rat \<times> string) list"
  bs_listings :: "((string \<times> string) \<times> rat \<times> string list) list"

definition py_str :: "net \<Rightarrow> json \<Rightarrow> string" where
  "py_str nw j = (case j of JStr s \<Rightarrow> s | _ \<Rightarrow> ne_render nw j)"

text \<open>\<^verbatim>\<open>j.get(k)\<close> and \<^verbatim>\<open>for x in j\<close> on a value that may be of another type.\<close>

definition get_field :: "json \<Rightarrow> string \<Rightarrow> exn + json" where
  "get_field j k = (case j of JObj d \<Rightarrow> Inr (jget d k) | _ \<Rightarrow> Inl AttributeError)"

definition iter_json :: "json \<Rightarrow> exn + json list" where
  "iter_json j = (case j of
      JArr xs \<Rightarrow> Inr xs
    | JObj d \<Rightarrow> Inr (map (\<lambda>kv. JStr (fst kv)) d)
    | JStr s \<Rightarrow> Inr (map (\<lambda>c. JStr [c]) s)
    | _ \<Rightarrow> Inl TypeError)"

definition lift_sum :: "exn + 'a \<Rightarrow> ('s, 'a) io" where
  "lift_sum r s = (r, s)"

fun map_sum_list :: "('a \<Rightarrow> exn + 'b) \<Rightarrow> 'a list \<Rightarrow> exn + 'b list" where
  "map_sum_list f [] = Inr []"
| "map_sum_list f (x # xs) =
     (case f x of Inl e \<Rightarrow> Inl e
      | Inr y \<Rightarrow> (case map_sum_list f xs of Inl e \<Rightarrow> Inl e | Inr ys \<Rightarrow> Inr (y # ys)))"


section \<open>Configuration\<close>

definition base_url :: "env \<Rightarrow> string" where
  "base_url env = rstrip (\<lambda>c. c = CHR ''/'') (py_strip (env_get env ''BITBUCKET_BASE_URL'' []))"

definition token :: "env \<Rightarrow> string" where
  "token env = py_strip (env_get env ''BITBUCKET_TOKEN'' [])"

definition is_cloud :: "env \<Rightarrow> bool" where
  "is_cloud env \<longleftrightarrow>
     (let configured = py_lower (py_strip (env_get env ''BITBUCKET_API_FLAVOUR'' []))
      in if configured \<in> {''server'', ''cloud''} then configured = ''cloud''
         else contains ''bitbucket.org'' (base_url env))"

definition commit_limit :: "env \<Rightarrow> int" where
  "commit_limit env = int_env_at_least env ''DLT_CODE_CHECK_MAX_COMMITS'' 1 50"

definition bb_cache_ttl_seconds :: "env \<Rightarrow> rat" where
  "bb_cache_ttl_seconds env = max 0 (float_env env ''DLT_CODE_CHECK_TTL_SECONDS'' 3600)"

definition negative_cache_ttl_seconds :: "env \<Rightarrow> rat" where
  "negative_cache_ttl_seconds env =
     min (bb_cache_ttl_seconds env) (max 0 (float_env env ''DLT_CODE_CHECK_NEGATIVE_TTL_SECONDS'' 900))"

definition repo_map :: "net \<Rightarrow> doc" where
  "repo_map nw =
     (let raw = py_strip (env_get (ne_env nw) ''DLT_REPO_MAP'' [])
      in if raw = [] then []
         else (case ne_json nw raw of Some (JObj d) \<Rightarrow> d | _ \<Rightarrow> []))"

definition configured :: "net \<Rightarrow> bool" where
  "configured nw \<longleftrightarrow> base_url (ne_env nw) \<noteq> [] \<and> token (ne_env nw) \<noteq> [] \<and> repo_map nw \<noteq> []"

fun longest_spec :: "string \<Rightarrow> doc \<Rightarrow> (string \<times> doc) option \<Rightarrow> (string \<times> doc) option" where
  "longest_spec fqcn [] best = best"
| "longest_spec fqcn ((p, spec) # rest) best =
     (case spec of
        JObj d \<Rightarrow>
          if starts_with p fqcn \<and> (case best of None \<Rightarrow> True | Some b \<Rightarrow> length p > length (fst b))
          then longest_spec fqcn rest (Some (p, d)) else longest_spec fqcn rest best
      | _ \<Rightarrow> longest_spec fqcn rest best)"

definition str_or :: "net \<Rightarrow> json \<Rightarrow> string \<Rightarrow> string" where
  "str_or nw j d = (if truthy j then py_str nw j else d)"

definition spec_roots :: "net \<Rightarrow> doc \<Rightarrow> exn + string list" where
  "spec_roots nw spec =
     (let roots0 = py_or (jget spec ''source_roots'') (jget spec ''source_root'');
          roots1 = (case roots0 of JStr s \<Rightarrow> JArr [JStr s] | j \<Rightarrow> j);
          items = (if truthy roots1 then iter_json roots1 else Inr (map JStr DEFAULT_SOURCE_ROOTS))
      in (case items of
            Inl e \<Rightarrow> Inl e
          | Inr xs \<Rightarrow>
              (let slash = (\<lambda>c. c = CHR ''/'');
                   roots = map (\<lambda>r. rstrip slash (lstrip slash (py_str nw r))) (filter truthy xs)
               in Inr (if roots = [] then DEFAULT_SOURCE_ROOTS else roots))))"

definition repo_for :: "net \<Rightarrow> string \<Rightarrow> exn + repo option" where
  "repo_for nw fqcn =
     (if fqcn = [] then Inr None
      else case longest_spec fqcn (repo_map nw) None of
             None \<Rightarrow> Inr None
           | Some (pre, spec) \<Rightarrow>
               (let project = py_strip (str_or nw (jget spec ''project'') []);
                    name = py_strip (str_or nw (jget spec ''repo'') [])
                in if project = [] \<or> name = [] then Inr None
                   else (case spec_roots nw spec of
                           Inl e \<Rightarrow> Inl e
                         | Inr roots \<Rightarrow>
                             Inr (Some \<lparr>rp_project = project, rp_repo = name,
                                        rp_branch = str_or nw (jget spec ''branch'') DEFAULT_BRANCH,
                                        rp_version_file = str_or nw (jget spec ''version_file'') DEFAULT_VERSION_FILE,
                                        rp_source_roots = roots, rp_prefix = pre\<rparr>))))"


section \<open>Transport and cache\<close>

definition accept_response :: "net \<Rightarrow> request \<Rightarrow> response option \<Rightarrow> response option" where
  "accept_response nw rq r =
     (case r of
        None \<Rightarrow> None
      | Some resp \<Rightarrow>
          if rs_status resp = 404 \<or> rs_status resp \<ge> 400 then None
          else if rq_raw rq then (if rs_bytes resp > MAX_FILE_BYTES then None else Some resp)
          else if ne_json nw (rs_text resp) = None then None else Some resp)"

definition send :: "net \<Rightarrow> request \<Rightarrow> (bb_state, response option) io" where
  "send nw rq s =
     (if base_url (ne_env nw) = [] then (Inr None, s)
      else (Inr (accept_response nw rq (ne_answer nw (bs_sent s) rq)), s\<lparr>bs_sent := bs_sent s @ [rq]\<rparr>))"

definition send_json :: "net \<Rightarrow> string \<Rightarrow> doc \<Rightarrow> (bb_state, json option) io" where
  "send_json nw p params =
     bindM (send nw \<lparr>rq_path = p, rq_params = params, rq_raw = False\<rparr>) (\<lambda>r.
       ret (case r of None \<Rightarrow> None
            | Some resp \<Rightarrow> (case ne_json nw (rs_text resp) of Some JNull \<Rightarrow> None | j \<Rightarrow> j)))"

definition send_raw :: "net \<Rightarrow> string \<Rightarrow> doc \<Rightarrow> (bb_state, string option) io" where
  "send_raw nw p params =
     bindM (send nw \<lparr>rq_path = p, rq_params = params, rq_raw = True\<rparr>) (\<lambda>r. ret (map_option rs_text r))"

definition store_entry ::
    "rat \<Rightarrow> ((('k \<times> rat \<times> 'a) list \<Rightarrow> ('k \<times> rat \<times> 'a) list) \<Rightarrow> bb_state \<Rightarrow> bb_state) \<Rightarrow>
     'k \<Rightarrow> 'a \<Rightarrow> (bb_state, unit) io" where
  "store_entry expires upd key v s = (Inr (), upd (AList.update key (expires, v)) s)"

definition cached ::
    "net \<Rightarrow> (bb_state \<Rightarrow> ('k \<times> rat \<times> 'a) list) \<Rightarrow>
     ((('k \<times> rat \<times> 'a) list \<Rightarrow> ('k \<times> rat \<times> 'a) list) \<Rightarrow> bb_state \<Rightarrow> bb_state) \<Rightarrow>
     ('a \<Rightarrow> bool) \<Rightarrow> 'k \<Rightarrow> (bb_state, 'a option) io \<Rightarrow> (bb_state, 'a option) io" where
  "cached nw sel upd blank key produce s =
     (let ttl = bb_cache_ttl_seconds (ne_env nw); now = ne_clock nw (bs_sent s);
          fetch = bindM produce (\<lambda>value.
            case value of
              None \<Rightarrow> ret None
            | Some v \<Rightarrow>
                (let t = (if blank v then negative_cache_ttl_seconds (ne_env nw) else ttl)
                 in if t > 0 then bindM (store_entry (now + t) upd key v) (\<lambda>_. ret (Some v)) else ret (Some v)))
      in if ttl \<le> 0 then produce s
         else (case map_of (sel s) key of
                 Some (expires, v) \<Rightarrow> if now < expires then (Inr (Some v), s) else fetch s
               | None \<Rightarrow> fetch s))"


section \<open>Reads\<close>

definition iso_to_ms :: "net \<Rightarrow> json \<Rightarrow> int option" where
  "iso_to_ms nw j =
     (case j of
        JNull \<Rightarrow> None
      | JNum r \<Rightarrow> Some (if r \<ge> 0 then \<lfloor>r\<rfloor> else \<lceil>r\<rceil>)
      | JBool b \<Rightarrow> Some (if b then 1 else 0)
      | _ \<Rightarrow>
          (let v = py_strip (py_str nw j)
           in if v = [] then None
              else if list_all is_digit v then Some (int (nat_of_digits v))
              else ne_iso nw v))"

definition first_line :: "json \<Rightarrow> exn + string" where
  "first_line j =
     (if \<not> truthy j then Inr []
      else case j of JStr s \<Rightarrow> Inr (takeWhile (\<lambda>c. \<not> is_line_break c) s) | _ \<Rightarrow> Inl AttributeError)"

definition commit_of :: "net \<Rightarrow> string \<Rightarrow> string list \<Rightarrow> json \<Rightarrow> exn + bb_commit" where
  "commit_of nw id_key time_keys v =
     (case v of
        JObj d \<Rightarrow>
          (case first_line (jget d ''message'') of
             Inl e \<Rightarrow> Inl e
           | Inr subject \<Rightarrow>
               Inr \<lparr>cm_id = str_or nw (jget d id_key) [], cm_subject = subject,
                    cm_timestamp_ms = iso_to_ms nw (foldr (\<lambda>k j. py_or (jget d k) j) (butlast time_keys)
                                                     (jget d (last time_keys)))\<rparr>)
      | _ \<Rightarrow> Inl AttributeError)"

definition values_of :: "json \<Rightarrow> exn + json list" where
  "values_of data =
     (case get_field data ''values'' of
        Inl e \<Rightarrow> Inl e
      | Inr v \<Rightarrow> if truthy v then iter_json v else Inr [])"

definition decode :: "(json \<Rightarrow> exn + 'a) \<Rightarrow> json option \<Rightarrow> (bb_state, 'a option) io" where
  "decode f data = (case data of None \<Rightarrow> ret None
     | Some j \<Rightarrow> (case f j of Inl e \<Rightarrow> raise e | Inr x \<Rightarrow> ret (Some x)))"

definition commits_in :: "net \<Rightarrow> string \<Rightarrow> string list \<Rightarrow> json \<Rightarrow> exn + bb_commit list" where
  "commits_in nw id_key time_keys data =
     (case values_of data of Inl e \<Rightarrow> Inl e | Inr vs \<Rightarrow> map_sum_list (commit_of nw id_key time_keys) vs)"

definition fetch_commits :: "net \<Rightarrow> repo \<Rightarrow> string \<Rightarrow> int \<Rightarrow> (bb_state, bb_commit list option) io" where
  "fetch_commits nw r p count =
     (if is_cloud (ne_env nw)
      then bindM (send_json nw (''/2.0/repositories/'' @ rp_project r @ ''/'' @ rp_repo r @ ''/commits/'' @ rp_branch r)
                    [(''path'', JStr p), (''pagelen'', JNum (of_int (min count 100)))])
             (decode (commits_in nw ''hash'' [''date'']))
      else bindM (send_json nw (''/rest/api/1.0/projects/'' @ rp_project r @ ''/repos/'' @ rp_repo r @ ''/commits'')
                    [(''until'', JStr (rp_branch r)), (''path'', JStr p), (''limit'', JNum (of_int count))])
             (decode (commits_in nw ''id'' [''committerTimestamp'', ''authorTimestamp''])))"

definition since_filter :: "int option \<Rightarrow> bb_commit list \<Rightarrow> bb_commit list" where
  "since_filter since_ms commits =
     (case since_ms of
        None \<Rightarrow> commits
      | Some t \<Rightarrow> filter (\<lambda>c. case cm_timestamp_ms c of None \<Rightarrow> True | Some u \<Rightarrow> u \<ge> t) commits)"

definition commits_touching :: "net \<Rightarrow> repo \<Rightarrow> string \<Rightarrow> int option \<Rightarrow> (bb_state, bb_commit list option) io" where
  "commits_touching nw r p since_ms =
     (if p = [] then ret None
      else (let count = commit_limit (ne_env nw)
            in bindM (cached nw bs_commits bs_commits_update (\<lambda>v. v = [])
                        (slug r, rp_branch r, p, count) (fetch_commits nw r p count))
                 (\<lambda>commits. ret (map_option (since_filter since_ms) commits))))"

text \<open>\<^verbatim>\<open>sorted(set(paths))\<close> of a commit's changed paths.\<close>

definition cloud_paths :: "net \<Rightarrow> json \<Rightarrow> exn + string list" where
  "cloud_paths nw entry =
     (let side = (\<lambda>k. case get_field entry k of
                        Inl e \<Rightarrow> Inl e
                      | Inr node \<Rightarrow>
                          if \<not> truthy node then Inr []
                          else (case get_field node ''path'' of
                                  Inl e \<Rightarrow> Inl e
                                | Inr p \<Rightarrow> Inr (if truthy p then [py_str nw p] else [])))
      in case side ''new'' of
           Inl e \<Rightarrow> Inl e
         | Inr xs \<Rightarrow> (case side ''old'' of Inl e \<Rightarrow> Inl e | Inr ys \<Rightarrow> Inr (xs @ ys)))"

definition server_paths :: "net \<Rightarrow> json \<Rightarrow> exn + string list" where
  "server_paths nw entry =
     (case get_field entry ''path'' of
        Inl e \<Rightarrow> Inl e
      | Inr node \<Rightarrow>
          if \<not> truthy node then Inr []
          else (case get_field node ''toString'' of
                  Inl e \<Rightarrow> Inl e
                | Inr p \<Rightarrow> Inr (if truthy p then [py_str nw p] else [])))"

definition paths_in :: "(json \<Rightarrow> exn + string list) \<Rightarrow> json \<Rightarrow> exn + string list" where
  "paths_in f data =
     (case values_of data of
        Inl e \<Rightarrow> Inl e
      | Inr vs \<Rightarrow> (case map_sum_list f vs of
                    Inl e \<Rightarrow> Inl e
                  | Inr ps \<Rightarrow> Inr (sorted_list_of_set (set (concat ps)))))"

definition changed_paths :: "net \<Rightarrow> repo \<Rightarrow> string \<Rightarrow> (bb_state, string list option) io" where
  "changed_paths nw r commit_id =
     (if commit_id = [] then ret None
      else cached nw bs_changes bs_changes_update (\<lambda>v. v = []) (slug r, commit_id)
             (if is_cloud (ne_env nw)
              then bindM (send_json nw (''/2.0/repositories/'' @ rp_project r @ ''/'' @ rp_repo r @ ''/diffstat/'' @ commit_id)
                            [(''pagelen'', JNum 100)]) (decode (paths_in (cloud_paths nw)))
              else bindM (send_json nw (''/rest/api/1.0/projects/'' @ rp_project r @ ''/repos/'' @ rp_repo r @
                                        ''/commits/'' @ commit_id @ ''/changes'') [(''limit'', JNum 500)])
                     (decode (paths_in (server_paths nw)))))"

definition repo_file_at :: "net \<Rightarrow> repo \<Rightarrow> string \<Rightarrow> string option \<Rightarrow> (bb_state, string option) io" where
  "repo_file_at nw r p ref =
     (if p = [] then ret None
      else (let rev_name = (case ref of None \<Rightarrow> rp_branch r | Some t \<Rightarrow> if t = [] then rp_branch r else t)
            in cached nw bs_texts bs_texts_update (\<lambda>v. v = []) (slug r, p, rev_name)
                 (if is_cloud (ne_env nw)
                  then send_raw nw (''/2.0/repositories/'' @ rp_project r @ ''/'' @ rp_repo r @ ''/src/'' @ rev_name @ ''/'' @ p) []
                  else send_raw nw (''/rest/api/1.0/projects/'' @ rp_project r @ ''/repos/'' @ rp_repo r @ ''/raw/'' @ p)
                         [(''at'', JStr rev_name)])))"

text \<open>
  The paged listing, in fuel: a server that keeps answering further empty pages keeps the loop of the
  code running, and \<open>fuel\<close> is the number of pages read before the model gives up.
\<close>

fun list_pages :: "net \<Rightarrow> repo \<Rightarrow> nat \<Rightarrow> string list \<Rightarrow> json \<Rightarrow> (bb_state, string list option) io" where
  "list_pages nw r 0 paths start = ret None"
| "list_pages nw r (Suc fuel) paths start =
     (if length paths \<ge> MAX_LISTED_FILES then ret (Some paths)
      else bindM (send_json nw (''/rest/api/1.0/projects/'' @ rp_project r @ ''/repos/'' @ rp_repo r @ ''/files'')
                    [(''at'', JStr (rp_branch r)), (''limit'', JNum 1000), (''start'', start)]) (\<lambda>data.
             case data of
               None \<Rightarrow> ret (Some paths)
             | Some j \<Rightarrow>
                 if \<not> truthy j then ret (Some paths)
                 else bindM (lift_sum (values_of j)) (\<lambda>vs.
                      bindM (lift_sum (get_field j ''isLastPage'')) (\<lambda>_.
                      let more = paths @ map (py_str nw) vs;
                          final = truthy (jget_default (json_obj j) ''isLastPage'' (JBool True))
                      in if final then ret (Some more)
                         else list_pages nw r fuel more (py_or (jget (json_obj j) ''nextPageStart'') (JNum 0))))))"

definition list_files :: "net \<Rightarrow> nat \<Rightarrow> repo \<Rightarrow> (bb_state, string list) io" where
  "list_files nw fuel r =
     (if is_cloud (ne_env nw) then ret []
      else bindM (cached nw bs_listings bs_listings_update (\<lambda>v. v = []) (slug r, rp_branch r)
                    (list_pages nw r fuel [] (JNum 0))) (\<lambda>paths.
             ret (case paths of None \<Rightarrow> [] | Some ps \<Rightarrow> ps)))"

fun try_roots :: "net \<Rightarrow> repo \<Rightarrow> string \<Rightarrow> string list \<Rightarrow> (bb_state, string option) io" where
  "try_roots nw r tail_path [] = ret None"
| "try_roots nw r tail_path (rt # rts) =
     (let candidate = (if rt = [] then tail_path else rt @ ''/'' @ tail_path)
      in bindM (repo_file_at nw r candidate None) (\<lambda>content.
           if content \<noteq> None then ret (Some candidate) else try_roots nw r tail_path rts))"

definition resolve_path :: "net \<Rightarrow> nat \<Rightarrow> repo \<Rightarrow> string \<Rightarrow> (bb_state, string option) io" where
  "resolve_path nw fuel r tail_path =
     (if tail_path = [] then ret None
      else bindM (try_roots nw r tail_path (rp_source_roots r)) (\<lambda>found.
        case found of
          Some p \<Rightarrow> ret (Some p)
        | None \<Rightarrow>
            bindM (list_files nw fuel r) (\<lambda>paths.
              ret (case filter (ends_with tail_path) paths of [p] \<Rightarrow> Some p | _ \<Rightarrow> None))))"


section \<open>Version files\<close>

definition local_name :: "string \<Rightarrow> string" where
  "local_name tag = (if CHR ''}'' \<in> set tag then after_last CHR ''}'' tag else tag)"

definition xml_strip :: "xml \<Rightarrow> string" where
  "xml_strip x = py_strip (case xml_text x of None \<Rightarrow> [] | Some t \<Rightarrow> t)"

definition pom_properties :: "xml \<Rightarrow> (string \<times> string) list" where
  "pom_properties rt =
     (case find (\<lambda>c. local_name (xml_tag c) = ''properties'') (xml_children rt) of
        None \<Rightarrow> []
      | Some c \<Rightarrow> fold (\<lambda>p. AList.update (local_name (xml_tag p)) (xml_strip p)) (xml_children c) [])"

text \<open>
  \<^verbatim>\<open>_PLACEHOLDER_RE.sub\<close>: every \<^verbatim>\<open>${name}\<close> with at least one character other than a closing brace is
  replaced; \<open>None\<close> when one of them has no value.
\<close>

function substitute :: "(string \<times> string) list \<Rightarrow> string \<Rightarrow> string option" where
  "substitute props [] = Some []"
| "substitute props (c # s) =
     (let body = tl s; name = takeWhile (\<lambda>x. x \<noteq> CHR ''}'') body; rest = drop (length name) body
      in if c = CHR ''$'' \<and> s \<noteq> [] \<and> hd s = CHR ''{'' \<and> name \<noteq> [] \<and> rest \<noteq> []
         then (case (map_of props (py_strip name), substitute props (tl rest)) of
                 (Some v, Some t) \<Rightarrow> Some (v @ t)
               | _ \<Rightarrow> None)
         else map_option (\<lambda>t. c # t) (substitute props s))"
  by pat_completeness auto

termination
  by (relation "measure (\<lambda>(_, s). length s)") auto

definition resolve_placeholders :: "string \<Rightarrow> (string \<times> string) list \<Rightarrow> string option" where
  "resolve_placeholders v props =
     (if \<not> contains ''${'' v then Some v
      else (case substitute props v of
              None \<Rightarrow> None
            | Some t \<Rightarrow> let u = py_strip t in if u = [] then None else Some u))"

fun pom_walk :: "(string \<times> string) list \<Rightarrow> xml list \<Rightarrow> string option \<Rightarrow> string option" where
  "pom_walk props [] parent_version =
     (case parent_version of None \<Rightarrow> None | Some v \<Rightarrow> resolve_placeholders v props)"
| "pom_walk props (c # cs) parent_version =
     (if local_name (xml_tag c) = ''version'' \<and> xml_strip c \<noteq> []
      then resolve_placeholders (xml_strip c) props
      else if local_name (xml_tag c) = ''parent''
      then pom_walk props cs
             (fold (\<lambda>g pv. if local_name (xml_tag g) = ''version''
                           then (if xml_strip g = [] then None else Some (xml_strip g)) else pv)
                (xml_children c) parent_version)
      else pom_walk props cs parent_version)"

definition parse_pom_version :: "net \<Rightarrow> string \<Rightarrow> string option" where
  "parse_pom_version nw t =
     (if py_strip t = [] then None
      else case ne_xml nw t of None \<Rightarrow> None | Some rt \<Rightarrow> pom_walk (pom_properties rt) (xml_children rt) None)"

fun properties_walk :: "string list \<Rightarrow> string option" where
  "properties_walk [] = None"
| "properties_walk (l0 # ls) =
     (let l = py_strip l0; key = takeWhile (\<lambda>c. c \<noteq> CHR ''='') l; rest = drop (length key) l
      in if l = [] \<or> hd l \<in> {CHR ''#'', CHR ''!''} then properties_walk ls
         else if rest \<noteq> [] \<and> py_strip key \<in> {''version'', ''revision''}
         then (let v = py_strip (tl rest) in if v = [] then None else Some v)
         else properties_walk ls)"

definition parse_properties_version :: "string \<Rightarrow> string option" where
  "parse_properties_version t = properties_walk (lines_of t)"

definition parse_package_version :: "net \<Rightarrow> string \<Rightarrow> string option" where
  "parse_package_version nw t =
     (case ne_json nw t of
        Some (JObj d) \<Rightarrow>
          (case jget d ''version'' of
             JNull \<Rightarrow> None
           | j \<Rightarrow> (let v = py_strip (py_str nw j) in if v = [] then None else Some v))
      | _ \<Rightarrow> None)"

definition version_at :: "net \<Rightarrow> repo \<Rightarrow> string option \<Rightarrow> (bb_state, string option) io" where
  "version_at nw r ref =
     bindM (repo_file_at nw r (rp_version_file r) ref) (\<lambda>content.
       ret (case content of
              None \<Rightarrow> None
            | Some t \<Rightarrow>
                (let name = rp_version_file r;
                     raw = (if ends_with ''.json'' name then parse_package_version nw t
                            else if ends_with ''.properties'' name \<or> ends_with ''.props'' name
                            then parse_properties_version t
                            else parse_pom_version nw t)
                 in (case raw of
                       None \<Rightarrow> None
                     | Some v \<Rightarrow> if parse (ne_pattern nw) (Some v) = None then None else Some v))))"

definition touches_version_file :: "string list \<Rightarrow> string \<Rightarrow> bool" where
  "touches_version_file paths version_file \<longleftrightarrow>
     (let target = after_last CHR ''/'' version_file
      in target \<noteq> [] \<and> list_ex (\<lambda>p. after_last CHR ''/'' p = target) paths)"


section \<open>Lemmas\<close>

lemma send_spec:
  assumes "send nw rq s = (r, t)"
  shows "(bs_commits t = bs_commits s \<and> bs_changes t = bs_changes s \<and> bs_texts t = bs_texts s \<and>
          bs_listings t = bs_listings s) \<and>
         (\<exists>x. r = Inr x \<and> (x = None \<or> (\<exists>resp. x = Some resp \<and> ne_answer nw (bs_sent s) rq = Some resp \<and>
            rs_status resp < 400 \<and> bs_sent t = bs_sent s @ [rq] \<and>
            (\<not> rq_raw rq \<longrightarrow> ne_json nw (rs_text resp) \<noteq> None))))"
  using assms
  by (cases "ne_answer nw (bs_sent s) rq")
     (auto simp: send_def accept_response_def split: if_splits)

lemma send_json_spec:
  assumes "send_json nw p params s = (r, t)"
  shows "bs_commits t = bs_commits s \<and> (\<exists>x. r = Inr x \<and> (x = None \<or>
     (\<exists>rq resp j. x = Some j \<and> ne_answer nw (bs_sent s) rq = Some resp \<and> rs_status resp < 400 \<and>
        bs_sent t = bs_sent s @ [rq] \<and> ne_json nw (rs_text resp) = Some j)))"
proof -
  let ?rq = "\<lparr>rq_path = p, rq_params = params, rq_raw = False\<rparr>"
  obtain x t' where x: "send nw ?rq s = (Inr x, t')"
    using send_spec [of nw ?rq s] by (cases "send nw ?rq s") fastforce
  from send_spec [OF x] have "bs_commits t' = bs_commits s" by simp
  moreover have r: "t = t'" "r = Inr (case x of None \<Rightarrow> None
      | Some resp \<Rightarrow> (case ne_json nw (rs_text resp) of Some JNull \<Rightarrow> None | j \<Rightarrow> j))"
    using assms x by (auto simp: send_json_def bindM_def)
  ultimately have c: "bs_commits t = bs_commits s" by simp
  show ?thesis
  proof (cases x)
    case None
    then show ?thesis using c r by simp
  next
    case (Some resp)
    then obtain j where j: "ne_answer nw (bs_sent s) ?rq = Some resp" "rs_status resp < 400"
        "bs_sent t = bs_sent s @ [?rq]" "ne_json nw (rs_text resp) = Some j"
      using send_spec [OF x] r(1) by auto
    show ?thesis
    proof (cases "j = JNull")
      case True
      then show ?thesis using c r Some j by simp
    next
      case False
      then have "r = Inr (Some j)" using r Some j by (cases j) simp_all
      then show ?thesis using c j
        by (intro conjI exI [of _ "Some j"] disjI2 exI [of _ ?rq] exI [of _ resp] exI [of _ j]) simp_all
    qed
  qed
qed

text \<open>Which value a cached read returns: a live entry, or what the read produced.\<close>

lemma cached_cases:
  assumes "cached nw sel upd blank key produce s = (r, t)"
  obtains (live) expires v where "map_of (sel s) key = Some (expires, v)" "ne_clock nw (bs_sent s) < expires"
      "r = Inr (Some v)" "t = s"
  | (failed) "produce s = (r, t)" "r = Inr None \<or> (\<exists>e. r = Inl e)"
  | (produced) v t' where "produce s = (Inr (Some v), t')" "r = Inr (Some v)"
      "t = t' \<or> (\<exists>e. t = upd (AList.update key (e, v)) t')"
proof -
  let ?ttl = "bb_cache_ttl_seconds (ne_env nw)"
  show ?thesis
  proof (cases "?ttl > 0 \<and> (\<exists>expires v. map_of (sel s) key = Some (expires, v) \<and> ne_clock nw (bs_sent s) < expires)")
    case True
    then obtain expires v where e: "map_of (sel s) key = Some (expires, v)" "ne_clock nw (bs_sent s) < expires"
      by blast
    have "r = Inr (Some v)" "t = s" using assms True e by (simp_all add: cached_def Let_def)
    with e show ?thesis by (rule live)
  next
    case False
    obtain x t' where x: "produce s = (x, t')" by (cases "produce s")
    have f: "(r, t) = (case x of
        Inr (Some v) \<Rightarrow> (Inr (Some v), t) | _ \<Rightarrow> (x, t'))"
      "x = Inr (Some v) \<Longrightarrow> t = t' \<or> (\<exists>e. t = upd (AList.update key (e, v)) t')" for v
      using assms False x
      by (auto simp: cached_def bindM_def Let_def store_entry_def split: if_splits option.splits sum.splits)
    show ?thesis
    proof (cases "\<exists>v. x = Inr (Some v)")
      case True
      then obtain v where v: "x = Inr (Some v)" by blast
      show ?thesis by (rule produced [of v t']) (use f v x in auto)
    next
      case False
      then have "r = x" "t = t'" using f(1) by (auto split: sum.splits option.splits)
      then show ?thesis using False x by (intro failed) (cases x; force)+
    qed
  qed
qed

lemma decode_cases:
  "decode f data s = (r, t) \<Longrightarrow> t = s \<and> (r = Inr (Some v) \<longrightarrow> (\<exists>j. data = Some j \<and> f j = Inr v))"
  by (auto simp: decode_def split: option.splits sum.splits)

lemma fetch_commits_spec:
  assumes "fetch_commits nw r p count s = (x, t)"
  shows "bs_commits t = bs_commits s \<and> (\<forall>cs. x = Inr (Some cs) \<longrightarrow>
     (\<exists>rq resp j k ks. ne_answer nw (bs_sent s) rq = Some resp \<and> rs_status resp < 400 \<and>
        bs_sent t = bs_sent s @ [rq] \<and> ne_json nw (rs_text resp) = Some j \<and> commits_in nw k ks j = Inr cs))"
proof -
  have *: "bs_commits t = bs_commits s \<and> (\<forall>cs. x = Inr (Some cs) \<longrightarrow>
     (\<exists>rq resp j k ks. ne_answer nw (bs_sent s) rq = Some resp \<and> rs_status resp < 400 \<and>
        bs_sent t = bs_sent s @ [rq] \<and> ne_json nw (rs_text resp) = Some j \<and> commits_in nw k ks j = Inr cs))"
    if b: "bindM (send_json nw q params) (decode (commits_in nw k ks)) s = (x, t)" for q params k ks
    using b
  proof (cases rule: bindM_cases)
    case (exn e)
    then show ?thesis using send_json_spec [OF exn(1)] by simp
  next
    case (val a s')
    then show ?thesis
      using send_json_spec [OF val(1)] decode_cases [OF val(2)] by fastforce
  qed
  show ?thesis
  proof (cases "is_cloud (ne_env nw)")
    case True
    show ?thesis by (rule * [OF assms [unfolded fetch_commits_def if_P [OF True]]])
  next
    case False
    show ?thesis by (rule * [OF assms [unfolded fetch_commits_def if_not_P [OF False]]])
  qed
qed

lemma version_at_parses:
  assumes "version_at nw r ref s = (Inr (Some v), t)"
  shows "parse (ne_pattern nw) (Some v) \<noteq> None"
  using assms unfolding version_at_def
  by (rule bindM_InrE) (auto simp: Let_def split: option.splits if_splits)


section \<open>Properties\<close>

text \<open>
  An unreachable repository never reads as "nothing has changed". When the commits of a file are
  returned at all, the list is the time filter of what a live cache entry held or of what the server
  answered, without an error status and as JSON, to a request of this very call; when the read
  fails, the commit cache is left as it was, so the failure is not remembered.
\<close>

theorem commits_need_an_answer:
  assumes "commits_touching nw r p since s = (x, t)"
  shows "case x of
      Inr (Some cs) \<Rightarrow>
        (\<exists>all. cs = since_filter since all \<and>
          ((\<exists>expires. map_of (bs_commits s) (slug r, rp_branch r, p, commit_limit (ne_env nw)) = Some (expires, all) \<and>
              ne_clock nw (bs_sent s) < expires) \<or>
           (\<exists>rq resp j k ks. ne_answer nw (bs_sent s) rq = Some resp \<and> rs_status resp < 400 \<and>
              bs_sent t = bs_sent s @ [rq] \<and> ne_json nw (rs_text resp) = Some j \<and> commits_in nw k ks j = Inr all)))
    | _ \<Rightarrow> bs_commits t = bs_commits s"
proof (cases "p = []")
  case True
  then show ?thesis using assms by (auto simp: commits_touching_def)
next
  case False
  let ?key = "(slug r, rp_branch r, p, commit_limit (ne_env nw))"
  let ?c = "cached nw bs_commits bs_commits_update (\<lambda>v. v = []) ?key (fetch_commits nw r p (commit_limit (ne_env nw)))"
  obtain y t' where y: "?c s = (y, t')" by (cases "?c s")
  have xt: "t = t'" "x = (case y of Inl e \<Rightarrow> Inl e | Inr o' \<Rightarrow> Inr (map_option (since_filter since) o'))"
    using assms False y by (auto simp: commits_touching_def bindM_def Let_def split: sum.splits)
  show ?thesis
    using y
  proof (cases rule: cached_cases)
    case (live expires v)
    then show ?thesis using xt by auto
  next
    case failed
    then show ?thesis using xt fetch_commits_spec [OF failed(1)] by auto
  next
    case (produced v u)
    have "bs_sent t' = bs_sent u" using produced(3) by auto
    then show ?thesis using xt produced fetch_commits_spec [OF produced(1)] by auto
  qed
qed

theorem commits_need_an_answer_witness:
  "snd (commits_touching
      \<lparr>ne_env = (\<lambda>k. if k = ''BITBUCKET_BASE_URL'' then Some ''u'' else None), ne_answer = \<lambda>_ _. None,
       ne_clock = \<lambda>_. 0, ne_json = \<lambda>_. None, ne_xml = \<lambda>_. None, ne_iso = \<lambda>_. None, ne_render = \<lambda>_. [], ne_pattern = None\<rparr>
      \<lparr>rp_project = ''P'', rp_repo = ''r'', rp_branch = ''b'', rp_version_file = ''pom.xml'', rp_source_roots = [], rp_prefix = []\<rparr>
      ''A.java'' None
      \<lparr>bs_sent = [], bs_commits = [], bs_changes = [], bs_texts = [], bs_listings = []\<rparr>) \<noteq>
   \<lparr>bs_sent = [], bs_commits = [], bs_changes = [], bs_texts = [], bs_listings = []\<rparr> \<and>
   bs_commits (snd (commits_touching
      \<lparr>ne_env = (\<lambda>k. if k = ''BITBUCKET_BASE_URL'' then Some ''u'' else None), ne_answer = \<lambda>_ _. None,
       ne_clock = \<lambda>_. 0, ne_json = \<lambda>_. None, ne_xml = \<lambda>_. None, ne_iso = \<lambda>_. None, ne_render = \<lambda>_. [], ne_pattern = None\<rparr>
      \<lparr>rp_project = ''P'', rp_repo = ''r'', rp_branch = ''b'', rp_version_file = ''pom.xml'', rp_source_roots = [], rp_prefix = []\<rparr>
      ''A.java'' None
      \<lparr>bs_sent = [], bs_commits = [], bs_changes = [], bs_texts = [], bs_listings = []\<rparr>)) = []"
  (is "snd (commits_touching ?n ?r ?p None ?s) \<noteq> ?s \<and> _")
proof -
  have "fst (commits_touching ?n ?r ?p None ?s) = Inr None" by code_simp
  then have "commits_touching ?n ?r ?p None ?s = (Inr None, snd (commits_touching ?n ?r ?p None ?s))"
    by (metis prod.collapse)
  from commits_need_an_answer [OF this]
  have "bs_commits (snd (commits_touching ?n ?r ?p None ?s)) = []" by simp
  moreover have "bs_sent (snd (commits_touching ?n ?r ?p None ?s)) \<noteq> []" by code_simp
  ultimately show ?thesis by auto
qed

end
