(* ===== verification/Code_Check.thy ===== *)
theory Code_Check
  imports Bitbucket
begin

text \<open>
  The replay precheck: \<^verbatim>\<open>src/dlt/code_check.py\<close>. From the failing call path, the repository's commits
  since the failure, and the versions that were and are running, it decides whether the code running
  now can handle the packet.

  The repository reads are an interface, a record of operations over their own state; the laws the
  verdict relies on are the locale \<open>source_reader\<close>, interpreted on the reads of \<^verbatim>\<open>bitbucket.py\<close>. The
  failure record is the part of the document the check reads. Reason texts are constructors.
\<close>

section \<open>The repository interface\<close>

record 's reader =
  rd_configured :: bool
  rd_repo_for :: "string \<Rightarrow> exn + repo option"
  rd_resolve_path :: "repo \<Rightarrow> string \<Rightarrow> ('s, string option) io"
  rd_commits_touching :: "repo \<Rightarrow> string \<Rightarrow> int option \<Rightarrow> ('s, bb_commit list option) io"
  rd_changed_paths :: "repo \<Rightarrow> string \<Rightarrow> ('s, string list option) io"
  rd_version_at :: "repo \<Rightarrow> string \<Rightarrow> ('s, string option) io"

definition bitbucket_reader :: "net \<Rightarrow> nat \<Rightarrow> bb_state reader" where
  "bitbucket_reader nw fuel =
     \<lparr>rd_configured = configured nw, rd_repo_for = repo_for nw, rd_resolve_path = resolve_path nw fuel,
      rd_commits_touching = commits_touching nw, rd_changed_paths = changed_paths nw,
      rd_version_at = (\<lambda>r ref. version_at nw r (Some ref))\<rparr>"


section \<open>Data\<close>

datatype code_verdict = NO_CHANGE | NOT_DEPLOYED | FIX_DEPLOYED | UNKNOWN_CODE

datatype probe_reason = Mapped | Not_in_repo_map string | Not_found string string

datatype resolution =
    Changes_unreadable
  | Version_unreadable_at_fix
  | At_the_fix_commit
  | Bumps_unreadable
  | Never_cut
  | Version_unreadable_at_bump
  | At_the_next_bump string

datatype check_reason =
    Check_disabled
  | Class_fixed "string option"
  | Not_configured
  | No_location
  | No_frame_mapped "probe_reason list"
  | Files_unreadable nat nat
  | Untouched string nat nat
  | Several_repositories "string list"
  | Nothing_cut nat
  | No_version_resolved nat
  | Running_unknown string
  | Version_did_not_move string string
  | Not_orderable string string
  | No_baseline string string
  | Fix_is_running "string list" string string string
  | Fix_not_running "string list" string string string
  | Check_raised exn

record candidate =
  cd_commit :: string
  cd_subject :: string
  cd_path :: string
  cd_timestamp_ms :: "int option"
  cd_version :: "string option"
  cd_resolved_by :: resolution

record code_check =
  cc_verdict :: code_verdict
  cc_reason :: check_reason
  cc_repo :: "string option"
  cc_path :: "string option"
  cc_branch :: "string option"
  cc_paths_checked :: "string list"
  cc_frames_resolved :: nat
  cc_frames_unmapped :: nat
  cc_baseline_version :: "string option"
  cc_running_version :: "string option"
  cc_required_version :: "string option"
  cc_candidates :: "candidate list"
  cc_frames_examined :: nat
  cc_checked_at :: rat

definition blocks_replay :: "code_check \<Rightarrow> bool" where
  "blocks_replay c \<longleftrightarrow> cc_verdict c = NO_CHANGE"

definition parks_replay :: "code_check \<Rightarrow> bool" where
  "parks_replay c \<longleftrightarrow> cc_verdict c = NOT_DEPLOYED"

text \<open>The fields known so far; every \<^verbatim>\<open>CodeCheck(..., **base)\<close> is an update of it.\<close>

definition blank_check :: "rat \<Rightarrow> code_check" where
  "blank_check now =
     \<lparr>cc_verdict = UNKNOWN_CODE, cc_reason = Check_disabled, cc_repo = None, cc_path = None, cc_branch = None,
      cc_paths_checked = [], cc_frames_resolved = 0, cc_frames_unmapped = 0, cc_baseline_version = None,
      cc_running_version = None, cc_required_version = None, cc_candidates = [], cc_frames_examined = 0,
      cc_checked_at = now\<rparr>"

definition verdict_of :: "code_verdict \<Rightarrow> check_reason \<Rightarrow> code_check \<Rightarrow> code_check" where
  "verdict_of v r base = base\<lparr>cc_verdict := v, cc_reason := r\<rparr>"

definition unknown :: "check_reason \<Rightarrow> code_check \<Rightarrow> code_check" where
  "unknown r base = verdict_of UNKNOWN_CODE r base"

record failure_rec =
  fa_failure_class :: "string option"
  fa_locations :: "frame_location list"

record frame_probe =
  pb_target :: string
  pb_repo :: "repo option"
  pb_path :: "string option"
  pb_commits :: "bb_commit list option"
  pb_reason :: probe_reason

definition mapped :: "frame_probe \<Rightarrow> bool" where
  "mapped p \<longleftrightarrow> pb_path p \<noteq> None"

definition unreadable :: "frame_probe \<Rightarrow> bool" where
  "unreadable p \<longleftrightarrow> mapped p \<and> pb_commits p = None"


section \<open>Settings\<close>

definition code_check_enabled :: "env \<Rightarrow> bool" where
  "code_check_enabled env = get_bool_env env ''DLT_CODE_CHECK_ENABLED'' False"

definition CHECKED_CLASSES :: "string list" where
  "CHECKED_CLASSES = [''A'', ''B'']"

definition frames_to_check :: "env \<Rightarrow> nat" where
  "frames_to_check env = nat (int_env_at_least env ''DLT_CODE_CHECK_FRAMES'' 1 5)"

definition max_candidates :: "env \<Rightarrow> nat" where
  "max_candidates env = nat (int_env_at_least env ''DLT_CODE_CHECK_MAX_CANDIDATES'' 1 10)"

definition branch_override :: "env \<Rightarrow> string option" where
  "branch_override env =
     (let v = py_strip (env_get env ''DLT_CODE_CHECK_BRANCH'' []) in if v = [] then None else Some v)"


section \<open>Probing the call path\<close>

definition locations :: "failure_rec \<Rightarrow> frame_location list" where
  "locations f = filter (\<lambda>l. fl_target l \<noteq> []) (fa_locations f)"

definition with_override :: "env \<Rightarrow> repo \<Rightarrow> repo" where
  "with_override env r =
     (case branch_override env of
        None \<Rightarrow> r
      | Some b \<Rightarrow> if rp_branch r = DEFAULT_BRANCH then r\<lparr>rp_branch := b\<rparr> else r)"

definition resolve_frame :: "'s reader \<Rightarrow> env \<Rightarrow> frame_location \<Rightarrow> ('s, probe_reason + repo \<times> string) io" where
  "resolve_frame rd env l =
     (case rd_repo_for rd (class_fqcn l) of
        Inl e \<Rightarrow> raise e
      | Inr None \<Rightarrow> ret (Inl (Not_in_repo_map (class_fqcn l)))
      | Inr (Some r0) \<Rightarrow>
          (let r = with_override env r0
           in bindM (rd_resolve_path rd r (source_path_suffix l)) (\<lambda>p.
                ret (case p of
                       None \<Rightarrow> Inl (Not_found (source_path_suffix l) (slug r))
                     | Some q \<Rightarrow> Inr (r, q)))))"

definition probe_frame ::
    "'s reader \<Rightarrow> env \<Rightarrow> int option \<Rightarrow> frame_location \<Rightarrow> frame_probe list \<times> (string \<times> bb_commit list option) list \<Rightarrow>
     ('s, frame_probe list \<times> (string \<times> bb_commit list option) list) io" where
  "probe_frame rd env failed_at_ms l st =
     (case st of (probes, seen) \<Rightarrow>
        bindM (resolve_frame rd env l) (\<lambda>found.
          case found of
            Inl why \<Rightarrow>
              ret (probes @ [\<lparr>pb_target = fl_target l, pb_repo = None, pb_path = None, pb_commits = None,
                              pb_reason = why\<rparr>], seen)
          | Inr (r, p) \<Rightarrow>
              (case map_of seen p of
                 Some cs \<Rightarrow>
                   ret (probes @ [\<lparr>pb_target = fl_target l, pb_repo = Some r, pb_path = Some p, pb_commits = cs,
                                   pb_reason = Mapped\<rparr>], seen)
               | None \<Rightarrow>
                   bindM (rd_commits_touching rd r p failed_at_ms) (\<lambda>cs.
                     ret (probes @ [\<lparr>pb_target = fl_target l, pb_repo = Some r, pb_path = Some p,
                                     pb_commits = cs, pb_reason = Mapped\<rparr>], (p, cs) # seen)))))"

definition probe_path :: "'s reader \<Rightarrow> env \<Rightarrow> frame_location list \<Rightarrow> int option \<Rightarrow> ('s, frame_probe list) io" where
  "probe_path rd env ls failed_at_ms =
     bindM (foldM (probe_frame rd env failed_at_ms) ls ([], [])) (\<lambda>st. ret (fst st))"


section \<open>The version that carries a commit\<close>

text \<open>The empty version means that the commit is on the branch and no version has been cut since.\<close>

definition first_containing_version ::
    "'s reader \<Rightarrow> repo \<Rightarrow> bb_commit \<Rightarrow> ('s, string option \<times> resolution) io" where
  "first_containing_version rd r c =
     bindM (rd_changed_paths rd r (cm_id c)) (\<lambda>changed.
       case changed of
         None \<Rightarrow> ret (None, Changes_unreadable)
       | Some paths \<Rightarrow>
           if touches_version_file paths (rp_version_file r)
           then bindM (rd_version_at rd r (cm_id c)) (\<lambda>v.
                  ret (case v of None \<Rightarrow> (None, Version_unreadable_at_fix) | Some x \<Rightarrow> (Some x, At_the_fix_commit)))
           else bindM (rd_commits_touching rd r (rp_version_file r) (cm_timestamp_ms c)) (\<lambda>bumps.
                  case bumps of
                    None \<Rightarrow> ret (None, Bumps_unreadable)
                  | Some bs \<Rightarrow>
                      if bs = [] then ret (Some [], Never_cut)
                      else bindM (rd_version_at rd r (cm_id (last bs))) (\<lambda>v.
                             ret (case v of None \<Rightarrow> (None, Version_unreadable_at_bump)
                                  | Some x \<Rightarrow> (Some x, At_the_next_bump (short (last bs)))))))"

definition raise_required :: "pattern option \<Rightarrow> string option \<Rightarrow> string option \<Rightarrow> string option" where
  "raise_required pat version required =
     (case version of
        None \<Rightarrow> required
      | Some v \<Rightarrow>
          if v = [] then (case required of None \<Rightarrow> Some [] | Some q \<Rightarrow> Some q)
          else (case required of
                  None \<Rightarrow> Some v
                | Some q \<Rightarrow>
                    if q = [] \<or> (case compare pat (VText (Some v)) (VText (Some q)) of None \<Rightarrow> 0 | Some n \<Rightarrow> n) > 0
                    then Some v else Some q))"

definition candidate_step ::
    "'s reader \<Rightarrow> pattern option \<Rightarrow> repo \<Rightarrow> string \<times> bb_commit \<Rightarrow> string list \<times> candidate list \<times> string option \<Rightarrow>
     ('s, string list \<times> candidate list \<times> string option) io" where
  "candidate_step rd pat r pc st =
     (case (pc, st) of ((p, c), (seen, cands, required)) \<Rightarrow>
        if cm_id c \<in> set seen then ret (seen, cands, required)
        else bindM (first_containing_version rd r c) (\<lambda>vh.
               ret (cm_id c # seen,
                    cands @ [\<lparr>cd_commit = short c, cd_subject = take 120 (cm_subject c), cd_path = p,
                              cd_timestamp_ms = cm_timestamp_ms c,
                              cd_version = (case fst vh of Some v \<Rightarrow> if v = [] then None else Some v | None \<Rightarrow> None),
                              cd_resolved_by = snd vh\<rparr>],
                    raise_required pat (fst vh) required)))"


section \<open>The verdict\<close>

text \<open>The last part of the decision, once the version that carries every candidate is known.\<close>

definition decide_deployment ::
    "pattern option \<Rightarrow> version option \<Rightarrow> version option \<Rightarrow> string list \<Rightarrow> string \<Rightarrow> string \<Rightarrow> code_check \<Rightarrow> code_check" where
  "decide_deployment pat baseline running changed branch required base =
     (case running of
        None \<Rightarrow> unknown (Running_unknown required) base
      | Some run \<Rightarrow>
          if (case baseline of None \<Rightarrow> False
              | Some b \<Rightarrow> is_ahead pat (VText (Some required)) (VObj b) \<noteq> Some True)
          then unknown (Version_did_not_move (case baseline of None \<Rightarrow> [] | Some b \<Rightarrow> ver_raw b) required) base
          else (case at_least pat (VObj run) (VText (Some required)) of
                  None \<Rightarrow> unknown (Not_orderable (ver_raw run) required) base
                | Some deployed \<Rightarrow>
                    if deployed
                    then (if baseline = None then unknown (No_baseline (ver_raw run) required) base
                          else verdict_of FIX_DEPLOYED (Fix_is_running changed branch (ver_raw run) required) base)
                    else verdict_of NOT_DEPLOYED (Fix_not_running changed branch (ver_raw run) required) base))"

definition base_name :: "string \<Rightarrow> string" where
  "base_name p = after_last CHR ''/'' p"

definition weigh_candidates ::
    "pattern option \<Rightarrow> version option \<Rightarrow> version option \<Rightarrow> string \<Rightarrow> candidate list \<Rightarrow> string option \<Rightarrow>
     code_check \<Rightarrow> code_check" where
  "weigh_candidates pat baseline running branch cands required base0 =
     (let base = base0\<lparr>cc_candidates := cands\<rparr>
      in case required of
           None \<Rightarrow> unknown (No_version_resolved (length cands)) base
         | Some req \<Rightarrow>
             if req = [] then verdict_of NOT_DEPLOYED (Nothing_cut (length cands)) base
             else decide_deployment pat baseline running
                    (sorted_list_of_set (set (map (\<lambda>c. base_name (cd_path c)) cands))) branch req
                    (base\<lparr>cc_required_version := Some req\<rparr>))"

definition lowest_of :: "pattern option \<Rightarrow> string list \<Rightarrow> version option" where
  "lowest_of pat vs = (if vs = [] then None else lowest pat (map (\<lambda>v. VText (Some v)) vs))"

definition path_of :: "frame_probe \<Rightarrow> string" where
  "path_of p = (case pb_path p of None \<Rightarrow> [] | Some q \<Rightarrow> q)"

definition commits_of :: "frame_probe \<Rightarrow> bb_commit list" where
  "commits_of p = (case pb_commits p of None \<Rightarrow> [] | Some cs \<Rightarrow> cs)"

definition slug_of :: "frame_probe \<Rightarrow> string" where
  "slug_of p = (case pb_repo p of None \<Rightarrow> [] | Some r \<Rightarrow> slug r)"

definition branch_of :: "frame_probe \<Rightarrow> string" where
  "branch_of p = (case pb_repo p of None \<Rightarrow> [] | Some r \<Rightarrow> rp_branch r)"

definition judge_probes ::
    "'s reader \<Rightarrow> env \<Rightarrow> pattern option \<Rightarrow> rat \<Rightarrow> string list \<Rightarrow> string list \<Rightarrow> frame_probe list \<Rightarrow>
     ('s, code_check) io" where
  "judge_probes rd env pat now baseline_versions running_versions probes =
     (let ms = filter mapped probes; us = filter (\<lambda>p. \<not> mapped p) probes;
          base1 = (blank_check now)\<lparr>cc_frames_examined := length probes, cc_frames_resolved := length ms,
                                     cc_frames_unmapped := length us\<rparr>
      in case ms of
           [] \<Rightarrow> ret (unknown (No_frame_mapped (map pb_reason (take 3 us))) base1)
         | site # _ \<Rightarrow>
             (let paths = dedupe (map path_of ms);
                  base2 = base1\<lparr>cc_repo := Some (slug_of site), cc_path := Some (path_of site),
                                cc_branch := Some (branch_of site), cc_paths_checked := paths\<rparr>;
                  bad = filter unreadable ms
              in if bad \<noteq> []
                 then ret (unknown (Files_unreadable (length (dedupe (map path_of bad))) (length paths)) base2)
                 else (let baseline = lowest_of pat baseline_versions;
                           running = lowest_of pat running_versions;
                           base3 = base2\<lparr>cc_baseline_version := map_option ver_raw baseline,
                                         cc_running_version := map_option ver_raw running\<rparr>
                       in case filter (\<lambda>p. commits_of p \<noteq> []) ms of
                            [] \<Rightarrow> ret (verdict_of NO_CHANGE (Untouched (branch_of site) (length paths) (length us)) base3)
                          | w # ws \<Rightarrow>
                              (let repos = dedupe (map slug_of (w # ws))
                               in if length repos > 1
                                  then ret (unknown (Several_repositories (sort repos)) base3)
                                  else (case pb_repo w of
                                          None \<Rightarrow> raise AttributeError
                                        | Some r \<Rightarrow>
                                            bindM (foldM (candidate_step rd pat r)
                                                     (concat (map (\<lambda>p. map (Pair (path_of p))
                                                                (take (max_candidates env) (commits_of p))) (w # ws)))
                                                     ([], [], None))
                                              (\<lambda>(_, cands, required).
                                                 ret (weigh_candidates pat baseline running (rp_branch r)
                                                        cands required base3)))))))"

definition evaluate0 ::
    "'s reader \<Rightarrow> env \<Rightarrow> pattern option \<Rightarrow> rat \<Rightarrow> failure_rec \<Rightarrow> int option \<Rightarrow> string list \<Rightarrow> string list \<Rightarrow>
     ('s, code_check) io" where
  "evaluate0 rd env pat now failure failed_at_ms baseline_versions running_versions =
     (if \<not> code_check_enabled env then ret (unknown Check_disabled (blank_check now))
      else if \<not> (case fa_failure_class failure of None \<Rightarrow> False | Some k \<Rightarrow> k \<in> set CHECKED_CLASSES)
      then ret (unknown (Class_fixed (fa_failure_class failure)) (blank_check now))
      else if \<not> rd_configured rd then ret (unknown Not_configured (blank_check now))
      else if locations failure = [] then ret (unknown No_location (blank_check now))
      else bindM (probe_path rd env (take (frames_to_check env) (locations failure)) failed_at_ms)
             (judge_probes rd env pat now baseline_versions running_versions))"

definition evaluate ::
    "'s reader \<Rightarrow> env \<Rightarrow> pattern option \<Rightarrow> rat \<Rightarrow> failure_rec \<Rightarrow> int option \<Rightarrow> string list \<Rightarrow> string list \<Rightarrow>
     ('s, code_check) io" where
  "evaluate rd env pat now failure failed_at_ms baseline_versions running_versions =
     catchM (evaluate0 rd env pat now failure failed_at_ms baseline_versions running_versions)
       (\<lambda>e. ret (unknown (Check_raised e) (blank_check now)))"


section \<open>What the verdicts rest on\<close>

definition newer_than :: "pattern option \<Rightarrow> string \<Rightarrow> string \<Rightarrow> bool" where
  "newer_than pat v q \<longleftrightarrow> (\<exists>n. compare pat (VText (Some v)) (VText (Some q)) = Some n \<and> n > 0)"

lemma newer_iff:
  "newer_than pat v q \<longleftrightarrow> (case compare pat (VText (Some v)) (VText (Some q)) of None \<Rightarrow> 0 | Some n \<Rightarrow> n) > 0"
  by (auto simp: newer_than_def split: option.split)

lemma newer_irrefl: "\<not> newer_than pat v v"
  by (auto simp: newer_than_def compare_def split: option.splits)

lemma newer_parsed:
  "newer_than pat u v \<longleftrightarrow>
     (case (parse pat (Some u), parse pat (Some v)) of (Some x, Some y) \<Rightarrow> compare_versions y x < 0 | _ \<Rightarrow> False)"
proof -
  have "0 < compare_versions x y \<longleftrightarrow> compare_versions y x < 0" for x y
    using compare_versions_antisym [of x y] by linarith
  then show ?thesis
    by (auto simp: newer_than_def compare_def as_version_def split: option.splits)
qed

lemma newer_trans: "newer_than pat u v \<Longrightarrow> newer_than pat v w \<Longrightarrow> newer_than pat u w"
  unfolding newer_parsed
  by (auto split: option.splits intro: compare_versions_less_trans)

text \<open>The required version is one of the candidates' versions, and none of them is above it.\<close>

definition carries_all :: "pattern option \<Rightarrow> candidate list \<Rightarrow> string option \<Rightarrow> bool" where
  "carries_all pat cands required \<longleftrightarrow>
     (\<forall>c\<in>set cands. \<forall>v. cd_version c = Some v \<longrightarrow>
        v \<noteq> [] \<and> (\<exists>q. required = Some q \<and> q \<noteq> [] \<and> \<not> newer_than pat v q)) \<and>
     (\<forall>q. required = Some q \<longrightarrow> q \<noteq> [] \<longrightarrow> (\<exists>c\<in>set cands. cd_version c = Some q))"

lemma carries_all_step:
  assumes "carries_all pat cands required"
    and c: "cd_version c = (case v of Some x \<Rightarrow> if x = [] then None else Some x | None \<Rightarrow> None)"
  shows "carries_all pat (cands @ [c]) (raise_required pat v required)"
proof (cases "v = None \<or> v = Some []")
  case True
  then have none: "cd_version c = None" using c by auto
  show ?thesis
  proof (cases "required = None \<or> required = Some []")
    case True
    then have "\<forall>d\<in>set cands. cd_version d = None" using assms(1) unfolding carries_all_def by fastforce
    then show ?thesis
      using none True \<open>v = None \<or> v = Some []\<close> by (auto simp: carries_all_def raise_required_def)
  next
    case False
    then have "raise_required pat v required = required"
      using \<open>v = None \<or> v = Some []\<close> by (auto simp: raise_required_def split: option.split)
    then show ?thesis using assms(1) none by (auto simp: carries_all_def)
  qed
next
  case False
  then obtain x where x: "v = Some x" "x \<noteq> []" by auto
  then have cx: "cd_version c = Some x" using c by simp
  show ?thesis
  proof (cases "required = None \<or> required = Some [] \<or> (\<exists>q. required = Some q \<and> newer_than pat x q)")
    case True
    then have r: "raise_required pat v required = Some x"
      using x by (auto simp: raise_required_def newer_iff)
    have "\<not> newer_than pat w x" "w \<noteq> []" if "d \<in> set cands" "cd_version d = Some w" for d w
      using assms(1) that True newer_trans [of pat w x] unfolding carries_all_def by force+
    then show ?thesis using r cx x newer_irrefl by (auto simp: carries_all_def)
  next
    case False
    then obtain q where q: "required = Some q" "q \<noteq> []" "\<not> newer_than pat x q" by auto
    then have "raise_required pat v required = Some q"
      using x by (auto simp: raise_required_def newer_iff)
    then show ?thesis using assms(1) q cx x by (auto simp: carries_all_def)
  qed
qed

lemma candidate_step_carries:
  assumes "carries_all pat cands required" and "candidate_step rd pat r pc (seen, cands, required) s = (Inr st', t)"
  shows "carries_all pat (fst (snd st')) (snd (snd st'))"
proof (cases "cm_id (snd pc) \<in> set seen")
  case True
  then show ?thesis using assms by (auto simp: candidate_step_def split: prod.splits)
next
  case False
  then have "bindM (first_containing_version rd r (snd pc)) (\<lambda>vh.
      ret (cm_id (snd pc) # seen,
           cands @ [\<lparr>cd_commit = short (snd pc), cd_subject = take 120 (cm_subject (snd pc)), cd_path = fst pc,
              cd_timestamp_ms = cm_timestamp_ms (snd pc),
              cd_version = (case fst vh of Some v \<Rightarrow> if v = [] then None else Some v | None \<Rightarrow> None),
              cd_resolved_by = snd vh\<rparr>],
           raise_required pat (fst vh) required)) s = (Inr st', t)"
    using assms(2) by (cases pc) (simp add: candidate_step_def)
  then show ?thesis
    by (rule bindM_InrE) (auto intro!: carries_all_step [OF assms(1)])
qed

lemma carries_all_Nil: "carries_all pat [] None"
  by (simp add: carries_all_def)

lemma candidates_carry:
  assumes "foldM (candidate_step rd pat r) pcs ([], [], None) s = (Inr (seen, cands, required), t)"
  shows "carries_all pat cands required"
proof -
  have "(\<lambda>st. carries_all pat (fst (snd st)) (snd (snd st))) (seen, cands, required)"
    by (rule foldM_value_inv [OF assms]) (auto simp: carries_all_Nil intro: candidate_step_carries)
  then show ?thesis by simp
qed

lemma verdict_of_sel [simp]:
  "cc_verdict (verdict_of v r b) = v" "cc_reason (verdict_of v r b) = r" "cc_candidates (verdict_of v r b) = cc_candidates b"
  "cc_required_version (verdict_of v r b) = cc_required_version b" "cc_paths_checked (verdict_of v r b) = cc_paths_checked b"
  by (simp_all add: verdict_of_def)

lemma unknown_verdict [simp]: "cc_verdict (unknown r b) = UNKNOWN_CODE"
  by (simp add: unknown_def)

text \<open>Every mapped frame carries what a read of its file answered.\<close>

definition was_read :: "'s reader \<Rightarrow> int option \<Rightarrow> string \<Rightarrow> bb_commit list option \<Rightarrow> bool" where
  "was_read rd since p cs \<longleftrightarrow> (\<exists>r u v. rd_commits_touching rd r p since u = (Inr cs, v))"

definition probes_read :: "'s reader \<Rightarrow> int option \<Rightarrow> frame_probe list \<Rightarrow> bool" where
  "probes_read rd since probes \<longleftrightarrow>
     (\<forall>pr\<in>set probes. mapped pr \<longrightarrow> pb_repo pr \<noteq> None \<and> was_read rd since (path_of pr) (pb_commits pr))"

lemma probe_frame_read:
  assumes "probe_frame rd env since l (probes, seen) s = (Inr st', t)"
    and "probes_read rd since probes" and "\<forall>(p, cs)\<in>set seen. was_read rd since p cs"
  shows "probes_read rd since (fst st') \<and> (\<forall>(p, cs)\<in>set (snd st'). was_read rd since p cs)"
proof -
  from assms(1) obtain found u where f: "resolve_frame rd env l s = (Inr found, u)"
    and g: "(case found of
            Inl why \<Rightarrow>
              ret (probes @ [\<lparr>pb_target = fl_target l, pb_repo = None, pb_path = None, pb_commits = None,
                              pb_reason = why\<rparr>], seen)
          | Inr (r, p) \<Rightarrow>
              (case map_of seen p of
                 Some cs \<Rightarrow>
                   ret (probes @ [\<lparr>pb_target = fl_target l, pb_repo = Some r, pb_path = Some p, pb_commits = cs,
                                   pb_reason = Mapped\<rparr>], seen)
               | None \<Rightarrow>
                   bindM (rd_commits_touching rd r p since) (\<lambda>cs.
                     ret (probes @ [\<lparr>pb_target = fl_target l, pb_repo = Some r, pb_path = Some p,
                                     pb_commits = cs, pb_reason = Mapped\<rparr>], (p, cs) # seen)))) u = (Inr st', t)"
    unfolding probe_frame_def prod.case by (rule bindM_InrE)
  show ?thesis
  proof (cases found)
    case (Inl why)
    then show ?thesis using g assms(2,3) by (auto simp: probes_read_def mapped_def)
  next
    case (Inr rp)
    obtain r p where rp: "rp = (r, p)" by (cases rp)
    show ?thesis
    proof (cases "map_of seen p")
      case (Some cs)
      then have "was_read rd since p cs" using assms(3) map_of_SomeD [OF Some] by auto
      then show ?thesis using g Inr rp Some assms(2,3) by (auto simp: probes_read_def path_of_def)
    next
      case None
      then obtain cs v where "rd_commits_touching rd r p since u = (Inr cs, v)"
        "st' = (probes @ [\<lparr>pb_target = fl_target l, pb_repo = Some r, pb_path = Some p,
                                     pb_commits = cs, pb_reason = Mapped\<rparr>], (p, cs) # seen)"
        using g Inr rp by (auto elim: bindM_InrE)
      then show ?thesis using assms(2,3) by (auto simp: probes_read_def path_of_def was_read_def)
    qed
  qed
qed

lemma probe_path_read:
  assumes "probe_path rd env ls since s = (Inr probes, t)"
  shows "probes_read rd since probes"
proof -
  from assms obtain st u where st: "foldM (probe_frame rd env since) ls ([], []) s = (Inr st, u)" "probes = fst st"
    by (auto simp: probe_path_def elim: bindM_InrE)
  have "(\<lambda>st. probes_read rd since (fst st) \<and> (\<forall>(p, cs)\<in>set (snd st). was_read rd since p cs)) st"
  proof (rule foldM_value_inv [OF st(1)])
    show "probes_read rd since (fst ([], [])) \<and> (\<forall>(p, cs)\<in>set (snd ([], [])). was_read rd since p cs)"
      by (simp add: probes_read_def)
    show "probes_read rd since (fst b') \<and> (\<forall>(p, cs)\<in>set (snd b'). was_read rd since p cs)"
      if "probes_read rd since (fst b) \<and> (\<forall>(p, cs)\<in>set (snd b). was_read rd since p cs)"
        "probe_frame rd env since l b s = (Inr b', t)" for l b s b' t
      using probe_frame_read [of rd env since l "fst b" "snd b"] that by simp
  qed
  then show ?thesis using st(2) by simp
qed

text \<open>The commits whose versions are looked up, each with the file it touched.\<close>

definition commit_queue :: "env \<Rightarrow> frame_probe list \<Rightarrow> (string \<times> bb_commit) list" where
  "commit_queue env ws = concat (map (\<lambda>p. map (Pair (path_of p)) (take (max_candidates env) (commits_of p))) ws)"

text \<open>How a positive or a negative verdict can come about.\<close>

lemma judge_no_change:
  assumes "judge_probes rd env pat now bv rv probes s = (Inr c, t)" and "cc_verdict c = NO_CHANGE"
  shows "cc_paths_checked c \<noteq> [] \<and>
    (\<forall>p\<in>set (cc_paths_checked c). \<exists>pr\<in>set probes. mapped pr \<and> path_of pr = p \<and> pb_commits pr = Some [])"
proof -
  have w: "cc_verdict (weigh_candidates pat b r br cs q base) \<noteq> NO_CHANGE" for b r br cs q base
    by (auto simp: weigh_candidates_def decide_deployment_def Let_def split: option.split)
  obtain m ms where ms: "filter mapped probes = m # ms"
    using assms by (cases "filter mapped probes") (auto simp: judge_probes_def Let_def)
  have nb: "filter unreadable (m # ms) = []"
    using assms ms by (auto simp: judge_probes_def Let_def split: if_splits)
  have nc: "filter (\<lambda>p. commits_of p \<noteq> []) (m # ms) = []"
  proof (rule ccontr)
    assume ne: "filter (\<lambda>p. commits_of p \<noteq> []) (m # ms) \<noteq> []"
    then obtain v vs where v: "filter (\<lambda>p. commits_of p \<noteq> []) (m # ms) = v # vs"
      by (cases "filter (\<lambda>p. commits_of p \<noteq> []) (m # ms)") auto
    show False
      using assms w unfolding judge_probes_def Let_def ms list.case nb v
      by (auto elim!: bindM_InrE split: if_splits option.splits prod.splits)
  qed
  have c: "cc_paths_checked c = dedupe (map path_of (m # ms))"
    using assms(1) unfolding judge_probes_def Let_def ms list.case nb nc by auto
  have "\<exists>pr\<in>set probes. mapped pr \<and> path_of pr = p \<and> pb_commits pr = Some []" if "p \<in> set (cc_paths_checked c)" for p
  proof -
    from that c obtain pr where pr: "pr \<in> set (m # ms)" "path_of pr = p" by auto
    have "pr \<in> set probes" "mapped pr" using pr(1) unfolding ms [symmetric] by auto
    moreover have "\<not> unreadable pr" "commits_of pr = []" using pr(1) nb [unfolded filter_empty_conv] nc [unfolded filter_empty_conv] by blast+
    ultimately show ?thesis
      using pr(2) by (auto simp: unreadable_def commits_of_def split: option.splits)
  qed
  moreover have "cc_paths_checked c \<noteq> []" using c by (auto dest!: arg_cong [where f = set])
  ultimately show ?thesis by simp
qed

lemma weigh_fix_deployed:
  assumes "cc_verdict (weigh_candidates pat baseline running br cands required base) = FIX_DEPLOYED"
  shows "\<exists>b run q. baseline = Some b \<and> running = Some run \<and> required = Some q \<and> q \<noteq> [] \<and>
      is_ahead pat (VText (Some q)) (VObj b) = Some True \<and> at_least pat (VObj run) (VText (Some q)) = Some True \<and>
      cc_required_version (weigh_candidates pat baseline running br cands required base) = Some q \<and>
      cc_candidates (weigh_candidates pat baseline running br cands required base) = cands"
  using assms
  by (auto simp: weigh_candidates_def decide_deployment_def Let_def split: option.splits if_splits)

lemma judge_fix_deployed:
  assumes "judge_probes rd env pat now bv rv probes s = (Inr c, t)" and "cc_verdict c = FIX_DEPLOYED"
  shows "\<exists>r ws seen u v b run q.
      set ws \<subseteq> {p\<in>set probes. mapped p} \<and>
      foldM (candidate_step rd pat r) (commit_queue env ws) ([], [], None) u = (Inr (seen, cc_candidates c, Some q), v) \<and>
      cc_required_version c = Some q \<and> q \<noteq> [] \<and> lowest_of pat bv = Some b \<and> lowest_of pat rv = Some run \<and>
      is_ahead pat (VText (Some q)) (VObj b) = Some True \<and> at_least pat (VObj run) (VText (Some q)) = Some True"
proof -
  obtain m ms where ms: "filter mapped probes = m # ms"
    using assms by (cases "filter mapped probes") (auto simp: judge_probes_def Let_def)
  have nb: "filter unreadable (m # ms) = []"
    using assms ms by (auto simp: judge_probes_def Let_def split: if_splits)
  obtain w ws where ws: "filter (\<lambda>p. commits_of p \<noteq> []) (m # ms) = w # ws"
    using assms unfolding judge_probes_def Let_def ms list.case nb
    by (cases "filter (\<lambda>p. commits_of p \<noteq> []) (m # ms)") auto
  obtain r seen cands required br base u v where
    f: "foldM (candidate_step rd pat r) (commit_queue env (w # ws)) ([], [], None) u = (Inr (seen, cands, required), v)"
    and c: "c = weigh_candidates pat (lowest_of pat bv) (lowest_of pat rv) br cands required base"
    using assms unfolding judge_probes_def Let_def ms list.case nb ws commit_queue_def
    by (auto elim!: bindM_InrE split: if_splits option.splits prod.splits)
  have "set (w # ws) \<subseteq> {p\<in>set probes. mapped p}"
    unfolding ws [symmetric] ms [symmetric] by auto
  moreover obtain b run q where "lowest_of pat bv = Some b" "lowest_of pat rv = Some run" and q: "required = Some q"
    and "q \<noteq> []" "is_ahead pat (VText (Some q)) (VObj b) = Some True"
      "at_least pat (VObj run) (VText (Some q)) = Some True" "cc_required_version c = Some q" "cc_candidates c = cands"
    using weigh_fix_deployed [OF assms(2) [unfolded c]] unfolding c by auto
  ultimately show ?thesis
    using f by (intro exI [of _ r] exI [of _ "w # ws"] exI [of _ seen] exI [of _ u] exI [of _ v] exI [of _ b]
        exI [of _ run] exI [of _ q] conjI) simp_all
qed

lemma evaluate_returns: "\<exists>c t. evaluate rd env pat now failure at_ms bv rv s = (Inr c, t)"
  unfolding evaluate_def by (rule catchM_total) simp

text \<open>A verdict other than unknown comes from the probes, with the switch on and a class that is checked.\<close>

lemma evaluate_decided:
  assumes "evaluate rd env pat now failure at_ms bv rv s = (Inr c, t)" and "cc_verdict c \<noteq> UNKNOWN_CODE"
  shows "code_check_enabled env \<and> fa_failure_class failure \<in> {Some ''A'', Some ''B''} \<and>
    (\<exists>probes u. probes_read rd at_ms probes \<and> judge_probes rd env pat now bv rv probes u = (Inr c, t))"
proof -
  have e: "evaluate0 rd env pat now failure at_ms bv rv s = (Inr c, t)"
    using assms unfolding evaluate_def by (auto elim!: catchM_cases)
  have g: "code_check_enabled env" "fa_failure_class failure \<in> {Some ''A'', Some ''B''}"
    "rd_configured rd" "locations failure \<noteq> []"
    using e assms(2)
    by (auto simp: evaluate0_def CHECKED_CLASSES_def split: if_splits option.splits)
  then have "bindM (probe_path rd env (take (frames_to_check env) (locations failure)) at_ms)
      (judge_probes rd env pat now bv rv) s = (Inr c, t)"
    using e by (auto simp: evaluate0_def CHECKED_CLASSES_def)
  then obtain probes u where
    "probe_path rd env (take (frames_to_check env) (locations failure)) at_ms s = (Inr probes, u)"
    "judge_probes rd env pat now bv rv probes u = (Inr c, t)"
    by (rule bindM_InrE)
  then have "\<exists>probes u. probes_read rd at_ms probes \<and> judge_probes rd env pat now bv rv probes u = (Inr c, t)"
    using probe_path_read by fast
  then show ?thesis using g by simp
qed


section \<open>The laws of the repository reads\<close>

locale source_reader =
  fixes rd :: "'s reader" and pat :: "pattern option"
  assumes version_parses: "rd_version_at rd r ref s = (Inr (Some v), t) \<Longrightarrow> parse pat (Some v) \<noteq> None"
    and commits_since:
      "rd_commits_touching rd r p (Some ms) s = (Inr (Some cs), u) \<Longrightarrow> c \<in> set cs \<Longrightarrow>
       cm_timestamp_ms c = Some x \<Longrightarrow> ms \<le> x"
begin

lemma containing_version_parses:
  assumes "first_containing_version rd r c s = (Inr (Some v, how), t)" and "v \<noteq> []"
  shows "parse pat (Some v) \<noteq> None"
proof -
  have "\<exists>y. parse pat (Some v) = Some y" if "rd_version_at rd r x u = (Inr (Some v), w)" for x u w
    using version_parses [OF that] by blast
  then show ?thesis
    using assms unfolding first_containing_version_def
    by (auto elim!: bindM_InrE split: option.splits if_splits)
qed

definition sound_candidate :: "(string \<times> bb_commit) list \<Rightarrow> candidate \<Rightarrow> bool" where
  "sound_candidate pcs d \<longleftrightarrow>
     (\<forall>v. cd_version d = Some v \<longrightarrow> parse pat (Some v) \<noteq> None) \<and>
     (\<exists>c. (cd_path d, c) \<in> set pcs \<and> cd_timestamp_ms d = cm_timestamp_ms c)"

lemma candidate_step_sound:
  assumes "candidate_step rd pat r pc (seen, cands, required) s = (Inr st', t)"
    and "pc \<in> set pcs" and "\<forall>d\<in>set cands. sound_candidate pcs d"
  shows "\<forall>d\<in>set (fst (snd st')). sound_candidate pcs d"
proof (cases "cm_id (snd pc) \<in> set seen")
  case True
  then show ?thesis using assms by (auto simp: candidate_step_def split: prod.splits)
next
  case False
  obtain p c where pc: "pc = (p, c)" by (cases pc)
  then obtain v how u where v: "first_containing_version rd r c s = (Inr (v, how), u)"
    "fst (snd st') = cands @ [\<lparr>cd_commit = short c, cd_subject = take 120 (cm_subject c), cd_path = p,
        cd_timestamp_ms = cm_timestamp_ms c,
        cd_version = (case v of Some x \<Rightarrow> if x = [] then None else Some x | None \<Rightarrow> None), cd_resolved_by = how\<rparr>]"
    using assms(1) False by (auto simp: candidate_step_def elim!: bindM_InrE)
  have "parse pat (Some x) \<noteq> None" if "v = Some x" "x \<noteq> []" for x
    using containing_version_parses v(1) that by blast
  then show ?thesis
    using assms(2,3) pc v(2) by (auto simp: sound_candidate_def split: option.splits if_splits)
qed

lemma candidates_sound:
  assumes "foldM (candidate_step rd pat r) pcs ([], [], None) s = (Inr (seen, cands, required), t)"
  shows "\<forall>d\<in>set cands. sound_candidate pcs d"
proof -
  have "(\<lambda>st. \<forall>d\<in>set (fst (snd st)). sound_candidate pcs d) (seen, cands, required)"
  proof (rule foldM_value_inv [OF assms])
    show "\<forall>d\<in>set (fst (snd b')). sound_candidate pcs d"
      if "x \<in> set pcs" "\<forall>d\<in>set (fst (snd b)). sound_candidate pcs d"
        "candidate_step rd pat r x b s = (Inr b', t)" for x b s b' t
      using candidate_step_sound [of r x "fst b" "fst (snd b)" "snd (snd b)"] that by simp
  qed simp
  then show ?thesis by simp
qed

text \<open>A queued commit was not dated before the failure.\<close>

lemma queue_since:
  assumes "probes_read rd (Some ms) probes" and "set ws \<subseteq> {p\<in>set probes. mapped p}"
    and "(p, c) \<in> set (commit_queue env ws)" and "cm_timestamp_ms c = Some x"
  shows "ms \<le> x"
proof -
  from assms(2,3) obtain pr where pr: "pr \<in> set probes" "mapped pr" "c \<in> set (commits_of pr)"
    by (auto simp: commit_queue_def dest: in_set_takeD)
  then obtain cs where cs: "pb_commits pr = Some cs" "c \<in> set cs"
    by (cases "pb_commits pr") (auto simp: commits_of_def)
  then obtain r u v where "rd_commits_touching rd r (path_of pr) (Some ms) u = (Inr (Some cs), v)"
    using assms(1) pr by (auto simp: probes_read_def was_read_def)
  then show ?thesis using cs(2) assms(4) by (rule commits_since)
qed

lemma deployed_fix:
  assumes "evaluate rd env pat now failure at_ms bv rv s = (Inr c, t)" and "cc_verdict c = FIX_DEPLOYED"
  shows "\<exists>b run q. lowest_of pat bv = Some b \<and> lowest_of pat rv = Some run \<and> cc_required_version c = Some q \<and>
      is_ahead pat (VText (Some q)) (VObj b) = Some True \<and> at_least pat (VObj run) (VText (Some q)) = Some True \<and>
      (\<exists>d\<in>set (cc_candidates c). cd_version d = Some q) \<and>
      (\<forall>d\<in>set (cc_candidates c).
         (\<forall>v. cd_version d = Some v \<longrightarrow> parse pat (Some v) \<noteq> None \<and> \<not> newer_than pat v q) \<and>
         (\<forall>ms x. at_ms = Some ms \<longrightarrow> cd_timestamp_ms d = Some x \<longrightarrow> ms \<le> x))"
proof -
  obtain probes u where p: "probes_read rd at_ms probes" "judge_probes rd env pat now bv rv probes u = (Inr c, t)"
    using evaluate_decided [OF assms(1)] assms(2) by auto
  obtain r ws seen u v b run q where j: "set ws \<subseteq> {p\<in>set probes. mapped p}"
      "foldM (candidate_step rd pat r) (commit_queue env ws) ([], [], None) u = (Inr (seen, cc_candidates c, Some q), v)"
      "cc_required_version c = Some q" "q \<noteq> []" "lowest_of pat bv = Some b" "lowest_of pat rv = Some run"
      "is_ahead pat (VText (Some q)) (VObj b) = Some True" "at_least pat (VObj run) (VText (Some q)) = Some True"
    using judge_fix_deployed [OF p(2) assms(2)] by blast
  have carry: "carries_all pat (cc_candidates c) (Some q)" by (rule candidates_carry [OF j(2)])
  have snd: "\<forall>d\<in>set (cc_candidates c). sound_candidate (commit_queue env ws) d" by (rule candidates_sound [OF j(2)])
  have "(\<forall>v. cd_version d = Some v \<longrightarrow> parse pat (Some v) \<noteq> None \<and> \<not> newer_than pat v q) \<and>
         (\<forall>ms x. at_ms = Some ms \<longrightarrow> cd_timestamp_ms d = Some x \<longrightarrow> ms \<le> x)" if "d \<in> set (cc_candidates c)" for d
    using that carry snd queue_since [OF _ j(1)] p(1) unfolding carries_all_def sound_candidate_def by fastforce
  moreover have "\<exists>d\<in>set (cc_candidates c). cd_version d = Some q" using carry j(4) by (simp add: carries_all_def)
  ultimately show ?thesis using j by blast
qed

end

text \<open>The reads of \<^verbatim>\<open>bitbucket.py\<close> obey the laws, with any network behind them.\<close>

lemma since_filter_bound:
  "c \<in> set (since_filter (Some ms) cs) \<Longrightarrow> cm_timestamp_ms c = Some x \<Longrightarrow> ms \<le> x"
  by (auto simp: since_filter_def)

lemma commits_touching_filtered:
  "commits_touching nw r p since s = (Inr (Some cs), t) \<Longrightarrow> \<exists>xs. cs = since_filter since xs"
  by (auto simp: commits_touching_def Let_def elim!: bindM_InrE split: if_splits)

interpretation bb: source_reader "bitbucket_reader nw fuel" "ne_pattern nw" for nw fuel
proof unfold_locales
  show "rd_version_at (bitbucket_reader nw fuel) r ref s = (Inr (Some v), t) \<Longrightarrow> parse (ne_pattern nw) (Some v) \<noteq> None"
    for r ref s v t
    unfolding bitbucket_reader_def by (simp add: version_at_parses)
  show "rd_commits_touching (bitbucket_reader nw fuel) r p (Some ms) s = (Inr (Some cs), u) \<Longrightarrow> c \<in> set cs \<Longrightarrow>
      cm_timestamp_ms c = Some x \<Longrightarrow> ms \<le> x" for r p ms s cs u c x
    unfolding bitbucket_reader_def
    using commits_touching_filtered since_filter_bound by fastforce
qed


section \<open>Properties\<close>

text \<open>
  C33. "Nothing changed" is only said of files that were read. When the precheck answers NO_CHANGE it
  was switched on, the failure is of class A or B, at least one file of the call path was checked,
  and for every file it names the repository answered the question for commits since the failure
  with an empty list; a read that failed or raised never leads there.
\<close>

theorem no_change_needs_reads:
  assumes "evaluate rd env pat now failure at_ms bv rv s = (Inr c, t)" and "cc_verdict c = NO_CHANGE"
  shows "code_check_enabled env \<and> fa_failure_class failure \<in> {Some ''A'', Some ''B''} \<and>
    cc_paths_checked c \<noteq> [] \<and>
    (\<forall>p\<in>set (cc_paths_checked c). \<exists>r u v. rd_commits_touching rd r p at_ms u = (Inr (Some []), v))"
proof -
  obtain probes u where p: "probes_read rd at_ms probes" "judge_probes rd env pat now bv rv probes u = (Inr c, t)"
    and g: "code_check_enabled env" "fa_failure_class failure \<in> {Some ''A'', Some ''B''}"
    using evaluate_decided [OF assms(1)] assms(2) by auto
  from judge_no_change [OF p(2) assms(2)]
  have n: "cc_paths_checked c \<noteq> []"
    and f: "\<forall>q\<in>set (cc_paths_checked c). \<exists>pr\<in>set probes. mapped pr \<and> path_of pr = q \<and> pb_commits pr = Some []"
    by auto
  have "\<exists>r u v. rd_commits_touching rd r q at_ms u = (Inr (Some []), v)" if q: "q \<in> set (cc_paths_checked c)" for q
  proof -
    obtain pr where "pr \<in> set probes" "mapped pr" "path_of pr = q" "pb_commits pr = Some []" using f q by blast
    then have "was_read rd at_ms q (Some [])" using p(1) unfolding probes_read_def by metis
    then show ?thesis unfolding was_read_def .
  qed
  then show ?thesis using g n by blast
qed

text \<open>A repository with one mapped package: what its server answers to every request.\<close>

definition sample_env :: env where
  "sample_env k = map_of [(''DLT_CODE_CHECK_ENABLED'', ''true''), (''BITBUCKET_BASE_URL'', ''u''),
     (''BITBUCKET_TOKEN'', ''t''), (''DLT_REPO_MAP'', ''m'')] k"

definition sample_json :: "json \<Rightarrow> string \<Rightarrow> json option" where
  "sample_json commits x = map_of
     [(''m'', JObj [(''a'', JObj [(''project'', JStr ''P''), (''repo'', JStr ''r'')])]),
      (''c'', JObj [(''values'', commits)]),
      (''d'', JObj [(''values'', JArr [JObj [(''path'', JObj [(''toString'', JStr ''pom.xml'')])]])]),
      (''e'', JObj [(''values'', JArr [])])] x"

definition sample_text :: "request \<Rightarrow> string" where
  "sample_text rq =
     (if rq_raw rq then (if ends_with ''pom.xml'' (rq_path rq) then ''p'' else ''x'')
      else if ends_with ''/1/changes'' (rq_path rq) then ''d''
      else if ends_with ''/changes'' (rq_path rq) then ''e''
      else if jget (rq_params rq) ''path'' = JStr ''pom.xml'' then ''e'' else ''c'')"

definition sample_net :: "json \<Rightarrow> net" where
  "sample_net commits =
     \<lparr>ne_env = sample_env,
      ne_answer = (\<lambda>_ rq. Some \<lparr>rs_status = 200, rs_bytes = 1, rs_text = sample_text rq\<rparr>),
      ne_clock = (\<lambda>_. 0), ne_json = sample_json commits,
      ne_xml = (\<lambda>_. Some (Xml ''project'' None [Xml ''version'' (Some ''1.1'') []])),
      ne_iso = (\<lambda>_. None), ne_render = (\<lambda>_. []), ne_pattern = None\<rparr>"

definition sample_state :: bb_state where
  "sample_state = \<lparr>bs_sent = [], bs_commits = [], bs_changes = [], bs_texts = [], bs_listings = []\<rparr>"

definition sample_failure :: failure_rec where
  "sample_failure = \<lparr>fa_failure_class = Some ''B'',
     fa_locations = [\<lparr>fl_target = ''a.B.c'', fl_file = Some ''B.java'', fl_line = None\<rparr>]\<rparr>"

definition sample_check :: "json \<Rightarrow> code_check" where
  "sample_check commits =
     (case fst (evaluate (bitbucket_reader (sample_net commits) 3) sample_env None 0 sample_failure (Some 4)
                  [''1.0''] [''1.1''] sample_state) of Inr c \<Rightarrow> c | Inl _ \<Rightarrow> blank_check 0)"

definition sample_commit :: "string \<Rightarrow> json" where
  "sample_commit i = JObj [(''id'', JStr i), (''committerTimestamp'', JNum 5)]"

lemma sample_evaluate:
  "\<exists>t. evaluate (bitbucket_reader (sample_net commits) 3) sample_env None 0 sample_failure (Some 4)
     [''1.0''] [''1.1''] sample_state = (Inr (sample_check commits), t)"
proof -
  obtain c t where "evaluate (bitbucket_reader (sample_net commits) 3) sample_env None 0 sample_failure (Some 4)
      [''1.0''] [''1.1''] sample_state = (Inr c, t)"
    using evaluate_returns [of "bitbucket_reader (sample_net commits) 3" sample_env None 0 sample_failure "Some 4"
        "[''1.0'']" "[''1.1'']" sample_state] by auto
  then show ?thesis by (simp add: sample_check_def)
qed

theorem no_change_needs_reads_witness:
  "cc_verdict (sample_check (JArr [])) = NO_CHANGE \<and> cc_paths_checked (sample_check (JArr [])) \<noteq> []"
proof -
  have v: "cc_verdict (sample_check (JArr [])) = NO_CHANGE" by code_simp
  obtain t where "evaluate (bitbucket_reader (sample_net (JArr [])) 3) sample_env None 0 sample_failure (Some 4)
      [''1.0''] [''1.1''] sample_state = (Inr (sample_check (JArr [])), t)"
    using sample_evaluate by blast
  from no_change_needs_reads [OF this v] v show ?thesis by simp
qed

text \<open>
  C8. "The fix is running" is guarded on every side. When the precheck, reading through the
  repository client with any network behind it, answers FIX_DEPLOYED, then the lowest version of the
  failing build and the lowest running version are both known, the version required is strictly
  ahead of the former (the version did move) and the latter is at or beyond it, that version is the
  one of a candidate commit, no candidate has a newer one, every candidate version is well formed,
  and no candidate commit is dated before the failure.
\<close>

theorem fix_deployed_is_guarded:
  assumes "evaluate (bitbucket_reader nw fuel) env (ne_pattern nw) now failure at_ms bv rv s = (Inr c, t)"
    and "cc_verdict c = FIX_DEPLOYED"
  shows "\<exists>b run q. lowest_of (ne_pattern nw) bv = Some b \<and> lowest_of (ne_pattern nw) rv = Some run \<and>
      cc_required_version c = Some q \<and>
      is_ahead (ne_pattern nw) (VText (Some q)) (VObj b) = Some True \<and>
      at_least (ne_pattern nw) (VObj run) (VText (Some q)) = Some True \<and>
      (\<exists>d\<in>set (cc_candidates c). cd_version d = Some q) \<and>
      (\<forall>d\<in>set (cc_candidates c).
         (\<forall>v. cd_version d = Some v \<longrightarrow> parse (ne_pattern nw) (Some v) \<noteq> None \<and> \<not> newer_than (ne_pattern nw) v q) \<and>
         (\<forall>ms x. at_ms = Some ms \<longrightarrow> cd_timestamp_ms d = Some x \<longrightarrow> ms \<le> x))"
  using assms by (rule bb.deployed_fix)

theorem fix_deployed_is_guarded_witness:
  "cc_verdict (sample_check (JArr [sample_commit ''1''])) = FIX_DEPLOYED \<and>
   (\<exists>q. cc_required_version (sample_check (JArr [sample_commit ''1''])) = Some q)"
proof -
  have v: "cc_verdict (sample_check (JArr [sample_commit ''1''])) = FIX_DEPLOYED" by code_simp
  obtain t where "evaluate (bitbucket_reader (sample_net (JArr [sample_commit ''1''])) 3) sample_env
      (ne_pattern (sample_net (JArr [sample_commit ''1'']))) 0 sample_failure (Some 4)
      [''1.0''] [''1.1''] sample_state = (Inr (sample_check (JArr [sample_commit ''1''])), t)"
    using sample_evaluate [of "JArr [sample_commit ''1'']"] by (auto simp: sample_net_def)
  from fix_deployed_is_guarded [OF this v] v show ?thesis by auto
qed

text \<open>
  A candidate that no version carries yet is outvoted by one that was released: with two commits
  since the failure, the newer one never cut into a version and the older one released and running,
  the verdict is FIX_DEPLOYED, although not every candidate is deployed.
\<close>

theorem uncut_commit_is_outvoted:
  "cc_verdict (sample_check (JArr [sample_commit ''2'', sample_commit ''1''])) = FIX_DEPLOYED \<and>
   map cd_resolved_by (cc_candidates (sample_check (JArr [sample_commit ''2'', sample_commit ''1'']))) =
     [Never_cut, At_the_fix_commit]"
  by code_simp

end
