(* ===== verification/Auto_Replay.thy ===== *)
theory Auto_Replay
  imports Findings Code_Check
begin

text \<open>
  Automatic replay of a dead-lettered packet: \<^verbatim>\<open>src/dlt/auto_replay.py\<close>, and how the outcome of the
  replay tool is read (\<^verbatim>\<open>src/tools/tool_registry.py\<close>). The tool itself is an operation over its own
  state that may raise; its result is text, or anything else it returned (\<open>None\<close>). Reasons are
  constructors that carry what their text interpolates.
\<close>

section \<open>Settings\<close>

definition DEFAULT_REPLAY_ACTIONS :: "string list" where
  "DEFAULT_REPLAY_ACTIONS = [''REDRIVE_AFTER_RECOVERY'']"

definition auto_replay_enabled :: "env \<Rightarrow> bool" where
  "auto_replay_enabled env = get_bool_env env ''DLT_AUTO_REPLAY_ENABLED'' False"

definition confidence_threshold :: "env \<Rightarrow> rat" where
  "confidence_threshold env = float_env env ''DLT_REPLAY_CONFIDENCE_THRESHOLD'' (55/100)"

definition replay_actions :: "env \<Rightarrow> string list" where
  "replay_actions env =
     (let raw = py_strip (env_get env ''DLT_REPLAY_ACTIONS'' []);
          configured = filter (\<lambda>v. v \<noteq> []) (map py_strip (split_on CHR '','' raw))
      in if raw = [] then DEFAULT_REPLAY_ACTIONS
         else if configured = [] then DEFAULT_REPLAY_ACTIONS else configured)"

definition id_type :: "env \<Rightarrow> string" where
  "id_type env = env_get env ''DLT_REPLAY_ID_TYPE'' ''REFID''"

definition operator_name :: "env \<Rightarrow> string" where
  "operator_name env = env_get env ''DLT_REPLAY_OPERATOR_NAME'' ''dlt-analysis-auto''"

definition replay_category :: "env \<Rightarrow> string" where
  "replay_category env = env_get env ''DLT_REPLAY_CATEGORY'' ''DLT_REDRIVE''"

definition replay_priority :: "env \<Rightarrow> int" where
  "replay_priority env =
     (case env ''DLT_REPLAY_PRIORITY'' of None \<Rightarrow> 5
      | Some raw \<Rightarrow> (case py_int raw of None \<Rightarrow> 5 | Some n \<Rightarrow> n))"

definition from_seda_start :: "env \<Rightarrow> bool" where
  "from_seda_start env = get_bool_env env ''DLT_REPLAY_FROM_SEDA_START'' False"

definition code_check_gates_replay :: "env \<Rightarrow> bool" where
  "code_check_gates_replay env = get_bool_env env ''DLT_CODE_CHECK_GATES_REPLAY'' False"

definition allow_unverified :: "env \<Rightarrow> bool" where
  "allow_unverified env = get_bool_env env ''DLT_REPLAY_ALLOW_UNVERIFIED'' False"


section \<open>The decision\<close>

datatype veto = Veto_no_change check_reason | Veto_not_deployed "string option" check_reason

datatype replay_reason =
    Replay_off
  | Action_not_replayable string "string list"
  | No_confidence
  | Below_threshold rat rat
  | Not_corroborated
  | Not_reviewed
  | No_ref_id
  | Vetoed veto
  | Clears string rat rat

record replay_decision =
  rd_should_replay :: bool
  rd_reason :: replay_reason

definition code_check_veto :: "env \<Rightarrow> code_check option \<Rightarrow> veto option" where
  "code_check_veto env cc =
     (case cc of
        None \<Rightarrow> None
      | Some c \<Rightarrow>
          if \<not> code_check_gates_replay env then None
          else if cc_verdict c = NO_CHANGE then Some (Veto_no_change (cc_reason c))
          else if cc_verdict c = NOT_DEPLOYED then Some (Veto_not_deployed (cc_required_version c) (cc_reason c))
          else None)"

definition no_replay :: "replay_reason \<Rightarrow> replay_decision" where
  "no_replay r = \<lparr>rd_should_replay = False, rd_reason = r\<rparr>"

definition decide_replay :: "env \<Rightarrow> finding \<Rightarrow> string option \<Rightarrow> code_check option \<Rightarrow> replay_decision" where
  "decide_replay env f ref_id cc =
     (if \<not> auto_replay_enabled env then no_replay Replay_off
      else if fi_action f \<notin> set (replay_actions env)
      then no_replay (Action_not_replayable (fi_action f) (replay_actions env))
      else (case fi_confidence f of
              None \<Rightarrow> no_replay No_confidence
            | Some c \<Rightarrow>
                if c < confidence_threshold env then no_replay (Below_threshold c (confidence_threshold env))
                else if UNVERIFIABLE_LABEL \<in> set (fi_ceilings_applied f) \<and> \<not> allow_unverified env
                then no_replay Not_corroborated
                else if UNREVIEWED_LABEL \<in> set (fi_ceilings_applied f) then no_replay Not_reviewed
                else if ref_id = None \<or> ref_id = Some [] then no_replay No_ref_id
                else (case code_check_veto env cc of
                        Some v \<Rightarrow> no_replay (Vetoed v)
                      | None \<Rightarrow> \<lparr>rd_should_replay = True,
                                 rd_reason = Clears (fi_action f) c (confidence_threshold env)\<rparr>)))"


section \<open>The attempt\<close>

definition REPLAY_OK_PREFIX :: string where "REPLAY_OK_PREFIX = ''Successfully''"

definition replay_succeeded :: "string option \<Rightarrow> bool" where
  "replay_succeeded result \<longleftrightarrow> (case result of None \<Rightarrow> False | Some t \<Rightarrow> starts_with REPLAY_OK_PREFIX t)"

record replay_args =
  ra_id :: string
  ra_id_type :: string
  ra_priority :: int
  ra_operator_name :: string
  ra_category :: string
  ra_from_seda_start :: bool

datatype attempt_result = No_packet | Tool_raised exn | Tool_said "string option"

record attempt =
  at_queued :: bool
  at_result :: attempt_result
  at_args :: "replay_args option"

definition replay_args_of :: "env \<Rightarrow> string \<Rightarrow> replay_args" where
  "replay_args_of env ref_id =
     \<lparr>ra_id = ref_id, ra_id_type = id_type env, ra_priority = replay_priority env,
      ra_operator_name = operator_name env, ra_category = replay_category env,
      ra_from_seda_start = from_seda_start env\<rparr>"

definition attempt_replay ::
    "env \<Rightarrow> (replay_args \<Rightarrow> ('s, string option) io) \<Rightarrow> string option \<Rightarrow> ('s, attempt) io" where
  "attempt_replay env queue_for_replay ref_id =
     (case ref_id of
        None \<Rightarrow> ret \<lparr>at_queued = False, at_result = No_packet, at_args = None\<rparr>
      | Some r \<Rightarrow>
          if r = [] then ret \<lparr>at_queued = False, at_result = No_packet, at_args = None\<rparr>
          else (let args = replay_args_of env r
                in catchM
                     (bindM (queue_for_replay args) (\<lambda>result.
                        ret \<lparr>at_queued = replay_succeeded result, at_result = Tool_said result, at_args = Some args\<rparr>))
                     (\<lambda>e. ret \<lparr>at_queued = False, at_result = Tool_raised e, at_args = Some args\<rparr>)))"

text \<open>The \<^verbatim>\<open>replay\<close> block of a casebook.\<close>

record replay_block =
  rb_attempted :: bool
  rb_reason :: replay_reason
  rb_queued :: bool
  rb_attempt :: "attempt option"

definition maybe_replay ::
    "env \<Rightarrow> (replay_args \<Rightarrow> ('s, string option) io) \<Rightarrow> string option \<Rightarrow> finding \<Rightarrow> code_check option \<Rightarrow>
     ('s, replay_block) io" where
  "maybe_replay env queue_for_replay ref_id f cc =
     (let decision = decide_replay env f ref_id cc
      in if \<not> rd_should_replay decision
         then ret \<lparr>rb_attempted = False, rb_reason = rd_reason decision, rb_queued = False, rb_attempt = None\<rparr>
         else bindM (attempt_replay env queue_for_replay ref_id) (\<lambda>a.
                ret \<lparr>rb_attempted = True, rb_reason = rd_reason decision, rb_queued = at_queued a, rb_attempt = Some a\<rparr>))"


section \<open>Lemmas\<close>

lemma no_replay_sel [simp]: "rd_should_replay (no_replay r) = False"
  by (simp add: no_replay_def)

lemma decide_replay_iff:
  "rd_should_replay (decide_replay env f ref_id cc) \<longleftrightarrow>
     auto_replay_enabled env \<and> fi_action f \<in> set (replay_actions env) \<and>
     (\<exists>c. fi_confidence f = Some c \<and> confidence_threshold env \<le> c) \<and>
     (UNVERIFIABLE_LABEL \<in> set (fi_ceilings_applied f) \<longrightarrow> allow_unverified env) \<and>
     UNREVIEWED_LABEL \<notin> set (fi_ceilings_applied f) \<and>
     ref_id \<noteq> None \<and> ref_id \<noteq> Some [] \<and> code_check_veto env cc = None"
  by (auto simp: decide_replay_def split: option.split)

lemma attempt_total: "\<exists>a t. attempt_replay env q ref_id s = (Inr a, t)"
  by (auto simp: attempt_replay_def Let_def intro: catchM_total split: option.split)


section \<open>Properties\<close>

text \<open>
  Every condition is necessary, and together they are sufficient: a replay is decided exactly when
  the switch is on, the action is a replayable one, the confidence reaches the threshold, the finding
  is corroborated by runtime evidence (or that requirement is waived), was not refused by the
  reviewer, the packet has a reference id, and the precheck, where it may, does not veto it.
\<close>

theorem replay_needs_every_condition:
  "rd_should_replay (decide_replay env f ref_id cc) \<longleftrightarrow>
     auto_replay_enabled env \<and> fi_action f \<in> set (replay_actions env) \<and>
     (\<exists>c. fi_confidence f = Some c \<and> confidence_threshold env \<le> c) \<and>
     (UNVERIFIABLE_LABEL \<in> set (fi_ceilings_applied f) \<longrightarrow> allow_unverified env) \<and>
     UNREVIEWED_LABEL \<notin> set (fi_ceilings_applied f) \<and>
     ref_id \<noteq> None \<and> ref_id \<noteq> Some [] \<and>
     (\<forall>c. cc = Some c \<longrightarrow> code_check_gates_replay env \<longrightarrow> cc_verdict c \<notin> {NO_CHANGE, NOT_DEPLOYED})"
proof -
  have "code_check_veto env cc = None \<longleftrightarrow>
     (\<forall>c. cc = Some c \<longrightarrow> code_check_gates_replay env \<longrightarrow> cc_verdict c \<notin> {NO_CHANGE, NOT_DEPLOYED})"
    by (auto simp: code_check_veto_def split: option.split)
  then show ?thesis unfolding decide_replay_iff by simp
qed

definition replayable_finding :: finding where
  "replayable_finding =
     \<lparr>fi_narrative = ''n'', fi_discrepancy = None, fi_recommendation = ''r'', fi_action = ''REDRIVE_AFTER_RECOVERY'',
      fi_confidence = Some 1, fi_ceilings_applied = [''contradicted''], fi_abstained = False,
      fi_reviewer_approved = Some True\<rparr>"

definition replay_on :: env where
  "replay_on k = (if k \<in> {''DLT_AUTO_REPLAY_ENABLED'', ''DLT_CODE_CHECK_GATES_REPLAY''} then Some ''true'' else None)"

theorem replay_needs_every_condition_witness:
  "rd_should_replay (decide_replay replay_on replayable_finding (Some ''R1'') None) \<and>
   \<not> rd_should_replay (decide_replay replay_on replayable_finding (Some ''R1'') (Some ((blank_check 0)\<lparr>cc_verdict := NO_CHANGE\<rparr>)))"
proof -
  have "auto_replay_enabled replay_on" "code_check_gates_replay replay_on" "replay_actions replay_on = [''REDRIVE_AFTER_RECOVERY'']"
    by code_simp+
  moreover have "fi_confidence replayable_finding = Some 1 \<and> confidence_threshold replay_on \<le> 1" by code_simp
  ultimately show ?thesis
    using replay_needs_every_condition [of replay_on replayable_finding "Some ''R1''" None]
      replay_needs_every_condition [of replay_on replayable_finding "Some ''R1''" "Some ((blank_check 0)\<lparr>cc_verdict := NO_CHANGE\<rparr>)"]
    by (auto simp: replayable_finding_def UNVERIFIABLE_LABEL_def UNREVIEWED_LABEL_def)
qed

text \<open>
  C3. From the evidence to the replay: a finding that went through the confidence policy is replayed
  only if its logs verified it (or that is waived by the operator), its reviewer did not refuse it,
  every ceiling its evidence triggered reaches the replay threshold, and, for classes B and U, only if
  the operator made a routing action replayable; the precheck can take a replay away and never adds one.
\<close>

theorem policy_bounds_replay:
  assumes "rd_should_replay (decide_replay env (apply_dlt_confidence_policy env f ev) ref_id cc)"
  shows "(ev_corroboration ev = ''UNVERIFIABLE'' \<longrightarrow> allow_unverified env) \<and>
    fi_reviewer_approved f \<noteq> Some False \<and>
    (\<forall>v\<in>triggered env f ev. confidence_threshold env \<le> v) \<and>
    (ev_failure_class ev \<in> {''B'', ''U''} \<longrightarrow>
       set (replay_actions env) \<inter> {''NEEDS_MANUAL_REVIEW'', ''ROUTE_TO_DEV''} \<noteq> {}) \<and>
    rd_should_replay (decide_replay env (apply_dlt_confidence_policy env f ev) ref_id None)"
proof -
  let ?f = "apply_dlt_confidence_policy env f ev"
  from assms obtain c where d: "fi_action ?f \<in> set (replay_actions env)" "fi_confidence ?f = Some c"
      "confidence_threshold env \<le> c" "UNVERIFIABLE_LABEL \<in> set (fi_ceilings_applied ?f) \<longrightarrow> allow_unverified env"
      "UNREVIEWED_LABEL \<notin> set (fi_ceilings_applied ?f)"
    unfolding decide_replay_iff by blast
  have least: "c \<le> Min (triggered env f ev)" using d(2) by (auto simp: policy_fields ceilings_least)
  have fin: "finite (triggered env f ev)" by (simp add: triggered_def)
  have "confidence_threshold env \<le> v" if "v \<in> triggered env f ev" for v
    using d(3) least Min_le [OF fin that] by linarith
  moreover have "ev_corroboration ev = ''UNVERIFIABLE'' \<longrightarrow> UNVERIFIABLE_LABEL \<in> set (fi_ceilings_applied ?f)"
    "fi_reviewer_approved f = Some False \<longrightarrow> UNREVIEWED_LABEL \<in> set (fi_ceilings_applied ?f)"
    unfolding label_iff in_corroboration_labels by simp_all
  moreover have "ev_failure_class ev \<in> {''B'', ''U''} \<longrightarrow> fi_action ?f \<in> {''NEEDS_MANUAL_REVIEW'', ''ROUTE_TO_DEV''}"
    by (simp add: policy_fields)
  moreover have "rd_should_replay (decide_replay env ?f ref_id None)"
    using assms unfolding decide_replay_iff by (simp add: code_check_veto_def)
  ultimately show ?thesis using d by blast
qed

theorem policy_bounds_replay_witness:
  "confidence_threshold replay_on \<le> contradicted_ceiling replay_on"
proof -
  let ?ev = "\<lparr>ev_failure_class = ''A'', ev_corroboration = ''CONTRADICTED'', ev_registry_hit = True, ev_reused = False,
      ev_logs = [], ev_could_not_look = None\<rparr>"
  have "rd_should_replay (decide_replay replay_on (apply_dlt_confidence_policy replay_on replayable_finding ?ev) (Some ''R1'') None)"
    by code_simp
  from policy_bounds_replay [OF this] show ?thesis by (simp add: triggered_def)
qed

text \<open>
  The replay tool is called only on a positive decision, and then once; a failure of the tool is
  recorded, never raised. The casebook calls a packet queued only when the tool was called with the
  packet's own reference id and answered with its success text.
\<close>

theorem replay_is_recorded_truthfully:
  assumes "maybe_replay env queue_for_replay ref_id f cc s = (r, t)"
  shows "\<exists>b. r = Inr b \<and> (rb_attempted b \<longleftrightarrow> rd_should_replay (decide_replay env f ref_id cc)) \<and>
    (\<not> rb_attempted b \<longrightarrow> t = s) \<and>
    (rb_queued b \<longrightarrow> (\<exists>i answer. ref_id = Some i \<and> i \<noteq> [] \<and>
        queue_for_replay (replay_args_of env i) s = (Inr (Some answer), t) \<and> prefix REPLAY_OK_PREFIX answer))"
proof (cases "rd_should_replay (decide_replay env f ref_id cc)")
  case False
  then show ?thesis using assms by (auto simp: maybe_replay_def Let_def)
next
  case True
  then obtain i where i: "ref_id = Some i" "i \<noteq> []" unfolding decide_replay_iff by blast
  show ?thesis
  proof (cases "queue_for_replay (replay_args_of env i) s")
    case (Pair x u)
    define a where "a = (case x of
        Inl e \<Rightarrow> \<lparr>at_queued = False, at_result = Tool_raised e, at_args = Some (replay_args_of env i)\<rparr>
      | Inr result \<Rightarrow> \<lparr>at_queued = replay_succeeded result, at_result = Tool_said result, at_args = Some (replay_args_of env i)\<rparr>)"
    have "attempt_replay env queue_for_replay ref_id s = (Inr a, u)"
      using Pair i by (cases x) (simp_all add: attempt_replay_def Let_def bindM_def catchM_def a_def)
    then have "r = Inr \<lparr>rb_attempted = True, rb_reason = rd_reason (decide_replay env f ref_id cc),
        rb_queued = at_queued a, rb_attempt = Some a\<rparr>" "t = u"
      using assms True by (simp_all add: maybe_replay_def Let_def bindM_def)
    moreover have "\<exists>answer. x = Inr (Some answer) \<and> prefix REPLAY_OK_PREFIX answer" if "at_queued a"
      using that by (cases x) (auto simp: a_def replay_succeeded_def starts_with_prefix split: option.splits)
    ultimately show ?thesis using True Pair i by auto
  qed
qed

theorem replay_is_recorded_truthfully_witness:
  "\<exists>b t. maybe_replay replay_on (\<lambda>a n. (Inr (Some (''Successfully queued '' @ ra_id a)), Suc n)) (Some ''R1'')
       replayable_finding None 0 = (Inr b, t) \<and> rb_queued b \<and> t = 1"
proof -
  let ?q = "\<lambda>a n. (Inr (Some (''Successfully queued '' @ ra_id a)), Suc n)"
  have q: "map_sum id rb_queued (fst (maybe_replay replay_on ?q (Some ''R1'') replayable_finding None 0)) = Inr True"
    by code_simp
  obtain r t where rt: "maybe_replay replay_on ?q (Some ''R1'') replayable_finding None 0 = (r, t)"
    by (cases "maybe_replay replay_on ?q (Some ''R1'') replayable_finding None 0")
  from replay_is_recorded_truthfully [OF rt] obtain b where b: "r = Inr b"
    "rb_queued b \<longrightarrow> (\<exists>i answer. Some ''R1'' = Some i \<and> i \<noteq> [] \<and>
        ?q (replay_args_of replay_on i) 0 = (Inr (Some answer), t) \<and> prefix REPLAY_OK_PREFIX answer)"
    by blast
  with q rt have "rb_queued b" by simp
  with b rt show ?thesis by auto
qed

end
