(* ===== verification/Parked.thy ===== *)
theory Parked
  imports Auto_Replay Local_Storage Identity
begin

text \<open>
  Packets waiting for a deploy: \<^verbatim>\<open>src/dlt/parked.py\<close>. A parked replay is one document per case; the
  release worker replays it once the running version carries the fix.

  The state is a pair: the store of parked entries, and the world the replay tool acts on. The store
  is any backend, the properties are proved from the storage contract and stated for the local one.
  \<open>shown\<close> is the text of an attempt's result as the entry records it.
\<close>

section \<open>Two parts of the state\<close>

definition in_store :: "('s, 'a) io \<Rightarrow> ('s \<times> 'w, 'a) io" where
  "in_store m sw = (case m (fst sw) of (r, s) \<Rightarrow> (r, (s, snd sw)))"

definition in_world :: "('w, 'a) io \<Rightarrow> ('s \<times> 'w, 'a) io" where
  "in_world m sw = (case m (snd sw) of (r, w) \<Rightarrow> (r, (fst sw, w)))"


section \<open>Settings and shapes\<close>

definition PARKED_FILENAME :: string where "PARKED_FILENAME = ''parked_replay.json''"
definition STATUS_PARKED :: string where "STATUS_PARKED = ''parked''"
definition STATUS_RELEASED :: string where "STATUS_RELEASED = ''released''"
definition STATUS_EXPIRED :: string where "STATUS_EXPIRED = ''expired''"

definition park_enabled :: "env \<Rightarrow> bool" where
  "park_enabled env = get_bool_env env ''DLT_CODE_CHECK_PARK_ENABLED'' False"

definition parked_ttl_seconds :: "env \<Rightarrow> rat" where
  "parked_ttl_seconds env = max 0 (float_env env ''DLT_PARKED_REPLAY_TTL_SECONDS'' (30 * 24 * 3600))"

definition parked_cap :: "env \<Rightarrow> int" where
  "parked_cap env = int_env_at_least env ''DLT_PARKED_REPLAY_CAP'' 1 500"

datatype park_reason =
    Parking_off
  | No_ref_id_to_replay
  | Not_going_to_be_replayed
  | No_version_named
  | Unusable_case_id
  | At_cap int
  | Park_raised exn
  | Already_waiting json
  | Already json
  | Waiting_for string

record park_result =
  pk_parked :: bool
  pk_reason :: park_reason

definition refuse :: "park_reason \<Rightarrow> park_result" where
  "refuse r = \<lparr>pk_parked = False, pk_reason = r\<rparr>"


section \<open>Parking\<close>

definition usable_key :: "string \<Rightarrow> bool" where
  "usable_key case_id \<longleftrightarrow> case_id \<noteq> [] \<and> fullmatch_event_id (py_strip case_id)"

definition would_replay_but_for_the_version :: "env \<Rightarrow> finding \<Rightarrow> string option \<Rightarrow> code_check option \<Rightarrow> bool" where
  "would_replay_but_for_the_version env f ref_id cc \<longleftrightarrow>
     (case cc of None \<Rightarrow> False | Some c \<Rightarrow> cc_verdict c = NOT_DEPLOYED) \<and>
     code_check_gates_replay env \<and> rd_should_replay (decide_replay env f ref_id None)"

definition status_of :: "doc \<Rightarrow> json" where
  "status_of entry = jget entry ''status''"

definition already_parked :: "doc \<Rightarrow> park_result" where
  "already_parked entry =
     (if status_of entry = JStr STATUS_PARKED
      then \<lparr>pk_parked = True, pk_reason = Already_waiting (jget entry ''required_version'')\<rparr>
      else refuse (Already (py_or (status_of entry) (JStr ''recorded''))))"

definition load_entry :: "'s storage \<Rightarrow> string \<Rightarrow> ('s, doc option) io" where
  "load_entry sto case_id = catchM (st_load sto case_id PARKED_FILENAME) (\<lambda>_. ret None)"

definition add_entry :: "'s storage \<Rightarrow> string \<Rightarrow> doc list \<Rightarrow> ('s, doc list) io" where
  "add_entry sto key out =
     bindM (load_entry sto key) (\<lambda>entry.
       ret (case entry of
              None \<Rightarrow> out
            | Some e \<Rightarrow> if e = [] then out else out @ [jset ''case_id'' (py_or (jget e ''case_id'') (JStr key)) e]))"

definition entries :: "'s storage \<Rightarrow> ('s, doc list) io" where
  "entries sto =
     bindM (catchM (bindM (st_list_events sto) (\<lambda>ids. ret (Some ids))) (\<lambda>_. ret None)) (\<lambda>ids.
       case ids of None \<Rightarrow> ret [] | Some keys \<Rightarrow> foldM (add_entry sto) keys [])"

definition waiting :: "'s storage \<Rightarrow> ('s, nat) io" where
  "waiting sto =
     catchM (bindM (entries sto) (\<lambda>es. ret (length (filter (\<lambda>e. status_of e = JStr STATUS_PARKED) es)))) (\<lambda>_. ret 0)"

definition parked_entry :: "rat \<Rightarrow> string \<Rightarrow> string \<Rightarrow> string \<Rightarrow> code_check \<Rightarrow> finding \<Rightarrow> doc" where
  "parked_entry now case_id ref_id required c f =
     [(''case_id'', JStr case_id), (''ref_id'', JStr ref_id), (''required_version'', JStr required),
      (''baseline_version'', jopt (cc_baseline_version c)),
      (''running_version_when_parked'', jopt (cc_running_version c)),
      (''repo'', jopt (cc_repo c)), (''path'', jopt (cc_path c)), (''action'', JStr (fi_action f)),
      (''parked_at'', JNum now), (''status'', JStr STATUS_PARKED)]"

definition park ::
    "env \<Rightarrow> rat \<Rightarrow> 's storage \<Rightarrow> string \<Rightarrow> string option \<Rightarrow> code_check \<Rightarrow> finding \<Rightarrow> ('s, park_result) io" where
  "park env now sto case_id ref_id c f =
     (case cc_required_version c of
        None \<Rightarrow> ret (refuse No_version_named)
      | Some required \<Rightarrow>
          if required = [] then ret (refuse No_version_named)
          else if \<not> usable_key case_id then ret (refuse Unusable_case_id)
          else if ref_id = None \<or> ref_id = Some [] then ret (refuse No_ref_id_to_replay)
          else bindM (load_entry sto case_id) (\<lambda>existing.
            if existing \<noteq> None \<and> existing \<noteq> Some []
            then ret (already_parked (the existing))
            else bindM (waiting sto) (\<lambda>n.
              if int n \<ge> parked_cap env
              then ret (refuse (At_cap (parked_cap env)))
              else (let entry = parked_entry now case_id (the ref_id) required c f
                    in bindM (catchM (bindM (st_create_json sto case_id PARKED_FILENAME entry) (\<lambda>b. ret (Inr b)))
                                (\<lambda>e. ret (Inl e))) (\<lambda>created.
                         case created of
                           Inl e \<Rightarrow> ret (refuse (Park_raised e))
                         | Inr True \<Rightarrow> ret \<lparr>pk_parked = True, pk_reason = Waiting_for required\<rparr>
                         | Inr False \<Rightarrow>
                             bindM (load_entry sto case_id) (\<lambda>there.
                               ret (already_parked (case there of None \<Rightarrow> entry | Some d \<Rightarrow> if d = [] then entry else d))))))))"

definition maybe_park ::
    "env \<Rightarrow> rat \<Rightarrow> 's storage \<Rightarrow> string \<Rightarrow> string option \<Rightarrow> code_check option \<Rightarrow> finding \<Rightarrow> ('s, park_result) io" where
  "maybe_park env now sto case_id ref_id cc f =
     (if \<not> park_enabled env then ret (refuse Parking_off)
      else if ref_id = None \<or> ref_id = Some [] then ret (refuse No_ref_id_to_replay)
      else if \<not> would_replay_but_for_the_version env f ref_id cc then ret (refuse Not_going_to_be_replayed)
      else (case cc of None \<Rightarrow> ret (refuse No_version_named) | Some c \<Rightarrow> park env now sto case_id ref_id c f))"


section \<open>Releasing\<close>

text \<open>The sort key is the number \<open>park\<close> wrote, and zero where there is none.\<close>

definition list_parked :: "'s storage \<Rightarrow> bool \<Rightarrow> ('s, doc list) io" where
  "list_parked sto include_finished =
     bindM (entries sto) (\<lambda>es.
       ret (sort_key (\<lambda>e. case jget e ''parked_at'' of JNum r \<Rightarrow> r | _ \<Rightarrow> 0)
              (if include_finished then es else filter (\<lambda>e. status_of e = JStr STATUS_PARKED) es)))"

definition mark :: "'s storage \<Rightarrow> doc \<Rightarrow> string option \<Rightarrow> doc \<Rightarrow> ('s, unit) io" where
  "mark sto entry status extra =
     catchM
       (case jget entry ''case_id'' of
          JStr case_id \<Rightarrow>
            st_save sto case_id
              (jmerge (case status of None \<Rightarrow> entry | Some st \<Rightarrow> jset ''status'' (JStr st) entry) extra) PARKED_FILENAME
        | _ \<Rightarrow> raise TypeError)
       (\<lambda>_. ret ())"

datatype release_outcome = Expired | Unknown_version | Still_waiting | Would_release | Released | Release_failed attempt_result

record summary =
  su_running_version :: "string option"
  su_examined :: nat
  su_released :: nat
  su_failed :: nat
  su_expired :: nat
  su_waiting :: nat
  su_unknown :: nat
  su_entries :: "(json \<times> json \<times> release_outcome) list"

definition tally :: "doc \<Rightarrow> release_outcome \<Rightarrow> summary \<Rightarrow> summary" where
  "tally entry out su0 =
     (let su = su0\<lparr>su_examined := su_examined su0 + 1,
                   su_entries := su_entries su0 @ [(jget entry ''case_id'', jget entry ''ref_id'', out)]\<rparr>
      in case out of
           Expired \<Rightarrow> su\<lparr>su_expired := su_expired su + 1\<rparr>
         | Unknown_version \<Rightarrow> su\<lparr>su_unknown := su_unknown su + 1\<rparr>
         | Still_waiting \<Rightarrow> su\<lparr>su_waiting := su_waiting su + 1\<rparr>
         | Would_release \<Rightarrow> su\<lparr>su_released := su_released su + 1\<rparr>
         | Released \<Rightarrow> su\<lparr>su_released := su_released su + 1\<rparr>
         | Release_failed r \<Rightarrow> su\<lparr>su_failed := su_failed su + 1\<rparr>)"

record release_call =
  rl_env :: env
  rl_now :: rat
  rl_pattern :: "pattern option"
  rl_running :: "version option"
  rl_dry_run :: bool
  rl_shown :: "attempt_result \<Rightarrow> string"

definition expired :: "release_call \<Rightarrow> rat \<Rightarrow> bool" where
  "expired rl parked_at \<longleftrightarrow>
     parked_ttl_seconds (rl_env rl) > 0 \<and> rl_now rl - parked_at > parked_ttl_seconds (rl_env rl)"

definition satisfied :: "release_call \<Rightarrow> doc \<Rightarrow> bool option" where
  "satisfied rl entry =
     at_least (rl_pattern rl) (case rl_running rl of None \<Rightarrow> VText None | Some v \<Rightarrow> VObj v)
       (VText (json_str (jget entry ''required_version'')))"

definition release_entry ::
    "release_call \<Rightarrow> 's storage \<Rightarrow> (replay_args \<Rightarrow> ('w, string option) io) \<Rightarrow> doc \<Rightarrow> summary \<Rightarrow>
     ('s \<times> 'w, summary) io" where
  "release_entry rl sto queue_for_replay entry su =
     bindM (of_result (json_float (py_or (jget entry ''parked_at'') (JNum (rl_now rl))))) (\<lambda>parked_at.
       if expired rl parked_at
       then bindM (if rl_dry_run rl then ret ()
                   else in_store (mark sto entry (Some STATUS_EXPIRED) [(''expired_at'', JNum (rl_now rl))])) (\<lambda>_.
              ret (tally entry Expired su))
       else (case satisfied rl entry of
               None \<Rightarrow> ret (tally entry Unknown_version su)
             | Some False \<Rightarrow> ret (tally entry Still_waiting su)
             | Some True \<Rightarrow>
                 if rl_dry_run rl then ret (tally entry Would_release su)
                 else bindM (in_world (attempt_replay (rl_env rl) queue_for_replay (json_str (jget entry ''ref_id''))))
                        (\<lambda>a.
                          if at_queued a
                          then bindM (in_store (mark sto entry (Some STATUS_RELEASED)
                                        [(''released_at'', JNum (rl_now rl)),
                                         (''released_at_version'', jopt (map_option ver_raw (rl_running rl))),
                                         (''release_result'', JStr (rl_shown rl (at_result a)))])) (\<lambda>_.
                                 ret (tally entry Released su))
                          else bindM (in_store (mark sto entry None
                                        [(''last_release_attempt_at'', JNum (rl_now rl)),
                                         (''last_release_result'', JStr (rl_shown rl (at_result a)))])) (\<lambda>_.
                                 ret (tally entry (Release_failed (at_result a)) su)))))"

definition release_ready ::
    "env \<Rightarrow> rat \<Rightarrow> pattern option \<Rightarrow> (attempt_result \<Rightarrow> string) \<Rightarrow> 's storage \<Rightarrow>
     (replay_args \<Rightarrow> ('w, string option) io) \<Rightarrow> string list \<Rightarrow> bool \<Rightarrow> ('s \<times> 'w, summary) io" where
  "release_ready env now pat shown sto queue_for_replay running_versions dry_run =
     (let running = lowest_of pat running_versions;
          rl = \<lparr>rl_env = env, rl_now = now, rl_pattern = pat, rl_running = running, rl_dry_run = dry_run, rl_shown = shown\<rparr>
      in bindM (in_store (list_parked sto False)) (\<lambda>es.
           foldM (release_entry rl sto queue_for_replay) es
             \<lparr>su_running_version = map_option ver_raw running, su_examined = 0, su_released = 0, su_failed = 0,
              su_expired = 0, su_waiting = 0, su_unknown = 0, su_entries = []\<rparr>))"


section \<open>Parking over the storage contract\<close>

lemma pureM_foldM:
  assumes "\<And>x b. pureM (f x b)"
  shows "pureM (foldM f xs b)"
  using assms by (induction xs arbitrary: b) (auto intro!: pureM_bindM)

context casebook_storage
begin

lemma load_entry_pure: "pureM (load_entry sto e)"
  unfolding load_entry_def by (intro pureM_catchM load_pure pureM_ret)

lemma entries_pure: "pureM (entries sto)"
  unfolding entries_def
proof (intro pureM_bindM pureM_catchM list_pure pureM_ret)
  show "pureM (case ids of None \<Rightarrow> ret [] | Some keys \<Rightarrow> foldM (add_entry sto) keys [])" for ids
    unfolding add_entry_def
    by (cases ids) (auto intro!: pureM_foldM pureM_bindM load_entry_pure)
qed

lemma waiting_pure: "pureM (waiting sto)"
  unfolding waiting_def by (intro pureM_catchM pureM_bindM entries_pure pureM_ret)

text \<open>
  The two ways a call to \<open>park\<close> ends: it read the store and left it as it is, or it tried to create
  the entry.
\<close>

lemma park_cases:
  assumes "park env now sto e ref_id c f s = (r, t)"
  obtains (read_only) "t = s" "\<And>x. r = Inr x \<Longrightarrow> pk_parked x \<Longrightarrow> \<exists>d. load_entry sto e s = (Inr (Some d), s)"
  | (tried) entry x where "st_create_json sto e PARKED_FILENAME entry s = (x, t)"
      "\<And>y. r = Inr y \<Longrightarrow> pk_parked y \<Longrightarrow> (\<exists>b. x = Inr b)"
proof -
  let ?early = "cc_required_version c = None \<or> cc_required_version c = Some [] \<or> \<not> usable_key e \<or>
    ref_id = None \<or> ref_id = Some []"
  show ?thesis
  proof (cases ?early)
    case True
    then show ?thesis
      using assms by (intro read_only) (auto simp: park_def refuse_def split: option.splits if_splits)
  next
    case False
    then obtain required where req: "cc_required_version c = Some required" "required \<noteq> []" by auto
    obtain le where le: "load_entry sto e s = (le, s)" by (metis load_entry_pure pureM_state prod.collapse)
    have total: "\<exists>x. le = Inr x" using le by (auto simp: load_entry_def catchM_def split: prod.splits sum.splits)
    then obtain existing where ex: "le = Inr existing" by blast
    show ?thesis
    proof (cases "existing \<noteq> None \<and> existing \<noteq> Some []")
      case True
      then have "r = Inr (already_parked (the existing))" "t = s"
        using assms False req le ex by (auto simp: park_def bindM_def)
      then show ?thesis using True le ex by (intro read_only) auto
    next
      case nonex: False
      obtain es where es: "waiting sto s = (es, s)" by (metis waiting_pure pureM_state prod.collapse)
      define entry where "entry = parked_entry now e (the ref_id) required c f"
      obtain x u where x: "st_create_json sto e PARKED_FILENAME entry s = (x, u)"
        by (cases "st_create_json sto e PARKED_FILENAME entry s")
      show ?thesis
      proof (cases "\<exists>n. es = Inr n \<and> int n < parked_cap env")
        case False2: False
        then have "t = s \<and> (\<forall>y. r = Inr y \<longrightarrow> \<not> pk_parked y)"
          using assms False req le ex nonex es
          by (cases es) (auto simp: park_def bindM_def refuse_def)
        then show ?thesis by (intro read_only) auto
      next
        case True
        then obtain l where l: "es = Inr l" "\<not> int l \<ge> parked_cap env"
          by auto
        have "t = u \<and> (\<forall>y. r = Inr y \<longrightarrow> pk_parked y \<longrightarrow> (\<exists>b. x = Inr b))"
        proof (cases x)
          case (Inl z)
          then show ?thesis
            using assms False req le ex nonex es l x
            by (auto simp: park_def bindM_def catchM_def refuse_def Let_def entry_def)
        next
          case (Inr b)
          obtain le2 where le2: "load_entry sto e u = (le2, u)" by (metis load_entry_pure pureM_state prod.collapse)
          have "\<exists>x. le2 = Inr x" using le2 by (auto simp: load_entry_def catchM_def split: prod.splits sum.splits)
          then show ?thesis
            using assms False req le ex nonex es l x Inr le2
            by (cases b) (auto simp: park_def bindM_def catchM_def Let_def entry_def)
        qed
        then show ?thesis using x tried [of entry x] by blast
      qed
    qed
  qed
qed

text \<open>An entry that is there, whatever its status, survives every later park of its case.\<close>

lemma park_keeps_entry:
  assumes "key_ok e PARKED_FILENAME" and "taken s e PARKED_FILENAME" and "park env now sto e ref_id c f s = (r, t)"
  shows "view t e PARKED_FILENAME = view s e PARKED_FILENAME"
  using assms(3)
proof (cases rule: park_cases)
  case read_only
  then show ?thesis by simp
next
  case (tried entry x)
  then show ?thesis using create_once [OF assms(1,2) tried(1)] by simp
qed

lemma park_leaves_entry:
  assumes "key_ok e PARKED_FILENAME" and "park env now sto e ref_id c f s = (Inr y, t)" and "pk_parked y"
  shows "taken t e PARKED_FILENAME"
  using assms(2)
proof (cases rule: park_cases)
  case read_only
  then obtain d where "load_entry sto e s = (Inr (Some d), s)" using assms(3) by blast
  then have "st_load sto e PARKED_FILENAME s = (Inr (Some d), s)"
    unfolding load_entry_def by (auto elim!: catchM_cases)
  then show ?thesis using load_view [OF assms(1)] view_taken read_only(1) by fastforce
next
  case (tried entry x)
  then obtain b where "x = Inr b" using assms(3) by blast
  then show ?thesis using create_taken [OF assms(1)] tried(1) by blast
qed

text \<open>Marking an entry writes its status over it and touches no other entry.\<close>

lemma mark_released:
  assumes "key_ok e PARKED_FILENAME" and "jget entry ''case_id'' = JStr e"
    and "st_save sto e (jmerge (jset ''status'' (JStr st) entry) extra) PARKED_FILENAME s = (Inr u, t)"
    and "''status'' \<notin> fst ` set extra"
  shows "mark sto entry (Some st) extra s = (Inr (), t) \<and>
    (\<exists>d. view t e PARKED_FILENAME = Some d \<and> status_of d = JStr st)"
proof -
  obtain d where d: "same_fields (jmerge (jset ''status'' (JStr st) entry) extra) d" "view t e PARKED_FILENAME = Some d"
    using save_done [OF assms(1,3)] by blast
  have "status_of d = JStr st"
    using same_fields_jget [OF d(1), of "''status''"] assms(4) by (simp add: status_of_def jget_jmerge_notin)
  moreover have "mark sto entry (Some st) extra s = (Inr (), t)"
    using assms(2,3) by (simp add: mark_def catchM_def)
  ultimately show ?thesis using d(2) by blast
qed

end

section \<open>Releasing, entry by entry\<close>

lemma in_store_world: "in_store m sw = (r, sw') \<Longrightarrow> snd sw' = snd sw"
  by (auto simp: in_store_def split: prod.splits)

definition releases :: "release_call \<Rightarrow> doc \<Rightarrow> bool" where
  "releases rl entry \<longleftrightarrow> \<not> rl_dry_run rl \<and> satisfied rl entry = Some True \<and>
     (\<exists>parked_at. json_float (py_or (jget entry ''parked_at'') (JNum (rl_now rl))) = Inr parked_at \<and> \<not> expired rl parked_at)"

lemma mark_world:
  assumes "bindM (if c then ret () else in_store (mark sto entry st extra)) (\<lambda>_. ret x) sw = (r, sw')"
  shows "snd sw' = snd sw" and "c \<Longrightarrow> sw' = sw"
  using assms by (auto elim!: bindM_cases dest: in_store_world split: if_splits)

text \<open>The replay tool acts only for an entry that is due.\<close>

lemma release_entry_world:
  assumes "release_entry rl sto q entry su sw = (r, sw')"
  shows "snd sw' \<noteq> snd sw \<Longrightarrow> releases rl entry" and "rl_dry_run rl \<Longrightarrow> sw' = sw"
proof -
  let ?at = "json_float (py_or (jget entry ''parked_at'') (JNum (rl_now rl)))"
  have "(snd sw' \<noteq> snd sw \<longrightarrow> releases rl entry) \<and> (rl_dry_run rl \<longrightarrow> sw' = sw)"
  proof (cases ?at)
    case (Inl x)
    then show ?thesis using assms by (simp add: release_entry_def)
  next
    case (Inr p)
    show ?thesis
    proof (cases "expired rl p")
      case True
      then have m: "bindM (if rl_dry_run rl then ret ()
            else in_store (mark sto entry (Some STATUS_EXPIRED) [(''expired_at'', JNum (rl_now rl))]))
          (\<lambda>_. ret (tally entry Expired su)) sw = (r, sw')"
        using assms Inr by (simp add: release_entry_def)
      show ?thesis using mark_world [OF m] by simp
    next
      case False
      then show ?thesis using assms Inr
        by (cases "satisfied rl entry = Some True \<and> \<not> rl_dry_run rl")
          (auto simp: release_entry_def releases_def split: option.splits bool.splits if_splits)
    qed
  qed
  then show "snd sw' \<noteq> snd sw \<Longrightarrow> releases rl entry" and "rl_dry_run rl \<Longrightarrow> sw' = sw" by auto
qed

lemma release_fold_world:
  assumes "foldM (release_entry rl sto q) es su sw = (r, sw')"
  shows "snd sw' \<noteq> snd sw \<Longrightarrow> \<exists>e\<in>set es. releases rl e" and "rl_dry_run rl \<Longrightarrow> sw' = sw"
proof -
  have "(snd sw' \<noteq> snd sw \<longrightarrow> (\<exists>e\<in>set es. releases rl e)) \<and> (rl_dry_run rl \<longrightarrow> sw' = sw)"
    using assms
  proof (induction es arbitrary: su sw)
    case Nil
    then show ?case by simp
  next
    case (Cons e es)
    from Cons.prems [unfolded foldM.simps] show ?case
    proof (cases rule: bindM_cases)
      case (exn x)
      show ?thesis using release_entry_world [OF exn(1)] by auto
    next
      case (val su' u)
      show ?thesis using release_entry_world [OF val(1)] Cons.IH [OF val(2)] by auto
    qed
  qed
  then show "snd sw' \<noteq> snd sw \<Longrightarrow> \<exists>e\<in>set es. releases rl e" and "rl_dry_run rl \<Longrightarrow> sw' = sw" by auto
qed

definition accounted :: "summary \<Rightarrow> nat" where
  "accounted su = su_released su + su_failed su + su_expired su + su_waiting su + su_unknown su"

lemma tally_accounts:
  "su_examined (tally e out su) = Suc (su_examined su)" "accounted (tally e out su) = Suc (accounted su)"
  "length (su_entries (tally e out su)) = Suc (length (su_entries su))"
  by (auto simp: tally_def accounted_def Let_def split: release_outcome.split)

lemma release_entry_tally:
  assumes "release_entry rl sto q entry su sw = (Inr su', sw')"
  obtains out where "su' = tally entry out su"
  using assms unfolding release_entry_def
  by (auto elim!: bindM_InrE split: if_splits option.splits bool.splits)

lemma release_fold_accounts:
  assumes "foldM (release_entry rl sto q) es su sw = (Inr su', sw')"
  shows "su_examined su' = su_examined su + length es \<and> accounted su' = accounted su + length es \<and>
    length (su_entries su') = length (su_entries su) + length es"
  using assms
proof (induction es arbitrary: su sw)
  case Nil
  then show ?case by simp
next
  case (Cons e es)
  then obtain su1 u where 1: "release_entry rl sto q e su sw = (Inr su1, u)"
    and 2: "foldM (release_entry rl sto q) es su1 u = (Inr su', sw')"
    by (auto elim: bindM_InrE)
  obtain out where "su1 = tally e out su" by (rule release_entry_tally [OF 1])
  then show ?case using Cons.IH [OF 2] by (simp add: tally_accounts)
qed

text \<open>The list the release worker goes through.\<close>

lemma listed_are_parked:
  assumes "list_parked sto False s = (Inr es, t)" and "e \<in> set es"
  shows "status_of e = JStr STATUS_PARKED"
  using assms by (auto simp: list_parked_def elim!: bindM_InrE)

lemma release_ready_run:
  assumes "release_ready env now pat shown (local_storage base) q running_versions dry_run (s, w) = (r, (s', w'))"
  obtains (unlisted) x where "list_parked (local_storage base) False s = (Inl x, s)" "s' = s" "w' = w" "r = Inl x"
  | (listed) es where "list_parked (local_storage base) False s = (Inr es, s)"
      "foldM (release_entry \<lparr>rl_env = env, rl_now = now, rl_pattern = pat, rl_running = lowest_of pat running_versions,
          rl_dry_run = dry_run, rl_shown = shown\<rparr> (local_storage base) q) es
        \<lparr>su_running_version = map_option ver_raw (lowest_of pat running_versions), su_examined = 0, su_released = 0,
         su_failed = 0, su_expired = 0, su_waiting = 0, su_unknown = 0, su_entries = []\<rparr> (s, w) = (r, (s', w'))"
proof -
  have "pureM (list_parked (local_storage base) False)"
    unfolding list_parked_def by (intro pureM_bindM loc.entries_pure pureM_ret)
  then obtain l where l: "list_parked (local_storage base) False s = (l, s)"
    by (metis pureM_state prod.collapse)
  show ?thesis
  proof (cases l)
    case (Inl x)
    then show ?thesis using unlisted assms l by (simp add: release_ready_def in_store_def bindM_def Let_def)
  next
    case (Inr es)
    then show ?thesis using listed assms l by (simp add: release_ready_def in_store_def bindM_def Let_def)
  qed
qed

lemma slash_strip: "CHR ''/'' \<in> set s \<Longrightarrow> CHR ''/'' \<in> set (py_strip s)"
proof -
  have d: "CHR ''/'' \<in> set (dropWhile is_space s)" if "CHR ''/'' \<in> set s" for s
    using that by (induction s) (auto simp: is_space_def)
  assume "CHR ''/'' \<in> set s"
  then show ?thesis using d [of s] d [of "rev (dropWhile is_space s)"]
    by (simp add: py_strip_def lstrip_def rstrip_def)
qed

lemma usable_key_ok: "usable_key e \<Longrightarrow> local_key_ok e PARKED_FILENAME"
proof -
  assume "usable_key e"
  then have "CHR ''/'' \<notin> set (py_strip e)"
    by (auto simp: usable_key_def fullmatch_event_id_def list_all_iff id_char_def is_digit_nat less_eq_char_def)
  then have "CHR ''/'' \<notin> set e" using slash_strip by blast
  then show ?thesis
    by (auto simp: local_key_ok_def PARKED_FILENAME_def proper_name_def ends_with_def)
qed

lemma maybe_park_park:
  assumes "maybe_park env now sto e ref_id cc f s = (Inr y, t)" and "pk_parked y"
  obtains c where "cc = Some c" "cc_verdict c = NOT_DEPLOYED" "would_replay_but_for_the_version env f ref_id cc"
    "park env now sto e ref_id c f s = (Inr y, t)" "usable_key e"
proof -
  have w: "would_replay_but_for_the_version env f ref_id cc"
    using assms by (auto simp: maybe_park_def refuse_def split: if_splits)
  then obtain c where c: "cc = Some c" "cc_verdict c = NOT_DEPLOYED"
    by (auto simp: would_replay_but_for_the_version_def split: option.splits)
  have p: "park env now sto e ref_id c f s = (Inr y, t)"
    using assms w c by (auto simp: maybe_park_def refuse_def split: if_splits)
  have "usable_key e" using p assms(2) by (auto simp: park_def refuse_def split: option.splits if_splits)
  then show ?thesis using that w c p by blast
qed

section \<open>Properties\<close>

text \<open>
  C14. A packet is reported parked only when the version is all that is missing: the precheck said the
  change is not deployed, the replay decision without the precheck is yes and with it is no; and then an
  entry for the case is in the store. Parking is no second way to replay what would not be replayed.
\<close>

theorem parking_needs_only_the_version:
  assumes "maybe_park env now (local_storage base) case_id ref_id cc f s = (Inr y, t)" and "pk_parked y"
  shows "park_enabled env \<and> (\<exists>c. cc = Some c \<and> cc_verdict c = NOT_DEPLOYED) \<and>
    rd_should_replay (decide_replay env f ref_id None) \<and> \<not> rd_should_replay (decide_replay env f ref_id cc) \<and>
    local_taken base t case_id PARKED_FILENAME"
proof -
  obtain c where c: "cc = Some c" "cc_verdict c = NOT_DEPLOYED" "would_replay_but_for_the_version env f ref_id cc"
    "park env now (local_storage base) case_id ref_id c f s = (Inr y, t)" "usable_key case_id"
    by (rule maybe_park_park [OF assms])
  have "park_enabled env" using assms by (auto simp: maybe_park_def refuse_def split: if_splits)
  moreover have "\<not> rd_should_replay (decide_replay env f ref_id cc)"
    using c(1,2,3) unfolding decide_replay_iff
    by (simp add: code_check_veto_def would_replay_but_for_the_version_def)
  moreover have "local_taken base t case_id PARKED_FILENAME"
    by (rule loc.park_leaves_entry [OF usable_key_ok [OF c(5)] c(4) assms(2)])
  ultimately show ?thesis using c(1,2,3) by (simp add: would_replay_but_for_the_version_def)
qed

definition parking_on :: env where
  "parking_on k = (if k = ''DLT_CODE_CHECK_PARK_ENABLED'' then Some ''true'' else replay_on k)"

definition waiting_check :: code_check where
  "waiting_check = (blank_check 0)\<lparr>cc_verdict := NOT_DEPLOYED, cc_required_version := Some ''1.2.0''\<rparr>"

theorem parking_needs_only_the_version_witness:
  "\<exists>y t. maybe_park parking_on 5 (local_storage [''parked'']) ''c1'' (Some ''R1'') (Some waiting_check)
       replayable_finding empty_disk = (Inr y, t) \<and> pk_parked y \<and> local_taken [''parked''] t ''c1'' PARKED_FILENAME"
proof -
  let ?r = "maybe_park parking_on 5 (local_storage [''parked'']) ''c1'' (Some ''R1'') (Some waiting_check)
      replayable_finding empty_disk"
  have p: "map_sum id pk_parked (fst ?r) = Inr True" by code_simp
  obtain x t where x: "?r = (x, t)" by (cases ?r)
  with p obtain y where y: "?r = (Inr y, t)" "pk_parked y" by (cases x) auto
  from parking_needs_only_the_version [OF y] y show ?thesis by blast
qed

text \<open>
  Parking never revives an entry: whatever status an entry of the case has, waiting, released or
  expired, it is left exactly as it is by every later attempt to park the case.
\<close>

theorem parking_never_revives:
  assumes "usable_key case_id" and "local_taken base s case_id PARKED_FILENAME"
    and "maybe_park env now (local_storage base) case_id ref_id cc f s = (r, t)"
  shows "local_view base t case_id PARKED_FILENAME = local_view base s case_id PARKED_FILENAME"
proof (cases "\<exists>c. park env now (local_storage base) case_id ref_id c f s = (r, t)")
  case True
  then show ?thesis using loc.park_keeps_entry [OF usable_key_ok [OF assms(1)] assms(2)] by blast
next
  case False
  then show ?thesis using assms(3) by (auto simp: maybe_park_def split: if_splits option.splits)
qed

theorem parking_never_revives_witness:
  "let s = put_file (key_path [''parked''] ''c1'' PARKED_FILENAME) (Json [(''status'', JStr ''released'')]) empty_disk;
       t = snd (maybe_park parking_on 5 (local_storage [''parked'']) ''c1'' (Some ''R1'') (Some waiting_check)
             replayable_finding s)
   in local_view [''parked''] t ''c1'' PARKED_FILENAME = Some [(''status'', JStr ''released'')]"
proof -
  let ?s = "put_file (key_path [''parked''] ''c1'' PARKED_FILENAME) (Json [(''status'', JStr ''released'')]) empty_disk"
  have u: "usable_key ''c1''" by code_simp
  have t: "local_taken [''parked''] ?s ''c1'' PARKED_FILENAME" by (simp add: local_taken_def)
  have v: "local_view [''parked''] ?s ''c1'' PARKED_FILENAME = Some [(''status'', JStr ''released'')]"
    by (simp add: local_view_def read_json_def)
  show ?thesis
    unfolding Let_def using parking_never_revives [OF u t prod.collapse [symmetric]] v by simp
qed

text \<open>
  The release worker calls the replay tool only when it is not a dry run, the lowest running version
  is known, and some entry that is still parked and not expired requires at most that version; a dry run
  changes neither the store nor the world.
\<close>

theorem release_only_deployed:
  assumes "release_ready env now pat shown (local_storage base) queue_for_replay running_versions dry_run (s, w) = (r, (s', w'))"
  shows "(w' \<noteq> w \<longrightarrow> \<not> dry_run \<and> (\<exists>es entry running parked_at.
       list_parked (local_storage base) False s = (Inr es, s) \<and> entry \<in> set es \<and> status_of entry = JStr STATUS_PARKED \<and>
       lowest_of pat running_versions = Some running \<and>
       at_least pat (VObj running) (VText (json_str (jget entry ''required_version''))) = Some True \<and>
       json_float (py_or (jget entry ''parked_at'') (JNum now)) = Inr parked_at \<and>
       \<not> (parked_ttl_seconds env > 0 \<and> now - parked_at > parked_ttl_seconds env))) \<and>
    (dry_run \<longrightarrow> s' = s \<and> w' = w)"
  using assms
proof (cases rule: release_ready_run)
  case (unlisted x)
  then show ?thesis by simp
next
  case (listed es)
  note f = release_fold_world [OF listed(2)]
  have "\<not> dry_run \<and> (\<exists>entry running parked_at. entry \<in> set es \<and> status_of entry = JStr STATUS_PARKED \<and>
       lowest_of pat running_versions = Some running \<and>
       at_least pat (VObj running) (VText (json_str (jget entry ''required_version''))) = Some True \<and>
       json_float (py_or (jget entry ''parked_at'') (JNum now)) = Inr parked_at \<and>
       \<not> (parked_ttl_seconds env > 0 \<and> now - parked_at > parked_ttl_seconds env))" if w: "w' \<noteq> w"
  proof -
    obtain entry where e: "entry \<in> set es" "releases \<lparr>rl_env = env, rl_now = now, rl_pattern = pat,
        rl_running = lowest_of pat running_versions, rl_dry_run = dry_run, rl_shown = shown\<rparr> entry"
      using f(1) w by auto
    have p: "status_of entry = JStr STATUS_PARKED" by (rule listed_are_parked [OF listed(1) e(1)])
    obtain running where run: "lowest_of pat running_versions = Some running"
      using e(2) by (cases "lowest_of pat running_versions")
        (auto simp: releases_def satisfied_def at_least_def compare_def as_version_def parse_def)
    then show ?thesis using e p by (auto simp: releases_def satisfied_def expired_def)
  qed
  then show ?thesis using listed(1) f(2) by (auto simp: prod_eq_iff)
qed

definition one_parked :: disk where
  "one_parked = snd (maybe_park parking_on 5 (local_storage [''parked'']) ''c1'' (Some ''R1'') (Some waiting_check)
     replayable_finding empty_disk)"

definition count_calls :: "replay_args \<Rightarrow> (nat, string option) io" where
  "count_calls a n = (Inr (Some (''Successfully queued '' @ ra_id a)), Suc n)"

theorem release_only_deployed_witness:
  "snd (snd (release_ready parking_on 9 None (\<lambda>_. ''ok'') (local_storage [''parked'']) count_calls [''1.3.0'', ''1.2.0''] False
        (one_parked, 0))) = 1 \<and>
   (\<exists>running. lowest_of None [''1.3.0'', ''1.2.0''] = Some running)"
proof -
  let ?r = "release_ready parking_on 9 None (\<lambda>_. ''ok'') (local_storage [''parked'']) count_calls [''1.3.0'', ''1.2.0''] False
      (one_parked, 0)"
  have w: "snd (snd ?r) = 1" by code_simp
  obtain r s' w' where r: "?r = (r, (s', w'))" by (metis prod.collapse)
  have "w' \<noteq> 0" using w unfolding r by simp
  with release_only_deployed [OF r] w show ?thesis by blast
qed

text \<open>
  A release run that returns has looked at every entry that was parked, exactly once, and each one is
  counted under exactly one outcome: released, failed, expired, waiting or unknown.
\<close>

theorem release_accounts_for_all:
  assumes "release_ready env now pat shown (local_storage base) queue_for_replay running_versions dry_run (s, w) = (Inr su, sw')"
  shows "\<exists>es. list_parked (local_storage base) False s = (Inr es, s) \<and> su_examined su = length es \<and>
    length (su_entries su) = length es \<and>
    su_released su + su_failed su + su_expired su + su_waiting su + su_unknown su = length es"
proof -
  obtain s' w' where sw: "sw' = (s', w')" by (cases sw')
  from assms [unfolded sw] show ?thesis
  proof (cases rule: release_ready_run)
    case (unlisted x)
    then show ?thesis by simp
  next
    case (listed es)
    then show ?thesis using release_fold_accounts [OF listed(2)] by (auto simp: accounted_def)
  qed
qed

theorem release_accounts_for_all_witness:
  "\<exists>su sw'. release_ready parking_on 9 None (\<lambda>_. ''ok'') (local_storage [''parked'']) count_calls [''1.1.9''] False
     (one_parked, 0) = (Inr su, sw') \<and> su_waiting su = 1 \<and> su_released su = 0"
proof -
  let ?r = "release_ready parking_on 9 None (\<lambda>_. ''ok'') (local_storage [''parked'']) count_calls [''1.1.9''] False
      (one_parked, 0)"
  have w: "map_sum id (\<lambda>su. (su_waiting su, su_examined su)) (fst ?r) = Inr (1, 1)" by code_simp
  obtain x sw' where x: "?r = (x, sw')" by (cases ?r)
  with w obtain su where su: "?r = (Inr su, sw')" "su_waiting su = 1" "su_examined su = 1" by (cases x) auto
  from release_accounts_for_all [OF su(1)] su(2,3) have "su_released su = 0" by auto
  with su show ?thesis by blast
qed

end
