(* ===== verification/Dlt_Analysis.thy ===== *)
theory Dlt_Analysis
  imports Regex Auto_Replay
begin

text \<open>
  The analysis lane: the graph of \<^verbatim>\<open>src/dlt/orchestrator.py\<close> (investigate, review, synthesise), the
  Reviewer's verdict (\<^verbatim>\<open>is_reviewer_approved\<close> of \<^verbatim>\<open>src/core/agent_orchestrator.py\<close>) and the
  cancellation check (\<^verbatim>\<open>src/core/run_control.py\<close>).

  The agents are parameters: what a model or the harness answers, or that it raises, is up to the record
  \<open>agents\<close>. So is the reading of a synthesis reply into a finding, which is the work of the JSON parser and
  the contract class. Prompts and traces are not modelled.
\<close>

section \<open>The Reviewer's verdict\<close>

text \<open>\<^verbatim>\<open>re.sub\<close> of a leading \<^verbatim>\<open><think>\<close> block: up to the first closing tag.\<close>

fun after_think :: "string \<Rightarrow> string option" where
  "after_think s =
     (if starts_with ''</think>'' (py_lower s) then Some (drop (length ''</think>'') s)
      else case s of [] \<Rightarrow> None | c # cs \<Rightarrow> after_think cs)"

declare after_think.simps [simp del]

definition drop_leading_think :: "string \<Rightarrow> string" where
  "drop_leading_think feedback =
     (let t = lstrip is_space feedback
      in if starts_with ''<think>'' (py_lower t)
         then (case after_think (drop (length ''<think>'') t) of None \<Rightarrow> feedback | Some rest \<Rightarrow> rest)
         else feedback)"

definition is_markup :: "char \<Rightarrow> bool" where
  "is_markup c \<longleftrightarrow> c \<in> set ''*_`'' \<or> c = CHR 0x27 \<or> c = CHR 0x22"

definition APPROVED_LINE :: rx where
  "APPROVED_LINE =
     Seq (word_in_any_case ''APPROVED'') (Seq (Star (Chr is_markup))
       (Alt (Seq (Chr (\<lambda>c. c = CHR ''.'' \<or> c = CHR ''!'')) (Seq (Star (Chr is_markup))
              (Alt (Seq (Chr is_space) (Star (Chr (\<lambda>c. c \<noteq> CHR 0x0A)))) Eps)))
         Eps))"

definition lead_char :: "char \<Rightarrow> bool" where
  "lead_char c \<longleftrightarrow> is_markup c \<or> c = CHR ''#'' \<or> c = CHR '' '' \<or> c = CHR 0x09"

definition blank_char :: "char \<Rightarrow> bool" where
  "blank_char c \<longleftrightarrow> is_markup c \<or> c = CHR '' '' \<or> c = CHR 0x09 \<or> c = CHR 0x0D"

definition candidate_of :: "string \<Rightarrow> string" where
  "candidate_of line = lstrip lead_char (py_strip line)"

fun first_verdict :: "string list \<Rightarrow> bool" where
  "first_verdict [] = False"
| "first_verdict (line # ls) =
     (if rstrip blank_char (lstrip blank_char (candidate_of line)) \<noteq> []
      then fullmatch APPROVED_LINE (rstrip is_space (candidate_of line))
      else first_verdict ls)"

definition is_reviewer_approved :: "string \<Rightarrow> bool" where
  "is_reviewer_approved feedback = first_verdict (lines_of (drop_leading_think feedback))"


section \<open>State and agents\<close>

record graph_state =
  gs_investigation :: string
  gs_reviewer_feedback :: string
  gs_retry_count :: nat
  gs_finding :: "finding option"
  gs_parse_error :: "string option"

record 'w agents =
  ag_cancelled :: "'w \<Rightarrow> bool"
  ag_harness :: bool
  ag_write_case_files :: "('w, unit) io"
  ag_wait_for_corpus :: "('w, unit) io"
  ag_harness_investigator :: "('w, string) io"
  ag_investigator :: "string option \<Rightarrow> ('w, string) io"
  ag_harness_reviewer :: "string \<Rightarrow> ('w, string option \<times> string) io"
  ag_reviewer :: "string \<Rightarrow> ('w, string) io"
  ag_synthesis :: "string \<Rightarrow> ('w, string) io"
  ag_repair :: "string \<Rightarrow> string \<Rightarrow> ('w, string) io"
  ag_parse_finding :: "string \<Rightarrow> string + finding"

definition start_state :: graph_state where
  "start_state = \<lparr>gs_investigation = [], gs_reviewer_feedback = [], gs_retry_count = 0, gs_finding = None, gs_parse_error = None\<rparr>"

definition run_control_check :: "'w agents \<Rightarrow> ('w, unit) io" where
  "run_control_check ag w = (if ag_cancelled ag w then Inl RunCancelled else Inr (), w)"


section \<open>Nodes\<close>

definition investigator_node :: "'w agents \<Rightarrow> graph_state \<Rightarrow> ('w, graph_state) io" where
  "investigator_node ag st =
     (let feedback = gs_reviewer_feedback st;
          is_retry = (feedback \<noteq> [] \<and> \<not> is_reviewer_approved feedback);
          direct = ag_investigator ag (if is_retry then Some feedback else None)
      in bindM (if ag_harness ag \<and> \<not> is_retry
                then bindM (ag_write_case_files ag) (\<lambda>_.
                     bindM (ag_wait_for_corpus ag) (\<lambda>_.
                       catchM (ag_harness_investigator ag) (\<lambda>_. direct)))
                else direct)
           (\<lambda>investigation. ret (st\<lparr>gs_investigation := investigation\<rparr>)))"

definition harness_feedback :: "string option \<times> string \<Rightarrow> string" where
  "harness_feedback r =
     (if py_upper (case fst r of None \<Rightarrow> ''REJECTED'' | Some v \<Rightarrow> v) = ''APPROVED'' then ''APPROVED'' else snd r)"

definition reviewer_node :: "'w agents \<Rightarrow> graph_state \<Rightarrow> ('w, graph_state) io" where
  "reviewer_node ag st =
     (let direct = ag_reviewer ag (gs_investigation st)
      in bindM (if ag_harness ag
                then catchM (bindM (ag_write_case_files ag) (\<lambda>_.
                             bindM (ag_harness_reviewer ag (gs_investigation st)) (\<lambda>r. ret (harness_feedback r))))
                       (\<lambda>_. direct)
                else direct)
           (\<lambda>feedback. ret (st\<lparr>gs_reviewer_feedback := feedback, gs_retry_count := gs_retry_count st + 1\<rparr>)))"

definition max_reviews :: "env \<Rightarrow> exn + int" where
  "max_reviews env = (case py_int (env_get env ''DLT_MAX_INVESTIGATION_RETRIES'' ''3'') of None \<Rightarrow> Inl ValueError | Some n \<Rightarrow> Inr n)"

datatype review_decision = Approved | Exhausted | Retry

definition decide_review :: "env \<Rightarrow> string \<Rightarrow> nat \<Rightarrow> exn + review_decision" where
  "decide_review env feedback reviews =
     (if is_reviewer_approved feedback then Inr Approved
      else case max_reviews env of
             Inl e \<Rightarrow> Inl e
           | Inr m \<Rightarrow> Inr (if int reviews \<ge> m then Exhausted else Retry))"

definition synthesis_node :: "'w agents \<Rightarrow> graph_state \<Rightarrow> ('w, graph_state) io" where
  "synthesis_node ag st =
     (let approved = is_reviewer_approved (gs_reviewer_feedback st);
          stamped = (\<lambda>f. f\<lparr>fi_reviewer_approved := Some approved\<rparr>);
          settle = (\<lambda>f. ret (st\<lparr>gs_finding := Some (stamped f), gs_parse_error := None\<rparr>))
      in bindM (ag_synthesis ag (gs_investigation st)) (\<lambda>raw.
           case ag_parse_finding ag raw of
             Inr f \<Rightarrow> settle f
           | Inl error \<Rightarrow>
               bindM (ag_repair ag raw error) (\<lambda>repaired.
                 case ag_parse_finding ag repaired of
                   Inr f \<Rightarrow> settle f
                 | Inl error2 \<Rightarrow> ret (st\<lparr>gs_finding := None, gs_parse_error := Some error2\<rparr>))))"

definition stoppable :: "'w agents \<Rightarrow> ('w, 'a) io \<Rightarrow> ('w, 'a) io" where
  "stoppable ag node = bindM (run_control_check ag) (\<lambda>_. node)"


section \<open>The graph\<close>

text \<open>
  One round is an investigation and its review. The number \<open>n\<close> of rounds left is fuel: a round in which the
  Reviewer asks for another one raises the count of reviews, and the count at which the lane stops asking is
  reached after at most \<open>rounds_needed\<close> rounds.
\<close>

fun run_rounds :: "env \<Rightarrow> 'w agents \<Rightarrow> nat \<Rightarrow> graph_state \<Rightarrow> ('w, graph_state) io" where
  "run_rounds env ag 0 st = raise RuntimeError"
| "run_rounds env ag (Suc n) st =
     bindM (stoppable ag (investigator_node ag st)) (\<lambda>st1.
     bindM (stoppable ag (reviewer_node ag st1)) (\<lambda>st2.
       case decide_review env (gs_reviewer_feedback st2) (gs_retry_count st2) of
         Inl e \<Rightarrow> raise e
       | Inr Retry \<Rightarrow> run_rounds env ag n st2
       | Inr _ \<Rightarrow> stoppable ag (synthesis_node ag st2)))"

definition rounds_needed :: "env \<Rightarrow> nat" where
  "rounds_needed env = (case max_reviews env of Inl e \<Rightarrow> 1 | Inr m \<Rightarrow> max 1 (nat m))"

definition invoke_graph :: "env \<Rightarrow> 'w agents \<Rightarrow> ('w, graph_state) io" where
  "invoke_graph env ag = run_rounds env ag (rounds_needed env) start_state"

definition investigate :: "env \<Rightarrow> 'w agents \<Rightarrow> ('w, finding option \<times> string option) io" where
  "investigate env ag =
     bindM (invoke_graph env ag) (\<lambda>st.
       ret (case gs_finding st of None \<Rightarrow> (None, gs_parse_error st) | Some f \<Rightarrow> (Some f, None)))"

datatype review_outcome = Not_reviewed | Clean_approval | Approved_after_rejection | Synthesized_unapproved

definition review_summary :: "graph_state \<Rightarrow> nat \<times> nat \<times> review_outcome" where
  "review_summary st =
     (let reviews = gs_retry_count st
      in if reviews = 0 then (0, 0, Not_reviewed)
         else (let approved = is_reviewer_approved (gs_reviewer_feedback st);
                   rejections = (if approved then reviews - 1 else reviews)
               in (reviews, rejections,
                   if \<not> approved then Synthesized_unapproved
                   else if rejections \<noteq> 0 then Approved_after_rejection else Clean_approval)))"


section \<open>Lemmas\<close>

lemma lang_word: "v \<in> lang (word_in_any_case w) \<longleftrightarrow> py_upper v = w"
proof (induction w arbitrary: v)
  case Nil
  show ?case by (simp add: word_in_any_case_def py_upper_def)
next
  case (Cons c w)
  have "word_in_any_case (c # w) = Seq (Chr (\<lambda>x. upper_char x = c)) (word_in_any_case w)"
    by (simp add: word_in_any_case_def any_case_def)
  then show ?case by (cases v) (simp_all add: in_Chr_Seq Cons py_upper_def del: lang.simps)
qed

lemma plain_word: "plain (word_in_any_case w)"
  by (induction w) (auto simp: word_in_any_case_def any_case_def)

text \<open>The approving line, written out: the word, closing markup, and at most a sentence of commentary.\<close>

definition closing :: "string \<Rightarrow> bool" where
  "closing r \<longleftrightarrow> r = [] \<or> (\<exists>c m rest. r = c # m @ rest \<and> (c = CHR ''.'' \<or> c = CHR ''!'') \<and> list_all is_markup m \<and>
     (rest = [] \<or> is_space (hd rest) \<and> CHR 0x0A \<notin> set (tl rest)))"

definition unqualified :: "string \<Rightarrow> bool" where
  "unqualified s \<longleftrightarrow> (\<exists>w m r. s = w @ m @ r \<and> py_upper w = ''APPROVED'' \<and> list_all is_markup m \<and> closing r)"

lemma approved_line: "fullmatch APPROVED_LINE s \<longleftrightarrow> unqualified s"
proof -
  let ?rest = "lang (Alt (Seq (Chr is_space) (Star (Chr (\<lambda>c. c \<noteq> CHR 0x0A)))) Eps)"
  let ?tail = "lang (Alt (Seq (Chr (\<lambda>c. c = CHR ''.'' \<or> c = CHR ''!'')) (Seq (Star (Chr is_markup))
      (Alt (Seq (Chr is_space) (Star (Chr (\<lambda>c. c \<noteq> CHR 0x0A)))) Eps))) Eps)"
  have rest: "t \<in> ?rest \<longleftrightarrow> t = [] \<or> is_space (hd t) \<and> CHR 0x0A \<notin> set (tl t)" for t
    unfolding lang.simps(4) Un_iff in_Chr_Seq in_Star_Chr by (cases t) (auto simp: list_all_iff)
  have tail: "r \<in> ?tail \<longleftrightarrow> closing r" for r
    unfolding lang.simps(4) [of "Seq (Chr (\<lambda>c. c = CHR ''.'' \<or> c = CHR ''!'')) q" for q] Un_iff in_Chr_Seq
      in_Seq [of _ "Star (Chr is_markup)"] in_Star_Chr rest closing_def
    by (simp, blast)
  have p: "plain APPROVED_LINE" by (simp add: APPROVED_LINE_def plain_word)
  have "s \<in> lang APPROVED_LINE \<longleftrightarrow> unqualified s"
    unfolding unqualified_def APPROVED_LINE_def in_Seq [of _ "word_in_any_case ''APPROVED''"]
      in_Seq [of _ "Star (Chr is_markup)"] in_Star_Chr lang_word tail
    by blast
  then show ?thesis by (simp add: fullmatch_lang [OF p])
qed

text \<open>
  The harness Reviewer's verdict is not kept, only its feedback: a rejection whose feedback opens with the
  approving word is read as an approval.
\<close>

lemma harness_rejection_read_as_approval:
  "is_reviewer_approved (harness_feedback (Some ''REJECTED'', ''APPROVED. But cite the log line.''))"
  by code_simp

text \<open>Reading rounds.\<close>

lemma stoppable_InrE:
  assumes "stoppable ag m w = (Inr a, w')"
  obtains "m w = (Inr a, w')" "\<not> ag_cancelled ag w"
  using assms by (auto simp: stoppable_def run_control_check_def bindM_def split: if_splits)

lemma investigator_fields:
  assumes "investigator_node ag st w = (Inr st', w')"
  shows "gs_retry_count st' = gs_retry_count st"
  using assms by (auto simp: investigator_node_def Let_def elim!: bindM_InrE)

lemma reviewer_fields:
  assumes "reviewer_node ag st w = (Inr st', w')"
  shows "gs_retry_count st' = Suc (gs_retry_count st)"
  using assms by (auto simp: reviewer_node_def Let_def elim!: bindM_InrE)

lemma synthesis_fields:
  assumes "synthesis_node ag st w = (Inr st', w')"
  shows "gs_retry_count st' = gs_retry_count st \<and> gs_reviewer_feedback st' = gs_reviewer_feedback st \<and>
    (case gs_finding st' of
       Some f \<Rightarrow> gs_parse_error st' = None \<and> fi_reviewer_approved f = Some (is_reviewer_approved (gs_reviewer_feedback st)) \<and>
         (\<exists>t g. ag_parse_finding ag t = Inr g \<and> f = g\<lparr>fi_reviewer_approved := Some (is_reviewer_approved (gs_reviewer_feedback st))\<rparr>)
     | None \<Rightarrow> gs_parse_error st' \<noteq> None)"
  using assms
  by (auto simp: synthesis_node_def Let_def elim!: bindM_InrE split: sum.splits; blast)

lemma run_rounds_result:
  assumes "run_rounds env ag n st w = (Inr st', w')"
  shows "\<exists>st2 w2 w3. synthesis_node ag st2 w2 = (Inr st', w3) \<and>
    gs_retry_count st < gs_retry_count st2 \<and> gs_retry_count st2 \<le> gs_retry_count st + n \<and>
    decide_review env (gs_reviewer_feedback st2) (gs_retry_count st2) \<in> {Inr Approved, Inr Exhausted}"
  using assms
proof (induction n arbitrary: st w)
  case 0
  then show ?case by simp
next
  case (Suc n)
  obtain st1 w1 st2 w2 where 1: "investigator_node ag st w = (Inr st1, w1)" and 2: "reviewer_node ag st1 w1 = (Inr st2, w2)"
    and rest: "(case decide_review env (gs_reviewer_feedback st2) (gs_retry_count st2) of
         Inl e \<Rightarrow> raise e
       | Inr Retry \<Rightarrow> run_rounds env ag n st2
       | Inr _ \<Rightarrow> stoppable ag (synthesis_node ag st2)) w2 = (Inr st', w')"
    using Suc.prems unfolding run_rounds.simps by (elim bindM_InrE stoppable_InrE) blast
  have c: "gs_retry_count st2 = Suc (gs_retry_count st)" using investigator_fields [OF 1] reviewer_fields [OF 2] by simp
  show ?case
  proof (cases "decide_review env (gs_reviewer_feedback st2) (gs_retry_count st2) = Inr Retry")
    case True
    then have "run_rounds env ag n st2 w2 = (Inr st', w')" using rest by simp
    from Suc.IH [OF this] obtain st3 w3 w4 where "synthesis_node ag st3 w3 = (Inr st', w4)"
      "gs_retry_count st2 < gs_retry_count st3" "gs_retry_count st3 \<le> gs_retry_count st2 + n"
      "decide_review env (gs_reviewer_feedback st3) (gs_retry_count st3) \<in> {Inr Approved, Inr Exhausted}" by blast
    with c show ?thesis by (intro exI [of _ st3] exI [of _ w3] exI [of _ w4]) auto
  next
    case False
    then have d: "decide_review env (gs_reviewer_feedback st2) (gs_retry_count st2) \<in> {Inr Approved, Inr Exhausted}"
      and s: "stoppable ag (synthesis_node ag st2) w2 = (Inr st', w')"
      using rest by (auto split: sum.splits review_decision.splits)
    from s show ?thesis
    proof (rule stoppable_InrE)
      assume "synthesis_node ag st2 w2 = (Inr st', w')"
      with d c show ?thesis by (intro exI [of _ st2] exI [of _ w2] exI [of _ w']) auto
    qed
  qed
qed

text \<open>The rounds given are enough: more of them change nothing.\<close>

lemma more_rounds:
  assumes "rounds_needed env \<le> gs_retry_count st + n" and "0 < n"
  shows "run_rounds env ag (n + k) st w = run_rounds env ag n st w"
  using assms
proof (induction n arbitrary: st w)
  case 0
  then show ?case by simp
next
  case (Suc n)
  have step: "(case decide_review env (gs_reviewer_feedback st2) (gs_retry_count st2) of
         Inl e \<Rightarrow> raise e
       | Inr Retry \<Rightarrow> run_rounds env ag (n + k) st2
       | Inr _ \<Rightarrow> stoppable ag (synthesis_node ag st2)) w2 =
     (case decide_review env (gs_reviewer_feedback st2) (gs_retry_count st2) of
         Inl e \<Rightarrow> raise e
       | Inr Retry \<Rightarrow> run_rounds env ag n st2
       | Inr _ \<Rightarrow> stoppable ag (synthesis_node ag st2)) w2"
    if c: "gs_retry_count st2 = Suc (gs_retry_count st)" for st2 w2
  proof (cases "decide_review env (gs_reviewer_feedback st2) (gs_retry_count st2) = Inr Retry")
    case True
    then obtain m where m: "max_reviews env = Inr m" "int (gs_retry_count st2) < m"
      by (auto simp: decide_review_def split: if_splits sum.splits)
    then have "gs_retry_count st2 < rounds_needed env" by (simp add: rounds_needed_def)
    then have "0 < n" "rounds_needed env \<le> gs_retry_count st2 + n" using Suc.prems c by linarith+
    then show ?thesis using Suc.IH True by simp
  next
    case False
    then show ?thesis by (auto split: sum.split review_decision.split)
  qed
  show ?case
  proof (cases "stoppable ag (investigator_node ag st) w")
    case (Pair r1 w1)
    show ?thesis
    proof (cases r1)
      case (Inl e)
      then show ?thesis using Pair by (simp add: bindM_Inl)
    next
      case (Inr st1)
      have c1: "gs_retry_count st1 = gs_retry_count st"
        using Pair Inr by (auto elim!: stoppable_InrE dest: investigator_fields)
      obtain r2 w2 where 2: "stoppable ag (reviewer_node ag st1) w1 = (r2, w2)"
        by (cases "stoppable ag (reviewer_node ag st1) w1")
      show ?thesis
      proof (cases r2)
        case (Inl e)
        then show ?thesis using Pair \<open>r1 = Inr st1\<close> 2 by (simp add: bindM_Inl bindM_Inr)
      next
        case inr2: (Inr st2)
        have "gs_retry_count st2 = Suc (gs_retry_count st)"
          using 2 inr2 c1 by (auto elim!: stoppable_InrE dest: reviewer_fields)
        then show ?thesis using Pair \<open>r1 = Inr st1\<close> 2 inr2 step by (simp add: bindM_Inr)
      qed
    qed
  qed
qed


section \<open>Properties\<close>

definition blank_line :: "string \<Rightarrow> bool" where
  "blank_line l \<longleftrightarrow> rstrip blank_char (lstrip blank_char (candidate_of l)) = []"

lemma first_verdict_line:
  "first_verdict ls \<longleftrightarrow> (\<exists>line rest. dropWhile blank_line ls = line # rest \<and> unqualified (rstrip is_space (candidate_of line)))"
  by (induction ls) (auto simp: approved_line blank_line_def)

text \<open>
  The Reviewer's approval is one unqualified word. A reply approves exactly when its first line that is
  not blank, behind a leading block of reasoning and leading markup, is the word APPROVED, closed by markup,
  and followed by nothing or by a full stop or exclamation mark and commentary after a space. A colon, a
  question mark, a dash or a further word makes it a rejection, and no later line counts.
\<close>

theorem approval_is_unqualified:
  "is_reviewer_approved feedback \<longleftrightarrow>
     (\<exists>line rest w m r. dropWhile blank_line (lines_of (drop_leading_think feedback)) = line # rest \<and>
        rstrip is_space (candidate_of line) = w @ m @ r \<and> py_upper w = ''APPROVED'' \<and> list_all is_markup m \<and>
        (r = [] \<or> (\<exists>c m' t. r = c # m' @ t \<and> (c = CHR ''.'' \<or> c = CHR ''!'') \<and> list_all is_markup m' \<and>
           (t = [] \<or> is_space (hd t) \<and> CHR 0x0A \<notin> set (tl t)))))"
  unfolding is_reviewer_approved_def first_verdict_line unqualified_def closing_def by blast

lemma invoke_graph_result:
  assumes "invoke_graph env ag w = (Inr st, w')"
  shows "1 \<le> gs_retry_count st \<and> gs_retry_count st \<le> rounds_needed env \<and>
    (is_reviewer_approved (gs_reviewer_feedback st) \<or> (\<exists>m. max_reviews env = Inr m \<and> m \<le> int (gs_retry_count st))) \<and>
    (case gs_finding st of
       Some f \<Rightarrow> gs_parse_error st = None \<and> fi_reviewer_approved f = Some (is_reviewer_approved (gs_reviewer_feedback st)) \<and>
         (\<exists>t g. ag_parse_finding ag t = Inr g \<and> f = g\<lparr>fi_reviewer_approved := Some (is_reviewer_approved (gs_reviewer_feedback st))\<rparr>)
     | None \<Rightarrow> gs_parse_error st \<noteq> None)"
proof -
  obtain st2 w2 w3 where r: "synthesis_node ag st2 w2 = (Inr st, w3)" "0 < gs_retry_count st2"
    "gs_retry_count st2 \<le> rounds_needed env"
    "decide_review env (gs_reviewer_feedback st2) (gs_retry_count st2) \<in> {Inr Approved, Inr Exhausted}"
    using run_rounds_result [OF assms [unfolded invoke_graph_def]] by (auto simp: start_state_def)
  note f = synthesis_fields [OF r(1)]
  have "is_reviewer_approved (gs_reviewer_feedback st) \<or> (\<exists>m. max_reviews env = Inr m \<and> m \<le> int (gs_retry_count st))"
    using r(4) f by (auto simp: decide_review_def split: if_splits sum.splits)
  moreover have "gs_retry_count st = gs_retry_count st2" "gs_reviewer_feedback st = gs_reviewer_feedback st2" using f by auto
  ultimately show ?thesis using f r(2,3) by (auto split: option.splits)
qed


definition stubborn_agents :: "nat agents" where
  "stubborn_agents =
     \<lparr>ag_cancelled = (\<lambda>_. False), ag_harness = False, ag_write_case_files = ret (), ag_wait_for_corpus = ret (),
      ag_harness_investigator = raise OSError, ag_investigator = (\<lambda>_ n. (Inr ''found'', n)),
      ag_harness_reviewer = (\<lambda>_. raise OSError), ag_reviewer = (\<lambda>_ n. (Inr ''REJECTED: ungrounded'', Suc n)),
      ag_synthesis = (\<lambda>_ n. (Inr ''reply'', n)), ag_repair = (\<lambda>_ _ n. (Inr ''reply'', n)),
      ag_parse_finding = (\<lambda>_. Inr replayable_finding)\<rparr>"


text \<open>
  C7. A finding the Reviewer never approved is never replayed: whatever the model and the settings say, when
  the last verdict was no approval, the finding the analysis returns, once its confidence is capped, is
  declined by the replay decision.
\<close>

theorem unapproved_is_never_replayed:
  assumes "invoke_graph env ag w = (Inr st, w')" and "gs_finding st = Some f"
    and "\<not> is_reviewer_approved (gs_reviewer_feedback st)"
  shows "\<not> rd_should_replay (decide_replay env' (apply_dlt_confidence_policy env' f ev) ref_id cc)"
proof -
  have "fi_reviewer_approved f = Some False" using invoke_graph_result [OF assms(1)] assms(2,3) by simp
  then have "UNREVIEWED_LABEL \<in> set (fi_ceilings_applied (apply_dlt_confidence_policy env' f ev))"
    unfolding label_iff by simp
  then show ?thesis unfolding decide_replay_iff by blast
qed

theorem unapproved_is_never_replayed_witness:
  "\<exists>st f. invoke_graph (\<lambda>_. None) stubborn_agents 0 = (Inr st, 3) \<and> gs_finding st = Some f \<and>
     \<not> rd_should_replay (decide_replay replay_on (apply_dlt_confidence_policy replay_on f
        \<lparr>ev_failure_class = ''A'', ev_corroboration = ''CORROBORATED'', ev_registry_hit = True, ev_reused = False,
         ev_logs = [], ev_could_not_look = None\<rparr>) (Some ''R1'') None)"
proof -
  let ?r = "invoke_graph (\<lambda>_. None) stubborn_agents 0"
  have e: "map_sum id (\<lambda>st. (gs_finding st \<noteq> None, is_reviewer_approved (gs_reviewer_feedback st))) (fst ?r) =
      Inr (True, False)" "snd ?r = 3" by code_simp+
  obtain x n where x: "?r = (x, n)" by (cases ?r)
  with e obtain st f where st: "?r = (Inr st, 3)" "gs_finding st = Some f"
    "\<not> is_reviewer_approved (gs_reviewer_feedback st)" by (cases x) auto
  from unapproved_is_never_replayed [OF st] st show ?thesis by blast
qed

end
