(* ===== verification/Dlt_Headers.thy ===== *)
theory Dlt_Headers
  imports Prelude
begin

text \<open>
  The header contract of a dead-lettered record and the log window it implies: \<^verbatim>\<open>src/dlt/headers.py\<close> and
  \<^verbatim>\<open>src/dlt/window.py\<close>. Decoding UTF-8 bytes with replacement is the parameter \<open>utf8\<close>; the clock is the
  argument \<open>now\<close>, in milliseconds.
\<close>

section \<open>Reading headers\<close>

datatype kafka_text = Raw_bytes string | Raw_text string

definition kafka_str :: "(string \<Rightarrow> string) \<Rightarrow> kafka_text \<Rightarrow> string" where
  "kafka_str utf8 t = (case t of Raw_bytes b \<Rightarrow> utf8 b | Raw_text s \<Rightarrow> s)"

type_synonym headers = "(string \<times> string option) list"

definition header :: "headers \<Rightarrow> string \<Rightarrow> string option" where
  "header hs name = (case map_of hs name of None \<Rightarrow> None | Some v \<Rightarrow> v)"

text \<open>A repeated name keeps its place and takes the last value, as a dict does.\<close>

definition decode_kafka_headers :: "(string \<Rightarrow> string) \<Rightarrow> (kafka_text \<times> kafka_text option) list \<Rightarrow> headers" where
  "decode_kafka_headers utf8 raw =
     fold (\<lambda>(k, v). AList.update (kafka_str utf8 k) (map_option (kafka_str utf8) v)) raw []"

definition EPOCH_MS_MIN :: int where "EPOCH_MS_MIN = 946684800000"
definition EPOCH_MS_MAX :: int where "EPOCH_MS_MAX = 4102444800000"

definition is_hex_digit :: "char \<Rightarrow> bool" where
  "is_hex_digit c \<longleftrightarrow>
     is_digit c \<or> CHR ''a'' \<le> c \<and> c \<le> CHR ''f'' \<or> CHR ''A'' \<le> c \<and> c \<le> CHR ''F''"

definition hex_val :: "char \<Rightarrow> nat" where
  "hex_val c =
     (let n = of_char c :: nat in if n \<le> 57 then n - 48 else if n \<le> 70 then n - 55 else n - 87)"

definition nat_of_hex :: "string \<Rightarrow> nat" where
  "nat_of_hex s = foldl (\<lambda>n c. 16 * n + hex_val c) 0 s"

fun hex_underscores :: "string \<Rightarrow> string option" where
  "hex_underscores [] = None"
| "hex_underscores [c] = (if is_hex_digit c then Some [c] else None)"
| "hex_underscores (c # d # s) =
     (if \<not> is_hex_digit c then None
      else if d = CHR ''_'' then map_option (\<lambda>t. c # t) (hex_underscores s)
      else map_option (\<lambda>t. c # t) (hex_underscores (d # s)))"

text \<open>\<^verbatim>\<open>int(s, 16)\<close>: a sign, an optional prefix with an optional underscore behind it, hexadecimal digits.\<close>

definition strip_hex_prefix :: "string \<Rightarrow> string" where
  "strip_hex_prefix s =
     (if starts_with ''0x'' s \<or> starts_with ''0X'' s
      then (if drop 2 s \<noteq> [] \<and> s ! 2 = CHR ''_'' then drop 3 s else drop 2 s) else s)"

definition py_int16 :: "string \<Rightarrow> int option" where
  "py_int16 s = (case sign_split (py_strip s) of
      (sg, t) \<Rightarrow> map_option (\<lambda>ds. sg * int (nat_of_hex ds)) (hex_underscores (strip_hex_prefix t)))"

definition plausible :: "int \<Rightarrow> bool" where
  "plausible n \<longleftrightarrow> EPOCH_MS_MIN \<le> n \<and> n \<le> EPOCH_MS_MAX"

definition epoch_candidates :: "string \<Rightarrow> int list" where
  "epoch_candidates t =
     (if list_all is_digit t then [int (nat_of_digits t)] else []) @
     (case py_int16 t of None \<Rightarrow> [] | Some n \<Rightarrow> [n])"

definition decode_epoch_ms :: "string option \<Rightarrow> int option" where
  "decode_epoch_ms value =
     (case value of
        None \<Rightarrow> None
      | Some v \<Rightarrow> let t = py_strip v
                  in if t = [] then None else List.find plausible (epoch_candidates t))"

definition as_int :: "string option \<Rightarrow> int option" where
  "as_int value = (case value of None \<Rightarrow> None | Some v \<Rightarrow> py_int v)"

definition as_str :: "string option \<Rightarrow> string option" where
  "as_str value = (case value of None \<Rightarrow> None | Some v \<Rightarrow> if py_strip v = [] then None else Some (py_strip v))"

record dlt_headers =
  hd_original_topic :: "string option"
  hd_original_partition :: "int option"
  hd_original_offset :: "int option"
  hd_original_timestamp_ms :: "int option"
  hd_consumer_group :: "string option"
  hd_exception_fqcn :: "string option"
  hd_exception_cause_fqcn :: "string option"
  hd_exception_message :: "string option"
  hd_stacktrace :: "string option"
  hd_attempts :: "int option"
  hd_retry_original_timestamp_ms :: "int option"
  hd_backoff_timestamp_ms :: "int option"
  hd_type_id :: "string option"
  hd_raw :: headers

text \<open>A timestamp of zero would read as absent; none is plausible.\<close>

definition last_attempt_ms :: "dlt_headers \<Rightarrow> int option" where
  "last_attempt_ms h =
     (case hd_backoff_timestamp_ms h of
        Some b \<Rightarrow> if b \<noteq> 0 then Some b else hd_original_timestamp_ms h
      | None \<Rightarrow> hd_original_timestamp_ms h)"

definition anchor_is_fallback :: "dlt_headers \<Rightarrow> bool" where
  "anchor_is_fallback h \<longleftrightarrow> hd_backoff_timestamp_ms h = None"

definition parse_headers :: "headers \<Rightarrow> dlt_headers" where
  "parse_headers raw =
     \<lparr>hd_original_topic = as_str (header raw ''kafka_original-topic''),
      hd_original_partition = as_int (header raw ''kafka_original-partition''),
      hd_original_offset = as_int (header raw ''kafka_original-offset''),
      hd_original_timestamp_ms = decode_epoch_ms (header raw ''kafka_original-timestamp''),
      hd_consumer_group = as_str (header raw ''kafka_dlt-original-consumer-group''),
      hd_exception_fqcn = as_str (header raw ''kafka_exception-fqcn''),
      hd_exception_cause_fqcn = as_str (header raw ''kafka_exception-cause-fqcn''),
      hd_exception_message = as_str (header raw ''kafka_exception-message''),
      hd_stacktrace = as_str (header raw ''kafka_exception-stacktrace''),
      hd_attempts = as_int (header raw ''retry_topic-attempts''),
      hd_retry_original_timestamp_ms = decode_epoch_ms (header raw ''retry_topic-original-timestamp''),
      hd_backoff_timestamp_ms = decode_epoch_ms (header raw ''retry_topic-backoff-timestamp''),
      hd_type_id = as_str (header raw ''__TypeId__''),
      hd_raw = raw\<rparr>"


section \<open>The log window\<close>

definition lead_seconds :: "env \<Rightarrow> int" where
  "lead_seconds env = int_env_at_least env ''DLT_LOG_LEAD_SECONDS'' 0 300"

definition trail_seconds :: "env \<Rightarrow> int" where
  "trail_seconds env = int_env_at_least env ''DLT_LOG_TRAIL_SECONDS'' 0 120"

definition max_age_seconds :: "env \<Rightarrow> int" where
  "max_age_seconds env = int_env_at_least env ''DLT_MAX_LOG_AGE_SECONDS'' 0 86400"

record log_window =
  lw_anchor_ms :: int
  lw_start_ms :: int
  lw_end_ms :: int
  lw_too_old :: bool
  lw_anchor_is_fallback :: bool
  lw_age_seconds :: rat

record time_window =
  tw_hours :: rat
  tw_until_ms :: int

definition to_time_window :: "env \<Rightarrow> log_window \<Rightarrow> int \<Rightarrow> time_window" where
  "to_time_window env w now =
     (let lookback = max (now - lw_start_ms w) ((lead_seconds env + trail_seconds env) * 1000)
      in \<lparr>tw_hours = of_int lookback / 3600000, tw_until_ms = lw_end_ms w\<rparr>)"

definition select_anchor :: "dlt_headers \<Rightarrow> int \<Rightarrow> int option \<times> bool" where
  "select_anchor h now =
     (case hd_backoff_timestamp_ms h of
        Some b \<Rightarrow>
          if b \<le> now then (Some b, False)
          else (case hd_retry_original_timestamp_ms h of
                  Some r \<Rightarrow> (Some r, True)
                | None \<Rightarrow> (hd_original_timestamp_ms h, True))
      | None \<Rightarrow>
          (case hd_retry_original_timestamp_ms h of
             Some r \<Rightarrow> (Some r, True)
           | None \<Rightarrow> (hd_original_timestamp_ms h, True)))"

definition derive_window :: "env \<Rightarrow> dlt_headers \<Rightarrow> int \<Rightarrow> log_window option" where
  "derive_window env h now =
     (case select_anchor h now of
        (None, _) \<Rightarrow> None
      | (Some anchor, is_fallback) \<Rightarrow>
          let start = anchor - lead_seconds env * 1000;
              end_ms = anchor + trail_seconds env * 1000;
              age = max 0 (of_int (now - start) / 1000 :: rat)
          in Some \<lparr>lw_anchor_ms = anchor, lw_start_ms = start, lw_end_ms = end_ms,
                   lw_too_old = (age > of_int (max_age_seconds env)), lw_anchor_is_fallback = is_fallback,
                   lw_age_seconds = age\<rparr>)"


section \<open>Lemmas\<close>

lemma is_hex_digit_nat:
  "is_hex_digit c \<longleftrightarrow> (let n = of_char c :: nat in 48 \<le> n \<and> n \<le> 57 \<or> 97 \<le> n \<and> n \<le> 102 \<or> 65 \<le> n \<and> n \<le> 70)"
  by (simp add: is_hex_digit_def is_digit_nat less_eq_char_def Let_def)

lemma hex_val_less: "is_hex_digit c \<Longrightarrow> hex_val c < 16"
  by (auto simp: is_hex_digit_nat hex_val_def Let_def)

lemma hex_val_digit: "is_digit c \<Longrightarrow> hex_val c = digit_val c"
  by (simp add: is_digit_nat hex_val_def digit_val_def)

lemma nat_of_hex_snoc: "nat_of_hex (s @ [c]) = 16 * nat_of_hex s + hex_val c"
  by (simp add: nat_of_hex_def)

lemma hex_not_special:
  "is_hex_digit c \<Longrightarrow> \<not> is_space c \<and> c \<noteq> CHR ''_'' \<and> c \<noteq> CHR ''-'' \<and> c \<noteq> CHR ''+'' \<and> c \<noteq> CHR ''x'' \<and> c \<noteq> CHR ''X''"
  by (auto simp: is_hex_digit_nat is_space_def Let_def)

lemma hex_underscores_plain: "s \<noteq> [] \<Longrightarrow> list_all is_hex_digit s \<Longrightarrow> hex_underscores s = Some s"
  by (induction s rule: hex_underscores.induct) (auto dest: hex_not_special)

lemma py_int16_plain:
  assumes "s \<noteq> []" and "list_all is_hex_digit s"
  shows "py_int16 s = Some (int (nat_of_hex s))"
proof -
  have "py_strip s = s" using assms(2) hex_not_special by (intro py_strip_id) (auto simp: list_all_iff)
  moreover have "sign_split s = (1, s)" using assms hex_not_special by (cases s) (auto simp: sign_split_def)
  moreover have "strip_hex_prefix s = s"
  proof -
    have "CHR ''x'' \<notin> set s" "CHR ''X'' \<notin> set s" using assms(2) hex_not_special by (auto simp: list_all_iff)
    then have "\<not> starts_with ''0x'' s" "\<not> starts_with ''0X'' s"
      by (auto simp: starts_with_prefix prefix_def)
    then show ?thesis by (simp add: strip_hex_prefix_def)
  qed
  ultimately show ?thesis using hex_underscores_plain [OF assms] by (simp add: py_int16_def)
qed

text \<open>Decimal digits read as hexadecimal weigh more; a text of eleven weighs less than any plausible time.\<close>

lemma nat_of_digits_bound: "list_all is_digit s \<Longrightarrow> nat_of_digits s < 10 ^ length s"
proof (induction s rule: rev_induct)
  case (snoc c s)
  then have "nat_of_digits s < 10 ^ length s" "digit_val c \<le> 9" by (auto simp: is_digit_nat digit_val_def)
  then show ?case by (simp add: nat_of_digits_snoc)
qed (simp add: nat_of_digits_def)

lemma nat_of_hex_foldl: "foldl (\<lambda>n c. 16 * n + hex_val c) a s = a * 16 ^ length s + nat_of_hex s"
proof (induction s arbitrary: a)
  case (Cons c s)
  show ?case
    using Cons [of "16 * a + hex_val c"] Cons [of "hex_val c"] by (simp add: nat_of_hex_def algebra_simps)
qed (simp add: nat_of_hex_def)

lemma nat_of_hex_Cons: "nat_of_hex (c # s) = hex_val c * 16 ^ length s + nat_of_hex s"
  using nat_of_hex_foldl [of "hex_val c" s] by (simp add: nat_of_hex_def)

lemma decimal_small:
  assumes "list_all is_digit s" and "nat_of_hex s < 16 ^ 11"
  shows "nat_of_digits s < 10 ^ 11"
  using assms
proof (induction s)
  case (Cons c s)
  have d: "nat_of_digits (c # s) = digit_val c * 10 ^ length s + nat_of_digits s"
  proof -
    have "foldl (\<lambda>n c. 10 * n + digit_val c) a s = a * 10 ^ length s + nat_of_digits s" for a
    proof (induction s arbitrary: a)
      case (Cons e s)
      show ?case using Cons [of "10 * a + digit_val e"] Cons [of "digit_val e"] by (simp add: nat_of_digits_def algebra_simps)
    qed (simp add: nat_of_digits_def)
    from this [of "digit_val c"] show ?thesis by (simp add: nat_of_digits_def)
  qed
  show ?case
  proof (cases "digit_val c = 0")
    case True
    then show ?thesis using Cons d by (simp add: nat_of_hex_Cons)
  next
    case False
    then have "1 * 16 ^ length s \<le> digit_val c * 16 ^ length s" by (intro mult_le_mono1) simp
    moreover have "nat_of_hex (c # s) = digit_val c * 16 ^ length s + nat_of_hex s"
      using Cons.prems(1) by (simp add: nat_of_hex_Cons hex_val_digit)
    ultimately have "16 ^ length s \<le> nat_of_hex (c # s)" by linarith
    then have "(16::nat) ^ length s < 16 ^ 11" using Cons.prems(2) by simp
    then have "length s < 11" by (rule power_less_imp_less_exp [rotated]) simp
    then have "length (c # s) \<le> 11" by simp
    then have "(10::nat) ^ length (c # s) \<le> 10 ^ 11" by (intro power_increasing) auto
    then show ?thesis using nat_of_digits_bound [OF Cons.prems(1)] by linarith
  qed
qed (simp add: nat_of_digits_def)

lemma decode_plausible: "decode_epoch_ms v = Some n \<Longrightarrow> plausible n"
  by (auto simp: decode_epoch_ms_def Let_def find_Some_iff split: option.splits if_splits)


section \<open>Properties\<close>

text \<open>Both encodings of a timestamp header decode to the time they write: the decimal form, and every hexadecimal
  form, of either case and with any leading zeros, although a hexadecimal text may consist of decimal
  digits only. Whatever is decoded lies between the years 2000 and 2100.\<close>

theorem epoch_headers_decode:
  "(plausible n \<longrightarrow> decode_epoch_ms (Some (show_nat (nat n))) = Some n) \<and>
   (plausible n \<longrightarrow> t \<noteq> [] \<longrightarrow> list_all is_hex_digit t \<longrightarrow> int (nat_of_hex t) = n \<longrightarrow> decode_epoch_ms (Some t) = Some n) \<and>
   (\<forall>m. decode_epoch_ms v = Some m \<longrightarrow> plausible m)"
proof (intro conjI impI allI)
  assume p: "plausible n"
  have "py_strip (show_nat (nat n)) = show_nat (nat n)"
    by (rule py_strip_id) (simp add: show_nat_digits digit_not_space)
  then show "decode_epoch_ms (Some (show_nat (nat n))) = Some n"
    using p by (simp add: decode_epoch_ms_def epoch_candidates_def list_all_iff show_nat_digits plausible_def EPOCH_MS_MIN_def)
next
  assume p: "plausible n" and t: "t \<noteq> []" "list_all is_hex_digit t" and n: "int (nat_of_hex t) = n"
  have s: "py_strip t = t" using t(2) hex_not_special by (intro py_strip_id) (auto simp: list_all_iff)
  have small: "\<not> plausible (int (nat_of_digits t))" if "list_all is_digit t"
  proof -
    have "nat_of_hex t < 16 ^ 11" using p n by (simp add: plausible_def EPOCH_MS_MAX_def)
    from decimal_small [OF that this] show ?thesis by (simp add: plausible_def EPOCH_MS_MIN_def)
  qed
  show "decode_epoch_ms (Some t) = Some n"
    using s t p small by (auto simp: decode_epoch_ms_def epoch_candidates_def py_int16_plain n)
qed (rule decode_plausible)

theorem epoch_headers_decode_witness:
  "decode_epoch_ms (Some ''01A009712548'') = Some 1786864805192 \<and>
   decode_epoch_ms (Some ''019883000000'') = Some 1754544472064"
proof -
  have h: "plausible 1786864805192" "plausible 1754544472064"
    by (simp_all add: plausible_def EPOCH_MS_MIN_def EPOCH_MS_MAX_def)
  have n: "int (nat_of_hex ''01A009712548'') = 1786864805192" "int (nat_of_hex ''019883000000'') = 1754544472064"
    by (simp_all add: nat_of_hex_def hex_val_def)
  have x: "list_all is_hex_digit ''01A009712548''" "list_all is_hex_digit ''019883000000''"
    by (simp_all add: is_hex_digit_nat)
  show ?thesis
    using epoch_headers_decode [of 1786864805192 "''01A009712548''" None]
      epoch_headers_decode [of 1754544472064 "''019883000000''" None] h n x by simp
qed

text \<open>C30. The log window. There is one exactly when some timestamp is usable. It reaches from the lead before its anchor
  to the trail behind it; an anchor that is no fallback is the scheduled retry and lies in the past, and a
  fallback is taken only when that time is missing or still to come. The window counts as too old exactly
  when its start is older than the limit, and the look-back handed to the log source reaches its start.\<close>

theorem window_covers_the_failure:
  assumes "derive_window env h now = Some w"
  shows "lw_start_ms w \<le> lw_anchor_ms w \<and> lw_anchor_ms w \<le> lw_end_ms w \<and>
    lw_end_ms w - lw_start_ms w = (lead_seconds env + trail_seconds env) * 1000 \<and>
    (if lw_anchor_is_fallback w
     then (\<forall>b. hd_backoff_timestamp_ms h = Some b \<longrightarrow> now < b) \<and>
       Some (lw_anchor_ms w) \<in> {hd_retry_original_timestamp_ms h, hd_original_timestamp_ms h}
     else hd_backoff_timestamp_ms h = Some (lw_anchor_ms w) \<and> lw_anchor_ms w \<le> now) \<and>
    (lw_too_old w \<longleftrightarrow> now - lw_start_ms w > max_age_seconds env * 1000) \<and>
    of_int (now - lw_start_ms w) \<le> tw_hours (to_time_window env w now) * 3600000 \<and>
    0 \<le> tw_hours (to_time_window env w now)"
proof -
  have nn: "0 \<le> lead_seconds env" "0 \<le> trail_seconds env" "0 \<le> max_age_seconds env"
    by (simp_all add: lead_seconds_def trail_seconds_def max_age_seconds_def int_env_at_least_ge)
  obtain a fb where a: "select_anchor h now = (Some a, fb)"
    and w: "w = \<lparr>lw_anchor_ms = a, lw_start_ms = a - lead_seconds env * 1000, lw_end_ms = a + trail_seconds env * 1000,
      lw_too_old = (max 0 (of_int (now - (a - lead_seconds env * 1000)) / 1000 :: rat) > of_int (max_age_seconds env)),
      lw_anchor_is_fallback = fb, lw_age_seconds = max 0 (of_int (now - (a - lead_seconds env * 1000)) / 1000)\<rparr>"
    using assms by (auto simp: derive_window_def Let_def split: prod.splits option.splits)
  have anchor: "if fb then (\<forall>b. hd_backoff_timestamp_ms h = Some b \<longrightarrow> now < b) \<and>
       Some a \<in> {hd_retry_original_timestamp_ms h, hd_original_timestamp_ms h}
     else hd_backoff_timestamp_ms h = Some a \<and> a \<le> now"
    using a by (auto simp: select_anchor_def split: option.splits if_splits)
  have age: "(of_int m :: rat) < of_int n / 1000 \<longleftrightarrow> m * 1000 < n" for m n :: int
  proof -
    have "(of_int m :: rat) < of_int n / 1000 \<longleftrightarrow> (of_int (m * 1000) :: rat) < of_int n" by (simp add: field_simps)
    then show ?thesis by (simp only: of_int_less_iff)
  qed
  have old: "(of_int (max_age_seconds env) :: rat) < max 0 (of_int (now - (a - lead_seconds env * 1000)) / 1000) \<longleftrightarrow>
      max_age_seconds env * 1000 < now - (a - lead_seconds env * 1000)"
    using nn(3) age [of "max_age_seconds env" "now - (a - lead_seconds env * 1000)"] by (auto simp: less_max_iff_disj)
  let ?b = "max (now - (a - lead_seconds env * 1000)) ((lead_seconds env + trail_seconds env) * 1000)"
  have t: "tw_hours (to_time_window env w now) * 3600000 = of_int ?b"
    by (simp add: to_time_window_def w)
  have "now - (a - lead_seconds env * 1000) \<le> ?b" "0 \<le> ?b" using nn by (auto simp: le_max_iff_disj)
  then have "(of_int (now - (a - lead_seconds env * 1000)) :: rat) \<le> of_int ?b" "0 \<le> (of_int ?b :: rat)"
    by (simp_all only: of_int_le_iff of_int_0_le_iff)
  then have "of_int (now - (a - lead_seconds env * 1000)) \<le> tw_hours (to_time_window env w now) * 3600000"
    and "0 \<le> tw_hours (to_time_window env w now)" unfolding t [symmetric] by (simp_all add: zero_le_mult_iff)
  moreover have "lw_start_ms w \<le> lw_anchor_ms w" "lw_anchor_ms w \<le> lw_end_ms w"
    "lw_end_ms w - lw_start_ms w = (lead_seconds env + trail_seconds env) * 1000"
    "lw_too_old w \<longleftrightarrow> now - lw_start_ms w > max_age_seconds env * 1000"
    using nn old by (simp_all add: w algebra_simps)
  moreover have e: "lw_start_ms w = a - lead_seconds env * 1000" "lw_anchor_ms w = a" "lw_anchor_is_fallback w = fb"
    by (simp_all add: w)
  ultimately show ?thesis using anchor unfolding e by (intro conjI)
qed

text \<open>A retry that Spring had scheduled but never ran: the anchor is the start of the retry flow.\<close>

definition early_give_up :: dlt_headers where
  "early_give_up = (parse_headers [])\<lparr>hd_backoff_timestamp_ms := Some 1786973987552,
     hd_retry_original_timestamp_ms := Some 1786973867552\<rparr>"

theorem window_covers_the_failure_witness:
  "\<exists>w. derive_window (\<lambda>_. None) early_give_up 1786973900000 = Some w \<and>
     lw_anchor_is_fallback w \<and> \<not> lw_too_old w \<and> lw_anchor_ms w = 1786973867552"
proof -
  let ?w = "\<lparr>lw_anchor_ms = 1786973867552, lw_start_ms = 1786973567552, lw_end_ms = 1786973987552, lw_too_old = False,
      lw_anchor_is_fallback = True, lw_age_seconds = 332448 / 1000\<rparr>"
  have d: "derive_window (\<lambda>_. None) early_give_up 1786973900000 = Some ?w"
    by (simp add: derive_window_def select_anchor_def early_give_up_def lead_seconds_def trail_seconds_def
        max_age_seconds_def int_env_at_least_def)
  have "lw_too_old ?w \<longleftrightarrow> 1786973900000 - lw_start_ms ?w > max_age_seconds (\<lambda>_. None) * 1000"
    using window_covers_the_failure [OF d] by blast
  with d show ?thesis by (intro exI [of _ ?w]) simp
qed

end
