(* ===== verification/Payload.thy ===== *)
theory Payload
  imports Dlt_Headers Identity
begin

text \<open>
  The payload of a dead-lettered record and its correlation identifier: \<^verbatim>\<open>src/dlt/payload.py\<close> with the
  payload types of \<^verbatim>\<open>src/models/dlt_payload_schemas.py\<close>, and the translation of the AUDIT contract into
  the packet event, \<^verbatim>\<open>src/models/audit_contract.py\<close>.

  A decoded payload is a \<open>pvalue\<close>, which tells integers from floats as Python does. The schema check of the
  packet event (\<^verbatim>\<open>MessagePayload.model_validate\<close>) is the field \<open>sv_accepts\<close> of the services; a field that
  passes it as \<^verbatim>\<open>Optional[str]\<close> is a string or absent. Date formatting (\<^verbatim>\<open>_iso_utc\<close>, \<^verbatim>\<open>_sid_date\<close>), reading
  JSON and \<^verbatim>\<open>str()\<close> of a value that is no string are fields as well.
\<close>

section \<open>Values\<close>

datatype pvalue =
    PNull
  | PBool bool
  | PInt int
  | PFloat rat
  | PStr string
  | PList "pvalue list"
  | PDict "(string \<times> pvalue) list"

record services =
  sv_accepts :: "pvalue \<Rightarrow> bool"
  sv_iso_utc :: "pvalue \<Rightarrow> string option"
  sv_sid_date :: "string \<Rightarrow> string option"
  sv_parse :: "string \<Rightarrow> pvalue option"
  sv_str :: "pvalue \<Rightarrow> string"

text \<open>\<^verbatim>\<open>d.get(k)\<close>, where a missing key reads as null.\<close>

definition pget :: "(string \<times> pvalue) list \<Rightarrow> string \<Rightarrow> pvalue" where
  "pget d k = (case map_of d k of None \<Rightarrow> PNull | Some v \<Rightarrow> v)"

fun pdict :: "pvalue \<Rightarrow> (string \<times> pvalue) list option" where
  "pdict (PDict d) = Some d"
| "pdict _ = None"

definition popt :: "string option \<Rightarrow> pvalue" where
  "popt x = (case x of None \<Rightarrow> PNull | Some s \<Rightarrow> PStr s)"


section \<open>The AUDIT contract\<close>

definition EXECUTION_ON_HOLD :: string where "EXECUTION_ON_HOLD = ''ON_HOLD''"
definition STATUS_ON_HOLD :: string where "STATUS_ON_HOLD = ''ON_HOLD''"
definition STATUS_REJECTED :: string where "STATUS_REJECTED = ''REJECTED''"

fun text_of :: "pvalue \<Rightarrow> string option" where
  "text_of (PStr s) = (if py_strip s = [] then None else Some (py_strip s))"
| "text_of _ = None"

definition flag_of :: "pvalue \<Rightarrow> bool option" where
  "flag_of v =
     (case v of
        PBool b \<Rightarrow> Some b
      | _ \<Rightarrow> (case text_of v of
                None \<Rightarrow> None
              | Some t \<Rightarrow> if py_lower t = ''true'' then Some True
                          else if py_lower t = ''false'' then Some False else None))"

definition pflag :: "bool option \<Rightarrow> pvalue" where
  "pflag x = (case x of None \<Rightarrow> PNull | Some b \<Rightarrow> PBool b)"

definition packet_status :: "string option \<Rightarrow> string" where
  "packet_status execution =
     (if execution \<noteq> None \<and> py_upper (the execution) = EXECUTION_ON_HOLD then STATUS_ON_HOLD else STATUS_REJECTED)"

definition is_audit_envelope :: "pvalue \<Rightarrow> bool" where
  "is_audit_envelope v =
     (case v of
        PDict d \<Rightarrow> pdict (pget d ''edata'') \<noteq> None \<and> map_of d ''packetExecutionSummary'' = None
      | _ \<Rightarrow> False)"

text \<open>The text of a field of the envelope.\<close>

definition field :: "(string \<times> pvalue) list \<Rightarrow> string \<Rightarrow> pvalue" where
  "field d k = popt (text_of (pget d k))"

definition audit_meta :: "(string \<times> pvalue) list \<Rightarrow> (string \<times> pvalue) list" where
  "audit_meta edata =
     [(''refId'', field edata ''refId''), (''enrolmentType'', field edata ''enrolmentType''),
      (''pktSource'', field edata ''pktSource''), (''isMBU'', pflag (flag_of (pget edata ''isMBU''))),
      (''isNRI'', pflag (flag_of (pget edata ''isNRI''))),
      (''isForeignResident'', pflag (flag_of (pget edata ''isForeignResident'')))]"

definition audit_summary :: "(string \<times> pvalue) list \<Rightarrow> (string \<times> pvalue) list" where
  "audit_summary edata =
     (let execution = text_of (pget edata ''executionStatus'');
          validation = flag_of (pget edata ''validationStatus'');
          state = (\<lambda>s. case execution of None \<Rightarrow> PNull | Some e \<Rightarrow> PBool (py_upper e = s))
      in [(''packetStatus'', PStr (packet_status execution)),
          (''errorData'', (case pget edata ''errorData'' of PList xs \<Rightarrow> PList xs | _ \<Rightarrow> PNull)),
          (''hasExecutionErrors'', state EXECUTION_ON_HOLD), (''isExecutionSuccess'', state ''COMPLETED''),
          (''hasValidationErrors'', pflag (map_option Not validation)), (''isValidationSuccess'', pflag validation)])"

definition audit_event :: "services \<Rightarrow> (string \<times> pvalue) list \<Rightarrow> (string \<times> pvalue) list \<Rightarrow> (string \<times> pvalue) list" where
  "audit_event sv d edata =
     [(''eventId'', field edata ''refId''), (''category'', field d ''messageType''),
      (''eventType'', field edata ''stageOutcome''), (''eventTimestamp'', popt (sv_iso_utc sv (pget d ''ets''))),
      (''eventVersion'', field d ''ver''), (''sid'', field edata ''sid''),
      (''sidDate'', popt (Option.bind (text_of (pget edata ''sid'')) (sv_sid_date sv))), (''version'', field d ''ver''),
      (''sourceTopic'', field edata ''publishedTopic''),
      (''flowMetaData'', PDict [(''stage'', field edata ''stage''), (''subStage'', field edata ''subStage'')]),
      (''packetMetaData'', PDict (audit_meta edata)), (''packetExecutionSummary'', PDict (audit_summary edata)),
      (''resubmissionSummary'', PDict
        [(''resubmissionCount'', pget edata ''resubmissionCount''),
         (''resubmissionReason'', field edata ''resubmissionReason'')])]"

definition to_message_payload :: "services \<Rightarrow> pvalue \<Rightarrow> pvalue" where
  "to_message_payload sv v =
     (case v of
        PDict d \<Rightarrow>
          (if is_audit_envelope v
           then (case pdict (pget d ''edata'') of Some edata \<Rightarrow> PDict (audit_event sv d edata) | None \<Rightarrow> v)
           else v)
      | _ \<Rightarrow> v)"


section \<open>Settings\<close>

definition DEFAULT_REFID_KEYS :: "string list" where
  "DEFAULT_REFID_KEYS = [''refId'', ''ref_id'', ''referenceId'']"

definition DENY_KEYS :: "string list" where
  "DENY_KEYS = [''event_id'', ''eventId'', ''candidateRefId'', ''candidate_ref_id'', ''requestId'', ''request_id'']"

definition MAX_SEARCH_DEPTH :: nat where "MAX_SEARCH_DEPTH = 8"
definition MAX_SEARCH_NODES :: nat where "MAX_SEARCH_NODES = 2000"

definition TYPE_ENROLMENT_EVENT_RESPONSE :: string where
  "TYPE_ENROLMENT_EVENT_RESPONSE = ''in.gov.uidai.uidabismiddlewaresb.kafka.model.EnrolmentEventResponse''"

definition REFID_PATHS_BY_TYPE :: "(string \<times> string list) list" where
  "REFID_PATHS_BY_TYPE =
     [(TYPE_ENROLMENT_EVENT_RESPONSE,
       [''abisMWResponseNewSeda.refId'', ''abisMWResponseNewSeda.abisResponses.referenceId''])]"

definition refid_path :: "env \<Rightarrow> string option" where
  "refid_path env = (let p = py_strip (env_get env ''DLT_REFID_PATH'' []) in if p = [] then None else Some p)"

definition refid_keys :: "env \<Rightarrow> string list" where
  "refid_keys env =
     (let raw = py_strip (env_get env ''DLT_REFID_KEYS'' []);
          parsed = filter (\<lambda>k. k \<noteq> [] \<and> k \<notin> set DENY_KEYS) (map py_strip (split_on CHR '','' raw))
      in if raw = [] \<or> parsed = [] then DEFAULT_REFID_KEYS else parsed)"

fun ptruthy :: "pvalue \<Rightarrow> bool" where
  "ptruthy PNull = False"
| "ptruthy (PBool b) = b"
| "ptruthy (PInt n) = (n \<noteq> 0)"
| "ptruthy (PFloat r) = (r \<noteq> 0)"
| "ptruthy (PStr s) = (s \<noteq> [])"
| "ptruthy (PList xs) = (xs \<noteq> [])"
| "ptruthy (PDict d) = (d \<noteq> [])"

definition value_str :: "services \<Rightarrow> pvalue \<Rightarrow> string" where
  "value_str sv v = (case v of PStr s \<Rightarrow> s | _ \<Rightarrow> sv_str sv v)"

definition add_paths :: "services \<Rightarrow> string \<times> pvalue \<Rightarrow> (string \<times> string list) list \<Rightarrow> (string \<times> string list) list" where
  "add_paths sv kv out =
     (case snd kv of
        PStr p \<Rightarrow> AList.update (fst kv) [p] out
      | PList xs \<Rightarrow> AList.update (fst kv) (map (value_str sv) (filter ptruthy xs)) out
      | _ \<Rightarrow> out)"

definition paths_override :: "services \<Rightarrow> env \<Rightarrow> (string \<times> string list) list" where
  "paths_override sv env =
     (let raw = py_strip (env_get env ''DLT_REFID_PATHS_BY_TYPE'' [])
      in if raw = [] then []
         else (case sv_parse sv raw of Some (PDict d) \<Rightarrow> fold (add_paths sv) d [] | _ \<Rightarrow> []))"

definition paths_for_type :: "services \<Rightarrow> env \<Rightarrow> string option \<Rightarrow> string list" where
  "paths_for_type sv env type_id =
     (case type_id of
        None \<Rightarrow> []
      | Some ty \<Rightarrow>
          if ty = [] then []
          else (case map_of (paths_override sv env) ty of
                  Some (p # ps) \<Rightarrow> p # ps
                | _ \<Rightarrow> (case map_of REFID_PATHS_BY_TYPE ty of Some ps \<Rightarrow> ps | None \<Rightarrow> [])))"


section \<open>Extraction\<close>

fun scalar :: "pvalue \<Rightarrow> string option" where
  "scalar (PStr s) = (if py_strip s = [] then None else Some (py_strip s))"
| "scalar (PInt n) = Some (show_int n)"
| "scalar _ = None"

text \<open>\<^verbatim>\<open>xs[i]\<close> with Python's negative indices.\<close>

definition list_at :: "'a list \<Rightarrow> int \<Rightarrow> 'a option" where
  "list_at xs i =
     (if 0 \<le> i \<and> i < int (length xs) then Some (xs ! nat i)
      else if i < 0 \<and> - i \<le> int (length xs) then Some (xs ! nat (int (length xs) + i)) else None)"

text \<open>A segment such as \<^verbatim>\<open>--1\<close> passes the digit test and is no number.\<close>

fun follow :: "pvalue \<Rightarrow> string list \<Rightarrow> exn + pvalue option" where
  "follow node [] = Inr (Some node)"
| "follow node (seg # segs) =
     (case node of
        PDict d \<Rightarrow> (case map_of d seg of None \<Rightarrow> Inr None | Some v \<Rightarrow> follow v segs)
      | PList xs \<Rightarrow>
          (let digits = lstrip (\<lambda>c. c = CHR ''-'') seg
           in if digits = [] \<or> \<not> list_all is_digit digits then Inr None
              else (case py_int seg of
                      None \<Rightarrow> Inl ValueError
                    | Some i \<Rightarrow> (case list_at xs i of None \<Rightarrow> Inr None | Some v \<Rightarrow> follow v segs)))
      | _ \<Rightarrow> Inr None)"

definition extract_by_path :: "pvalue \<Rightarrow> string option \<Rightarrow> exn + string option" where
  "extract_by_path payload path =
     (case path of
        None \<Rightarrow> Inr None
      | Some p \<Rightarrow>
          if p = [] \<or> payload = PNull then Inr None
          else map_sum id (\<lambda>v. Option.bind v scalar) (follow payload (split_on CHR ''.'' p)))"

fun containers :: "pvalue list \<Rightarrow> pvalue list" where
  "containers [] = []"
| "containers (v # vs) = (case v of PDict d \<Rightarrow> [v] | PList xs \<Rightarrow> [v] | _ \<Rightarrow> []) @ containers vs"

fun children :: "pvalue \<Rightarrow> pvalue list" where
  "children (PDict d) = containers (map snd d)"
| "children (PList xs) = containers xs"
| "children _ = []"

fun identifier_in :: "string list \<Rightarrow> pvalue \<Rightarrow> string option" where
  "identifier_in [] v = None"
| "identifier_in (k # ks) v =
     (case v of
        PDict d \<Rightarrow>
          (case Option.bind (map_of d k) scalar of Some r \<Rightarrow> Some r | None \<Rightarrow> identifier_in ks v)
      | _ \<Rightarrow> None)"

text \<open>The loop over the queue; it ends because every round visits a node.\<close>

function search_queue :: "string list \<Rightarrow> nat \<Rightarrow> (pvalue \<times> nat) list \<Rightarrow> nat \<Rightarrow> string option" where
  "search_queue wanted max_depth [] visited = None"
| "search_queue wanted max_depth ((node, depth) # q) visited =
     (if depth > max_depth \<or> Suc visited > MAX_SEARCH_NODES then None
      else (case identifier_in wanted node of
              Some r \<Rightarrow> Some r
            | None \<Rightarrow> search_queue wanted max_depth (q @ map (\<lambda>v. (v, Suc depth)) (children node)) (Suc visited)))"
  by pat_completeness auto
termination
  by (relation "measure (\<lambda>(w, m, q, visited). MAX_SEARCH_NODES - visited)") auto

definition extract_by_search :: "env \<Rightarrow> pvalue \<Rightarrow> string list option \<Rightarrow> nat \<Rightarrow> string option" where
  "extract_by_search env payload keys max_depth =
     (if payload = PNull then None
      else search_queue (case keys of None \<Rightarrow> refid_keys env | Some ks \<Rightarrow> if ks = [] then refid_keys env else ks)
             max_depth [(payload, 0)] 0)"

fun first_path :: "pvalue \<Rightarrow> string list \<Rightarrow> exn + string option" where
  "first_path payload [] = Inr None"
| "first_path payload (p # ps) =
     (case extract_by_path payload (Some p) of
        Inl e \<Rightarrow> Inl e
      | Inr (Some r) \<Rightarrow> Inr (Some r)
      | Inr None \<Rightarrow> first_path payload ps)"

definition extract_by_type :: "services \<Rightarrow> env \<Rightarrow> pvalue \<Rightarrow> string option \<Rightarrow> exn + string option" where
  "extract_by_type sv env payload type_id = first_path payload (paths_for_type sv env type_id)"

definition decode_key :: "(string \<Rightarrow> string) \<Rightarrow> kafka_text option \<Rightarrow> string option" where
  "decode_key utf8 raw =
     (case raw of None \<Rightarrow> None
      | Some t \<Rightarrow> let s = py_strip (kafka_str utf8 t) in if s = [] then None else Some s)"

definition key_shape :: "string \<Rightarrow> bool" where
  "key_shape s \<longleftrightarrow>
     (let body = (if s \<noteq> [] \<and> last s = CHR 0x0A then butlast s else s)
      in 8 \<le> length body \<and> length body \<le> 128 \<and>
         (is_upper (hd body) \<or> is_lower (hd body) \<or> is_digit (hd body)) \<and> list_all id_char (tl body))"

definition key_as_ref_id :: "string option \<Rightarrow> string option" where
  "key_as_ref_id key =
     (case key of None \<Rightarrow> None | Some k \<Rightarrow> if k = [] then None else if key_shape k then Some k else None)"


section \<open>The packet event as a contract\<close>

record contract =
  ct_event_id :: pvalue
  ct_ref_id :: pvalue
  ct_srn :: pvalue
  ct_sid :: pvalue

definition rejection_contract :: "services \<Rightarrow> pvalue \<Rightarrow> contract option" where
  "rejection_contract sv payload =
     (case to_message_payload sv payload of
        PDict d \<Rightarrow>
          (if sv_accepts sv (PDict d)
           then (let meta = (case pdict (pget d ''packetMetaData'') of None \<Rightarrow> [] | Some m \<Rightarrow> m)
                 in Some \<lparr>ct_event_id = pget d ''eventId'', ct_ref_id = pget meta ''refId'', ct_srn = pget meta ''srn'',
                          ct_sid = pget d ''sid''\<rparr>)
           else None)
      | _ \<Rightarrow> None)"

definition contract_identifiers :: "contract \<Rightarrow> string list" where
  "contract_identifiers c =
     dedupe (List.map_filter scalar [ct_event_id c, ct_ref_id c, ct_srn c, ct_sid c])"

datatype ref_source = Contract | Record_key | Configured_path | Type_path | Search | No_source

record extraction =
  ex_ref_id :: "string option"
  ex_source :: ref_source
  ex_payload_ref_id :: "string option"
  ex_mismatch :: bool

definition payload_ref_id :: "services \<Rightarrow> env \<Rightarrow> pvalue \<Rightarrow> string option \<Rightarrow> exn + string option \<times> ref_source" where
  "payload_ref_id sv env payload type_id =
     (case extract_by_path payload (refid_path env) of
        Inl e \<Rightarrow> Inl e
      | Inr (Some r) \<Rightarrow> Inr (Some r, Configured_path)
      | Inr None \<Rightarrow>
          (case extract_by_type sv env payload type_id of
             Inl e \<Rightarrow> Inl e
           | Inr (Some r) \<Rightarrow> Inr (Some r, Type_path)
           | Inr None \<Rightarrow>
               (case extract_by_search env payload None MAX_SEARCH_DEPTH of
                  Some r \<Rightarrow> Inr (Some r, Search)
                | None \<Rightarrow> Inr (None, No_source))))"

definition resolve_ref_id :: "services \<Rightarrow> env \<Rightarrow> pvalue \<Rightarrow> string option \<Rightarrow> string option \<Rightarrow> exn + extraction" where
  "resolve_ref_id sv env payload key type_id =
     (case Option.bind (rejection_contract sv payload) (\<lambda>c. map_option (Pair c) (scalar (ct_ref_id c))) of
        Some (c, r) \<Rightarrow>
          let k = decode_key id (map_option Raw_text key)
          in Inr \<lparr>ex_ref_id = Some r, ex_source = Contract, ex_payload_ref_id = Some r,
                  ex_mismatch = (case k of None \<Rightarrow> False | Some t \<Rightarrow> t \<notin> set (contract_identifiers c))\<rparr>
      | None \<Rightarrow>
          (case payload_ref_id sv env payload type_id of
             Inl e \<Rightarrow> Inl e
           | Inr (found, source) \<Rightarrow>
               (case key_as_ref_id key of
                  Some k \<Rightarrow> Inr \<lparr>ex_ref_id = Some k, ex_source = Record_key, ex_payload_ref_id = found,
                                ex_mismatch = (found \<noteq> None \<and> found \<noteq> Some k)\<rparr>
                | None \<Rightarrow> Inr \<lparr>ex_ref_id = found, ex_source = source, ex_payload_ref_id = found, ex_mismatch = False\<rparr>)))"


section \<open>The search, level by level\<close>

fun first_found :: "('a \<Rightarrow> 'b option) \<Rightarrow> 'a list \<Rightarrow> 'b option" where
  "first_found f [] = None"
| "first_found f (x # xs) = (case f x of Some r \<Rightarrow> Some r | None \<Rightarrow> first_found f xs)"

definition next_level :: "pvalue list \<Rightarrow> pvalue list" where
  "next_level vs = concat (map children vs)"

fun levels :: "nat \<Rightarrow> pvalue list \<Rightarrow> pvalue list" where
  "levels 0 vs = vs"
| "levels (Suc n) vs = vs @ levels n (next_level vs)"

definition level :: "nat \<Rightarrow> pvalue \<Rightarrow> pvalue list" where
  "level n v = (next_level ^^ n) [v]"

lemma next_level_append [simp]: "next_level (xs @ ys) = next_level xs @ next_level ys"
  by (simp add: next_level_def)

lemma next_level_Cons: "next_level (x # xs) = children x @ next_level xs"
  by (simp add: next_level_def)

lemma next_level_Nil [simp]: "next_level [] = []"
  by (simp add: next_level_def)

lemma levels_Nil [simp]: "levels n [] = []"
  by (induction n) auto

lemma levels_unfold: "levels n vs = vs @ (if n = 0 then [] else levels (n - 1) (next_level vs))"
  by (cases n) auto

declare search_queue.simps [simp del]

lemma search_levels:
  assumes "d \<le> m" and "v \<le> MAX_SEARCH_NODES"
  shows "search_queue w m (map (\<lambda>n. (n, d)) L @ map (\<lambda>n. (n, Suc d)) C) v =
    first_found (identifier_in w)
      (take (MAX_SEARCH_NODES - v) (L @ (if d < m then levels (m - Suc d) (C @ next_level L) else [])))"
  using assms
proof (induction "MAX_SEARCH_NODES - v" arbitrary: d v L C)
  case 0
  then have "search_queue w m q v = None" for q by (cases q) (auto simp: search_queue.simps)
  with 0 show ?case by simp
next
  case (Suc k)
  have step: "search_queue w m (map (\<lambda>n. (n, d)) (x # L) @ map (\<lambda>n. (n, Suc d)) C) v =
      first_found (identifier_in w)
        (take (MAX_SEARCH_NODES - v) ((x # L) @ (if d < m then levels (m - Suc d) (C @ next_level (x # L)) else [])))"
    if "d \<le> m" for d x L C
  proof -
    have v: "\<not> Suc v > MAX_SEARCH_NODES" "k = MAX_SEARCH_NODES - Suc v" "Suc v \<le> MAX_SEARCH_NODES"
      using Suc.hyps(2) by linarith+
    have s: "search_queue w m (map (\<lambda>n. (n, d)) (x # L) @ map (\<lambda>n. (n, Suc d)) C) v =
      (case identifier_in w x of Some r \<Rightarrow> Some r
       | None \<Rightarrow> search_queue w m (map (\<lambda>n. (n, d)) L @ map (\<lambda>n. (n, Suc d)) (C @ children x)) (Suc v))"
      using that v(1) by (simp add: search_queue.simps split: option.split)
    show ?thesis
      unfolding s Suc.hyps(1) [OF v(2) that v(3)] Suc.hyps(2) [symmetric] v(2) [symmetric]
      by (simp add: next_level_Cons split: option.split)
  qed
  show ?case
  proof (cases L)
    case (Cons x L')
    then show ?thesis using step [OF Suc.prems(1), of x L' C] by simp
  next
    case L: Nil
    show ?thesis
    proof (cases C)
      case Nil
      then show ?thesis using L by (simp add: search_queue.simps)
    next
      case (Cons c C')
      show ?thesis
      proof (cases "d < m")
        case True
        then show ?thesis
          using step [of "Suc d" c C' "[]"] L Cons levels_unfold [of "m - Suc d" C] by simp
      next
        case False
        then show ?thesis using L Cons by (simp add: search_queue.simps)
      qed
    qed
  qed
qed

lemma search_is_breadth_first:
  "extract_by_search env v None d =
     (if v = PNull then None
      else first_found (identifier_in (refid_keys env)) (take MAX_SEARCH_NODES (levels d [v])))"
  using search_levels [of 0 d 0 "refid_keys env" "[v]" "[]"] levels_unfold [of d "[v]"]
  by (simp add: extract_by_search_def)

lemma first_found_split:
  assumes "first_found f xs = Some r"
  obtains ys x zs where "xs = ys @ x # zs" and "f x = Some r" and "\<forall>y\<in>set ys. f y = None"
proof -
  have "\<exists>ys x zs. xs = ys @ x # zs \<and> f x = Some r \<and> (\<forall>y\<in>set ys. f y = None)"
    using assms
  proof (induction xs)
    case (Cons a xs)
    show ?case
    proof (cases "f a")
      case None
      then obtain ys x zs where "xs = ys @ x # zs" "f x = Some r" "\<forall>y\<in>set ys. f y = None" using Cons by auto
      then show ?thesis using None by (intro exI [of _ "a # ys"] exI [of _ x] exI [of _ zs]) simp
    next
      case (Some s)
      then show ?thesis using Cons.prems by (intro exI [of _ "[]"] exI [of _ a] exI [of _ xs]) simp
    qed
  qed simp
  with that show ?thesis by blast
qed

lemma levels_split:
  assumes "levels d vs = ys @ x # zs"
  shows "\<exists>k\<le>d. x \<in> set ((next_level ^^ k) vs) \<and> (\<forall>j<k. set ((next_level ^^ j) vs) \<subseteq> set ys)"
  using assms
proof (induction d arbitrary: vs ys)
  case 0
  then show ?case by (intro exI [of _ 0]) simp
next
  case (Suc d)
  show ?case
  proof (cases "length ys < length vs")
    case True
    have "x = (vs @ levels d (next_level vs)) ! length ys" using Suc.prems by simp
    then have "x \<in> set vs" using True by (simp add: nth_append)
    then show ?thesis by (intro exI [of _ 0]) simp
  next
    case False
    have "vs = take (length vs) (ys @ x # zs)" using Suc.prems by (metis append_eq_conv_conj levels.simps(2))
    then have "vs = take (length vs) ys" using False by simp
    then obtain us where u: "ys = vs @ us" by (metis append_take_drop_id)
    with Suc.prems have "levels d (next_level vs) = us @ x # zs" by simp
    from Suc.IH [OF this] obtain k where k: "k \<le> d" "x \<in> set ((next_level ^^ k) (next_level vs))"
      "\<forall>j<k. set ((next_level ^^ j) (next_level vs)) \<subseteq> set us" by blast
    have f: "(next_level ^^ j) (next_level vs) = (next_level ^^ Suc j) vs" for j by (simp add: funpow_swap1)
    have "\<forall>j<Suc k. set ((next_level ^^ j) vs) \<subseteq> set ys"
    proof (intro allI impI)
      fix j assume "j < Suc k"
      then show "set ((next_level ^^ j) vs) \<subseteq> set ys"
        using k(3) u by (cases j) (auto simp: f [symmetric] simp del: funpow.simps)
    qed
    then show ?thesis using k(1,2) unfolding f by (intro exI [of _ "Suc k"]) simp
  qed
qed

lemma identifier_found:
  assumes "identifier_in ks v = Some r"
  shows "\<exists>d k. v = PDict d \<and> k \<in> set ks \<and> Option.bind (map_of d k) scalar = Some r"
  using assms
proof (induction ks)
  case (Cons k ks)
  then show ?case by (cases v) (auto split: option.splits)
qed simp

lemma keys_not_denied: "k \<in> set (refid_keys env) \<Longrightarrow> k \<notin> set DENY_KEYS"
  by (auto simp: refid_keys_def Let_def DEFAULT_REFID_KEYS_def DENY_KEYS_def split: if_splits)


text \<open>The denied names are closed to the search only: a configured path reads whatever it names.\<close>

lemma configured_path_reads_a_denied_key:
  "extract_by_path (PDict [(''event_id'', PStr ''b733ab61'')])
     (refid_path (\<lambda>n. if n = ''DLT_REFID_PATH'' then Some ''event_id'' else None)) = Inr (Some ''b733ab61'')"
  by code_simp

lemma bad_segment_raises: "extract_by_path (PDict [(''a'', PList [PNull])]) (Some ''a.--1'') = Inl ValueError"
  by code_simp

lemma audit_event_no_envelope [simp]: "\<not> is_audit_envelope (PDict (audit_event sv d edata))"
  by (simp add: is_audit_envelope_def audit_event_def)

lemma to_message_payload_cases:
  obtains (other) "\<not> is_audit_envelope v" "to_message_payload sv v = v"
  | (audit) d edata where "v = PDict d" "is_audit_envelope v" "pget d ''edata'' = PDict edata"
      "to_message_payload sv v = PDict (audit_event sv d edata)"
proof (cases "is_audit_envelope v")
  case False
  then show ?thesis using other by (cases v) (auto simp: to_message_payload_def)
next
  case True
  then obtain d edata where "v = PDict d" "pget d ''edata'' = PDict edata"
    by (auto simp: is_audit_envelope_def elim!: pdict.elims split: pvalue.splits)
  then show ?thesis using audit True by (auto simp: to_message_payload_def)
qed


section \<open>Properties\<close>

text \<open>The search is bounded and never mistakes a neighbour's identifier for the packet's: what it returns is a scalar
  under one of the accepted keys, none of which is a denied one, in a node no more than eight levels
  deep, and no node of a higher level holds an accepted key with a scalar.\<close>

theorem shallowest_identifier_wins:
  assumes "extract_by_search env v None MAX_SEARCH_DEPTH = Some r"
  shows "\<exists>k d key. k \<le> MAX_SEARCH_DEPTH \<and> PDict d \<in> set (level k v) \<and> key \<in> set (refid_keys env) \<and> key \<notin> set DENY_KEYS \<and>
    Option.bind (map_of d key) scalar = Some r \<and>
    (\<forall>j<k. \<forall>n\<in>set (level j v). identifier_in (refid_keys env) n = None)"
proof -
  let ?f = "identifier_in (refid_keys env)"
  have "first_found ?f (take MAX_SEARCH_NODES (levels MAX_SEARCH_DEPTH [v])) = Some r"
    using assms by (simp add: search_is_breadth_first split: if_splits)
  then obtain ys x zs where x: "take MAX_SEARCH_NODES (levels MAX_SEARCH_DEPTH [v]) = ys @ x # zs"
    "?f x = Some r" "\<forall>y\<in>set ys. ?f y = None" by (rule first_found_split)
  then have "levels MAX_SEARCH_DEPTH [v] = ys @ x # (zs @ drop MAX_SEARCH_NODES (levels MAX_SEARCH_DEPTH [v]))"
    using append_take_drop_id [of MAX_SEARCH_NODES "levels MAX_SEARCH_DEPTH [v]"] by simp
  from levels_split [OF this] obtain k where k: "k \<le> MAX_SEARCH_DEPTH" "x \<in> set (level k v)"
    "\<forall>j<k. set (level j v) \<subseteq> set ys" by (auto simp: level_def)
  obtain d key where "x = PDict d" "key \<in> set (refid_keys env)" "Option.bind (map_of d key) scalar = Some r"
    using identifier_found [OF x(2)] by blast
  then show ?thesis using k x(3) keys_not_denied by blast
qed

text \<open>A response whose candidates carry identifiers of other enrolments.\<close>

definition matcher_reply :: pvalue where
  "matcher_reply = PDict
     [(''event_id'', PStr ''b733ab61''),
      (''candidates'', PList [PDict [(''refId'', PStr ''other'')]]),
      (''reply'', PDict [(''refId'', PStr '' c5d21184 '')])]"

theorem shallowest_identifier_wins_witness:
  "extract_by_search (\<lambda>_. None) matcher_reply None MAX_SEARCH_DEPTH = Some ''c5d21184'' \<and>
   (\<exists>k d key. k \<le> MAX_SEARCH_DEPTH \<and> PDict d \<in> set (level k matcher_reply) \<and> key \<notin> set DENY_KEYS \<and>
      Option.bind (map_of d key) scalar = Some ''c5d21184'')"
proof -
  have "extract_by_search (\<lambda>_. None) matcher_reply None MAX_SEARCH_DEPTH = Some ''c5d21184''" by code_simp
  with shallowest_identifier_wins [OF this] show ?thesis by blast
qed


definition no_services :: services where
  "no_services = \<lparr>sv_accepts = (\<lambda>_. False), sv_iso_utc = (\<lambda>_. None), sv_sid_date = (\<lambda>_. None), sv_parse = (\<lambda>_. None),
     sv_str = (\<lambda>_. [])\<rparr>"


text \<open>The AUDIT contract reaches one lane. An envelope is read as dead-lettered exactly when its execution status is
  ON_HOLD and as a rejection otherwise, its event id is its refId, and translating again, as the schema
  does before it checks the fields, changes nothing; any other payload is untouched.\<close>

theorem audit_translation_settles:
  "to_message_payload sv (to_message_payload sv v) = to_message_payload sv v \<and>
   (\<not> is_audit_envelope v \<longrightarrow> to_message_payload sv v = v) \<and>
   (\<forall>d edata. v = PDict d \<longrightarrow> pget d ''edata'' = PDict edata \<longrightarrow> is_audit_envelope v \<longrightarrow>
      (\<exists>e summary meta. to_message_payload sv v = PDict e \<and> pget e ''packetExecutionSummary'' = PDict summary \<and>
         pget e ''packetMetaData'' = PDict meta \<and> pget e ''eventId'' = pget meta ''refId'' \<and>
         pget e ''eventId'' = popt (text_of (pget edata ''refId'')) \<and>
         pget summary ''packetStatus'' =
           PStr (if map_option py_upper (text_of (pget edata ''executionStatus'')) = Some EXECUTION_ON_HOLD
                 then STATUS_ON_HOLD else STATUS_REJECTED)))"
proof (cases rule: to_message_payload_cases [of v sv])
  case other
  then show ?thesis by (intro conjI allI impI) simp_all
next
  case (audit d edata)
  have "to_message_payload sv (PDict (audit_event sv d edata)) = PDict (audit_event sv d edata)"
    using to_message_payload_cases [of "PDict (audit_event sv d edata)" sv] audit_event_no_envelope by blast
  moreover have "pget (audit_event sv d edata) ''packetExecutionSummary'' = PDict (audit_summary edata)"
    "pget (audit_event sv d edata) ''packetMetaData'' = PDict (audit_meta edata)"
    "pget (audit_event sv d edata) ''eventId'' = field edata ''refId''"
    "pget (audit_meta edata) ''refId'' = field edata ''refId''"
    "pget (audit_summary edata) ''packetStatus'' = PStr (packet_status (text_of (pget edata ''executionStatus'')))"
    by (simp_all add: audit_event_def audit_summary_def audit_meta_def pget_def Let_def)
  moreover have "packet_status x = (if map_option py_upper x = Some EXECUTION_ON_HOLD then STATUS_ON_HOLD else STATUS_REJECTED)" for x
    by (cases x) (simp_all add: packet_status_def)
  ultimately show ?thesis using audit unfolding field_def
    by (intro conjI allI impI) (simp, simp, simp only: pvalue.inject, metis)
qed

theorem audit_translation_settles_witness:
  "to_message_payload no_services (PDict [(''refId'', PStr ''r'')]) = PDict [(''refId'', PStr ''r'')]"
  using audit_translation_settles [of no_services "PDict [(''refId'', PStr ''r'')]"]
  by (simp add: is_audit_envelope_def pget_def)

end
