(* ===== verification/Adapters.thy ===== *)
theory Adapters
  imports Payload
begin

text \<open>
  What the consumer roles make of a record: \<^verbatim>\<open>src/utils/message_adapters.py\<close>, with the request body of the
  dead-letter lane, \<^verbatim>\<open>src/models/dlt_schemas.py\<close>, and its timeout casebook, \<^verbatim>\<open>src/dlt/case_storage.py\<close>.

  The body of a dead-lettered case is a record; \<open>dump\<close> and \<open>validate\<close> are its two directions as a dict
  (\<^verbatim>\<open>model_dump\<close> and the constructor), keeping the fields the schema does not know in \<open>dm_extra\<close>. A flag that
  is not a boolean is coerced by the schema library, the parameter \<open>coerce\<close>.
\<close>

section \<open>The body of a dead-lettered case\<close>

record dlt_message =
  dm_case_id :: string
  dm_headers :: headers
  dm_payload :: pvalue
  dm_payload_raw :: "string option"
  dm_record_key :: "string option"
  dm_ref_id :: "string option"
  dm_ref_id_source :: string
  dm_payload_ref_id :: "string option"
  dm_ref_id_mismatch :: bool
  dm_event_id :: "string option"
  dm_extra :: "(string \<times> pvalue) list"

definition FIELDS :: "string list" where
  "FIELDS = [''case_id'', ''headers'', ''payload'', ''payload_raw'', ''record_key'', ''ref_id'', ''ref_id_source'',
     ''payload_ref_id'', ''ref_id_mismatch'', ''event_id'']"

definition dump :: "dlt_message \<Rightarrow> (string \<times> pvalue) list" where
  "dump m =
     [(''case_id'', PStr (dm_case_id m)), (''headers'', PDict (map (\<lambda>(k, v). (k, popt v)) (dm_headers m))),
      (''payload'', dm_payload m), (''payload_raw'', popt (dm_payload_raw m)), (''record_key'', popt (dm_record_key m)),
      (''ref_id'', popt (dm_ref_id m)), (''ref_id_source'', PStr (dm_ref_id_source m)),
      (''payload_ref_id'', popt (dm_payload_ref_id m)), (''ref_id_mismatch'', PBool (dm_ref_id_mismatch m)),
      (''event_id'', popt (dm_event_id m))] @ dm_extra m"

text \<open>A field of type \<^verbatim>\<open>Optional[str]\<close>; a missing one has the default.\<close>

fun opt_str :: "pvalue \<Rightarrow> string option option" where
  "opt_str PNull = Some None"
| "opt_str (PStr s) = Some (Some s)"
| "opt_str _ = None"

fun header_map :: "(string \<times> pvalue) list \<Rightarrow> headers option" where
  "header_map [] = Some []"
| "header_map ((k, v) # d) =
     (case (opt_str v, header_map d) of (Some x, Some hs) \<Rightarrow> Some ((k, x) # hs) | _ \<Rightarrow> None)"

text \<open>The fields with a default that is not null.\<close>

definition headers_field :: "(string \<times> pvalue) list \<Rightarrow> headers option" where
  "headers_field d =
     (case map_of d ''headers'' of None \<Rightarrow> Some [] | Some v \<Rightarrow> Option.bind (pdict v) header_map)"

definition source_field :: "(string \<times> pvalue) list \<Rightarrow> string option" where
  "source_field d = (case map_of d ''ref_id_source'' of None \<Rightarrow> Some ''none'' | Some (PStr s) \<Rightarrow> Some s | Some _ \<Rightarrow> None)"

definition mismatch_field :: "(pvalue \<Rightarrow> bool option) \<Rightarrow> (string \<times> pvalue) list \<Rightarrow> bool option" where
  "mismatch_field coerce d =
     (case map_of d ''ref_id_mismatch'' of None \<Rightarrow> Some False | Some (PBool b) \<Rightarrow> Some b | Some v \<Rightarrow> coerce v)"

definition case_id_field :: "(string \<times> pvalue) list \<Rightarrow> string option" where
  "case_id_field d =
     (case pget d ''case_id'' of PStr c \<Rightarrow> if fullmatch_event_id c then Some c else None | _ \<Rightarrow> None)"

definition validate :: "(pvalue \<Rightarrow> bool option) \<Rightarrow> (string \<times> pvalue) list \<Rightarrow> dlt_message option" where
  "validate coerce d =
     Option.bind (case_id_field d) (\<lambda>c.
     Option.bind (headers_field d) (\<lambda>hs.
     Option.bind (opt_str (pget d ''payload_raw'')) (\<lambda>raw.
     Option.bind (opt_str (pget d ''record_key'')) (\<lambda>key.
     Option.bind (opt_str (pget d ''ref_id'')) (\<lambda>r.
     Option.bind (source_field d) (\<lambda>src.
     Option.bind (opt_str (pget d ''payload_ref_id'')) (\<lambda>pr.
     Option.bind (mismatch_field coerce d) (\<lambda>mm.
     Option.bind (opt_str (pget d ''event_id'')) (\<lambda>ev.
       Some \<lparr>dm_case_id = c, dm_headers = hs, dm_payload = pget d ''payload'', dm_payload_raw = raw,
             dm_record_key = key, dm_ref_id = r, dm_ref_id_source = src, dm_payload_ref_id = pr,
             dm_ref_id_mismatch = mm, dm_event_id = ev, dm_extra = filter (\<lambda>(k, v). k \<notin> set FIELDS) d\<rparr>)))))))))"


section \<open>The dead-letter adapter\<close>

record kafka_record =
  km_topic :: string
  km_partition :: int
  km_offset :: int
  km_key :: "kafka_text option"
  km_value :: "string option"
  km_headers :: "(kafka_text \<times> kafka_text option) list"

record outside =
  ou_services :: services
  ou_utf8 :: "string \<Rightarrow> string"
  ou_digest :: "string \<Rightarrow> string"
  ou_coerce :: "pvalue \<Rightarrow> bool option"

datatype poison_reason = Republished_invalid | No_case_id | Message_invalid | Packet_invalid

datatype 'a parsed = Poison string poison_reason | Body 'a "string option"

fun source_name :: "ref_source \<Rightarrow> string" where
  "source_name Contract = ''contract''"
| "source_name Record_key = ''record_key''"
| "source_name Configured_path = ''configured_path''"
| "source_name Type_path = ''type_path''"
| "source_name Search = ''search''"
| "source_name No_source = ''none''"

definition raw_text_of :: "outside \<Rightarrow> kafka_record \<Rightarrow> string option" where
  "raw_text_of ou msg = map_option (ou_utf8 ou) (km_value msg)"

definition payload_of :: "outside \<Rightarrow> kafka_record \<Rightarrow> pvalue" where
  "payload_of ou msg =
     (case Option.bind (raw_text_of ou msg) (sv_parse (ou_services ou)) of None \<Rightarrow> PNull | Some v \<Rightarrow> v)"

definition republished :: "pvalue \<Rightarrow> (string \<times> pvalue) list option" where
  "republished v =
     (case v of
        PDict d \<Rightarrow> if map_of d ''case_id'' \<noteq> None \<and> map_of d ''headers'' \<noteq> None then Some d else None
      | _ \<Rightarrow> None)"

definition record_case_id :: "outside \<Rightarrow> kafka_record \<Rightarrow> dlt_headers \<Rightarrow> string option" where
  "record_case_id ou msg h =
     (case derive_case_id (ou_digest ou) (hd_original_topic h) (hd_original_partition h) (hd_original_offset h)
             (hd_consumer_group h) of
        Some c \<Rightarrow> Some c
      | None \<Rightarrow> derive_case_id (ou_digest ou) (Some (km_topic msg)) (Some (km_partition msg)) (Some (km_offset msg)) None)"

definition text_or_empty :: "string option \<Rightarrow> string" where
  "text_or_empty x = (case x of None \<Rightarrow> [] | Some s \<Rightarrow> s)"

definition parse_record :: "outside \<Rightarrow> env \<Rightarrow> kafka_record \<Rightarrow> exn + dlt_message parsed" where
  "parse_record ou env msg =
     (let raw = raw_text_of ou msg;
          payload = to_message_payload (ou_services ou) (payload_of ou msg);
          headers = decode_kafka_headers (ou_utf8 ou) (km_headers msg);
          h = parse_headers headers;
          key = decode_key (ou_utf8 ou) (km_key msg)
      in case record_case_id ou msg h of
           None \<Rightarrow> Inr (Poison (text_or_empty raw) No_case_id)
         | Some case_id \<Rightarrow>
             (case resolve_ref_id (ou_services ou) env payload key (hd_type_id h) of
                Inl e \<Rightarrow> Inl e
              | Inr x \<Rightarrow>
                  if \<not> fullmatch_event_id case_id then Inr (Poison (text_or_empty raw) Message_invalid)
                  else Inr (Body
                    \<lparr>dm_case_id = case_id, dm_headers = headers, dm_payload = payload,
                     dm_payload_raw = (if payload \<noteq> PNull then None else raw), dm_record_key = key,
                     dm_ref_id = ex_ref_id x, dm_ref_id_source = source_name (ex_source x),
                     dm_payload_ref_id = ex_payload_ref_id x, dm_ref_id_mismatch = ex_mismatch x,
                     dm_event_id = Option.bind (rejection_contract (ou_services ou) payload)
                       (\<lambda>c. case ct_event_id c of PStr e \<Rightarrow> Some e | _ \<Rightarrow> None),
                     dm_extra = []\<rparr> raw)))"

definition dlt_parse :: "outside \<Rightarrow> env \<Rightarrow> kafka_record \<Rightarrow> exn + dlt_message parsed" where
  "dlt_parse ou env msg =
     (case republished (payload_of ou msg) of
        Some d \<Rightarrow>
          (case validate (ou_coerce ou) d of
             None \<Rightarrow> Inr (Poison (text_or_empty (raw_text_of ou msg)) Republished_invalid)
           | Some m \<Rightarrow> Inr (Body m (raw_text_of ou msg)))
      | None \<Rightarrow> parse_record ou env msg)"

definition dlt_identity_of :: "outside \<Rightarrow> dlt_message \<Rightarrow> string" where
  "dlt_identity_of ou m = storage_key (ou_digest ou) (dm_ref_id m) (dm_case_id m)"

datatype skip_reason = Dead_lettered_packet | Non_rejected_packet | Terminal_exists

definition dlt_should_skip :: "outside \<Rightarrow> 's storage \<Rightarrow> dlt_message \<Rightarrow> ('s, skip_reason option) io" where
  "dlt_should_skip ou sto m =
     bindM (st_exists sto (dlt_identity_of ou m) True ''casebook.json'') (\<lambda>b. ret (if b then Some Terminal_exists else None))"

definition DLT_CASEBOOK_SCHEMA_VERSION :: string where
  "DLT_CASEBOOK_SCHEMA_VERSION = ''1.4''"

definition timeout_casebook :: "rat \<Rightarrow> string option \<Rightarrow> string option \<Rightarrow> string \<Rightarrow> doc" where
  "timeout_casebook now case_id ref_id narrative =
     [(''schema_version'', JStr DLT_CASEBOOK_SCHEMA_VERSION), (''case_id'', jopt case_id), (''detected_at'', JNum now),
      (''packet'', JObj [(''ref_id'', jopt ref_id)]),
      (''finding'', JObj [(''narrative'', JStr narrative),
         (''recommendation'', JStr ''A human should read the attached evidence.''),
         (''action'', JStr ''NEEDS_MANUAL_REVIEW'')]),
      (''packet_status'', JObj [(''status'', JStr ''FAILED_TIMEOUT'')])]"


section \<open>The rejection adapter\<close>

definition rejection_parse :: "outside \<Rightarrow> kafka_record \<Rightarrow> exn + (string \<times> pvalue) list parsed" where
  "rejection_parse ou msg =
     (case raw_text_of ou msg of
        None \<Rightarrow> Inl AttributeError
      | Some raw \<Rightarrow>
          (case Option.bind (map_option (to_message_payload (ou_services ou)) (sv_parse (ou_services ou) raw)) pdict of
             None \<Rightarrow> Inr (Poison raw Packet_invalid)
           | Some d \<Rightarrow>
               if sv_accepts (ou_services ou) (PDict d) then Inr (Body d (Some raw)) else Inr (Poison raw Packet_invalid)))"

definition rejection_identity_of :: "(string \<times> pvalue) list \<Rightarrow> pvalue" where
  "rejection_identity_of body = pget body ''eventId''"

definition body_status :: "(string \<times> pvalue) list \<Rightarrow> exn + pvalue" where
  "body_status body =
     (case map_of body ''packetExecutionSummary'' of
        None \<Rightarrow> Inr PNull
      | Some (PDict s) \<Rightarrow> Inr (pget s ''packetStatus'')
      | Some _ \<Rightarrow> Inl AttributeError)"

definition rejection_should_skip :: "'s storage \<Rightarrow> (string \<times> pvalue) list \<Rightarrow> ('s, skip_reason option) io" where
  "rejection_should_skip sto body =
     bindM (of_result (body_status body)) (\<lambda>status.
       if status = PStr STATUS_ON_HOLD then ret (Some Dead_lettered_packet)
       else if status \<noteq> PStr STATUS_REJECTED then ret (Some Non_rejected_packet)
       else (case rejection_identity_of body of
               PStr e \<Rightarrow> bindM (st_exists sto e True ''casebook.json'') (\<lambda>b. ret (if b then Some Terminal_exists else None))
             | _ \<Rightarrow> raise TypeError))"

definition rejection_timeout_casebook :: "(string \<times> json) list \<Rightarrow> doc" where
  "rejection_timeout_casebook body =
     [(''packet_metadata'', JObj [(''eid'', jget body ''eventId'')]),
      (''packet_status'', JObj [(''status'', JStr ''FAILED_TIMEOUT'')]),
      (''resolution'', JObj [(''synthesis'', JStr ''Investigation exceeded maximum allowed time.'')])]"

datatype role_adapter = Dlt_adapter | Rejection_adapter

definition for_role :: "string \<Rightarrow> role_adapter" where
  "for_role role = (if role \<in> {''dlt'', ''dlt_analysis''} then Dlt_adapter else Rejection_adapter)"


section \<open>Lemmas\<close>

lemma opt_str_popt [simp]: "opt_str (popt x) = Some x"
  by (simp add: popt_def split: option.split)

lemma header_map_dump [simp]: "header_map (map (\<lambda>(k, v). (k, popt v)) hs) = Some hs"
  by (induction hs) auto

definition known_free :: "(string \<times> pvalue) list \<Rightarrow> bool" where
  "known_free d \<longleftrightarrow> list_all (\<lambda>(k, v). k \<notin> set FIELDS) d"

lemma validate_extra_free:
  assumes "validate coerce d = Some m"
  shows "known_free (dm_extra m) \<and> fullmatch_event_id (dm_case_id m)"
proof -
  obtain c where "case_id_field d = Some c" "dm_case_id m = c" "dm_extra m = filter (\<lambda>(k, v). k \<notin> set FIELDS) d"
    using assms by (auto simp: validate_def bind_eq_Some_conv)
  then show ?thesis
    by (auto simp: case_id_field_def known_free_def list_all_iff split: pvalue.splits if_splits)
qed

lemma validate_dump:
  assumes "fullmatch_event_id (dm_case_id m)" and "known_free (dm_extra m)" and "known_free extra"
  shows "validate coerce (dump m @ extra) = Some (m\<lparr>dm_extra := dm_extra m @ extra\<rparr>)"
proof -
  have f: "filter (\<lambda>(k, v). k \<notin> set FIELDS) (dump m @ extra) = dm_extra m @ extra"
    using assms(2,3) by (simp add: dump_def FIELDS_def known_free_def list_all_iff filter_id_conv split_beta)
  have g: "pget (dump m @ extra) ''case_id'' = PStr (dm_case_id m)" "pget (dump m @ extra) ''payload'' = dm_payload m"
    "pget (dump m @ extra) ''payload_raw'' = popt (dm_payload_raw m)" "pget (dump m @ extra) ''record_key'' = popt (dm_record_key m)"
    "pget (dump m @ extra) ''ref_id'' = popt (dm_ref_id m)" "pget (dump m @ extra) ''payload_ref_id'' = popt (dm_payload_ref_id m)"
    "pget (dump m @ extra) ''event_id'' = popt (dm_event_id m)"
    "headers_field (dump m @ extra) = Some (dm_headers m)" "source_field (dump m @ extra) = Some (dm_ref_id_source m)"
    "mismatch_field coerce (dump m @ extra) = Some (dm_ref_id_mismatch m)"
    by (simp_all add: dump_def pget_def headers_field_def source_field_def mismatch_field_def)
  show ?thesis
    unfolding validate_def case_id_field_def f g using assms(1) by simp
qed

lemma republished_dump: "republished (PDict (dump m @ extra)) = Some (dump m @ extra)"
  by (simp add: republished_def dump_def)

lemma show_nat_length: "n < 10 ^ k \<Longrightarrow> 1 \<le> k \<Longrightarrow> length (show_nat n) \<le> k"
proof (induction n arbitrary: k rule: show_nat.induct)
  case (1 n)
  show ?case
  proof (cases "n < 10")
    case True
    then show ?thesis using "1.prems" by (simp add: show_nat.simps [of n])
  next
    case False
    obtain j where k: "k = Suc j" using "1.prems"(2) by (cases k) auto
    have j: "k = Suc j" "1 \<le> j" using k False "1.prems"(1) by (cases j; simp)+
    have "n div 10 < 10 ^ j" using "1.prems"(1) j(1) by (simp add: less_mult_imp_div_less)
    from "1.IH" [OF False this j(2)] show ?thesis using False j(1) by (simp add: show_nat.simps [of n])
  qed
qed

lemma show_int_length: "0 \<le> n \<Longrightarrow> n < 10 ^ 20 \<Longrightarrow> length (show_int n) \<le> 20"
  using show_nat_length [of "nat n" 20] by (simp add: show_int_def nat_less_iff)

lemma coordinates_length:
  assumes "digest_ok digest" and "0 \<le> p" "p < 10 ^ 20" "0 \<le> off" "off < 10 ^ 20"
  shows "length (coordinates digest p off g) \<le> 54"
  using show_int_length [of p] show_int_length [of off] assms by (simp add: coordinates_def Let_def digest_ok_def)

lemma derive_case_id_total:
  assumes "digest_ok digest" and "0 \<le> p" "p < 10 ^ 20" "0 \<le> off" "off < 10 ^ 20"
  shows "\<exists>c. derive_case_id digest (Some t) (Some p) (Some off) g = Some c"
proof -
  note c = coordinates_length [OF assms, of g]
  let ?s = "coordinates digest p off g"
  have dg: "length (digest t) = 10" "list_all id_char (digest t)"
    using assms(1) by (auto simp: digest_ok_def list_all_iff)
  have id: "list_all id_char (CASE_ID_PREFIX @ ''-'')" by (simp add: CASE_ID_PREFIX_def id_char_def less_eq_char_def)
  have ok: "is_valid_case_id (Some (CASE_ID_PREFIX @ ''-'' @ h @ ?s))"
    if "list_all id_char h" "length (CASE_ID_PREFIX @ ''-'' @ h @ ?s) \<le> MAX_CASE_ID_LENGTH" for h
  proof -
    have "fullmatch_event_id (CASE_ID_PREFIX @ ''-'' @ h @ ?s)"
      using that id coordinates_id [OF assms(1), of p off g]
      by (simp add: fullmatch_event_id_def MAX_CASE_ID_LENGTH_def)
    then show ?thesis using fullmatch_matches by (simp add: is_valid_case_id_def CASE_ID_PREFIX_def)
  qed
  show ?thesis
  proof (cases "length (CASE_ID_PREFIX @ ''-'' @ sanitise t @ ?s) > MAX_CASE_ID_LENGTH")
    case False
    then show ?thesis using ok [OF sanitise_id [of t]] by (simp add: derive_case_id_def Let_def)
  next
    case True
    define room where "room = MAX_CASE_ID_LENGTH - length ?s - length (digest t) - length CASE_ID_PREFIX - 2"
    have "list_all id_char (take room (sanitise t) @ ''-'' @ digest t)"
      using sanitise_id [of t] dg(2) set_take_subset [of room "sanitise t"] by (auto simp: list_all_iff)
    moreover have "length (CASE_ID_PREFIX @ ''-'' @ (take room (sanitise t) @ ''-'' @ digest t) @ ?s) \<le> MAX_CASE_ID_LENGTH"
      using c dg(1) by (simp add: room_def MAX_CASE_ID_LENGTH_def CASE_ID_PREFIX_def)
    ultimately have "is_valid_case_id (Some (CASE_ID_PREFIX @ ''-'' @ (take room (sanitise t) @ ''-'' @ digest t) @ ?s))"
      by (rule ok)
    then show ?thesis using True by (simp add: derive_case_id_def Let_def room_def)
  qed
qed


text \<open>The only exception identifier resolution can raise.\<close>

lemma follow_error: "follow v segs = Inl e \<Longrightarrow> e = ValueError"
  by (induction v segs rule: follow.induct) (auto simp: Let_def split: pvalue.splits option.splits if_splits)

lemma map_sum_Inl: "map_sum id f x = Inl e \<longleftrightarrow> x = Inl e"
  by (cases x) auto

lemma path_error: "extract_by_path v q = Inl e \<Longrightarrow> e = ValueError"
  by (auto simp: extract_by_path_def map_sum_Inl dest: follow_error split: option.splits if_splits)

lemma first_path_error: "first_path v ps = Inl e \<Longrightarrow> e = ValueError"
  by (induction ps) (auto dest: path_error split: sum.splits option.splits)

lemma resolve_error: "resolve_ref_id sv env v k ty = Inl e \<Longrightarrow> e = ValueError"
  by (auto simp: resolve_ref_id_def payload_ref_id_def extract_by_type_def Let_def
      dest: path_error first_path_error split: option.splits sum.splits)

lemma null_payload [simp]: "to_message_payload sv PNull = PNull" "rejection_contract sv PNull = None"
  by (simp_all add: rejection_contract_def to_message_payload_def)

lemma null_payload_key:
  assumes "resolve_ref_id sv env PNull k ty = Inr x" and "key_as_ref_id k = Some r"
  shows "ex_ref_id x = Some r"
  using assms by (auto simp: resolve_ref_id_def split: sum.splits)


section \<open>Properties\<close>

text \<open>C31. A case survives the queue between the stages. What the fetch stage publishes, the body with whatever fields it
  adds, is read by the analysis consumer as the same case, with the same identifiers, headers and payload
  and the added fields kept, whichever topic, partition, offset, key and headers the queue itself gives
  the record; both stages therefore store it under the same key.\<close>

theorem queued_case_is_read_back:
  assumes "dlt_parse ou env msg = Inr (Body m raw)" and "known_free extra"
    and "payload_of ou msg' = PDict (dump m @ extra)"
  shows "dlt_parse ou env msg' = Inr (Body (m\<lparr>dm_extra := dm_extra m @ extra\<rparr>) (raw_text_of ou msg')) \<and>
    dlt_identity_of ou (m\<lparr>dm_extra := dm_extra m @ extra\<rparr>) = dlt_identity_of ou m"
proof -
  have "fullmatch_event_id (dm_case_id m) \<and> known_free (dm_extra m)"
  proof (cases "republished (payload_of ou msg)")
    case None
    then show ?thesis using assms(1)
      by (auto simp: dlt_parse_def parse_record_def Let_def known_free_def split: option.splits sum.splits if_splits)
  next
    case (Some d)
    then have "validate (ou_coerce ou) d = Some m"
      using assms(1) by (auto simp: dlt_parse_def split: option.splits)
    then show ?thesis using validate_extra_free by blast
  qed
  then show ?thesis using assms(2,3)
    by (simp add: dlt_parse_def republished_dump validate_dump dlt_identity_of_def)
qed

definition plain_outside :: "pvalue option \<Rightarrow> outside" where
  "plain_outside v = \<lparr>ou_services = no_services\<lparr>sv_parse := (\<lambda>s. if s = ''queued'' then v else None)\<rparr>, ou_utf8 = id,
     ou_digest = (\<lambda>_. ''0123456789''), ou_coerce = (\<lambda>_. None)\<rparr>"

definition dead_record :: kafka_record where
  "dead_record = \<lparr>km_topic = ''abis.dlt'', km_partition = 3, km_offset = 17, km_key = Some (Raw_bytes ''c5d21184-77''),
     km_value = Some ''not json'', km_headers = []\<rparr>"

definition dead_case :: dlt_message where
  "dead_case = \<lparr>dm_case_id = ''dlt-abis.dlt-3-17'', dm_headers = [], dm_payload = PNull, dm_payload_raw = Some ''not json'',
     dm_record_key = Some ''c5d21184-77'', dm_ref_id = Some ''c5d21184-77'', dm_ref_id_source = ''record_key'',
     dm_payload_ref_id = None, dm_ref_id_mismatch = False, dm_event_id = None, dm_extra = []\<rparr>"

definition queue_record :: kafka_record where
  "queue_record = \<lparr>km_topic = ''dlt-analysis-queue'', km_partition = 0, km_offset = 5, km_key = None,
     km_value = Some ''queued'', km_headers = []\<rparr>"

theorem queued_case_is_read_back_witness:
  "\<exists>ou. dlt_parse ou (\<lambda>_. None) queue_record =
     Inr (Body (dead_case\<lparr>dm_extra := [(''evidence_gaps'', PList [])]\<rparr>) (Some ''queued''))"
proof -
  let ?ou = "plain_outside (Some (PDict (dump dead_case @ [(''evidence_gaps'', PList [])])))"
  have p: "dlt_parse ?ou (\<lambda>_. None) dead_record = Inr (Body dead_case (Some ''not json''))" by code_simp
  have k: "known_free [(''evidence_gaps'', PList [])]" by code_simp
  have q: "payload_of ?ou queue_record = PDict (dump dead_case @ [(''evidence_gaps'', PList [])])"
    by (simp add: payload_of_def raw_text_of_def plain_outside_def queue_record_def no_services_def)
  show ?thesis
    using queued_case_is_read_back [OF p k q]
    by (intro exI [of _ ?ou]) (simp add: dead_case_def raw_text_of_def queue_record_def plain_outside_def)
qed



end
