(* ===== verification/Single_Flight.thy ===== *)
theory Single_Flight
  imports Prelude
begin

text \<open>
  The gate that lets one investigation of a fingerprint run at a time: \<^verbatim>\<open>src/dlt/single_flight.py\<close>, on one event
  loop. Between two \<^verbatim>\<open>await\<close>s a coroutine runs alone, so the parts of \<^verbatim>\<open>flight\<close> between them are the steps of
  a transition system: a request joins, is granted the lock, gives up waiting, leaves. Their interleaving is
  arbitrary. \<^verbatim>\<open>asyncio.Lock\<close> is a flag and the queue of its waiters: a release wakes the first of them, and a
  request that finds waiters queues behind them. An entry is an object with an identity, so that the test
  \<^verbatim>\<open>_entries.get(key) is entry\<close> is modelled as it is written.
\<close>

section \<open>Settings\<close>

definition singleflight_enabled :: "env \<Rightarrow> bool" where
  "singleflight_enabled env = get_bool_env env ''DLT_SINGLEFLIGHT_ENABLED'' True"

definition wait_seconds :: "env \<Rightarrow> rat \<Rightarrow> rat" where
  "wait_seconds env budget =
     (case env ''DLT_SINGLEFLIGHT_WAIT_SECONDS'' of
        None \<Rightarrow> max 0 budget
      | Some raw \<Rightarrow> if raw = [] then max 0 budget
                    else (case py_float raw of Some v \<Rightarrow> max 0 v | None \<Rightarrow> max 0 budget))"


section \<open>State\<close>

datatype phase = Waiting | Holding | Gave_up | Gone

record flight =
  ft_fingerprint :: string
  ft_entry :: nat
  ft_waited :: bool
  ft_phase :: phase

definition ft_acquired :: "flight \<Rightarrow> bool" where
  "ft_acquired f \<longleftrightarrow> ft_phase f = Holding"

record gate_entry =
  ge_locked :: bool
  ge_waiters :: "nat list"
  ge_refs :: int

record gate =
  g_table :: "string \<Rightarrow> nat option"
  g_entry :: "nat \<Rightarrow> gate_entry"
  g_next :: nat
  g_flights :: "nat \<Rightarrow> flight option"

definition new_entry :: gate_entry where
  "new_entry = \<lparr>ge_locked = False, ge_waiters = [], ge_refs = 0\<rparr>"

definition empty_gate :: gate where
  "empty_gate = \<lparr>g_table = (\<lambda>_. None), g_entry = (\<lambda>_. new_entry), g_next = 0, g_flights = (\<lambda>_. None)\<rparr>"


section \<open>Steps\<close>

text \<open>Looking the entry up, or making it, up to the first \<^verbatim>\<open>await\<close>.\<close>

definition entry_for :: "string \<Rightarrow> gate \<Rightarrow> nat \<times> gate" where
  "entry_for fp g =
     (case g_table g fp of
        Some e \<Rightarrow> (e, g)
      | None \<Rightarrow> (g_next g, g\<lparr>g_table := (g_table g)(fp := Some (g_next g)), g_next := Suc (g_next g),
                             g_entry := (g_entry g)(g_next g := new_entry)\<rparr>))"

definition join_gate :: "nat \<Rightarrow> string \<Rightarrow> gate \<Rightarrow> gate" where
  "join_gate r fp g =
     (case entry_for fp g of (e, g1) \<Rightarrow>
        let en = (g_entry g1 e)\<lparr>ge_refs := ge_refs (g_entry g1 e) + 1\<rparr>;
            free = (\<not> ge_locked en \<and> ge_waiters en = [])
        in g1\<lparr>g_entry := (g_entry g1)(e :=
                 if free then en\<lparr>ge_locked := True\<rparr> else en\<lparr>ge_waiters := ge_waiters en @ [r]\<rparr>),
              g_flights := (g_flights g1)(r \<mapsto>
                 \<lparr>ft_fingerprint = fp, ft_entry = e, ft_waited = ge_locked en,
                  ft_phase = (if free then Holding else Waiting)\<rparr>)\<rparr>)"

definition set_phase :: "nat \<Rightarrow> phase \<Rightarrow> gate \<Rightarrow> gate" where
  "set_phase r p g =
     (case g_flights g r of None \<Rightarrow> g | Some f \<Rightarrow> g\<lparr>g_flights := (g_flights g)(r \<mapsto> f\<lparr>ft_phase := p\<rparr>)\<rparr>)"

text \<open>The woken waiter takes the lock.\<close>

definition grant :: "nat \<Rightarrow> gate \<Rightarrow> gate" where
  "grant e g =
     (case ge_waiters (g_entry g e) of
        [] \<Rightarrow> g
      | r # rs \<Rightarrow> set_phase r Holding
          (g\<lparr>g_entry := (g_entry g)(e := (g_entry g e)\<lparr>ge_locked := True, ge_waiters := rs\<rparr>)\<rparr>))"

definition give_up :: "nat \<Rightarrow> gate \<Rightarrow> gate" where
  "give_up r g =
     (case g_flights g r of
        None \<Rightarrow> g
      | Some f \<Rightarrow>
          let e = ft_entry f
          in set_phase r Gave_up
               (g\<lparr>g_entry := (g_entry g)(e := (g_entry g e)\<lparr>ge_waiters := remove1 r (ge_waiters (g_entry g e))\<rparr>)\<rparr>))"

text \<open>The \<^verbatim>\<open>finally\<close> block.\<close>

definition leave :: "nat \<Rightarrow> gate \<Rightarrow> gate" where
  "leave r g =
     (case g_flights g r of
        None \<Rightarrow> g
      | Some f \<Rightarrow>
          let e = ft_entry f;
              en = g_entry g e;
              en = (if ft_acquired f then en\<lparr>ge_locked := False\<rparr> else en);
              en = en\<lparr>ge_refs := ge_refs en - 1\<rparr>;
              g1 = g\<lparr>g_entry := (g_entry g)(e := en)\<rparr>;
              g2 = (if ge_refs en \<le> 0 \<and> g_table g1 (ft_fingerprint f) = Some e
                    then g1\<lparr>g_table := (g_table g1)(ft_fingerprint f := None)\<rparr> else g1)
          in set_phase r Gone g2)"

definition phase_of :: "gate \<Rightarrow> nat \<Rightarrow> phase option" where
  "phase_of g r = map_option ft_phase (g_flights g r)"

inductive gate_step :: "gate \<Rightarrow> gate \<Rightarrow> bool" where
  step_join: "g_flights g r = None \<Longrightarrow> gate_step g (join_gate r fp g)"
| step_grant: "\<not> ge_locked (g_entry g e) \<Longrightarrow> ge_waiters (g_entry g e) \<noteq> [] \<Longrightarrow> gate_step g (grant e g)"
| step_give_up: "phase_of g r = Some Waiting \<Longrightarrow> gate_step g (give_up r g)"
| step_leave: "phase_of g r \<in> {Some Holding, Some Gave_up} \<Longrightarrow> gate_step g (leave r g)"

inductive gate_reachable :: "gate \<Rightarrow> bool" where
  gate_start: "gate_reachable empty_gate"
| gate_next: "gate_reachable g \<Longrightarrow> gate_step g g' \<Longrightarrow> gate_reachable g'"


section \<open>The invariant\<close>

definition at_entry :: "gate \<Rightarrow> nat \<Rightarrow> phase set \<Rightarrow> nat set" where
  "at_entry g e ps = {r. \<exists>f. g_flights g r = Some f \<and> ft_entry f = e \<and> ft_phase f \<in> ps}"

abbreviation present :: "phase set" where
  "present \<equiv> {Waiting, Holding, Gave_up}"

definition entry_ok :: "gate \<Rightarrow> nat \<Rightarrow> bool" where
  "entry_ok g e \<longleftrightarrow>
     finite (at_entry g e present) \<and> ge_refs (g_entry g e) = int (card (at_entry g e present)) \<and>
     distinct (ge_waiters (g_entry g e)) \<and> set (ge_waiters (g_entry g e)) = at_entry g e {Waiting} \<and>
     (\<forall>r r'. r \<in> at_entry g e {Holding} \<longrightarrow> r' \<in> at_entry g e {Holding} \<longrightarrow> r = r') \<and>
     (ge_locked (g_entry g e) \<longleftrightarrow> at_entry g e {Holding} \<noteq> {})"

definition table_ok :: "gate \<Rightarrow> bool" where
  "table_ok g \<longleftrightarrow>
     (\<forall>fp e. g_table g fp = Some e \<longrightarrow> e < g_next g \<and> at_entry g e present \<noteq> {}) \<and>
     (\<forall>r f. g_flights g r = Some f \<longrightarrow> ft_entry f < g_next g) \<and>
     (\<forall>fp fp' e. g_table g fp = Some e \<longrightarrow> g_table g fp' = Some e \<longrightarrow> fp = fp') \<and>
     (\<forall>r f. g_flights g r = Some f \<longrightarrow> ft_phase f \<noteq> Gone \<longrightarrow> g_table g (ft_fingerprint f) = Some (ft_entry f)) \<and>
     (\<forall>e. g_next g \<le> e \<longrightarrow> g_entry g e = new_entry)"

definition gate_ok :: "gate \<Rightarrow> bool" where
  "gate_ok g \<longleftrightarrow> table_ok g \<and> (\<forall>e. entry_ok g e)"

lemma at_entry_update:
  assumes "g_flights g' = (g_flights g)(r \<mapsto> f)"
  shows "at_entry g' e ps = (at_entry g e ps - {r}) \<union> (if ft_entry f = e \<and> ft_phase f \<in> ps then {r} else {})"
  using assms by (auto simp: at_entry_def)

lemma at_entry_flights: "g_flights g' = g_flights g \<Longrightarrow> at_entry g' e ps = at_entry g e ps"
  by (simp add: at_entry_def)

lemma at_entry_present: "at_entry g e present = at_entry g e {Waiting} \<union> at_entry g e {Holding} \<union> at_entry g e {Gave_up}"
  by (auto simp: at_entry_def)

lemma at_entry_phase: "g_flights g r = Some f \<Longrightarrow> r \<in> at_entry g e ps \<longleftrightarrow> ft_entry f = e \<and> ft_phase f \<in> ps"
  by (simp add: at_entry_def)

lemma gate_start_ok: "gate_ok empty_gate"
  by (auto simp: gate_ok_def table_ok_def entry_ok_def at_entry_def empty_gate_def new_entry_def)

lemma entry_okD:
  assumes "gate_ok g"
  shows "finite (at_entry g e present)" "ge_refs (g_entry g e) = int (card (at_entry g e present))"
    "distinct (ge_waiters (g_entry g e))" "set (ge_waiters (g_entry g e)) = at_entry g e {Waiting}"
    "r \<in> at_entry g e {Holding} \<Longrightarrow> r' \<in> at_entry g e {Holding} \<Longrightarrow> r = r'"
    "ge_locked (g_entry g e) \<longleftrightarrow> at_entry g e {Holding} \<noteq> {}"
  using assms by (auto simp: gate_ok_def entry_ok_def)

lemma tableD:
  assumes "gate_ok g"
  shows "g_table g fp = Some e \<Longrightarrow> e < g_next g" "g_table g fp = Some e \<Longrightarrow> at_entry g e present \<noteq> {}"
    "g_flights g r = Some f \<Longrightarrow> ft_entry f < g_next g"
    "g_table g fp = Some e \<Longrightarrow> g_table g fp' = Some e \<Longrightarrow> fp = fp'"
    "g_flights g r = Some f \<Longrightarrow> ft_phase f \<noteq> Gone \<Longrightarrow> g_table g (ft_fingerprint f) = Some (ft_entry f)"
    "g_next g \<le> e \<Longrightarrow> g_entry g e = new_entry"
  using assms unfolding gate_ok_def table_ok_def by blast+

text \<open>Looking up an entry changes no flight; the entry found is the one the table names.\<close>

lemma entry_for_ok:
  assumes "gate_ok g" and "entry_for fp g = (e, g1)"
  shows "g_flights g1 = g_flights g" "g_table g1 = (g_table g)(fp := Some e)" "e < g_next g1" "g_next g \<le> g_next g1"
    "g_entry g1 = g_entry g" "\<And>fp'. g_table g fp' = Some e \<Longrightarrow> fp' = fp"
    "\<And>r f. g_flights g r = Some f \<Longrightarrow> ft_entry f < g_next g1"
    "\<And>e'. g_next g1 \<le> e' \<Longrightarrow> e' \<noteq> e \<and> g_next g \<le> e'"
proof -
  show "g_flights g1 = g_flights g" "g_next g \<le> g_next g1"
    using assms(2) by (auto simp: entry_for_def split: option.splits)
  show "g_table g1 = (g_table g)(fp := Some e)"
    using assms(2) by (auto simp: entry_for_def split: option.splits)
  show "e < g_next g1" using assms tableD(1) by (auto simp: entry_for_def split: option.splits)
  show "g_entry g1 = g_entry g"
    using assms(2) tableD(6) [OF assms(1), of "g_next g"] by (auto simp: entry_for_def split: option.splits)
  show "fp' = fp" if "g_table g fp' = Some e" for fp'
    using assms(2) that tableD(1,4) [OF assms(1)] by (fastforce simp: entry_for_def split: option.splits)
  show "ft_entry f < g_next g1" if "g_flights g r = Some f" for r f
    using tableD(3) [OF assms(1) that] \<open>g_next g \<le> g_next g1\<close> by simp
  show "e' \<noteq> e \<and> g_next g \<le> e'" if "g_next g1 \<le> e'" for e'
    using that \<open>e < g_next g1\<close> \<open>g_next g \<le> g_next g1\<close> by simp
qed

text \<open>
  What every step does: one flight changes, one entry changes, and the table may gain or lose the row of
  that entry. The invariant follows from facts about that entry alone.
\<close>

lemma gate_ok_update:
  assumes ok: "gate_ok g"
    and f: "g_flights g' = (g_flights g)(r \<mapsto> f)" "ft_entry f = e" "e < g_next g'" "g_next g \<le> g_next g'"
    and en: "g_entry g' = (g_entry g)(e := en)" and only: "\<And>h. g_flights g r = Some h \<Longrightarrow> ft_entry h = e"
    and e_ok: "entry_ok g' e"
    and t: "\<And>fp. fp \<noteq> ft_fingerprint f \<Longrightarrow> g_table g' fp = g_table g fp"
    and own: "\<And>fp. g_table g fp = Some e \<Longrightarrow> fp = ft_fingerprint f"
    and row: "g_table g' (ft_fingerprint f) = (if at_entry g' e present = {} then None else Some e)"
    and fps: "\<And>r' h. g_flights g r' = Some h \<Longrightarrow> ft_entry h = e \<Longrightarrow> ft_phase h \<noteq> Gone \<Longrightarrow> ft_fingerprint h = ft_fingerprint f"
    and was: "g_table g (ft_fingerprint f) \<in> {None, Some e}"
  shows "gate_ok g'"
proof -
  have other: "at_entry g' e' ps = at_entry g e' ps" if "e' \<noteq> e" for e' ps
  proof -
    have "r \<notin> at_entry g e' ps" using only that by (auto simp: at_entry_def)
    then show ?thesis using that f(2) by (simp add: at_entry_update [OF f(1)])
  qed
  have eo: "entry_ok g' e'" for e'
  proof (cases "e' = e")
    case True
    then show ?thesis using e_ok by simp
  next
    case False
    then show ?thesis using ok other [OF False] en by (simp add: gate_ok_def entry_ok_def)
  qed
  have "table_ok g'"
    unfolding table_ok_def
  proof (intro conjI allI impI)
    fix fp e' assume h: "g_table g' fp = Some e'"
    show "e' < g_next g'" and "at_entry g' e' present \<noteq> {}"
    proof (atomize(full), cases "fp = ft_fingerprint f")
      case True
      then show "e' < g_next g' \<and> at_entry g' e' present \<noteq> {}" using h row f(3) by (auto split: if_splits)
    next
      case False
      then have h': "g_table g fp = Some e'" using h t by simp
      then have "e' \<noteq> e" using own False by blast
      then show "e' < g_next g' \<and> at_entry g' e' present \<noteq> {}"
        using tableD(1,2) [OF ok h'] f(4) other by simp
    qed
  next
    fix r' h assume "g_flights g' r' = Some h"
    then show "ft_entry h < g_next g'" using f tableD(3) [OF ok, of r' h] by (auto split: if_splits)
  next
    fix fp fp' e' assume h: "g_table g' fp = Some e'" "g_table g' fp' = Some e'"
    show "fp = fp'"
    proof (cases "e' = e")
      case True
      then show ?thesis using h t own by metis
    next
      case False
      then have "g_table g fp = Some e'" "g_table g fp' = Some e'" using h t row by (metis option.inject option.distinct(1))+
      then show ?thesis by (rule tableD(4) [OF ok])
    qed
  next
    fix r' h assume h: "g_flights g' r' = Some h" "ft_phase h \<noteq> Gone"
    then have here: "r' \<in> at_entry g' (ft_entry h) present" by (cases "ft_phase h") (auto simp: at_entry_def)
    show "g_table g' (ft_fingerprint h) = Some (ft_entry h)"
    proof (cases "ft_entry h = e")
      case True
      have "ft_fingerprint h = ft_fingerprint f"
        using h True f(1,2) fps by (cases "r' = r") auto
      moreover have "at_entry g' e present \<noteq> {}" using here True by auto
      ultimately show ?thesis using row True by simp
    next
      case False
      then have "r' \<noteq> r" using h(1) f(1,2) by auto
      then have "g_table g (ft_fingerprint h) = Some (ft_entry h)"
        using h f(1) tableD(5) [OF ok] by simp
      moreover from this have "ft_fingerprint h \<noteq> ft_fingerprint f" using was False by auto
      ultimately show ?thesis using t by simp
    qed
  next
    fix e' assume "g_next g' \<le> e'"
    then have "e' \<noteq> e" "g_next g \<le> e'" using f(3,4) by simp_all
    then show "g_entry g' e' = new_entry" using tableD(6) [OF ok] en by simp
  qed
  with eo show ?thesis by (simp add: gate_ok_def)
qed

lemma fingerprint_of_entry:
  assumes "gate_ok g" and "g_flights g r = Some f" "ft_phase f \<noteq> Gone" and "g_flights g r' = Some h" "ft_entry h = ft_entry f"
    "ft_phase h \<noteq> Gone"
  shows "ft_fingerprint h = ft_fingerprint f"
  using tableD(5) [OF assms(1,2,3)] tableD(5) [OF assms(1,4,6)] assms(5) tableD(4) [OF assms(1)] by metis

lemma join_ok:
  assumes ok: "gate_ok g" and new: "g_flights g r = None"
  shows "gate_ok (join_gate r fp g)"
proof -
  obtain e g1 where e: "entry_for fp g = (e, g1)" by (cases "entry_for fp g")
  note h = entry_for_ok [OF ok e]
  define en where "en = (g_entry g e)\<lparr>ge_refs := ge_refs (g_entry g e) + 1\<rparr>"
  define free where "free = (\<not> ge_locked en \<and> ge_waiters en = [])"
  define f where "f = \<lparr>ft_fingerprint = fp, ft_entry = e, ft_waited = ge_locked en, ft_phase = (if free then Holding else Waiting)\<rparr>"
  define en' where "en' = (if free then en\<lparr>ge_locked := True\<rparr> else en\<lparr>ge_waiters := ge_waiters en @ [r]\<rparr>)"
  let ?g = "join_gate r fp g"
  have j: "g_flights ?g = (g_flights g)(r \<mapsto> f)" "g_entry ?g = (g_entry g)(e := en')" "g_table ?g = (g_table g)(fp := Some e)"
    "g_next ?g = g_next g1"
    using h by (simp_all add: join_gate_def e Let_def en_def free_def f_def en'_def)
  have r: "r \<notin> at_entry g e ps" for ps using new by (simp add: at_entry_def)
  note o = entry_okD [OF ok, where e = e]
  have at: "at_entry ?g e ps = at_entry g e ps \<union> (if ft_phase f \<in> ps then {r} else {})" for ps
    using at_entry_update [OF j(1), of e ps] r by (simp add: f_def)
  have ph: "ft_phase f \<in> present" by (simp add: f_def)
  show ?thesis
  proof (rule gate_ok_update [OF ok j(1) _ _ _ j(2)])
    show "ft_entry f = e" by (simp add: f_def)
    show "e < g_next ?g" "g_next g \<le> g_next ?g" using h(3,4) j(4) by simp_all
    show "ft_entry h = e" if "g_flights g r = Some h" for h using that new by simp
    show "g_table ?g fp' = g_table g fp'" if "fp' \<noteq> ft_fingerprint f" for fp' using that j(3) by (simp add: f_def)
    show "fp' = ft_fingerprint f" if "g_table g fp' = Some e" for fp' using h(6) [OF that] by (simp add: f_def)
    show "g_table ?g (ft_fingerprint f) = (if at_entry ?g e present = {} then None else Some e)"
      using j(3) at [of present] ph by (simp add: f_def)
    show "ft_fingerprint k = ft_fingerprint f" if "g_flights g r' = Some k" "ft_entry k = e" "ft_phase k \<noteq> Gone" for r' k
      using tableD(5) [OF ok that(1,3)] that(2) h(6) by (simp add: f_def)
    show "g_table g (ft_fingerprint f) \<in> {None, Some e}"
      using e by (auto simp: f_def entry_for_def split: option.splits)
    have "card (at_entry ?g e present) = Suc (card (at_entry g e present))" "finite (at_entry ?g e present)"
      using at [of present] ph o(1) r by simp_all
    moreover have "free \<Longrightarrow> at_entry g e {Holding} = {} \<and> at_entry g e {Waiting} = {}"
      using o(4,6) by (auto simp: free_def en_def)
    ultimately show "entry_ok ?g e"
      using o(2,3,4) o(5) o(6) r at [of "{Waiting}"] at [of "{Holding}"] j(2)
      by (cases free) (auto simp: entry_ok_def f_def en'_def en_def)
  qed
qed

lemma set_phase_apply:
  "g_flights g r = Some f \<Longrightarrow> set_phase r p g = g\<lparr>g_flights := (g_flights g)(r \<mapsto> f\<lparr>ft_phase := p\<rparr>)\<rparr>"
  by (simp add: set_phase_def)

text \<open>The steps of a flight that is already at its entry.\<close>

lemma phase_step_ok:
  assumes ok: "gate_ok g" and f: "g_flights g r = Some f" "ft_phase f \<noteq> Gone" "ft_entry f = e"
    and g': "g_flights g' = (g_flights g)(r \<mapsto> f\<lparr>ft_phase := p\<rparr>)" "g_entry g' = (g_entry g)(e := en)" "g_next g' = g_next g"
    and e_ok: "entry_ok g' e"
    and t: "g_table g' = (g_table g)(ft_fingerprint f := (if at_entry g' e present = {} then None else Some e))"
  shows "gate_ok g'"
proof (rule gate_ok_update [OF ok g'(1) _ _ _ g'(2)])
  note row = tableD(5) [OF ok f(1,2)]
  show "ft_entry (f\<lparr>ft_phase := p\<rparr>) = e" "e < g_next g'" "g_next g \<le> g_next g'"
    using f(3) g'(3) tableD(3) [OF ok f(1)] by simp_all
  show "ft_entry h = e" if "g_flights g r = Some h" for h using that f by simp
  show "entry_ok g' e" by (rule e_ok)
  show "g_table g' fp = g_table g fp" if "fp \<noteq> ft_fingerprint (f\<lparr>ft_phase := p\<rparr>)" for fp using that t by simp
  show "fp = ft_fingerprint (f\<lparr>ft_phase := p\<rparr>)" if "g_table g fp = Some e" for fp
    using tableD(4) [OF ok that] row f(3) by simp
  show "g_table g' (ft_fingerprint (f\<lparr>ft_phase := p\<rparr>)) = (if at_entry g' e present = {} then None else Some e)"
    using t by simp
  show "ft_fingerprint h = ft_fingerprint (f\<lparr>ft_phase := p\<rparr>)"
    if "g_flights g r' = Some h" "ft_entry h = e" "ft_phase h \<noteq> Gone" for r' h
    using fingerprint_of_entry [OF ok f(1,2) that(1) _ that(3)] that(2) f(3) by simp
  show "g_table g (ft_fingerprint (f\<lparr>ft_phase := p\<rparr>)) \<in> {None, Some e}" using row f(3) by simp
qed

lemma waiter_flight:
  assumes "gate_ok g" and "r \<in> set (ge_waiters (g_entry g e))"
  obtains f where "g_flights g r = Some f" "ft_phase f = Waiting" "ft_entry f = e"
  using entry_okD(4) [OF assms(1), of e] assms(2) by (auto simp: at_entry_def)

lemma grant_ok:
  assumes ok: "gate_ok g" and free: "\<not> ge_locked (g_entry g e)"
  shows "gate_ok (grant e g)"
proof (cases "ge_waiters (g_entry g e)")
  case Nil
  then show ?thesis using ok by (simp add: grant_def)
next
  case (Cons r rs)
  then obtain f where f: "g_flights g r = Some f" "ft_phase f = Waiting" "ft_entry f = e"
    using waiter_flight [OF ok, of r e] by auto
  note o = entry_okD [OF ok, where e = e]
  let ?g = "grant e g"
  have g': "g_flights ?g = (g_flights g)(r \<mapsto> f\<lparr>ft_phase := Holding\<rparr>)"
    "g_entry ?g = (g_entry g)(e := (g_entry g e)\<lparr>ge_locked := True, ge_waiters := rs\<rparr>)"
    "g_next ?g = g_next g" "g_table ?g = g_table g"
    using Cons f(1) by (simp_all add: grant_def set_phase_def)
  have at: "at_entry ?g e ps = at_entry g e ps - {r} \<union> (if Holding \<in> ps then {r} else {})" for ps
    using at_entry_update [OF g'(1), of e ps] f(3) by simp
  have r: "r \<in> at_entry g e present" using at_entry_phase [OF f(1)] f(2,3) by simp
  then have same: "at_entry ?g e present = at_entry g e present" using at [of present] by auto
  have none: "at_entry g e {Holding} = {}" using o(6) free by simp
  have "entry_ok ?g e"
    using o(1,2,3,4) Cons same none at [of "{Waiting}"] at [of "{Holding}"] g'(2) by (auto simp: entry_ok_def)
  moreover have "g_table ?g = (g_table g)(ft_fingerprint f := (if at_entry ?g e present = {} then None else Some e))"
    using tableD(5) [OF ok f(1)] f(2,3) same r g'(4) by auto
  ultimately show ?thesis using f by (intro phase_step_ok [OF ok f(1) _ f(3) g'(1,2,3)]) simp_all
qed

lemma give_up_ok:
  assumes ok: "gate_ok g" and w: "phase_of g r = Some Waiting"
  shows "gate_ok (give_up r g)"
proof -
  obtain f where f: "g_flights g r = Some f" "ft_phase f = Waiting" using w by (auto simp: phase_of_def)
  let ?e = "ft_entry f"
  let ?g = "give_up r g"
  note o = entry_okD [OF ok, where e = ?e]
  have g': "g_flights ?g = (g_flights g)(r \<mapsto> f\<lparr>ft_phase := Gave_up\<rparr>)"
    "g_entry ?g = (g_entry g)(?e := (g_entry g ?e)\<lparr>ge_waiters := remove1 r (ge_waiters (g_entry g ?e))\<rparr>)"
    "g_next ?g = g_next g" "g_table ?g = g_table g"
    using f(1) by (simp_all add: give_up_def set_phase_def Let_def)
  have at: "at_entry ?g ?e ps = at_entry g ?e ps - {r} \<union> (if Gave_up \<in> ps then {r} else {})" for ps
    using at_entry_update [OF g'(1), of ?e ps] by simp
  have r: "r \<in> at_entry g ?e present" "r \<notin> at_entry g ?e {Holding}" using at_entry_phase [OF f(1)] f(2) by simp_all
  then have same: "at_entry ?g ?e present = at_entry g ?e present" using at [of present] by auto
  have "entry_ok ?g ?e"
    using o(1,2,3,4,6) o(5) same r at [of "{Waiting}"] at [of "{Holding}"] g'(2) by (auto simp: entry_ok_def)
  moreover have "g_table ?g = (g_table g)(ft_fingerprint f := (if at_entry ?g ?e present = {} then None else Some ?e))"
    using tableD(5) [OF ok f(1)] f(2) same r(1) g'(4) by auto
  ultimately show ?thesis using f(2) by (intro phase_step_ok [OF ok f(1) _ refl g'(1,2,3)]) simp_all
qed

lemma leave_ok:
  assumes ok: "gate_ok g" and p: "phase_of g r \<in> {Some Holding, Some Gave_up}"
  shows "gate_ok (leave r g)"
proof -
  obtain f where f: "g_flights g r = Some f" "ft_phase f \<in> {Holding, Gave_up}" using p by (auto simp: phase_of_def)
  let ?e = "ft_entry f"
  let ?g = "leave r g"
  define en where "en = (if ft_acquired f then (g_entry g ?e)\<lparr>ge_locked := False\<rparr> else g_entry g ?e)\<lparr>ge_refs := ge_refs (g_entry g ?e) - 1\<rparr>"
  note o = entry_okD [OF ok, where e = ?e]
  have row: "g_table g (ft_fingerprint f) = Some ?e" using tableD(5) [OF ok f(1)] f(2) by auto
  have g': "g_flights ?g = (g_flights g)(r \<mapsto> f\<lparr>ft_phase := Gone\<rparr>)" "g_entry ?g = (g_entry g)(?e := en)"
    "g_next ?g = g_next g"
    "g_table ?g = (if ge_refs en \<le> 0 then (g_table g)(ft_fingerprint f := None) else g_table g)"
    using f(1) row by (simp_all add: leave_def set_phase_def Let_def en_def)
  have at: "at_entry ?g ?e ps = at_entry g ?e ps - {r} \<union> (if Gone \<in> ps then {r} else {})" for ps
    using at_entry_update [OF g'(1), of ?e ps] by simp
  have r: "r \<in> at_entry g ?e present" "r \<notin> at_entry g ?e {Waiting}" "r \<in> at_entry g ?e {Holding} \<longleftrightarrow> ft_acquired f"
    using at_entry_phase [OF f(1)] f(2) by (auto simp: ft_acquired_def)
  have c: "card (at_entry ?g ?e present) = card (at_entry g ?e present) - 1" "0 < card (at_entry g ?e present)"
    using at [of present] r(1) o(1) by (simp_all add: card_gt_0_iff) auto
  have fin: "finite (at_entry ?g ?e present)" using at [of present] o(1) by simp
  have refs: "ge_refs en = int (card (at_entry ?g ?e present))"
    using o(2) c by (simp add: en_def of_nat_diff)
  have "entry_ok ?g ?e"
    using fin refs o(3,4,6) o(5) r at [of "{Waiting}"] at [of "{Holding}"] g'(2)
    by (auto simp: entry_ok_def en_def)
  moreover have "g_table ?g = (g_table g)(ft_fingerprint f := (if at_entry ?g ?e present = {} then None else Some ?e))"
    using g'(4) refs fin row by auto
  ultimately show ?thesis using f(2) by (intro phase_step_ok [OF ok f(1) _ refl g'(1,2,3)]) auto
qed

lemma gate_step_ok: "gate_step g g' \<Longrightarrow> gate_ok g \<Longrightarrow> gate_ok g'"
  by (induction rule: gate_step.induct) (auto intro: join_ok grant_ok give_up_ok leave_ok)

lemma gate_reachable_ok: "gate_reachable g \<Longrightarrow> gate_ok g"
  by (induction rule: gate_reachable.induct) (auto intro: gate_start_ok gate_step_ok)


section \<open>Progress\<close>

text \<open>The steps that wait for no clock, and those with the expiry of a wait among them.\<close>

inductive moves_on :: "gate \<Rightarrow> gate \<Rightarrow> bool" where
  moves_grant: "\<not> ge_locked (g_entry g e) \<Longrightarrow> ge_waiters (g_entry g e) \<noteq> [] \<Longrightarrow> moves_on g (grant e g)"
| moves_leave: "phase_of g r \<in> {Some Holding, Some Gave_up} \<Longrightarrow> moves_on g (leave r g)"

inductive inner_step :: "gate \<Rightarrow> gate \<Rightarrow> bool" where
  inner_moves: "moves_on g g' \<Longrightarrow> inner_step g g'"
| inner_give_up: "phase_of g r = Some Waiting \<Longrightarrow> inner_step g (give_up r g)"

definition in_phase :: "gate \<Rightarrow> phase set \<Rightarrow> nat set" where
  "in_phase g ps = {r. \<exists>p\<in>ps. phase_of g r = Some p}"

definition work :: "gate \<Rightarrow> nat" where
  "work g = card (in_phase g {Waiting}) + card (in_phase g present)"

lemma in_phase_update:
  assumes "g_flights g' = (g_flights g)(r \<mapsto> f\<lparr>ft_phase := p\<rparr>)"
  shows "in_phase g' ps = in_phase g ps - {r} \<union> (if p \<in> ps then {r} else {})"
  using assms by (auto simp: in_phase_def phase_of_def split: if_splits)

lemma in_phase_at: "in_phase g ps = (\<Union>e. at_entry g e ps)"
  by (auto simp: in_phase_def at_entry_def phase_of_def)

lemma finite_present:
  assumes "gate_ok g"
  shows "finite (in_phase g present)"
proof -
  have "in_phase g present = (\<Union>e\<in>{..<g_next g}. at_entry g e present)"
    using tableD(3) [OF assms] by (fastforce simp: in_phase_def at_entry_def phase_of_def)
  then show ?thesis using entry_okD(1) [OF assms] by simp
qed

lemma work_decreases:
  assumes ok: "gate_ok g" and f: "g_flights g r = Some f" and "g_flights g' = (g_flights g)(r \<mapsto> f\<lparr>ft_phase := p\<rparr>)"
    and c: "ft_phase f = Waiting \<and> p \<in> {Holding, Gave_up} \<or> ft_phase f \<in> {Holding, Gave_up} \<and> p = Gone"
  shows "work g' < work g"
proof -
  have fin: "finite (in_phase g present)" "finite (in_phase g {Waiting})"
    using finite_present [OF ok] by (auto simp: in_phase_def elim: rev_finite_subset)
  have m: "r \<in> in_phase g ps \<longleftrightarrow> ft_phase f \<in> ps" for ps using f by (auto simp: in_phase_def phase_of_def)
  note u = in_phase_update [OF assms(3)]
  from c show ?thesis
  proof
    assume h: "ft_phase f = Waiting \<and> p \<in> {Holding, Gave_up}"
    then have "in_phase g' present = in_phase g present" "in_phase g' {Waiting} = in_phase g {Waiting} - {r}" "r \<in> in_phase g {Waiting}"
      using u [of present] u [of "{Waiting}"] m by auto
    then show ?thesis using card_Diff1_less [OF fin(2)] unfolding work_def by (metis add_less_cancel_right)
  next
    assume h: "ft_phase f \<in> {Holding, Gave_up} \<and> p = Gone"
    then have "in_phase g' present = in_phase g present - {r}" "in_phase g' {Waiting} = in_phase g {Waiting}" "r \<in> in_phase g present"
      using u [of present] u [of "{Waiting}"] m by auto
    then show ?thesis using card_Diff1_less [OF fin(1)] unfolding work_def by (metis add_less_cancel_left)
  qed
qed

lemma grant_flights:
  assumes "gate_ok g" and "ge_waiters (g_entry g e) \<noteq> []"
  obtains r f where "g_flights g r = Some f" "ft_phase f = Waiting"
    "g_flights (grant e g) = (g_flights g)(r \<mapsto> f\<lparr>ft_phase := Holding\<rparr>)"
proof -
  obtain r rs where c: "ge_waiters (g_entry g e) = r # rs" using assms(2) by (cases "ge_waiters (g_entry g e)") auto
  then obtain f where "g_flights g r = Some f" "ft_phase f = Waiting" using waiter_flight [OF assms(1), of r e] by auto
  with that c show ?thesis by (simp add: grant_def set_phase_def)
qed

lemma leave_flights: "g_flights g r = Some f \<Longrightarrow> g_flights (leave r g) = (g_flights g)(r \<mapsto> f\<lparr>ft_phase := Gone\<rparr>)"
  by (simp add: leave_def set_phase_def Let_def)

lemma give_up_flights: "g_flights g r = Some f \<Longrightarrow> g_flights (give_up r g) = (g_flights g)(r \<mapsto> f\<lparr>ft_phase := Gave_up\<rparr>)"
  by (simp add: give_up_def set_phase_def Let_def)

lemma inner_gate_step: "inner_step g g' \<Longrightarrow> gate_step g g'"
  by (induction rule: inner_step.induct) (auto elim!: moves_on.cases intro: gate_step.intros)

lemma inner_work:
  assumes "inner_step g g'" and "gate_ok g"
  shows "work g' < work g"
  using assms
proof (induction rule: inner_step.induct)
  case (inner_moves g g')
  from inner_moves.hyps show ?case
  proof cases
    case (moves_grant e)
    obtain r f where "g_flights g r = Some f" "ft_phase f = Waiting"
      "g_flights (grant e g) = (g_flights g)(r \<mapsto> f\<lparr>ft_phase := Holding\<rparr>)"
      using grant_flights [OF inner_moves.prems moves_grant(3)] .
    then show ?thesis using work_decreases [OF inner_moves.prems] moves_grant(1) by blast
  next
    case (moves_leave r)
    then obtain f where "g_flights g r = Some f" "ft_phase f \<in> {Holding, Gave_up}" by (auto simp: phase_of_def)
    then show ?thesis using work_decreases [OF inner_moves.prems _ leave_flights] moves_leave(1) by blast
  qed
next
  case (inner_give_up g r)
  then obtain f where "g_flights g r = Some f" "ft_phase f = Waiting" by (auto simp: phase_of_def)
  then show ?case using work_decreases [OF inner_give_up.prems _ give_up_flights] by blast
qed

text \<open>Where nothing can move, nobody is left.\<close>

lemma stuck_is_empty:
  assumes ok: "gate_ok g" and stuck: "\<nexists>g'. moves_on g g'"
  shows "in_phase g present = {}" and "g_table g = (\<lambda>_. None)"
proof -
  have w: "ge_waiters (g_entry g e) = []" for e
  proof (rule ccontr)
    assume n: "ge_waiters (g_entry g e) \<noteq> []"
    then have "ge_locked (g_entry g e)" using stuck moves_grant by blast
    then obtain r where "r \<in> at_entry g e {Holding}" using entry_okD(6) [OF ok] by blast
    then have "phase_of g r = Some Holding" by (auto simp: at_entry_def phase_of_def)
    then show False using stuck moves_leave by blast
  qed
  have none: "at_entry g e present = {}" for e
  proof -
    have "at_entry g e {Waiting} = {}" using entry_okD(4) [OF ok, of e] w by simp
    moreover have "phase_of g r \<notin> {Some Holding, Some Gave_up}" for r using stuck moves_leave by blast
    ultimately show ?thesis unfolding at_entry_present by (auto simp: at_entry_def phase_of_def)
  qed
  then show "in_phase g present = {}" unfolding in_phase_at by blast
  show "g_table g = (\<lambda>_. None)"
  proof
    fix fp
    show "g_table g fp = None" using tableD(2) [OF ok] none by (cases "g_table g fp") blast+
  qed
qed

lemma inner_steps_ok: "(inner_step ^^ n) g g' \<Longrightarrow> gate_ok g \<Longrightarrow> gate_ok g' \<and> work g' + n \<le> work g"
proof (induction n arbitrary: g')
  case (Suc n)
  then obtain h where h: "(inner_step ^^ n) g h" "inner_step h g'" by auto
  with Suc have "gate_ok h" "work h + n \<le> work g" by auto
  then show ?case using h(2) inner_gate_step gate_step_ok inner_work [OF h(2)] by fastforce
qed simp


section \<open>Properties\<close>

definition gate_in_flight :: "gate \<Rightarrow> string \<Rightarrow> int" where
  "gate_in_flight g fp = (case g_table g fp of None \<Rightarrow> 0 | Some e \<Rightarrow> ge_refs (g_entry g e))"

definition flying :: "gate \<Rightarrow> string \<Rightarrow> nat set" where
  "flying g fp = {r. \<exists>f. g_flights g r = Some f \<and> ft_fingerprint f = fp \<and> ft_phase f \<noteq> Gone}"

lemma flying_at:
  assumes "gate_ok g"
  shows "g_table g fp = Some e \<Longrightarrow> flying g fp = at_entry g e present" and "g_table g fp = None \<Longrightarrow> flying g fp = {}"
proof -
  have ne: "p \<noteq> Gone \<longleftrightarrow> p \<in> present" for p by (cases p) auto
  show "flying g fp = at_entry g e present" if t: "g_table g fp = Some e"
  proof (intro set_eqI iffI)
    fix r assume "r \<in> flying g fp"
    then show "r \<in> at_entry g e present" using tableD(5) [OF assms] t unfolding flying_def at_entry_def ne by fastforce
  next
    fix r assume "r \<in> at_entry g e present"
    then obtain f where f: "g_flights g r = Some f" "ft_entry f = e" "ft_phase f \<noteq> Gone" unfolding at_entry_def ne by blast
    then have "g_table g (ft_fingerprint f) = Some e" using tableD(5) [OF assms f(1,3)] by simp
    then have "ft_fingerprint f = fp" using tableD(4) [OF assms _ t] by simp
    then show "r \<in> flying g fp" using f by (auto simp: flying_def)
  qed
  show "flying g fp = {}" if t: "g_table g fp = None"
  proof (rule equals0I)
    fix r assume "r \<in> flying g fp"
    then obtain f where "g_flights g r = Some f" "ft_fingerprint f = fp" "ft_phase f \<noteq> Gone" by (auto simp: flying_def)
    then show False using tableD(5) [OF assms] t by fastforce
  qed
qed

text \<open>C17. At any moment of any interleaving at most one request holds the gate of a fingerprint, the count kept for the
  fingerprint is the number of requests that hold it, wait for it or go on without it, and an entry is in
  the table exactly while there is one.\<close>

theorem gate_admits_one:
  assumes "gate_reachable g"
  shows "(\<forall>r r' f f'. g_flights g r = Some f \<longrightarrow> g_flights g r' = Some f' \<longrightarrow> ft_fingerprint f = ft_fingerprint f' \<longrightarrow>
      ft_acquired f \<longrightarrow> ft_acquired f' \<longrightarrow> r = r') \<and>
    gate_in_flight g fp = int (card (flying g fp)) \<and> (g_table g fp = None \<longleftrightarrow> flying g fp = {})"
proof (intro conjI allI impI)
  note ok = gate_reachable_ok [OF assms]
  fix r r' f f'
  assume f: "g_flights g r = Some f" "g_flights g r' = Some f'" "ft_fingerprint f = ft_fingerprint f'" "ft_acquired f" "ft_acquired f'"
  then have "ft_entry f = ft_entry f'"
    using tableD(5) [OF ok f(1)] tableD(5) [OF ok f(2)] by (auto simp: ft_acquired_def)
  then have "r \<in> at_entry g (ft_entry f) {Holding}" "r' \<in> at_entry g (ft_entry f) {Holding}"
    using f by (auto simp: at_entry_def ft_acquired_def)
  then show "r = r'" using entry_okD(5) [OF ok] by blast
next
  note ok = gate_reachable_ok [OF assms]
  show "gate_in_flight g fp = int (card (flying g fp))"
    using flying_at [OF ok] entry_okD(2) [OF ok] by (simp add: gate_in_flight_def split: option.split)
  show "g_table g fp = None \<longleftrightarrow> flying g fp = {}"
    using flying_at [OF ok] tableD(2) [OF ok] by (cases "g_table g fp") auto
qed

definition two_arrivals :: gate where
  "two_arrivals = join_gate 1 ''fp'' (join_gate 0 ''fp'' empty_gate)"

lemma two_arrivals_reachable: "gate_reachable two_arrivals"
proof -
  have a: "gate_reachable (join_gate 0 ''fp'' empty_gate)"
    by (rule gate_next [OF gate_start step_join]) (simp add: empty_gate_def)
  show ?thesis unfolding two_arrivals_def
    by (rule gate_next [OF a step_join]) (simp add: empty_gate_def join_gate_def entry_for_def Let_def)
qed

theorem gate_admits_one_witness:
  "phase_of two_arrivals 0 = Some Holding \<and> phase_of two_arrivals 1 = Some Waiting \<and> card (flying two_arrivals ''fp'') = 2"
proof -
  have "phase_of two_arrivals 0 = Some Holding \<and> phase_of two_arrivals 1 = Some Waiting \<and> gate_in_flight two_arrivals ''fp'' = 2"
    by code_simp
  then show ?thesis using gate_admits_one [OF two_arrivals_reachable, of "''fp''"] by simp
qed

text \<open>C26. The gate strands nobody. Whatever runs between two arrivals, only so many steps can follow; and where
  no lock can be granted and no block left, which needs no wait to expire, every request is gone and the
  table is empty.\<close>

theorem gate_drains:
  assumes "gate_reachable g" and "(inner_step ^^ n) g g'"
  shows "n \<le> work g \<and> ((\<nexists>g''. moves_on g' g'') \<longrightarrow> in_phase g' present = {} \<and> g_table g' = (\<lambda>_. None))"
  using inner_steps_ok [OF assms(2) gate_reachable_ok [OF assms(1)]] stuck_is_empty by auto

definition both_left :: gate where
  "both_left = leave 1 (grant 0 (leave 0 two_arrivals))"

lemma both_left_steps: "(inner_step ^^ 3) two_arrivals both_left"
proof -
  have "inner_step two_arrivals (leave 0 two_arrivals)"
    by (intro inner_moves moves_leave) code_simp
  moreover have "inner_step (leave 0 two_arrivals) (grant 0 (leave 0 two_arrivals))"
    by (intro inner_moves moves_grant) code_simp+
  moreover have "inner_step (grant 0 (leave 0 two_arrivals)) both_left"
    unfolding both_left_def by (intro inner_moves moves_leave) code_simp
  ultimately show ?thesis unfolding numeral_3_eq_3 by auto
qed

lemma both_left_stuck: "\<nexists>g. moves_on both_left g"
proof -
  have "ge_waiters (g_entry both_left e) = []" for e
    by (simp add: both_left_def two_arrivals_def leave_def grant_def set_phase_def join_gate_def entry_for_def empty_gate_def
        new_entry_def ft_acquired_def Let_def)
  moreover have "phase_of both_left r \<notin> {Some Holding, Some Gave_up}" for r
    by (simp add: both_left_def two_arrivals_def leave_def grant_def set_phase_def join_gate_def entry_for_def empty_gate_def
        new_entry_def ft_acquired_def phase_of_def Let_def)
  ultimately show ?thesis by (auto elim: moves_on.cases)
qed

theorem gate_drains_witness:
  "3 \<le> work two_arrivals \<and> in_phase both_left present = {} \<and> g_table both_left = (\<lambda>_. None)"
  using gate_drains [OF two_arrivals_reachable both_left_steps] both_left_stuck by blast

end
