(* ===== verification/Registry.thy ===== *)
theory Registry
  imports Prelude
begin

text \<open>
  The reason-code catalog: \<^verbatim>\<open>src/dlt/registry.py\<close>, with the reader of Python's \<^verbatim>\<open>csv\<close> module (the default
  dialect) it is loaded through, and the writer that produces the file, \<^verbatim>\<open>write_csv\<close> of
  \<^verbatim>\<open>src/tools/parse_reason_codes.py\<close>. A file is what \<^verbatim>\<open>stat\<close> and reading it return: its modification time,
  its size, and its decoded text or none.
\<close>

section \<open>Reading CSV\<close>

abbreviation quote_char :: char where "quote_char \<equiv> CHR 0x22"
abbreviation return_char :: char where "return_char \<equiv> CHR 0x0D"
abbreviation feed_char :: char where "feed_char \<equiv> CHR 0x0A"

datatype csv_mode = Start_record | Start_field | In_field | In_quoted | Quote_in_quoted

fun skip_feed :: "string \<Rightarrow> string" where
  "skip_feed (c # cs) = (if c = feed_char then cs else c # cs)"
| "skip_feed [] = []"

lemma length_skip_feed [termination_simp]: "length (skip_feed cs) \<le> length cs"
  by (cases cs) auto

lemma length_skip_feed_less [termination_simp]: "length (skip_feed cs) < Suc (length cs)"
  using length_skip_feed [of cs] by simp

fun csv_scan :: "csv_mode \<Rightarrow> string \<Rightarrow> string list \<Rightarrow> string \<Rightarrow> string list list" where
  "csv_scan m f row [] = (if m = Start_record then [] else [row @ [f]])"
| "csv_scan m f row (c # cs) =
     (if m = In_quoted
      then (if c = quote_char then csv_scan Quote_in_quoted f row cs else csv_scan In_quoted (f @ [c]) row cs)
      else if m = Quote_in_quoted \<and> c = quote_char then csv_scan In_quoted (f @ [c]) row cs
      else if c = return_char \<or> c = feed_char
      then (if m = Start_record then [] else row @ [f])
             # csv_scan Start_record [] [] (if c = return_char then skip_feed cs else cs)
      else if c = CHR '','' then csv_scan Start_field [] (row @ [f]) cs
      else if c = quote_char \<and> m \<in> {Start_record, Start_field} then csv_scan In_quoted [] row cs
      else csv_scan In_field (f @ [c]) row cs)"

definition FIELD_LIMIT :: nat where "FIELD_LIMIT = 131072"

text \<open>None for a field over the limit, where the reader raises \<^verbatim>\<open>csv.Error\<close>.\<close>

definition csv_reader :: "string \<Rightarrow> string list list option" where
  "csv_reader t =
     (let rows = csv_scan Start_record [] [] t
      in if list_all (list_all (\<lambda>f. length f \<le> FIELD_LIMIT)) rows then Some rows else None)"

text \<open>\<^verbatim>\<open>row.get(column)\<close> of a \<^verbatim>\<open>DictReader\<close> row: the last column of that name, empty where the row is short.\<close>

definition dict_cell :: "string list \<Rightarrow> string list \<Rightarrow> string \<Rightarrow> string" where
  "dict_cell names row column =
     (case map_of (rev (zip names (row @ replicate (length names - length row) []))) column of None \<Rightarrow> [] | Some v \<Rightarrow> v)"


section \<open>Catalog rows\<close>

definition CODE_COLUMNS :: "string list" where
  "CODE_COLUMNS = [''code'', ''reason_code'', ''reasoncode'', ''error_code'', ''errorcode'', ''business_code'',
     ''businesscode'', ''key'']"

definition DESC_COLUMNS :: "string list" where
  "DESC_COLUMNS = [''description'', ''desc'', ''message'', ''reason'', ''text'', ''detail'', ''error_description'']"

definition CATEGORY_COLUMNS :: "string list" where
  "CATEGORY_COLUMNS = [''category'', ''reason_category'', ''error_reason_category'']"

definition CATEGORY_SOURCE_COLUMNS :: "string list" where
  "CATEGORY_SOURCE_COLUMNS = [''category_source'', ''categorysource'']"

definition CLASS_COLUMNS :: "string list" where
  "CLASS_COLUMNS = [''failure_class'', ''class'', ''failureclass'']"

definition STAGE_COLUMNS :: "string list" where "STAGE_COLUMNS = [''stage'']"
definition NUMERIC_ID_COLUMNS :: "string list" where "NUMERIC_ID_COLUMNS = [''numeric_id'', ''id'', ''numericid'']"
definition ALLOWED_CLASSES :: "string list" where "ALLOWED_CLASSES = [''A'', ''C'']"

record reason_code =
  rc_code :: string
  rc_description :: string
  rc_category :: string
  rc_category_source :: string
  rc_failure_class :: string
  rc_stage :: string
  rc_numeric_id :: string

type_synonym catalog = "(string \<times> reason_code) list"

definition is_declared :: "reason_code \<Rightarrow> bool" where
  "is_declared r \<longleftrightarrow> rc_category_source r = ''declared''"

definition CLASS_BY_CATEGORY :: "(string \<times> string) list" where
  "CLASS_BY_CATEGORY =
     [(''BUSINESS_VALIDATION_ERROR'', ''A''), (''BUSINESS_EXCEPTION'', ''A''), (''TECHNICAL_EXCEPTION'', ''C'')]"

definition pick_column :: "string list \<Rightarrow> string list \<Rightarrow> string option" where
  "pick_column names candidates =
     (let normalised = rev (map (\<lambda>n. (py_lower (py_strip n), n)) names)
      in Option.bind (find (\<lambda>c. map_of normalised c \<noteq> None) candidates) (map_of normalised))"

definition class_from :: "string \<Rightarrow> string \<Rightarrow> string" where
  "class_from row_value category =
     (let t = py_upper (py_strip row_value)
      in if t \<in> set ALLOWED_CLASSES then t
         else (case map_of CLASS_BY_CATEGORY (py_upper (py_strip category)) of None \<Rightarrow> [] | Some k \<Rightarrow> k))"

definition cell :: "string list \<Rightarrow> string list \<Rightarrow> string list \<Rightarrow> string" where
  "cell names candidates row =
     (case pick_column names candidates of None \<Rightarrow> [] | Some column \<Rightarrow> py_strip (dict_cell names row column))"

definition named_entry :: "string list \<Rightarrow> string list \<Rightarrow> reason_code" where
  "named_entry names row =
     (let category = cell names CATEGORY_COLUMNS row
      in \<lparr>rc_code = cell names CODE_COLUMNS row, rc_description = cell names DESC_COLUMNS row, rc_category = category,
          rc_category_source = cell names CATEGORY_SOURCE_COLUMNS row,
          rc_failure_class = class_from (cell names CLASS_COLUMNS row) category,
          rc_stage = cell names STAGE_COLUMNS row, rc_numeric_id = cell names NUMERIC_ID_COLUMNS row\<rparr>)"

definition add_entry_row :: "reason_code \<Rightarrow> catalog \<Rightarrow> catalog" where
  "add_entry_row r entries = (if rc_code r = [] then entries else AList.update (rc_code r) r entries)"

definition add_positional :: "nat \<times> string list \<Rightarrow> catalog \<Rightarrow> catalog" where
  "add_positional ir entries =
     (case ir of (index, row) \<Rightarrow>
        (case row of
           [] \<Rightarrow> entries
         | first # rest \<Rightarrow>
             let code = py_strip first
             in if code = [] \<or> index = 0 \<and> py_lower code \<in> set CODE_COLUMNS then entries
                else AList.update code
                       \<lparr>rc_code = code, rc_description = (case rest of [] \<Rightarrow> [] | d # ds \<Rightarrow> py_strip d), rc_category = [],
                        rc_category_source = [], rc_failure_class = [], rc_stage = [], rc_numeric_id = []\<rparr> entries))"

definition parse_catalog :: "string \<Rightarrow> catalog option" where
  "parse_catalog t =
     (if py_strip (take 8192 t) = [] then Some []
      else (case csv_reader t of
              None \<Rightarrow> None
            | Some rows \<Rightarrow>
                (let names = (case rows of [] \<Rightarrow> [] | r # rs \<Rightarrow> r)
                 in Some (if pick_column names CODE_COLUMNS \<noteq> None
                          then fold (\<lambda>row. add_entry_row (named_entry names row)) (filter (\<lambda>r. r \<noteq> []) (tl rows)) []
                          else fold add_positional (enumerate 0 rows) []))))"


section \<open>Loading and looking up\<close>

record file_view =
  fv_mtime :: int
  fv_size :: int
  fv_text :: "string option"

type_synonym catalog_cache = "((string \<times> int \<times> int) \<times> catalog) list"

definition DEFAULT_REGISTRY_FILENAME :: string where "DEFAULT_REGISTRY_FILENAME = ''reason_codes.csv''"

definition registry_path :: "string \<Rightarrow> env \<Rightarrow> string" where
  "registry_path repo_root env =
     (let raw = py_strip (env_get env ''DLT_REGISTRY_PATH'' []);
          p = (if raw = [] then DEFAULT_REGISTRY_FILENAME else raw)
      in if starts_with ''/'' p then p else repo_root @ ''/'' @ p)"

definition catalog_of :: "string option \<Rightarrow> catalog" where
  "catalog_of content = (case Option.bind content parse_catalog of None \<Rightarrow> [] | Some c \<Rightarrow> c)"

definition load_catalog :: "(string \<Rightarrow> file_view option) \<Rightarrow> string \<Rightarrow> (catalog_cache, catalog) io" where
  "load_catalog files target cache =
     (case files target of
        None \<Rightarrow> (Inr [], cache)
      | Some v \<Rightarrow>
          let key = (target, fv_mtime v, fv_size v)
          in case map_of cache key of
               Some c \<Rightarrow> (Inr c, cache)
             | None \<Rightarrow> (Inr (catalog_of (fv_text v)), AList.update key (catalog_of (fv_text v)) cache))"

definition entry_in :: "catalog \<Rightarrow> string option \<Rightarrow> reason_code option" where
  "entry_in c code = (case code of None \<Rightarrow> None | Some k \<Rightarrow> if k = [] then None else map_of c (py_strip k))"

definition lookup_entry ::
    "(string \<Rightarrow> file_view option) \<Rightarrow> string \<Rightarrow> string option \<Rightarrow> (catalog_cache, reason_code option) io" where
  "lookup_entry files target code =
     (if code = None \<or> code = Some [] then ret None
      else bindM (load_catalog files target) (\<lambda>c. ret (entry_in c code)))"

definition lookup_description :: "(string \<Rightarrow> file_view option) \<Rightarrow> string \<Rightarrow> string option \<Rightarrow> (catalog_cache, string option) io" where
  "lookup_description files target code = bindM (lookup_entry files target code) (\<lambda>r. ret (map_option rc_description r))"

definition class_in :: "catalog \<Rightarrow> string option \<Rightarrow> string option" where
  "class_in c code =
     Option.bind (entry_in c code) (\<lambda>r. if rc_failure_class r = [] then None else Some (rc_failure_class r))"

definition class_for :: "(string \<Rightarrow> file_view option) \<Rightarrow> string \<Rightarrow> string option \<Rightarrow> (catalog_cache, string option) io" where
  "class_for files target code =
     bindM (lookup_entry files target code) (\<lambda>r.
       ret (Option.bind r (\<lambda>r. if rc_failure_class r = [] then None else Some (rc_failure_class r))))"

definition load_registry :: "(string \<Rightarrow> file_view option) \<Rightarrow> string \<Rightarrow> (catalog_cache, (string \<times> string) list) io" where
  "load_registry files target =
     bindM (load_catalog files target) (\<lambda>c. ret (map (\<lambda>(k, r). (k, rc_description r)) c))"


section \<open>Writing the catalog\<close>

definition FIELDNAMES :: "string list" where
  "FIELDNAMES = [''code'', ''description'', ''category'', ''category_source'', ''failure_class'', ''stage'', ''section'',
     ''numeric_id'']"

definition special :: "char \<Rightarrow> bool" where
  "special c \<longleftrightarrow> c = CHR '','' \<or> c = quote_char \<or> c = return_char \<or> c = feed_char"

definition doubled :: "string \<Rightarrow> string" where
  "doubled s = concat (map (\<lambda>c. if c = quote_char then [quote_char, quote_char] else [c]) s)"

definition csv_field :: "string \<Rightarrow> string" where
  "csv_field s = (if list_ex special s then quote_char # doubled s @ [quote_char] else s)"

definition csv_line :: "string list \<Rightarrow> string" where
  "csv_line row = join_with '','' (map csv_field row) @ [return_char, feed_char]"

text \<open>A row the tool writes has a section, which the catalog does not read.\<close>

definition as_row :: "reason_code \<times> string \<Rightarrow> string list" where
  "as_row rs =
     (case rs of (r, sec) \<Rightarrow>
        [rc_code r, rc_description r, rc_category r, rc_category_source r, rc_failure_class r, rc_stage r, sec,
         rc_numeric_id r])"

definition write_csv :: "(reason_code \<times> string) list \<Rightarrow> string" where
  "write_csv es = csv_line FIELDNAMES @ concat (map (csv_line \<circ> as_row) es)"


section \<open>The reader undoes the writer\<close>

lemma scan_plain:
  "list_all (\<lambda>c. \<not> special c) s \<Longrightarrow> csv_scan In_field f row (s @ t) = csv_scan In_field (f @ s) row t"
  by (induction s arbitrary: f) (auto simp: special_def)

lemma scan_quoted:
  "t = [] \<or> hd t \<noteq> quote_char \<Longrightarrow>
   csv_scan In_quoted f row (doubled s @ quote_char # t) = csv_scan Quote_in_quoted (f @ s) row t"
  by (induction s arbitrary: f) (auto simp: doubled_def)

lemma scan_field:
  assumes "c = CHR '','' \<or> c = return_char" and "m = Start_field \<or> m = Start_record \<and> (s \<noteq> [] \<or> c = CHR '','')"
  shows "csv_scan m [] row (csv_field s @ c # t) =
     (if c = CHR '','' then csv_scan Start_field [] (row @ [s]) t
      else (row @ [s]) # csv_scan Start_record [] [] (skip_feed t))"
proof (cases "list_ex special s")
  case True
  then have "csv_scan m [] row (csv_field s @ c # t) = csv_scan Quote_in_quoted s row (c # t)"
    using assms scan_quoted [of "c # t" "[]" row s] by (auto simp: csv_field_def)
  then show ?thesis using assms(1) by auto
next
  case False
  then have p: "list_all (\<lambda>c. \<not> special c) s" by (auto simp: list_all_iff list_ex_iff)
  show ?thesis
  proof (cases s)
    case Nil
    then show ?thesis using assms by (auto simp: csv_field_def)
  next
    case (Cons d s')
    then have "csv_scan m [] row (csv_field s @ c # t) = csv_scan In_field s row (c # t)"
      using p assms(2) False scan_plain [of s' "[d]" row "c # t"] by (auto simp: csv_field_def special_def)
    then show ?thesis using assms(1) by auto
  qed
qed

lemma scan_fields:
  "fs \<noteq> [] \<Longrightarrow> csv_scan Start_field [] row (join_with '','' (map csv_field fs) @ return_char # feed_char # t) =
     (row @ fs) # csv_scan Start_record [] [] t"
proof (induction fs arbitrary: row)
  case (Cons f fs)
  show ?case
  proof (cases "fs = []")
    case True
    then show ?thesis using scan_field [of return_char Start_field f row "feed_char # t"] by simp
  next
    case False
    then have "join_with '','' (map csv_field (f # fs)) = csv_field f @ CHR '','' # join_with '','' (map csv_field fs)"
      by (simp add: join_with_Cons)
    then show ?thesis using Cons.IH [OF False, of "row @ [f]"] scan_field [of "CHR '',''" Start_field f row] by simp
  qed
qed simp

lemma scan_line:
  assumes "length fs \<ge> 2"
  shows "csv_scan Start_record [] [] (csv_line fs @ t) = fs # csv_scan Start_record [] [] t"
proof -
  obtain f g fs' where fs: "fs = f # g # fs'" using assms by (cases fs; cases "tl fs") auto
  then have "csv_line fs @ t =
      csv_field f @ CHR '','' # join_with '','' (map csv_field (g # fs')) @ return_char # feed_char # t"
    by (simp add: csv_line_def join_with_Cons)
  then show ?thesis
    using scan_field [of "CHR '',''" Start_record f "[]"] scan_fields [of "g # fs'" "[f]" t] fs by simp
qed

lemma scan_lines_written:
  "\<forall>r\<in>set rows. length r \<ge> 2 \<Longrightarrow> csv_scan Start_record [] [] (concat (map csv_line rows)) = rows"
  by (induction rows) (simp_all add: scan_line)


text \<open>The rows of the tool: trimmed, within the field limit, and with the class their category implies.\<close>

definition tool_row :: "reason_code \<times> string \<Rightarrow> bool" where
  "tool_row rs \<longleftrightarrow>
     rc_code (fst rs) \<noteq> [] \<and> list_all (\<lambda>f. length f \<le> FIELD_LIMIT) (as_row rs) \<and>
     list_all (\<lambda>f. py_strip f = f) (as_row rs) \<and> py_upper (rc_category (fst rs)) = rc_category (fst rs) \<and>
     rc_failure_class (fst rs) = (case map_of CLASS_BY_CATEGORY (rc_category (fst rs)) of None \<Rightarrow> [] | Some k \<Rightarrow> k)"

lemma py_strip_visible: "s \<noteq> [] \<Longrightarrow> \<not> is_space (hd s) \<Longrightarrow> py_strip s \<noteq> []"
  by (cases s) (auto simp: py_strip_def lstrip_def rstrip_def)

lemma class_by_category_cases:
  "(case map_of CLASS_BY_CATEGORY c of None \<Rightarrow> [] | Some k \<Rightarrow> k) \<in> {[], ''A'', ''C''}"
  by (auto simp: CLASS_BY_CATEGORY_def)

lemma class_from_cases: "class_from v c \<in> {[], ''A'', ''C''}"
  using class_by_category_cases [of "py_upper (py_strip c)"] by (auto simp: class_from_def ALLOWED_CLASSES_def Let_def)

lemma class_from_tool:
  assumes "py_strip c = c" "py_upper c = c" and "v = (case map_of CLASS_BY_CATEGORY c of None \<Rightarrow> [] | Some k \<Rightarrow> k)"
  shows "class_from v c = v"
proof -
  have "v \<in> {[], ''A'', ''C''}" unfolding assms(3) by (rule class_by_category_cases)
  moreover have "py_upper (py_strip v) = v" if "v \<in> {[], ''A'', ''C''}"
    using that by (elim insertE emptyE; simp only:; code_simp)
  ultimately show ?thesis using assms by (auto simp: class_from_def ALLOWED_CLASSES_def Let_def)
qed

lemma columns_found:
  "pick_column FIELDNAMES CODE_COLUMNS = Some ''code''" "pick_column FIELDNAMES DESC_COLUMNS = Some ''description''"
  "pick_column FIELDNAMES CATEGORY_COLUMNS = Some ''category''"
  "pick_column FIELDNAMES CATEGORY_SOURCE_COLUMNS = Some ''category_source''"
  "pick_column FIELDNAMES CLASS_COLUMNS = Some ''failure_class''" "pick_column FIELDNAMES STAGE_COLUMNS = Some ''stage''"
  "pick_column FIELDNAMES NUMERIC_ID_COLUMNS = Some ''numeric_id''"
  by code_simp+

lemma named_entry_written:
  assumes "tool_row (r, sec)"
  shows "named_entry FIELDNAMES (as_row (r, sec)) = r"
proof -
  have f: "py_strip x = x" if "x \<in> set (as_row (r, sec))" for x
    using assms that by (auto simp: tool_row_def list_all_iff)
  have d: "dict_cell FIELDNAMES (as_row (r, sec)) ''code'' = rc_code r"
    "dict_cell FIELDNAMES (as_row (r, sec)) ''description'' = rc_description r"
    "dict_cell FIELDNAMES (as_row (r, sec)) ''category'' = rc_category r"
    "dict_cell FIELDNAMES (as_row (r, sec)) ''category_source'' = rc_category_source r"
    "dict_cell FIELDNAMES (as_row (r, sec)) ''failure_class'' = rc_failure_class r"
    "dict_cell FIELDNAMES (as_row (r, sec)) ''stage'' = rc_stage r"
    "dict_cell FIELDNAMES (as_row (r, sec)) ''numeric_id'' = rc_numeric_id r"
    by (simp_all add: dict_cell_def FIELDNAMES_def as_row_def)
  have "class_from (rc_failure_class r) (rc_category r) = rc_failure_class r"
    using assms f [of "rc_category r"] by (intro class_from_tool) (auto simp: tool_row_def as_row_def)
  moreover have "py_strip (rc_code r) = rc_code r" "py_strip (rc_description r) = rc_description r"
    "py_strip (rc_category r) = rc_category r" "py_strip (rc_category_source r) = rc_category_source r"
    "py_strip (rc_failure_class r) = rc_failure_class r" "py_strip (rc_stage r) = rc_stage r"
    "py_strip (rc_numeric_id r) = rc_numeric_id r"
    using f by (simp_all add: as_row_def)
  ultimately show ?thesis by (simp add: named_entry_def cell_def columns_found d Let_def)
qed

lemma fold_written:
  assumes "\<forall>rs\<in>set es. tool_row rs" and "distinct (map (rc_code \<circ> fst) es)" and "\<forall>rs\<in>set es. rc_code (fst rs) \<notin> fst ` set acc"
  shows "fold (\<lambda>row. add_entry_row (named_entry FIELDNAMES row)) (map as_row es) acc = acc @ map (\<lambda>rs. (rc_code (fst rs), fst rs)) es"
  using assms
proof (induction es arbitrary: acc)
  case (Cons rs es)
  obtain r sec where rs: "rs = (r, sec)" by (cases rs)
  have new: "AList.update (rc_code r) r acc = acc @ [(rc_code r, r)]"
    using Cons.prems(3) rs by (intro update_new) auto
  have "fold (\<lambda>row. add_entry_row (named_entry FIELDNAMES row)) (map as_row es) (acc @ [(rc_code r, r)]) =
      (acc @ [(rc_code r, r)]) @ map (\<lambda>rs. (rc_code (fst rs), fst rs)) es"
  proof (rule Cons.IH)
    show "\<forall>rs\<in>set es. tool_row rs" "distinct (map (rc_code \<circ> fst) es)" using Cons.prems(1,2) by (simp_all add: comp_def)
    have "rc_code (fst rs') \<noteq> rc_code r" if "rs' \<in> set es" for rs'
      using Cons.prems(2) rs image_eqI [OF _ that, of "rc_code r" "\<lambda>a. rc_code (fst a)"] by (auto simp: comp_def)
    then show "\<forall>rs\<in>set es. rc_code (fst rs) \<notin> fst ` set (acc @ [(rc_code r, r)])" using Cons.prems(3) by simp
  qed
  moreover have "rc_code r \<noteq> []" "tool_row (r, sec)" using Cons.prems(1) rs by (simp_all add: tool_row_def)
  then have "add_entry_row (named_entry FIELDNAMES (as_row rs)) acc = acc @ [(rc_code r, r)]"
    using rs named_entry_written [of r sec] new by (simp add: add_entry_row_def)
  ultimately show ?case using rs by simp
qed simp

lemma csv_reader_written:
  assumes "\<forall>rs\<in>set es. tool_row rs"
  shows "csv_reader (write_csv es) = Some (FIELDNAMES # map as_row es)"
proof -
  have "write_csv es = concat (map csv_line (FIELDNAMES # map as_row es))" by (simp add: write_csv_def comp_def)
  moreover have "\<forall>r\<in>set (FIELDNAMES # map as_row es). length r \<ge> 2" by (auto simp: FIELDNAMES_def as_row_def split: prod.split)
  ultimately have "csv_scan Start_record [] [] (write_csv es) = FIELDNAMES # map as_row es"
    using scan_lines_written by metis
  moreover have "list_all (\<lambda>f. length f \<le> FIELD_LIMIT) FIELDNAMES" by (simp add: FIELDNAMES_def FIELD_LIMIT_def)
  moreover have "list_all (list_all (\<lambda>f. length f \<le> FIELD_LIMIT)) (map as_row es)"
    using assms by (auto simp: tool_row_def list_all_iff)
  ultimately show ?thesis by (simp add: csv_reader_def)
qed

definition catalog_ok :: "catalog \<Rightarrow> bool" where
  "catalog_ok c \<longleftrightarrow> (\<forall>(k, r)\<in>set c. rc_failure_class r \<in> {[], ''A'', ''C''})"

lemma catalog_ok_update: "catalog_ok c \<Longrightarrow> rc_failure_class r \<in> {[], ''A'', ''C''} \<Longrightarrow> catalog_ok (AList.update k r c)"
  unfolding catalog_ok_def by (induction c) auto

lemma catalog_ok_fold: "\<forall>x c. catalog_ok c \<longrightarrow> catalog_ok (f x c) \<Longrightarrow> catalog_ok c \<Longrightarrow> catalog_ok (fold f xs c)"
  by (induction xs arbitrary: c) auto

lemma catalog_of_ok: "catalog_ok (catalog_of content)"
proof -
  have n: "catalog_ok (add_entry_row (named_entry names row) c)" if "catalog_ok c" for names row c
    using catalog_ok_update [OF that] class_from_cases by (simp add: add_entry_row_def named_entry_def Let_def that)
  have p: "catalog_ok (add_positional ir c)" if "catalog_ok c" for ir c
    using catalog_ok_update [OF that] that by (simp add: add_positional_def Let_def split: prod.split list.split)
  have nil: "catalog_ok []" by (simp add: catalog_ok_def)
  have "catalog_ok (fold (\<lambda>row. add_entry_row (named_entry names row)) xs [])" "catalog_ok (fold add_positional ys [])" for names xs ys
    using n p nil by (auto intro!: catalog_ok_fold)
  then have "catalog_ok c" if "parse_catalog t = Some c" for t c
    using that nil by (simp add: parse_catalog_def Let_def split: if_splits option.splits) blast+
  then show ?thesis using nil by (simp add: catalog_of_def bind_eq_Some_conv split: option.split) blast
qed

definition cache_ok :: "catalog_cache \<Rightarrow> bool" where
  "cache_ok cache \<longleftrightarrow> (\<forall>(k, c)\<in>set cache. catalog_ok c)"

lemma cache_ok_update: "cache_ok cache \<Longrightarrow> catalog_ok c \<Longrightarrow> cache_ok (AList.update k c cache)"
  unfolding cache_ok_def by (induction cache) auto

lemma load_catalog_ok:
  assumes "cache_ok cache"
  shows "\<exists>c cache'. load_catalog files target cache = (Inr c, cache') \<and> catalog_ok c \<and> cache_ok cache'"
proof -
  have "catalog_ok []" by (simp add: catalog_ok_def)
  moreover have "catalog_ok c" if "map_of cache k = Some c" for k c
    using assms map_of_SomeD [OF that] by (auto simp: cache_ok_def)
  ultimately show ?thesis
    using assms catalog_of_ok cache_ok_update [OF assms]
    by (cases "files target") (simp_all add: load_catalog_def Let_def split: option.split)
qed

definition after_loads :: "((string \<Rightarrow> file_view option) \<times> string) list \<Rightarrow> catalog_cache" where
  "after_loads calls = fold (\<lambda>(fs, t) cache. snd (load_catalog fs t cache)) calls []"

lemma after_loads_ok: "cache_ok (after_loads calls)"
proof -
  have keeps: "cache_ok (fold (\<lambda>(fs, t) cache. snd (load_catalog fs t cache)) calls cache)" if "cache_ok cache" for cache
    using that
  proof (induction calls arbitrary: cache)
    case (Cons call calls)
    obtain fs t where "call = (fs, t)" by (cases call)
    then show ?case using Cons.IH load_catalog_ok [OF Cons.prems, of fs t] by auto
  qed simp
  show ?thesis unfolding after_loads_def by (rule keeps) (simp add: cache_ok_def)
qed


section \<open>Properties\<close>

text \<open>C28. The catalog the tool writes is the catalog the service reads: whatever commas, quotes and line ends its texts
  hold, loading the written file gives exactly its rows, each under its code.\<close>

theorem catalog_reads_what_is_written:
  assumes "\<forall>rs\<in>set es. tool_row rs" and "distinct (map (rc_code \<circ> fst) es)"
  shows "parse_catalog (write_csv es) = Some (map (\<lambda>(r, sec). (rc_code r, r)) es)"
proof -
  have "hd (take 8192 (write_csv es)) = CHR ''c''" "take 8192 (write_csv es) \<noteq> []"
    by (simp_all add: write_csv_def csv_line_def FIELDNAMES_def csv_field_def special_def numeral_eq_Suc)
  moreover have "\<not> is_space CHR ''c''" by (simp add: is_space_def)
  ultimately have "py_strip (take 8192 (write_csv es)) \<noteq> []" using py_strip_visible by metis
  moreover have "filter (\<lambda>r. r \<noteq> []) (map as_row es) = map as_row es" by (auto simp: as_row_def split: prod.split)
  moreover have "(\<lambda>(r, sec). (rc_code r, r)) = (\<lambda>rs. (rc_code (fst rs), fst rs))" by (simp add: fun_eq_iff)
  ultimately show ?thesis
    using csv_reader_written [OF assms(1)] fold_written [OF assms, of "[]"] columns_found(1)
    by (simp add: parse_catalog_def split_beta)
qed

definition sample_rows :: "(reason_code \<times> string) list" where
  "sample_rows =
     [(\<lparr>rc_code = ''KAFKA_PRODUCER_EXCEPTION'', rc_description = ''failed, then \"gave up\"'', rc_category = ''TECHNICAL_EXCEPTION'',
        rc_category_source = ''declared'', rc_failure_class = ''C'', rc_stage = ''OIS'', rc_numeric_id = []\<rparr>, ''Bio Fraud'')]"

theorem catalog_reads_what_is_written_witness:
  "parse_catalog (write_csv sample_rows) = Some (map (\<lambda>(r, sec). (rc_code r, r)) sample_rows)"
proof (rule catalog_reads_what_is_written)
  have "list_all (list_all (\<lambda>f. length f \<le> FIELD_LIMIT)) (map as_row sample_rows)"
    by (simp add: sample_rows_def as_row_def FIELD_LIMIT_def)
  moreover have "list_all (list_all (\<lambda>f. py_strip f = f)) (map as_row sample_rows)" by code_simp
  moreover have "list_all (\<lambda>rs. rc_code (fst rs) \<noteq> [] \<and> py_upper (rc_category (fst rs)) = rc_category (fst rs) \<and>
      rc_failure_class (fst rs) = (case map_of CLASS_BY_CATEGORY (rc_category (fst rs)) of None \<Rightarrow> [] | Some k \<Rightarrow> k)) sample_rows"
    by code_simp
  ultimately show "\<forall>rs\<in>set sample_rows. tool_row rs" by (auto simp: list_all_iff tool_row_def)
  show "distinct (map (rc_code \<circ> fst) sample_rows)" by code_simp
qed

text \<open>A data file never routes a failure to the lane without a diagnosis: whatever files were loaded before, asking
  the catalog for the class of a code answers business, technical or nothing, and never raises.\<close>

theorem catalog_never_asserts_a_defect:
  "fst (class_for files target code (after_loads calls)) \<in> {Inr None, Inr (Some ''A''), Inr (Some ''C'')}"
proof -
  obtain c cache' where c: "load_catalog files target (after_loads calls) = (Inr c, cache')" "catalog_ok c"
    using load_catalog_ok [OF after_loads_ok] by blast
  have "rc_failure_class r \<in> {[], ''A'', ''C''}" if "map_of c k = Some r" for k r
    using c(2) map_of_SomeD [OF that] by (auto simp: catalog_ok_def)
  then have "class_in c code \<in> {None, Some ''A'', Some ''C''}"
    by (cases "entry_in c code") (auto simp: class_in_def entry_in_def split: option.splits if_splits)
  moreover have "fst (class_for files target code (after_loads calls)) = Inr (class_in c code)"
    using c(1) by (cases code) (auto simp: class_for_def lookup_entry_def bindM_def class_in_def entry_in_def)
  ultimately show ?thesis by auto
qed

end
