(* ===== verification/Failure.thy ===== *)
theory Failure
  imports Stacktrace Classify Registry Dlt_Headers
begin

text \<open>
  What both stages know of a record's failure: \<open>build_failure\<close>, \<open>fingerprinted\<close> and \<open>redacted_failure\<close> of
  \<^verbatim>\<open>src/api/dlt_routes.py\<close>. The parse, the classification and the fingerprint compose the components; the
  catalog is the one loaded for the call, the redaction of a text is a parameter.
\<close>

record failure =
  fr_failure_class :: string
  fr_class_reason :: class_reason
  fr_root_fqcn :: "string option"
  fr_root_message :: string
  fr_business_code :: "string option"
  fr_registry_description :: "string option"
  fr_registry_category :: "string option"
  fr_registry_category_source :: "string option"
  fr_registry_stage :: "string option"
  fr_origin_topic :: "string option"
  fr_type_id :: "string option"
  fr_fingerprint :: string
  fr_signature :: string
  fr_frames :: "string list"
  fr_locations :: "frame_location list"
  fr_truncated :: bool
  fr_chain :: "exception_link list"
  fr_fingerprint_service :: "string option"

definition root_link_of :: "parsed_trace \<Rightarrow> root_link option" where
  "root_link_of t = map_option (\<lambda>l. \<lparr>rt_fqcn = el_fqcn l, rt_message = Some (el_message l)\<rparr>) (trace_root t)"

definition classified ::
    "(string \<Rightarrow> json option) \<Rightarrow> env \<Rightarrow> catalog \<Rightarrow> dlt_headers \<Rightarrow> classification" where
  "classified parse env cat h =
     classify parse env (root_link_of (parse_stacktrace (hd_stacktrace h))) (hd_exception_message h)
       (Some (\<lambda>code. Inr (class_in cat (Some code))))"

definition build_failure ::
    "(string \<Rightarrow> string) \<Rightarrow> (string \<Rightarrow> json option) \<Rightarrow> env \<Rightarrow> catalog \<Rightarrow> dlt_headers \<Rightarrow> failure" where
  "build_failure sha256 parse env cat h =
     (let trace = parse_stacktrace (hd_stacktrace h);
          result = classified parse env cat h;
          frames = normalise_frames env None None (root_frames trace);
          root_fqcn = map_option el_fqcn (trace_root trace);
          code = (case cn_business_code result of None \<Rightarrow> [] | Some c \<Rightarrow> c);
          entry = entry_in cat (cn_business_code result)
      in \<lparr>fr_failure_class = class_value (cn_failure_class result), fr_class_reason = cn_reason result,
          fr_root_fqcn = root_fqcn, fr_root_message = (case trace_root trace of None \<Rightarrow> [] | Some l \<Rightarrow> el_message l),
          fr_business_code = cn_business_code result, fr_registry_description = map_option rc_description entry,
          fr_registry_category = map_option rc_category entry,
          fr_registry_category_source = map_option rc_category_source entry, fr_registry_stage = map_option rc_stage entry,
          fr_origin_topic = hd_original_topic h, fr_type_id = hd_type_id h,
          fr_fingerprint = compute_fingerprint sha256 env root_fqcn frames (Some code) None (hd_type_id h) None,
          fr_signature = build_signature root_fqcn frames code, fr_frames = frames,
          fr_locations = normalise_frame_locations env None None (root_frames trace) (root_locations trace),
          fr_truncated = tr_truncated trace, fr_chain = tr_chain trace, fr_fingerprint_service = None\<rparr>)"

text \<open>A service that has fingerprints of its own gets its name into the hash.\<close>

definition fingerprinted :: "(string \<Rightarrow> string) \<Rightarrow> env \<Rightarrow> string option \<Rightarrow> failure \<Rightarrow> failure" where
  "fingerprinted sha256 env service f =
     (if service = None \<or> service = Some [] then f\<lparr>fr_fingerprint_service := None\<rparr>
      else f\<lparr>fr_fingerprint_service := service,
             fr_fingerprint := compute_fingerprint sha256 env (fr_root_fqcn f) (fr_frames f)
               (Some (case fr_business_code f of None \<Rightarrow> [] | Some c \<Rightarrow> c)) None (fr_type_id f) service\<rparr>)"

definition scrub :: "(string \<Rightarrow> string) \<Rightarrow> string \<Rightarrow> string" where
  "scrub redact t = (if t = [] then t else redact t)"

definition redacted_failure :: "(string \<Rightarrow> string) \<Rightarrow> failure \<Rightarrow> failure" where
  "redacted_failure redact f =
     f\<lparr>fr_root_message := scrub redact (fr_root_message f),
       fr_chain := map (\<lambda>l. l\<lparr>el_message := scrub redact (el_message l)\<rparr>) (fr_chain f)\<rparr>"


section \<open>What the failure record says\<close>

lemma fingerprinted_fields [simp]:
  "fr_failure_class (fingerprinted d env s f) = fr_failure_class f" "fr_frames (fingerprinted d env s f) = fr_frames f"
  "fr_root_fqcn (fingerprinted d env s f) = fr_root_fqcn f" "fr_business_code (fingerprinted d env s f) = fr_business_code f"
  "fr_locations (fingerprinted d env s f) = fr_locations f" "fr_type_id (fingerprinted d env s f) = fr_type_id f"
  "fr_class_reason (fingerprinted d env s f) = fr_class_reason f" "fr_chain (fingerprinted d env s f) = fr_chain f"
  "fr_signature (fingerprinted d env s f) = fr_signature f"
  by (simp_all add: fingerprinted_def)

lemma redacted_fields [simp]:
  "fr_failure_class (redacted_failure r f) = fr_failure_class f" "fr_fingerprint (redacted_failure r f) = fr_fingerprint f"
  "fr_frames (redacted_failure r f) = fr_frames f" "fr_signature (redacted_failure r f) = fr_signature f"
  by (simp_all add: redacted_failure_def)

end
