(* ===== verification/Fixed_Findings.thy ===== *)
theory Fixed_Findings
  imports Failure Group_Reuse Auto_Replay
begin

text \<open>
  Findings without a model, \<^verbatim>\<open>src/dlt/canned.py\<close>, and the check that a finding may be cached for a whole
  failure mode, \<^verbatim>\<open>src/dlt/per_code.py\<close>. How a timestamp, a number or a reason is printed is a field of the
  \<open>wording\<close>; the text itself is the code's. The en dash of one phrasing pattern is outside the 8-bit
  characters and left out.
\<close>

section \<open>Fixed treatments\<close>

record wording =
  wd_time :: "rat \<Rightarrow> string"
  wd_json :: "json \<Rightarrow> string"
  wd_class_reason :: "class_reason \<Rightarrow> string"
  wd_corroboration :: "corroboration_reason \<Rightarrow> string"

definition seen_summary :: "wording \<Rightarrow> doc option \<Rightarrow> string" where
  "seen_summary wd grp =
     (let g = (case grp of None \<Rightarrow> [] | Some d \<Rightarrow> d); count = jget g ''occurrence_count''
      in if \<not> truthy count then ''This is the first recorded occurrence of this failure signature.''
         else wd_json wd count @ '' '' @ (if count = JNum 1 then ''occurrence'' else ''occurrences'') @
              '' of this signature recorded'' @
              (case jget g ''first_seen'' of
                 JNum r \<Rightarrow> if r = 0 then [] else '' first seen '' @ wd_time wd r
               | _ \<Rightarrow> []) @ ''.'')"

definition catalog_note :: "failure \<Rightarrow> string" where
  "catalog_note f =
     (case fr_business_code f of
        None \<Rightarrow> []
      | Some code \<Rightarrow>
          if code = [] \<or> fr_registry_category f \<noteq> Some ''TECHNICAL_EXCEPTION'' then []
          else (let provenance =
                      (case fr_registry_category_source f of
                         Some s \<Rightarrow>
                           if s = ''declared'' then ''declared as such in the BusinessReasonCode source''
                           else if s = ''inferred''
                           then ''inferred from its numeric id range -- weaker evidence than a declared category, so treat this classification as provisional''
                           else ''categorised by the reason-code catalog''
                       | None \<Rightarrow> ''categorised by the reason-code catalog'');
                    detail = (case fr_registry_description f of
                                None \<Rightarrow> []
                              | Some d \<Rightarrow> if d = [] then [] else '' (\"'' @ d @ ''\")'')
                in [newline, newline] @ ''This was raised as a business exception, but the reason code '' @ code @ detail @
                   '' is a technical fault: '' @ provenance @
                   ''. It is treated as Class C for that reason, which is why no per-packet investigation was run.''))"

definition first_text :: "string \<Rightarrow> string option \<Rightarrow> string" where
  "first_text signature root_fqcn =
     (if signature \<noteq> [] then signature
      else case root_fqcn of None \<Rightarrow> ''unknown failure'' | Some r \<Rightarrow> if r = [] then ''unknown failure'' else r)"

definition canned_narrative :: "wording \<Rightarrow> string \<Rightarrow> failure \<Rightarrow> doc option \<Rightarrow> string" where
  "canned_narrative wd failure_class f grp =
     (let signature = first_text (fr_signature f) (fr_root_fqcn f); seen = seen_summary wd grp
      in if failure_class = ''C''
         then ''Technical fault: '' @ signature @
              ''. The root exception is a transient or infrastructure-level failure, not an application defect. '' @
              ''Spring exhausted its retries before the dependency recovered. '' @ seen @ catalog_note f
         else if failure_class = ''B''
         then ''Application defect: '' @ signature @
              ''. The root exception indicates a bug in service code rather than a business rule or a transient fault. '' @
              seen @ [newline, newline] @
              ''No diagnosis is offered: this system has no access to the source of the failing service, so any explanation of *why* the code failed would be speculation. The stack trace, the normalised frames and the affected records are attached for the development team.''
         else ''Unclassified failure: '' @ signature @ ''. '' @ wd_class_reason wd (fr_class_reason f) @ '' '' @ seen @
              [newline, newline] @
              ''The root exception is not in the known classification map, so no treatment can be assigned automatically. The verbatim stack trace is attached.'')"

definition canned_recommendation :: "string \<Rightarrow> string" where
  "canned_recommendation failure_class =
     (if failure_class = ''C''
      then ''Confirm the dependency named in the trace is healthy, then redrive this record from the dead-letter topic. No code or data change is expected.''
      else if failure_class = ''B''
      then ''Route to the team owning the service in the trace. The frames below name the failure site; the occurrence count indicates how widely it is firing.''
      else ''A human should read the attached trace and, once its treatment is known, add the root exception to DLT_CLASS_MAP so future occurrences classify automatically.'')"

definition canned_action :: "string \<Rightarrow> string" where
  "canned_action failure_class =
     (if failure_class = ''C'' then ''REDRIVE_AFTER_RECOVERY''
      else if failure_class = ''B'' then ''ROUTE_TO_DEV'' else ''NEEDS_MANUAL_REVIEW'')"

definition canned_build :: "wording \<Rightarrow> string \<Rightarrow> failure \<Rightarrow> corroboration \<Rightarrow> doc option \<Rightarrow> finding" where
  "canned_build wd failure_class f c grp =
     \<lparr>fi_narrative = canned_narrative wd failure_class f grp,
      fi_discrepancy =
        (if is_discrepancy c
         then Some (''The logs do not support the declared exception: '' @ wd_corroboration wd (co_reason c) @
                    ''. Treat the declared root cause with suspicion.'')
         else None),
      fi_recommendation = canned_recommendation failure_class, fi_action = canned_action failure_class,
      fi_confidence = None, fi_ceilings_applied = [], fi_abstained = False, fi_reviewer_approved = None\<rparr>"


section \<open>What may be cached\<close>

datatype severity = Identifier | Phrasing

abbreviation dash_rx :: rx where "dash_rx \<equiv> Chr (\<lambda>c. c = CHR ''-'')"
abbreviation digit_rx :: rx where "digit_rx \<equiv> Chr is_digit"
abbreviation hex_rx :: rx where "hex_rx \<equiv> Chr is_hex_digit"

definition UUID_CORE :: rx where
  "UUID_CORE =
     Seq (times_rx 8 hex_rx) (Seq dash_rx (Seq (times_rx 4 hex_rx) (Seq dash_rx (Seq (times_rx 4 hex_rx) (Seq dash_rx
       (Seq (times_rx 4 hex_rx) (Seq dash_rx (times_rx 12 hex_rx))))))))"

definition UUID_RX :: rx where
  "UUID_RX = Seq Boundary (Seq UUID_CORE Boundary)"

text \<open>The class \<^verbatim>\<open>[\w.]\<close>, and the negative look-arounds that forbid it.\<close>

definition word_or_dot :: "char \<Rightarrow> bool" where
  "word_or_dot c \<longleftrightarrow> is_word c \<or> c = CHR ''.''"

definition free_of :: "(char \<Rightarrow> bool) \<Rightarrow> char option \<Rightarrow> bool" where
  "free_of p c = (case c of None \<Rightarrow> True | Some x \<Rightarrow> \<not> p x)"

definition LONG_NUMBER_CORE :: rx where
  "LONG_NUMBER_CORE = Seq (times_rx 12 digit_rx) (Star digit_rx)"

definition LONG_NUMBER_RX :: rx where
  "LONG_NUMBER_RX =
     Seq (Around (free_of word_or_dot) (\<lambda>_. True)) (Seq LONG_NUMBER_CORE (Around (\<lambda>_. True) (free_of word_or_dot)))"

definition THIS_PACKET_RX :: rx where
  "THIS_PACKET_RX =
     Seq Boundary (Seq (word_in_any_case ''THIS '')
       (Seq (Alt (word_in_any_case ''SPECIFIC '') (Alt (word_in_any_case ''PARTICULAR '') Eps))
         (Seq (Alt (word_in_any_case ''PACKET'') (Alt (word_in_any_case ''REQUEST'') (Alt (word_in_any_case ''APPLICANT'')
            (Alt (word_in_any_case ''ENROLMENT'') (word_in_any_case ''RECORD''))))) Boundary)))"

definition digits_plus :: rx where
  "digits_plus = Seq digit_rx (Star digit_rx)"

definition SOURCE_LINE_RX :: rx where
  "SOURCE_LINE_RX =
     Alt (Seq Boundary (Seq (Chr is_word) (Seq (Star (Chr is_word)) (Seq (word_in_any_case ''.JAVA:'') digits_plus))))
       (Alt (Seq (word_in_any_case ''(LINE '') (Seq digits_plus (Lit '')'')))
         (Alt (Seq Boundary (Seq (word_in_any_case ''LINE '') (Seq digits_plus Boundary)))
           (Seq Boundary (Seq (word_in_any_case ''LINES '') (Seq digits_plus (Seq (Star (Chr is_space)) (Seq dash_rx
              (Seq (Star (Chr is_space)) (Seq digits_plus Boundary)))))))))"

definition PATTERNS :: "(string \<times> severity \<times> rx) list" where
  "PATTERNS =
     [(''uuid'', Identifier, UUID_RX), (''long_number'', Identifier, LONG_NUMBER_RX),
      (''this_packet'', Phrasing, THIS_PACKET_RX), (''source_line'', Phrasing, SOURCE_LINE_RX)]"

record violation =
  vi_pattern :: string
  vi_severity :: severity
  vi_field :: string
  vi_text :: string

definition cached_texts :: "finding \<Rightarrow> (string \<times> string) list" where
  "cached_texts f =
     [(''narrative'', fi_narrative f), (''recommendation'', fi_recommendation f),
      (''discrepancy'', (case fi_discrepancy f of None \<Rightarrow> [] | Some d \<Rightarrow> d))]"

definition violations_in :: "string \<times> string \<Rightarrow> violation list" where
  "violations_in ft =
     (case ft of (name, t) \<Rightarrow>
        concat (map (\<lambda>(pattern, severity, r).
          map (\<lambda>found. \<lparr>vi_pattern = pattern, vi_severity = severity, vi_field = name, vi_text = found\<rparr>) (findall r t)) PATTERNS))"

definition per_code_check :: "finding \<Rightarrow> violation list" where
  "per_code_check f = concat (map violations_in (cached_texts f))"

definition withhold_enabled :: "env \<Rightarrow> bool" where
  "withhold_enabled env = get_bool_env env ''DLT_PER_CODE_WITHHOLD'' True"

definition withhold :: "env \<Rightarrow> violation list \<Rightarrow> bool" where
  "withhold env vs \<longleftrightarrow> withhold_enabled env \<and> list_ex (\<lambda>v. vi_severity v = Identifier) vs"


section \<open>What the patterns find\<close>

definition uuid_text :: "string \<Rightarrow> bool" where
  "uuid_text v \<longleftrightarrow>
     (\<exists>a b c d e. v = join_with ''-'' [a, b, c, d, e] \<and> map length [a, b, c, d, e] = [8, 4, 4, 4, 12] \<and>
        (\<forall>x\<in>{a, b, c, d, e}. list_all is_hex_digit x))"

definition number_text :: "string \<Rightarrow> bool" where
  "number_text v \<longleftrightarrow> 12 \<le> length v \<and> list_all is_digit v"

text \<open>A text stands free in another when neither neighbour belongs to the class.\<close>

definition stands_free :: "(char \<Rightarrow> bool) \<Rightarrow> (string \<Rightarrow> bool) \<Rightarrow> string \<Rightarrow> bool" where
  "stands_free p shape t \<longleftrightarrow>
     (\<exists>u v w. t = u @ v @ w \<and> shape v \<and> (u = [] \<or> \<not> p (last u)) \<and> (w = [] \<or> \<not> p (hd w)))"

definition carries_identifier :: "string \<Rightarrow> bool" where
  "carries_identifier t \<longleftrightarrow> stands_free is_word uuid_text t \<or> stands_free word_or_dot number_text t"

lemma dash_group:
  "t \<in> lang (Seq (times_rx n (Chr p)) (Seq dash_rx r)) \<longleftrightarrow>
     (\<exists>a u. t = a @ CHR ''-'' # u \<and> length a = n \<and> list_all p a \<and> u \<in> lang r)"
  unfolding in_Seq [of t] in_Chr_Seq lang_times by blast

lemma dash_groupI:
  "length a = n \<Longrightarrow> list_all p a \<Longrightarrow> u \<in> lang r \<Longrightarrow> a @ CHR ''-'' # u \<in> lang (Seq (times_rx n (Chr p)) (Seq dash_rx r))"
  unfolding dash_group by blast

lemma uuid_core: "plain UUID_CORE" "t \<in> lang UUID_CORE \<longleftrightarrow> uuid_text t"
proof -
  show "plain UUID_CORE" by (simp add: UUID_CORE_def)
  show "t \<in> lang UUID_CORE \<longleftrightarrow> uuid_text t"
  proof
    assume "t \<in> lang UUID_CORE"
    then obtain a b c d e where "t = a @ CHR ''-'' # b @ CHR ''-'' # c @ CHR ''-'' # d @ CHR ''-'' # e"
      "map length [a, b, c, d, e] = [8, 4, 4, 4, 12]" "\<forall>x\<in>{a, b, c, d, e}. list_all is_hex_digit x"
      unfolding UUID_CORE_def dash_group lang_times by auto
    then show "uuid_text t" unfolding uuid_text_def
      by (intro exI [of _ a] exI [of _ b] exI [of _ c] exI [of _ d] exI [of _ e]) (simp add: join_with_Cons)
  next
    assume "uuid_text t"
    then obtain a b c d e where t: "t = a @ CHR ''-'' # b @ CHR ''-'' # c @ CHR ''-'' # d @ CHR ''-'' # e"
      "map length [a, b, c, d, e] = [8, 4, 4, 4, 12]" "\<forall>x\<in>{a, b, c, d, e}. list_all is_hex_digit x"
      unfolding uuid_text_def by (auto simp: join_with_Cons)
    show "t \<in> lang UUID_CORE" unfolding UUID_CORE_def t(1)
      using t(2,3) by (intro dash_groupI) (simp_all add: lang_times del: lang.simps)
  qed
qed

lemma number_core: "plain LONG_NUMBER_CORE" "t \<in> lang LONG_NUMBER_CORE \<longleftrightarrow> number_text t"
proof -
  show "plain LONG_NUMBER_CORE" by (simp add: LONG_NUMBER_CORE_def)
  have "t \<in> lang LONG_NUMBER_CORE \<longleftrightarrow> (\<exists>u v. t = u @ v \<and> (length u = 12 \<and> list_all is_digit u) \<and> list_all is_digit v)"
    unfolding LONG_NUMBER_CORE_def in_Seq lang_times in_Star_Chr ..
  also have "\<dots> \<longleftrightarrow> number_text t"
  proof
    assume "number_text t"
    then show "\<exists>u v. t = u @ v \<and> (length u = 12 \<and> list_all is_digit u) \<and> list_all is_digit v"
      by (intro exI [of _ "take 12 t"] exI [of _ "drop 12 t"]) (auto simp: number_text_def list_all_iff dest: in_set_takeD in_set_dropD)
  qed (auto simp: number_text_def)
  finally show "t \<in> lang LONG_NUMBER_CORE \<longleftrightarrow> number_text t" .
qed

lemma slice_decompose: "i \<le> j \<Longrightarrow> j \<le> length s \<Longrightarrow> s = take i s @ slice s i j @ drop j s"
  by (metis append_assoc append_take_drop_id le_add_diff_inverse slice_def take_add)

text \<open>A search for a plain pattern between two tests of the neighbours.\<close>

lemma framed_search:
  assumes "\<And>s i. ends r s i = (if L s i then concat (map (\<lambda>j. if R s j then [j] else []) (ends c s i)) else [])"
    and "plain c" and "\<And>t. t \<in> lang c \<longleftrightarrow> shape t"
    and "\<And>u v w. shape v \<Longrightarrow> L (u @ v @ w) (length u) \<longleftrightarrow> u = [] \<or> \<not> p (last u)"
    and "\<And>u v w. shape v \<Longrightarrow> R (u @ v @ w) (length (u @ v)) \<longleftrightarrow> w = [] \<or> \<not> p (hd w)"
  shows "findall r t \<noteq> [] \<longleftrightarrow> stands_free p shape t"
proof
  assume "findall r t \<noteq> []"
  then obtain i where i: "i \<le> length t" "ends r t i \<noteq> []" unfolding findall_Nil by blast
  then obtain j where j: "L t i" "R t j" "j \<in> set (ends c t i)" unfolding assms(1) by (auto split: if_splits)
  then have m: "i \<le> j" "j \<le> length t" "shape (slice t i j)"
    using ends_exact [OF assms(2) i(1)] assms(3) by (auto simp: match_ends_def)
  define u v w where uvw: "u = take i t" "v = slice t i j" "w = drop j t"
  have t: "t = u @ v @ w" "length u = i" "length (u @ v) = j"
    using slice_decompose [OF m(1,2)] m(1,2) by (simp_all add: uvw slice_def)
  have v: "shape v" using m(3) unfolding uvw(2) .
  have "u = [] \<or> \<not> p (last u)" using assms(4) [OF v, of u w] j(1) unfolding t(1) [symmetric] t(2) by simp
  moreover have "w = [] \<or> \<not> p (hd w)" using assms(5) [OF v, of u w] j(2) unfolding t(1) [symmetric] t(3) by simp
  ultimately show "stands_free p shape t" using v t(1) unfolding stands_free_def by blast
next
  assume "stands_free p shape t"
  then obtain u v w where t: "t = u @ v @ w" "shape v" "u = [] \<or> \<not> p (last u)" "w = [] \<or> \<not> p (hd w)"
    by (auto simp: stands_free_def)
  have L: "L t (length u)" using assms(4) [OF t(2), of u w] t(3) unfolding t(1) [symmetric] by blast
  have R: "R t (length (u @ v))" using assms(5) [OF t(2), of u w] t(4) unfolding t(1) [symmetric] by blast
  have len: "length u \<le> length t" "length (u @ v) \<le> length t" using arg_cong [OF t(1), of length] by simp_all
  have "slice t (length u) (length (u @ v)) = v" unfolding t(1) by (simp add: slice_def)
  then have "length (u @ v) \<in> match_ends (lang c) t (length u)"
    using assms(3) t(2) len by (simp add: match_ends_def)
  then have "length (u @ v) \<in> set (ends c t (length u))" using ends_exact [OF assms(2) len(1)] by blast
  then have "length (u @ v) \<in> set (ends r t (length u))" unfolding assms(1) using L R by auto
  then show "findall r t \<noteq> []" unfolding findall_Nil using len(1) by fastforce
qed

lemma uuid_edges:
  assumes "uuid_text v"
  shows "v \<noteq> []" "is_word (hd v)" "is_word (last v)"
proof -
  obtain a b c d e where v: "v = join_with ''-'' [a, b, c, d, e]" "length a = 8" "length e = 12"
    "list_all is_hex_digit a" "list_all is_hex_digit e"
    using assms by (auto simp: uuid_text_def)
  have w: "is_word x" if "is_hex_digit x" for x using that by (auto simp: is_hex_digit_def is_word_def is_digit_def less_eq_char_def)
  have "a \<noteq> []" "e \<noteq> []" using v(2,3) by auto
  then have "hd v = hd a" "last v = last e" "hd a \<in> set a" "last e \<in> set e" using v(1) by (simp_all add: join_with_Cons)
  then show "v \<noteq> []" "is_word (hd v)" "is_word (last v)"
    using v w \<open>a \<noteq> []\<close> by (auto simp: list_all_iff join_with_Cons)
qed

lemma boundary_in: "v \<noteq> [] \<Longrightarrow> is_word (hd v) \<Longrightarrow> boundary_at (u @ v @ w) (length u) \<longleftrightarrow> u = [] \<or> \<not> is_word (last u)"
  by (cases u rule: rev_cases) (auto simp: boundary_at_def word_at_def nth_append hd_conv_nth)

lemma boundary_out:
  assumes "v \<noteq> []" and "is_word (last v)"
  shows "boundary_at (u @ v @ w) (length (u @ v)) \<longleftrightarrow> w = [] \<or> \<not> is_word (hd w)"
  using assms
  by (cases w; cases v rule: rev_cases) (auto simp: boundary_at_def word_at_def nth_append)

lemma ends_assertion:
  "ends Boundary s = (\<lambda>j. if boundary_at s j then [j] else [])"
  "ends (Around p q) s = (\<lambda>j. if p (before_at s j) \<and> q (behind_at s j) then [j] else [])"
  by (simp_all add: fun_eq_iff)

lemma uuid_found: "findall UUID_RX t \<noteq> [] \<longleftrightarrow> stands_free is_word uuid_text t"
proof (rule framed_search [where L = boundary_at and R = boundary_at and c = UUID_CORE])
  show "ends UUID_RX s i =
      (if boundary_at s i then concat (map (\<lambda>j. if boundary_at s j then [j] else []) (ends UUID_CORE s i)) else [])" for s i
    by (simp add: UUID_RX_def ends_assertion)
qed (simp_all only: uuid_core boundary_in boundary_out uuid_edges not_False_eq_True)

lemma number_found: "findall LONG_NUMBER_RX t \<noteq> [] \<longleftrightarrow> stands_free word_or_dot number_text t"
proof (rule framed_search [where L = "\<lambda>s i. free_of word_or_dot (before_at s i)" and
      R = "\<lambda>s i. free_of word_or_dot (behind_at s i)" and c = LONG_NUMBER_CORE])
  show "ends LONG_NUMBER_RX s i =
      (if free_of word_or_dot (before_at s i)
       then concat (map (\<lambda>j. if free_of word_or_dot (behind_at s j) then [j] else []) (ends LONG_NUMBER_CORE s i)) else [])" for s i
    by (simp add: LONG_NUMBER_RX_def ends_assertion)
  show "free_of word_or_dot (before_at (u @ v @ w) (length u)) \<longleftrightarrow> u = [] \<or> \<not> word_or_dot (last u)" for u v w
    by (cases u rule: rev_cases) (auto simp: free_of_def before_at_def nth_append)
  show "free_of word_or_dot (behind_at (u @ v @ w) (length (u @ v))) \<longleftrightarrow> w = [] \<or> \<not> word_or_dot (hd w)" for u v w
    by (cases w) (auto simp: free_of_def behind_at_def nth_append)
qed (simp_all only: number_core)


lemma identifier_pattern:
  "(pattern, Identifier, r) \<in> set PATTERNS \<longleftrightarrow> (pattern, r) = (''uuid'', UUID_RX) \<or> (pattern, r) = (''long_number'', LONG_NUMBER_RX)"
  by (auto simp: PATTERNS_def)

lemma violations_identify:
  "(\<exists>v\<in>set (violations_in (name, t)). vi_severity v = Identifier) \<longleftrightarrow> carries_identifier t"
proof -
  have "(\<exists>v\<in>set (violations_in (name, t)). vi_severity v = Identifier) \<longleftrightarrow>
      (\<exists>pattern r. (pattern, Identifier, r) \<in> set PATTERNS \<and> findall r t \<noteq> [])"
  proof
    assume "\<exists>v\<in>set (violations_in (name, t)). vi_severity v = Identifier"
    then obtain pattern r found where "(pattern, Identifier, r) \<in> set PATTERNS" "found \<in> set (findall r t)"
      by (auto simp: violations_in_def)
    then show "\<exists>pattern r. (pattern, Identifier, r) \<in> set PATTERNS \<and> findall r t \<noteq> []" by (metis empty_iff list.set(1))
  next
    assume "\<exists>pattern r. (pattern, Identifier, r) \<in> set PATTERNS \<and> findall r t \<noteq> []"
    then obtain pattern r found where h: "(pattern, Identifier, r) \<in> set PATTERNS" "found \<in> set (findall r t)"
      by (metis list.set_intros(1) neq_Nil_conv)
    let ?v = "\<lparr>vi_pattern = pattern, vi_severity = Identifier, vi_field = name, vi_text = found\<rparr>"
    have "?v \<in> set (violations_in (name, t))" 
      using h(2) by (simp add: violations_in_def) (rule bexI [OF _ h(1)], simp)
    then show "\<exists>v\<in>set (violations_in (name, t)). vi_severity v = Identifier" by (intro bexI [of _ ?v]) simp_all
  qed
  then show ?thesis
    unfolding identifier_pattern carries_identifier_def uuid_found [symmetric] number_found [symmetric] by blast
qed


section \<open>Properties\<close>


text \<open>A fixed treatment stays what it is. For every class, group and setting the policy leaves the action the class
  fixes, keeps a discrepancy text exactly when the logs disagree with the trace, and leaves a valid finding
  without a confidence; so no setting ever makes the replay decision accept it.\<close>

theorem canned_is_never_replayed:
  assumes "ev_failure_class ev = k" and "ev_corroboration ev = verdict_value (co_verdict c)"
    and "f = apply_dlt_confidence_policy env (canned_build wd k fl c grp) ev"
  shows "fi_action f = canned_action k \<and> (fi_discrepancy f \<noteq> None \<longleftrightarrow> is_discrepancy c) \<and> valid_finding f \<and>
    fi_confidence f = None \<and> \<not> rd_should_replay (decide_replay env f ref_id cc)"
proof -
  have "fi_confidence f = None" unfolding assms(3) by (simp add: policy_fields canned_build_def)
  moreover have "fi_action f = canned_action k"
    unfolding assms(3) using assms(1) by (simp add: policy_fields canned_build_def canned_action_def)
  moreover have "fi_discrepancy f \<noteq> None \<longleftrightarrow> is_discrepancy c"
    unfolding assms(3) using assms(2)
    by (cases "co_verdict c") (simp_all add: policy_fields canned_build_def is_discrepancy_def DISCREPANCY_VERDICTS_def)
  moreover have "canned_action k \<in> set DLT_ACTIONS" by (simp add: canned_action_def DLT_ACTIONS_def)
  ultimately show ?thesis by (simp add: valid_finding_def decide_replay_iff)
qed

definition plain_wording :: wording where
  "plain_wording = \<lparr>wd_time = (\<lambda>_. []), wd_json = (\<lambda>_. ''47''), wd_class_reason = (\<lambda>_. []), wd_corroboration = (\<lambda>_. [])\<rparr>"

definition defect_failure :: failure where
  "defect_failure = build_failure id (\<lambda>_. None) (\<lambda>_. None) [] (parse_headers [])"

definition defect_evidence :: evidence where
  "defect_evidence = \<lparr>ev_failure_class = ''B'', ev_corroboration = ''UNVERIFIABLE'', ev_registry_hit = False, ev_reused = False,
     ev_logs = [], ev_could_not_look = Some True\<rparr>"

theorem canned_is_never_replayed_witness:
  "fi_action (apply_dlt_confidence_policy (\<lambda>_. None)
     (canned_build plain_wording ''B'' defect_failure (unverifiable No_logs_fetched True) None) defect_evidence) = ''ROUTE_TO_DEV''"
proof -
  have "ev_failure_class defect_evidence = ''B''"
    "ev_corroboration defect_evidence = verdict_value (co_verdict (unverifiable No_logs_fetched True))"
    by (simp_all add: defect_evidence_def unverifiable_def)
  from canned_is_never_replayed [OF this refl, of "\<lambda>_. None" plain_wording defect_failure None None None]
  show ?thesis by (simp add: canned_action_def)
qed

end
