(* ===== verification/Services.thy ===== *)
theory Services
  imports Payload
begin

text \<open>
  Which service a packet or a dead-lettered record belongs to, and whether it is analysed: the registry, the
  resolution and the gates of \<^verbatim>\<open>src/utils/service_registry.py\<close>, with \<open>service_to_search\<close> of
  \<^verbatim>\<open>src/log_pipeline/scope.py\<close>. A registry is a loaded one: the dict of its packs, in which a topic pattern
  is the predicate its \<^verbatim>\<open>fullmatch\<close> computes. The reason-code map and the documentation index
  (\<^verbatim>\<open>reason_code_service_map\<close>, \<^verbatim>\<open>reason_code_docs\<close>) answer through parameters.
\<close>

section \<open>Packs and the registry\<close>

definition DEFAULT_PACK :: string where "DEFAULT_PACK = ''_default''"
definition UNRESOLVED :: string where "UNRESOLVED = ''_unresolved''"
definition PRE_REGISTRY_PACK :: string where "PRE_REGISTRY_PACK = ''enu-biometric''"

record service_pack =
  sp_tool_prefix :: "string option"
  sp_stages :: "string list"
  sp_sub_stages :: "string list"
  sp_source_topics :: "(string \<Rightarrow> bool) list"
  sp_docs_file :: string
  sp_consumer_groups :: "string list"
  sp_original_topics :: "(string \<Rightarrow> bool) list"
  sp_java_packages :: "string list"
  sp_app_names :: "string list"
  sp_also_search :: "string list"
  sp_k8s_match :: "(string \<times> string) list option"
  sp_sha256 :: string

type_synonym packs = "(string \<times> service_pack) list"

record registry =
  rg_packs :: packs
  rg_sha256 :: string

definition matches_stage :: "service_pack \<Rightarrow> string \<Rightarrow> string option \<Rightarrow> bool" where
  "matches_stage p stage sub_stage \<longleftrightarrow>
     stage \<in> set (sp_stages p) \<and>
     (sp_sub_stages p = [] \<or> (case sub_stage of None \<Rightarrow> False | Some s \<Rightarrow> s \<in> set (sp_sub_stages p)))"

definition matches_topic :: "service_pack \<Rightarrow> string \<Rightarrow> bool" where
  "matches_topic p topic \<longleftrightarrow> list_ex (\<lambda>pattern. pattern topic) (sp_source_topics p)"

definition matches_original_topic :: "service_pack \<Rightarrow> string \<Rightarrow> bool" where
  "matches_original_topic p topic \<longleftrightarrow> list_ex (\<lambda>pattern. pattern topic) (sp_original_topics p)"

definition in_java_package :: "string \<Rightarrow> string \<Rightarrow> bool" where
  "in_java_package frame pkg \<longleftrightarrow> frame = pkg \<or> starts_with (pkg @ ''.'') frame"

definition largest :: "nat list \<Rightarrow> nat" where
  "largest ns = foldr max ns 0"

definition package_match :: "service_pack \<Rightarrow> string \<Rightarrow> nat" where
  "package_match p frame = largest (map length (filter (in_java_package frame) (sp_java_packages p)))"

definition services_in :: "packs \<Rightarrow> string list" where
  "services_in ps = sort (filter (\<lambda>n. n \<noteq> DEFAULT_PACK) (map fst ps))"

definition is_registered :: "registry \<Rightarrow> string option \<Rightarrow> bool" where
  "is_registered r name =
     (case name of None \<Rightarrow> False | Some n \<Rightarrow> n \<noteq> [] \<and> n \<noteq> DEFAULT_PACK \<and> map_of (rg_packs r) n \<noteq> None)"

definition by_pack :: "packs \<Rightarrow> (service_pack \<Rightarrow> bool) \<Rightarrow> string list" where
  "by_pack ps test = filter (\<lambda>n. case map_of ps n of None \<Rightarrow> False | Some p \<Rightarrow> test p) (services_in ps)"

definition by_stage :: "registry \<Rightarrow> string \<Rightarrow> string option \<Rightarrow> string list" where
  "by_stage r stage sub_stage = by_pack (rg_packs r) (\<lambda>p. matches_stage p stage sub_stage)"

definition by_topic :: "registry \<Rightarrow> string \<Rightarrow> string list" where
  "by_topic r topic = by_pack (rg_packs r) (\<lambda>p. matches_topic p topic)"

definition by_consumer_group :: "registry \<Rightarrow> string \<Rightarrow> string list" where
  "by_consumer_group r grp = by_pack (rg_packs r) (\<lambda>p. grp \<in> set (sp_consumer_groups p))"

definition by_original_topic :: "registry \<Rightarrow> string \<Rightarrow> string list" where
  "by_original_topic r topic = by_pack (rg_packs r) (\<lambda>p. matches_original_topic p topic)"

definition match_length :: "packs \<Rightarrow> string \<Rightarrow> string \<Rightarrow> nat" where
  "match_length ps frame n = (case map_of ps n of None \<Rightarrow> 0 | Some p \<Rightarrow> package_match p frame)"

fun by_java_package :: "packs \<Rightarrow> string list \<Rightarrow> string list \<times> string option" where
  "by_java_package ps [] = ([], None)"
| "by_java_package ps (frame # frames) =
     (let best = largest (map (match_length ps frame) (services_in ps))
      in if best \<noteq> 0 then (filter (\<lambda>n. match_length ps frame n = best) (services_in ps), Some frame)
         else by_java_package ps frames)"

definition service_for_docs_file :: "registry \<Rightarrow> string \<Rightarrow> string" where
  "service_for_docs_file r stem =
     (case by_pack (rg_packs r) (\<lambda>p. sp_docs_file p = stem) of [] \<Rightarrow> stem | n # ns \<Rightarrow> n)"


section \<open>Validation across packs\<close>

datatype registry_error =
    No_default_pack
  | Stage_for_every_sub_stage string string string
  | Shared_sub_stages string string string "string list"
  | Shared_value string string "string list"
  | Unknown_also_search string string

fun ordered_pairs :: "'a list \<Rightarrow> ('a \<times> 'a) list" where
  "ordered_pairs [] = []"
| "ordered_pairs (x # xs) = map (Pair x) xs @ ordered_pairs xs"

definition common :: "string list \<Rightarrow> string list \<Rightarrow> string list" where
  "common xs ys = sort (remdups (filter (\<lambda>x. x \<in> set ys) xs))"

definition stage_errors :: "packs \<Rightarrow> string \<times> string \<Rightarrow> registry_error list" where
  "stage_errors ps names =
     (case (map_of ps (fst names), map_of ps (snd names)) of
        (Some a, Some b) \<Rightarrow>
          concat (map (\<lambda>stage.
            if sp_sub_stages a = [] \<or> sp_sub_stages b = []
            then [Stage_for_every_sub_stage (fst names) (snd names) stage]
            else (let shared = common (sp_sub_stages a) (sp_sub_stages b)
                  in if shared = [] then [] else [Shared_sub_stages (fst names) (snd names) stage shared]))
            (common (sp_stages a) (sp_stages b)))
      | _ \<Rightarrow> [])"

definition owners :: "packs \<Rightarrow> (service_pack \<Rightarrow> string list) \<Rightarrow> (string \<times> string) list" where
  "owners ps sel =
     concat (map (\<lambda>n. case map_of ps n of None \<Rightarrow> [] | Some p \<Rightarrow> map (\<lambda>v. (v, n)) (sel p)) (services_in ps))"

definition owners_of :: "(string \<times> string) list \<Rightarrow> string \<Rightarrow> string list" where
  "owners_of vns v = map snd (filter (\<lambda>vn. fst vn = v) vns)"

definition shared_errors :: "packs \<Rightarrow> string \<Rightarrow> (service_pack \<Rightarrow> string list) \<Rightarrow> registry_error list" where
  "shared_errors ps what sel =
     concat (map (\<lambda>v. let names = owners_of (owners ps sel) v in if 1 < length names then [Shared_value what v names] else [])
       (sort (remdups (map fst (owners ps sel)))))"

definition search_errors :: "packs \<Rightarrow> string \<Rightarrow> registry_error list" where
  "search_errors ps n =
     (case map_of ps n of
        None \<Rightarrow> []
      | Some p \<Rightarrow> concat (map (\<lambda>s. if s = n \<or> s \<notin> set (services_in ps) then [Unknown_also_search n s] else []) (sp_also_search p)))"

definition check_registry :: "packs \<Rightarrow> registry_error list" where
  "check_registry ps =
     (if map_of ps DEFAULT_PACK = None then [No_default_pack] else []) @
     concat (map (stage_errors ps) (ordered_pairs (services_in ps))) @
     shared_errors ps ''tool prefix'' (\<lambda>p. case sp_tool_prefix p of None \<Rightarrow> [] | Some v \<Rightarrow> [v]) @
     shared_errors ps ''reason-code documentation file'' (\<lambda>p. [sp_docs_file p]) @
     shared_errors ps ''DLT consumer group'' sp_consumer_groups @
     shared_errors ps ''Java package'' sp_java_packages @
     concat (map (search_errors ps) (services_in ps))"


section \<open>Resolution\<close>

record evidence_index =
  ei_mapped :: "string option \<Rightarrow> string list"
  ei_map_sha256 :: "string option"
  ei_docs :: "string \<Rightarrow> string list"

record resolution =
  rs_service :: string
  rs_source :: string
  rs_matched :: "string option"
  rs_conflict :: "(string \<times> string) list"
  rs_detail :: "(string \<times> string option) list"
  rs_registry_sha256 :: string
  rs_map_sha256 :: "string option"

text \<open>One piece of evidence: its source, the value that was looked up, the services it names.\<close>

type_synonym evidence_step = "string \<times> string option \<times> string list"

type_synonym chosen = "(string \<times> string \<times> string option) option \<times> (string \<times> string) list"

definition weigh_step :: "evidence_step \<Rightarrow> chosen \<Rightarrow> chosen" where
  "weigh_step step st =
     (case (step, st) of
        ((source, value, found), (candidate, conflict)) \<Rightarrow>
          (case found of
             [service] \<Rightarrow>
               (case candidate of
                  None \<Rightarrow> (Some (service, source, value), conflict)
                | Some (c, _) \<Rightarrow> if service \<noteq> c then (candidate, AList.update source service conflict) else st)
           | _ \<Rightarrow> st))"

definition weigh :: "evidence_step list \<Rightarrow> chosen" where
  "weigh steps = fold weigh_step steps (None, [])"

definition settle ::
    "evidence_step list \<Rightarrow> (string \<times> string option) list \<Rightarrow> string \<Rightarrow> string option \<Rightarrow> resolution" where
  "settle steps detail sha map_sha =
     (case weigh steps of
        (None, conflict) \<Rightarrow>
          \<lparr>rs_service = UNRESOLVED, rs_source = ''none'', rs_matched = None, rs_conflict = conflict, rs_detail = detail,
           rs_registry_sha256 = sha, rs_map_sha256 = map_sha\<rparr>
      | (Some (service, source, value), conflict) \<Rightarrow>
          \<lparr>rs_service = (if service = [] then UNRESOLVED else service), rs_source = source, rs_matched = value,
           rs_conflict = conflict, rs_detail = detail, rs_registry_sha256 = sha, rs_map_sha256 = map_sha\<rparr>)"

text \<open>The first error that carries a code; a number where the list should be is no iterable.\<close>

fun first_code :: "pvalue list \<Rightarrow> string option" where
  "first_code [] = None"
| "first_code (e # es) =
     (case e of
        PDict d \<Rightarrow> (case text_of (pget d ''errorReasonCode'') of Some c \<Rightarrow> Some c | None \<Rightarrow> first_code es)
      | _ \<Rightarrow> first_code es)"

definition reason_code_of :: "(string \<times> pvalue) list \<Rightarrow> exn + string option" where
  "reason_code_of payload =
     (case pget payload ''packetExecutionSummary'' of
        PDict summary \<Rightarrow>
          (case pget summary ''errorData'' of
             PList es \<Rightarrow> Inr (first_code es)
           | PBool b \<Rightarrow> if b then Inl TypeError else Inr None
           | PInt n \<Rightarrow> if n \<noteq> 0 then Inl TypeError else Inr None
           | PFloat q \<Rightarrow> if q \<noteq> 0 then Inl TypeError else Inr None
           | _ \<Rightarrow> Inr None)
      | _ \<Rightarrow> Inr None)"

definition payload_dict :: "pvalue \<Rightarrow> (string \<times> pvalue) list" where
  "payload_dict v = (case pdict v of None \<Rightarrow> [] | Some d \<Rightarrow> d)"

definition flow_of :: "(string \<times> pvalue) list \<Rightarrow> (string \<times> pvalue) list" where
  "flow_of payload = payload_dict (pget payload ''flowMetaData'')"

definition documented_by :: "evidence_index \<Rightarrow> registry \<Rightarrow> string option \<Rightarrow> string list" where
  "documented_by ix r code =
     (case code of
        None \<Rightarrow> []
      | Some c \<Rightarrow> if c = [] then [] else sort (remdups (map (service_for_docs_file r) (ei_docs ix c))))"

definition stage_step :: "registry \<Rightarrow> string option \<Rightarrow> string option \<Rightarrow> evidence_step" where
  "stage_step r stage sub_stage =
     (''flow_stage'', stage,
      (case stage of None \<Rightarrow> [] | Some s \<Rightarrow> by_stage r (py_lower s) (map_option py_lower sub_stage)))"

definition topic_step :: "registry \<Rightarrow> string option \<Rightarrow> evidence_step" where
  "topic_step r topic = (''source_topic'', topic, (case topic of None \<Rightarrow> [] | Some t \<Rightarrow> by_topic r t))"

definition resolve :: "evidence_index \<Rightarrow> registry \<Rightarrow> pvalue \<Rightarrow> exn + resolution" where
  "resolve ix r v =
     (let payload = payload_dict v; flow = flow_of payload;
          stage = text_of (pget flow ''stage''); sub_stage = text_of (pget flow ''subStage'');
          topic = text_of (pget payload ''sourceTopic'')
      in case reason_code_of payload of
           Inl e \<Rightarrow> Inl e
         | Inr code \<Rightarrow>
             (let by_payload = (if length (snd (snd (stage_step r stage sub_stage))) = 1 then stage_step r stage sub_stage
                                else topic_step r topic);
                  steps = [(''reason_code_map'', code, ei_mapped ix code), by_payload,
                           (''reason_code_docs'', code, documented_by ix r code)]
              in Inr (settle steps
                   [(''stage'', stage), (''sub_stage'', sub_stage), (''source_topic'', topic), (''reason_code'', code)]
                   (rg_sha256 r) (ei_map_sha256 ix))))"

text \<open>The reason code of a dead-lettered record: the first one that is documented at all.\<close>

definition present_codes :: "string option list \<Rightarrow> string list" where
  "present_codes cs = dedupe (filter (\<lambda>c. c \<noteq> []) (List.map_filter id cs))"

definition weighed_code :: "evidence_index \<Rightarrow> registry \<Rightarrow> string list \<Rightarrow> string option \<times> string list" where
  "weighed_code ix r codes =
     (case find (\<lambda>c. documented_by ix r (Some c) \<noteq> []) codes of
        Some c \<Rightarrow> (Some c, documented_by ix r (Some c))
      | None \<Rightarrow> (case codes of [] \<Rightarrow> None | c # cs \<Rightarrow> Some c, []))"

definition dlt_steps ::
    "evidence_index \<Rightarrow> registry \<Rightarrow> (string \<times> pvalue) list \<Rightarrow> string option \<Rightarrow> string option \<Rightarrow> string list \<Rightarrow>
     string list \<Rightarrow> evidence_step list" where
  "dlt_steps ix r payload consumer_group original_topic frames codes =
     (let flow = flow_of payload; grp = as_str consumer_group; origin = as_str original_topic
      in [(''consumer_group'', grp, (case grp of None \<Rightarrow> [] | Some g \<Rightarrow> by_consumer_group r g)),
          stage_step r (text_of (pget flow ''stage'')) (text_of (pget flow ''subStage'')),
          (''original_topic'', origin, (case origin of None \<Rightarrow> [] | Some t \<Rightarrow> by_original_topic r t)),
          (''java_package'', snd (by_java_package (rg_packs r) frames), fst (by_java_package (rg_packs r) frames)),
          topic_step r (text_of (pget payload ''sourceTopic'')),
          (''reason_code_docs'', fst (weighed_code ix r codes), snd (weighed_code ix r codes))])"

definition resolve_dlt ::
    "evidence_index \<Rightarrow> registry \<Rightarrow> pvalue \<Rightarrow> string option \<Rightarrow> string option \<Rightarrow> string list \<Rightarrow> string option \<Rightarrow>
     exn + resolution" where
  "resolve_dlt ix r v consumer_group original_topic frames business_code =
     (let payload = payload_dict v; flow = flow_of payload
      in case reason_code_of payload of
           Inl e \<Rightarrow> Inl e
         | Inr payload_code \<Rightarrow>
             (let codes = present_codes [as_str business_code, payload_code]
              in Inr (settle (dlt_steps ix r payload consumer_group original_topic frames codes)
                   [(''consumer_group'', as_str consumer_group), (''original_topic'', as_str original_topic),
                    (''stage'', text_of (pget flow ''stage'')), (''sub_stage'', text_of (pget flow ''subStage'')),
                    (''source_topic'', text_of (pget payload ''sourceTopic'')),
                    (''java_frame'', snd (by_java_package (rg_packs r) frames)),
                    (''reason_code'', fst (weighed_code ix r codes))]
                   (rg_sha256 r) None)))"


section \<open>The gates\<close>

definition DEFAULT_ENABLED :: "string list" where "DEFAULT_ENABLED = [''enu-biometric'']"

definition mode_of :: "env \<Rightarrow> string \<Rightarrow> string" where
  "mode_of env name =
     (let raw = py_lower (py_strip (env_get env name [])) in if raw \<in> {''record'', ''enforce''} then raw else ''record'')"

definition gate_mode :: "env \<Rightarrow> string" where "gate_mode env = mode_of env ''REJECTION_SERVICE_GATE''"
definition dlt_gate_mode :: "env \<Rightarrow> string" where "dlt_gate_mode env = mode_of env ''DLT_SERVICE_GATE''"

definition unresolved_policy :: "env \<Rightarrow> string" where
  "unresolved_policy env =
     (let raw = py_lower (py_strip (env_get env ''REJECTION_UNRESOLVED_SERVICE'' []))
      in if raw \<in> {''skip'', ''default_pack''} then raw else ''skip'')"

definition named_services :: "env \<Rightarrow> string \<Rightarrow> string list" where
  "named_services env name = filter (\<lambda>n. n \<noteq> []) (map py_strip (split_on CHR '','' (env_get env name [])))"

definition enabled_services :: "env \<Rightarrow> string list" where
  "enabled_services env =
     (let names = named_services env ''REJECTION_SERVICES_ENABLED'' in if names = [] then DEFAULT_ENABLED else names)"

definition pilot_services :: "env \<Rightarrow> string list" where
  "pilot_services env = named_services env ''REJECTION_SERVICES_PILOT''"

definition is_pilot :: "env \<Rightarrow> string option \<Rightarrow> bool" where
  "is_pilot env name = (case name of None \<Rightarrow> False | Some n \<Rightarrow> n \<noteq> [] \<and> n \<in> set (pilot_services env))"

definition analysed_services :: "env \<Rightarrow> string list" where
  "analysed_services env = enabled_services env @ pilot_services env"

definition dlt_enabled_services :: "env \<Rightarrow> string list" where
  "dlt_enabled_services env =
     (let names = named_services env ''DLT_SERVICES_ENABLED'' in if names = [] then DEFAULT_ENABLED else names)"

datatype gate_skip = Skip_unresolved | Skip_not_registered | Skip_not_enabled

record gate_decision =
  gd_skip :: bool
  gd_reason :: "gate_skip option"
  gd_mode :: string

definition service_or_unresolved :: "string option \<Rightarrow> string" where
  "service_or_unresolved s = (case s of None \<Rightarrow> UNRESOLVED | Some n \<Rightarrow> if n = [] then UNRESOLVED else n)"

definition gate_reason :: "registry \<Rightarrow> string list \<Rightarrow> bool \<Rightarrow> string option \<Rightarrow> gate_skip option" where
  "gate_reason r allowed admit_unresolved s =
     (let service = service_or_unresolved s
      in if service = UNRESOLVED then (if admit_unresolved then None else Some Skip_unresolved)
         else if \<not> is_registered r (Some service) then Some Skip_not_registered
         else if service \<notin> set allowed then Some Skip_not_enabled else None)"

definition service_skip_reason :: "env \<Rightarrow> registry \<Rightarrow> string option \<Rightarrow> gate_skip option" where
  "service_skip_reason env r = gate_reason r (analysed_services env) (unresolved_policy env = ''default_pack'')"

definition dlt_skip_reason :: "env \<Rightarrow> registry \<Rightarrow> string option \<Rightarrow> gate_skip option" where
  "dlt_skip_reason env r = gate_reason r (dlt_enabled_services env) False"

definition service_gate :: "env \<Rightarrow> registry \<Rightarrow> string option \<Rightarrow> gate_decision" where
  "service_gate env r s =
     \<lparr>gd_skip = (service_skip_reason env r s \<noteq> None \<and> gate_mode env = ''enforce''), gd_reason = service_skip_reason env r s,
      gd_mode = gate_mode env\<rparr>"

definition dlt_gate :: "env \<Rightarrow> registry \<Rightarrow> string option \<Rightarrow> gate_decision" where
  "dlt_gate env r s =
     \<lparr>gd_skip = (dlt_skip_reason env r s \<noteq> None \<and> dlt_gate_mode env = ''enforce''), gd_reason = dlt_skip_reason env r s,
      gd_mode = dlt_gate_mode env\<rparr>"

definition pack_named :: "registry \<Rightarrow> string option \<Rightarrow> service_pack option" where
  "pack_named r name = (case name of None \<Rightarrow> None | Some n \<Rightarrow> if n = [] then None else map_of (rg_packs r) n)"

definition pack_for :: "env \<Rightarrow> registry \<Rightarrow> string option \<Rightarrow> string" where
  "pack_for env r s =
     (let service = service_or_unresolved s
      in if service_skip_reason env r s = None then (if service = UNRESOLVED then DEFAULT_PACK else service)
         else if is_registered r (Some PRE_REGISTRY_PACK) then PRE_REGISTRY_PACK else DEFAULT_PACK)"

definition packs_to_prebuild :: "env \<Rightarrow> registry \<Rightarrow> string list" where
  "packs_to_prebuild env r =
     sort (remdups (filter (\<lambda>n. is_registered r (Some n)) (analysed_services env) @
       (if gate_mode env = ''record'' \<and> is_registered r (Some PRE_REGISTRY_PACK) then [PRE_REGISTRY_PACK] else [])))"

definition dlt_pack_for :: "env \<Rightarrow> registry \<Rightarrow> string option \<Rightarrow> string option" where
  "dlt_pack_for env r s = (if dlt_skip_reason env r s = None then s else None)"

definition fingerprint_service :: "registry \<Rightarrow> string option \<Rightarrow> string option" where
  "fingerprint_service r s = (if is_registered r s \<and> s \<noteq> Some PRE_REGISTRY_PACK then s else None)"

definition app_names :: "registry \<Rightarrow> string option \<Rightarrow> string list" where
  "app_names r name =
     (let apps = (case pack_named r name of None \<Rightarrow> [] | Some p \<Rightarrow> sp_app_names p)
      in if apps = [] \<and> is_registered r name then [the name] else apps)"

text \<open>Whose logs are searched.\<close>

definition service_to_search :: "string option \<Rightarrow> string option \<Rightarrow> string option" where
  "service_to_search s pack =
     (case pack of
        None \<Rightarrow> None
      | Some p \<Rightarrow> if p = [] then None else if p = DEFAULT_PACK then pack else if pack = s then pack else None)"


section \<open>What validation guarantees\<close>

lemma services_in_iff: "n \<in> set (services_in ps) \<longleftrightarrow> n \<noteq> DEFAULT_PACK \<and> map_of ps n \<noteq> None"
  by (auto simp: services_in_def map_of_eq_None_iff)

lemma distinct_services: "distinct (map fst ps) \<Longrightarrow> distinct (services_in ps)"
  by (simp add: services_in_def)

lemma ordered_pairs_complete: "x \<in> set xs \<Longrightarrow> y \<in> set xs \<Longrightarrow> x \<noteq> y \<Longrightarrow> (x, y) \<in> set (ordered_pairs xs) \<or> (y, x) \<in> set (ordered_pairs xs)"
  by (induction xs) auto

lemma at_most_one: "distinct xs \<Longrightarrow> (\<And>x y. x \<in> set xs \<Longrightarrow> y \<in> set xs \<Longrightarrow> P x \<Longrightarrow> P y \<Longrightarrow> x = y) \<Longrightarrow> length (filter P xs) \<le> 1"
proof (induction xs)
  case (Cons x xs)
  show ?case
  proof (cases "P x")
    case True
    then have "filter P xs = []" using Cons.prems by (auto simp: filter_empty_conv)
    then show ?thesis by simp
  next
    case False
    then show ?thesis using Cons by simp
  qed
qed simp

lemma in_common: "x \<in> set (common xs ys) \<longleftrightarrow> x \<in> set xs \<and> x \<in> set ys"
  by (auto simp: common_def)

lemma largest_ge: "n \<in> set ns \<Longrightarrow> n \<le> largest ns"
  by (induction ns) (auto simp: largest_def)

lemma largest_in: "largest ns \<noteq> 0 \<Longrightarrow> largest ns \<in> set ns"
  by (induction ns) (auto simp: largest_def max_def split: if_splits)

lemma in_owners: "(v, n) \<in> set (owners ps sel) \<longleftrightarrow> n \<in> set (services_in ps) \<and> (\<exists>p. map_of ps n = Some p \<and> v \<in> set (sel p))"
proof -
  have "(v, n) \<in> set (case map_of ps x of None \<Rightarrow> [] | Some p \<Rightarrow> map (\<lambda>v. (v, x)) (sel p)) \<longleftrightarrow>
      x = n \<and> (\<exists>p. map_of ps n = Some p \<and> v \<in> set (sel p))" for x
    by (cases "map_of ps x") auto
  then show ?thesis unfolding owners_def by auto
qed

lemma no_shared_value:
  assumes "shared_errors ps what sel = []" and "(v, n) \<in> set (owners ps sel)" "(v, m) \<in> set (owners ps sel)"
  shows "n = m"
proof -
  have "length (owners_of (owners ps sel) v) \<le> 1"
  proof (rule ccontr)
    let ?names = "owners_of (owners ps sel) v"
    assume "\<not> length ?names \<le> 1"
    moreover have "v \<in> set (sort (remdups (map fst (owners ps sel))))" using assms(2) by (auto intro: rev_image_eqI)
    ultimately have "Shared_value what v ?names \<in> set (shared_errors ps what sel)"
      unfolding shared_errors_def Let_def by (auto intro!: bexI [of _ v])
    then show False using assms(1) by simp
  qed
  moreover have "n \<in> set (owners_of (owners ps sel) v)" "m \<in> set (owners_of (owners ps sel) v)"
    using assms(2,3) by (force simp: owners_of_def)+
  ultimately show ?thesis
    by (cases "owners_of (owners ps sel) v") auto
qed

lemma no_shared_stage:
  assumes "\<forall>nm\<in>set (ordered_pairs (services_in ps)). stage_errors ps nm = []"
    and n: "n \<in> set (services_in ps)" "map_of ps n = Some a" "matches_stage a stage sub_stage"
    and m: "m \<in> set (services_in ps)" "map_of ps m = Some b" "matches_stage b stage sub_stage"
  shows "n = m"
proof (rule ccontr)
  have clash: "stage_errors ps (x, y) \<noteq> []"
    if "map_of ps x = Some p" "map_of ps y = Some q" "matches_stage p stage sub_stage" "matches_stage q stage sub_stage" for x y p q
  proof -
    have "stage \<in> set (common (sp_stages p) (sp_stages q))" using that by (simp add: in_common matches_stage_def)
    moreover have "common (sp_sub_stages p) (sp_sub_stages q) \<noteq> []" if ne: "sp_sub_stages p \<noteq> []" "sp_sub_stages q \<noteq> []"
    proof -
      obtain s where "s \<in> set (sp_sub_stages p)" "s \<in> set (sp_sub_stages q)"
        using ne \<open>matches_stage p stage sub_stage\<close> \<open>matches_stage q stage sub_stage\<close>
        by (cases sub_stage) (auto simp: matches_stage_def)
      then have "s \<in> set (common (sp_sub_stages p) (sp_sub_stages q))" by (simp add: in_common)
      then show ?thesis by auto
    qed
    ultimately show ?thesis
      using that(1,2) by (auto simp: stage_errors_def Let_def intro!: bexI [of _ stage])
  qed
  assume "n \<noteq> m"
  then consider "(n, m) \<in> set (ordered_pairs (services_in ps))" | "(m, n) \<in> set (ordered_pairs (services_in ps))"
    using ordered_pairs_complete [OF n(1) m(1)] by blast
  then show False using assms(1) clash [OF n(2) m(2) n(3) m(3)] clash [OF m(2) n(2) m(3) n(3)] by cases blast+
qed

lemma package_owner:
  assumes "match_length ps frame n = k" "k \<noteq> 0" "n \<in> set (services_in ps)"
  shows "k \<le> length frame \<and> (take k frame, n) \<in> set (owners ps sp_java_packages)"
proof -
  obtain p where p: "map_of ps n = Some p" "package_match p frame = k"
    using assms(1,2) by (auto simp: match_length_def split: option.splits)
  then have "k \<in> set (map length (filter (in_java_package frame) (sp_java_packages p)))"
    using largest_in assms(2) unfolding package_match_def by metis
  then obtain pkg where pkg: "pkg \<in> set (sp_java_packages p)" "in_java_package frame pkg" "length pkg = k" by auto
  then have "take k frame = pkg" "k \<le> length frame"
    by (auto simp: in_java_package_def starts_with_prefix prefix_def)
  then show ?thesis using p(1) pkg(1) assms(3) by (auto simp: in_owners)
qed

lemma one_java_owner:
  assumes "distinct (map fst ps)" and "shared_errors ps what sp_java_packages = []"
  shows "length (fst (by_java_package ps frames)) \<le> 1"
proof (induction frames)
  case (Cons frame frames)
  let ?best = "largest (map (match_length ps frame) (services_in ps))"
  have "length (filter (\<lambda>n. match_length ps frame n = ?best) (services_in ps)) \<le> 1" if "?best \<noteq> 0"
  proof (rule at_most_one [OF distinct_services [OF assms(1)]])
    fix n m
    assume h: "n \<in> set (services_in ps)" "m \<in> set (services_in ps)" "match_length ps frame n = ?best" "match_length ps frame m = ?best"
    show "n = m"
      using no_shared_value [OF assms(2)] package_owner [OF h(3) that h(1)] package_owner [OF h(4) that h(2)] by blast
  qed
  then show ?case using Cons by (simp add: Let_def)
qed simp


section \<open>What the evidence decides\<close>

definition decides :: "evidence_step \<Rightarrow> bool" where
  "decides step \<longleftrightarrow> length (snd (snd step)) = 1"

definition named_by :: "evidence_step \<Rightarrow> string" where
  "named_by step = hd (snd (snd step))"

lemma weigh_step_undecided: "\<not> decides step \<Longrightarrow> weigh_step step st = st"
  by (auto simp: weigh_step_def decides_def split: prod.split list.split)

lemma weigh_step_decides:
  assumes "decides step"
  shows "weigh_step step (None, conflict) = (Some (named_by step, fst step, fst (snd step)), conflict)"
    and "weigh_step step (Some (s, src), conflict) =
      (Some (s, src), if named_by step = s then conflict else AList.update (fst step) (named_by step) conflict)"
  using assms by (auto simp: weigh_step_def decides_def named_by_def length_Suc_conv split: prod.split)

lemma weigh_undecided: "\<forall>step\<in>set steps. \<not> decides step \<Longrightarrow> fold weigh_step steps st = st"
  by (induction steps) (simp_all add: weigh_step_undecided)

definition objections :: "string \<Rightarrow> evidence_step list \<Rightarrow> (string \<times> string) list" where
  "objections s steps = map (\<lambda>step. (fst step, named_by step)) (filter (\<lambda>step. decides step \<and> named_by step \<noteq> s) steps)"

lemma weigh_rest:
  assumes "distinct (map fst steps)" and "fst ` set steps \<inter> fst ` set conflict = {}"
  shows "fold weigh_step steps (Some (s, src), conflict) = (Some (s, src), conflict @ objections s steps)"
  using assms
proof (induction steps arbitrary: conflict)
  case (Cons step steps)
  show ?case
  proof (cases "decides step \<and> named_by step \<noteq> s")
    case True
    then have "weigh_step step (Some (s, src), conflict) = (Some (s, src), conflict @ [(fst step, named_by step)])"
      using Cons.prems(2) by (simp add: weigh_step_decides update_new)
    moreover have "fst ` set steps \<inter> fst ` set (conflict @ [(fst step, named_by step)]) = {}"
      using Cons.prems by auto
    ultimately show ?thesis using Cons.IH Cons.prems(1) True by (simp add: objections_def)
  next
    case False
    then have "weigh_step step (Some (s, src), conflict) = (Some (s, src), conflict)"
      using weigh_step_undecided weigh_step_decides(2) by (cases "decides step") auto
    then show ?thesis using Cons False by (auto simp: objections_def)
  qed
qed (simp add: objections_def)

lemma weigh_cases:
  assumes "distinct (map fst steps)"
  obtains (none) "\<forall>step\<in>set steps. \<not> decides step" "weigh steps = (None, [])"
  | (first) pre step post where "steps = pre @ step # post" "\<forall>p\<in>set pre. \<not> decides p" "decides step"
      "weigh steps = (Some (named_by step, fst step, fst (snd step)), objections (named_by step) post)"
proof (cases "\<exists>step\<in>set steps. decides step")
  case True
  then obtain pre step post where s: "steps = pre @ step # post" "decides step" "\<forall>p\<in>set pre. \<not> decides p"
    using split_list_first_prop by metis
  have "distinct (map fst post)" using assms s(1) by simp
  then have "weigh steps = (Some (named_by step, fst step, fst (snd step)), objections (named_by step) post)"
    unfolding weigh_def s(1) using s(2,3) by (simp add: weigh_undecided weigh_step_decides(1) weigh_rest)
  with s that(2) show ?thesis by blast
next
  case False
  then show ?thesis using that(1) by (simp add: weigh_def weigh_undecided)
qed

lemma dlt_sources: "map fst (dlt_steps ix r payload grp origin frames codes) =
    [''consumer_group'', ''flow_stage'', ''original_topic'', ''java_package'', ''source_topic'', ''reason_code_docs'']"
  by (simp add: dlt_steps_def stage_step_def topic_step_def Let_def)


section \<open>Properties\<close>

text \<open>C27. A registry that passes validation leaves no piece of evidence undecided between two services: a stage with a
  sub-stage, a consumer group and the frames of a trace each name at most one service, and no two services
  share a tool prefix or a documentation file.\<close>

theorem validated_registry_decides:
  assumes "check_registry (rg_packs r) = []" and "distinct (map fst (rg_packs r))"
  shows "length (by_stage r stage sub_stage) \<le> 1 \<and> length (by_consumer_group r grp) \<le> 1 \<and>
    length (fst (by_java_package (rg_packs r) frames)) \<le> 1 \<and>
    length (by_pack (rg_packs r) (\<lambda>p. sp_docs_file p = docs)) \<le> 1 \<and>
    length (by_pack (rg_packs r) (\<lambda>p. sp_tool_prefix p = Some tag)) \<le> 1"
proof -
  let ?ps = "rg_packs r"
  have e: "\<forall>nm\<in>set (ordered_pairs (services_in ?ps)). stage_errors ?ps nm = []"
    "shared_errors ?ps ''tool prefix'' (\<lambda>p. case sp_tool_prefix p of None \<Rightarrow> [] | Some v \<Rightarrow> [v]) = []"
    "shared_errors ?ps ''reason-code documentation file'' (\<lambda>p. [sp_docs_file p]) = []"
    "shared_errors ?ps ''DLT consumer group'' sp_consumer_groups = []" "shared_errors ?ps ''Java package'' sp_java_packages = []"
    using assms(1) by (simp_all add: check_registry_def)
  have one: "length (by_pack ?ps test) \<le> 1"
    if "\<And>n m p q. n \<in> set (services_in ?ps) \<Longrightarrow> m \<in> set (services_in ?ps) \<Longrightarrow> map_of ?ps n = Some p \<Longrightarrow> map_of ?ps m = Some q \<Longrightarrow>
      test p \<Longrightarrow> test q \<Longrightarrow> n = m" for test
    unfolding by_pack_def using that
    by (intro at_most_one [OF distinct_services [OF assms(2)]]) (auto split: option.splits)
  have shared: "length (by_pack ?ps (\<lambda>p. v \<in> set (sel p))) \<le> 1" if "shared_errors ?ps what sel = []" for what sel v
    using no_shared_value [OF that] by (intro one) (auto simp: in_owners)
  have "length (by_stage r stage sub_stage) \<le> 1" unfolding by_stage_def using no_shared_stage [OF e(1)] by (intro one) blast
  moreover have "length (by_consumer_group r grp) \<le> 1" unfolding by_consumer_group_def by (rule shared [OF e(4)])
  moreover have "length (by_pack ?ps (\<lambda>p. sp_docs_file p = docs)) \<le> 1"
    using shared [OF e(3), of docs] by (simp add: eq_commute)
  moreover have "(tag \<in> set (case sp_tool_prefix p of None \<Rightarrow> [] | Some v \<Rightarrow> [v])) = (sp_tool_prefix p = Some tag)" for p
    by (auto split: option.split)
  then have "length (by_pack ?ps (\<lambda>p. sp_tool_prefix p = Some tag)) \<le> 1" using shared [OF e(2), of tag] by (simp add: eq_commute)
  ultimately show ?thesis using one_java_owner [OF assms(2) e(5)] by simp
qed

definition plain_pack :: service_pack where
  "plain_pack = \<lparr>sp_tool_prefix = None, sp_stages = [], sp_sub_stages = [], sp_source_topics = [], sp_docs_file = ''default'',
     sp_consumer_groups = [], sp_original_topics = [], sp_java_packages = [], sp_app_names = [], sp_also_search = [], sp_k8s_match = None, sp_sha256 = ''f00''\<rparr>"

definition two_services :: registry where
  "two_services = \<lparr>rg_packs =
     [(DEFAULT_PACK, plain_pack),
      (''enu-biometric'', plain_pack\<lparr>sp_stages := [''abis''], sp_docs_file := ''enu-biometric'', sp_consumer_groups := [''bio''],
         sp_java_packages := [''in.gov.uidai'']\<rparr>),
      (''enu-qc'', plain_pack\<lparr>sp_stages := [''qc''], sp_docs_file := ''enu-qc'', sp_consumer_groups := [''qc''],
         sp_java_packages := [''in.gov.uidai.qc'']\<rparr>)],
     rg_sha256 = ''abc''\<rparr>"

theorem validated_registry_decides_witness:
  "by_java_package (rg_packs two_services) [''in.gov.uidai.qc.Check.run''] = ([''enu-qc''], Some ''in.gov.uidai.qc.Check.run'') \<and>
   length (by_stage two_services ''abis'' None) \<le> 1"
proof -
  have "check_registry (rg_packs two_services) = []" by code_simp
  moreover have "distinct (map fst (rg_packs two_services))" by code_simp
  moreover have "by_java_package (rg_packs two_services) [''in.gov.uidai.qc.Check.run''] = ([''enu-qc''], Some ''in.gov.uidai.qc.Check.run'')"
    by code_simp
  ultimately show ?thesis using validated_registry_decides by blast
qed

text \<open>C18. The order of evidence is the order of trust. A dead-lettered record belongs to the service named by the first
  piece of evidence that names exactly one, whatever any later piece says; every later piece that names
  another service is kept as a conflict, and a record no piece decides stays unresolved.\<close>

theorem first_evidence_decides:
  assumes "resolve_dlt ix r v grp origin frames code = Inr rz" and "reason_code_of (payload_dict v) = Inr payload_code"
    and "steps = dlt_steps ix r (payload_dict v) grp origin frames (present_codes [as_str code, payload_code])"
  shows "if \<exists>step\<in>set steps. decides step
    then (\<exists>pre step post. steps = pre @ step # post \<and> (\<forall>p\<in>set pre. \<not> decides p) \<and> decides step \<and>
      rs_service rz = service_or_unresolved (Some (named_by step)) \<and> rs_source rz = fst step \<and> rs_matched rz = fst (snd step) \<and>
      rs_conflict rz = objections (named_by step) post)
    else rs_service rz = UNRESOLVED \<and> rs_conflict rz = []"
proof -
  have d: "distinct (map fst steps)" unfolding assms(3) dlt_sources by simp
  obtain detail sha where rz: "rz = settle steps detail sha None"
    using assms by (auto simp: resolve_dlt_def Let_def)
  from d show ?thesis
  proof (cases rule: weigh_cases)
    case none
    then show ?thesis by (simp add: rz settle_def)
  next
    case (first pre step post)
    then have "\<exists>step\<in>set steps. decides step" by auto
    moreover have "rs_service rz = service_or_unresolved (Some (named_by step))" "rs_source rz = fst step"
      "rs_matched rz = fst (snd step)" "rs_conflict rz = objections (named_by step) post"
      using first(4) by (simp_all add: rz settle_def service_or_unresolved_def)
    ultimately have "steps = pre @ step # post \<and> (\<forall>p\<in>set pre. \<not> decides p) \<and> decides step \<and>
      rs_service rz = service_or_unresolved (Some (named_by step)) \<and> rs_source rz = fst step \<and> rs_matched rz = fst (snd step) \<and>
      rs_conflict rz = objections (named_by step) post" using first(1,2,3) by simp
    then show ?thesis using \<open>\<exists>step\<in>set steps. decides step\<close> by (simp only: if_True) blast
  qed
qed

definition empty_index :: evidence_index where
  "empty_index = \<lparr>ei_mapped = (\<lambda>_. []), ei_map_sha256 = None, ei_docs = (\<lambda>_. [])\<rparr>"

theorem first_evidence_decides_witness:
  "\<exists>rz. resolve_dlt empty_index two_services PNull (Some ''bio'') None [''in.gov.uidai.qc.Check.run''] None = Inr rz \<and>
     rs_service rz = ''enu-biometric'' \<and> rs_source rz = ''consumer_group'' \<and> rs_conflict rz = [(''java_package'', ''enu-qc'')]"
proof -
  let ?steps = "dlt_steps empty_index two_services (payload_dict PNull) (Some ''bio'') None [''in.gov.uidai.qc.Check.run'']
    (present_codes [as_str None, None])"
  have c: "reason_code_of (payload_dict PNull) = Inr None" by code_simp
  then obtain rz where rz: "resolve_dlt empty_index two_services PNull (Some ''bio'') None [''in.gov.uidai.qc.Check.run''] None = Inr rz"
    by (simp add: resolve_dlt_def Let_def)
  obtain step post where steps: "?steps = step # post" "decides step" "named_by step = ''enu-biometric''" "fst step = ''consumer_group''"
    "objections ''enu-biometric'' post = [(''java_package'', ''enu-qc'')]"
  proof
    show "?steps = hd ?steps # tl ?steps" by code_simp
    show "decides (hd ?steps)" by code_simp
    show "named_by (hd ?steps) = ''enu-biometric''" by code_simp
    show "fst (hd ?steps) = ''consumer_group''" by code_simp
    show "objections ''enu-biometric'' (tl ?steps) = [(''java_package'', ''enu-qc'')]" by code_simp
  qed
  obtain pre s rest where h: "?steps = pre @ s # rest" "\<forall>p\<in>set pre. \<not> decides p" "rs_service rz = service_or_unresolved (Some (named_by s))"
    "rs_source rz = fst s" "rs_conflict rz = objections (named_by s) rest"
    using first_evidence_decides [OF rz c refl] steps(1,2) by (auto split: if_splits)
  have "pre = []" using h(1,2) steps(1,2) by (cases pre) auto
  then have "s = step" "rest = post" using h(1) steps(1) by simp_all
  then show ?thesis using rz h steps by (auto simp: service_or_unresolved_def)
qed



end
