(* ===== verification/Discovery.thy ===== *)
theory Discovery
  imports Prelude "HOL-Library.Product_Lexorder"
begin

text \<open>
  Which pods and containers a log fetch reads: \<^verbatim>\<open>src/log_pipeline/sources/k8s/discovery.py\<close>. The cluster
  (client, retries and fixtures) is the parameter \<open>cluster\<close>; the service map is read as names with text
  options; printed reasons are constructors. A start time is a number, and a pod without one sorts last.
\<close>

section \<open>Pods and results\<close>

record container_status =
  cs_name :: string
  cs_restarts :: int
  cs_image :: "string option"

record pod =
  po_name :: string
  po_containers :: "string list"
  po_statuses :: "container_status list"
  po_phase :: "string option"
  po_started :: "rat option"

datatype match_spec = By_label string | By_name string

record pod_target =
  pt_namespace :: string
  pt_pod :: string
  pt_container :: string
  pt_restarts :: int
  pt_phase :: string
  pt_started :: "rat option"
  pt_app :: string

definition pod_key :: "pod_target \<Rightarrow> string \<times> string" where
  "pod_key t = (pt_namespace t, pt_pod t)"

definition restarted :: "pod_target \<Rightarrow> bool" where
  "restarted t \<longleftrightarrow> pt_restarts t > 0"

datatype discovery_reason =
    No_namespace
  | Client_unavailable "string option"
  | No_such_fixture string
  | Namespace_unreadable exn
  | Listing_failed exn
  | Nothing_searchable

datatype evidence_gap =
    Pods_capped nat nat string
  | Service_unavailable string "discovery_reason option"
  | Total_capped nat nat

record discovery =
  ds_targets :: "pod_target list"
  ds_gaps :: "evidence_gap list"
  ds_pods_seen :: nat
  ds_pending :: nat
  ds_truncated :: bool
  ds_ok :: bool
  ds_reason :: "discovery_reason option"
  ds_searched :: "string list"
  ds_failed :: "string list"

definition nothing_found :: discovery where
  "nothing_found = \<lparr>ds_targets = [], ds_gaps = [], ds_pods_seen = 0, ds_pending = 0, ds_truncated = False, ds_ok = True,
     ds_reason = None, ds_searched = [], ds_failed = []\<rparr>"

definition not_searchable :: "discovery_reason \<Rightarrow> discovery" where
  "not_searchable r = nothing_found\<lparr>ds_ok := False, ds_reason := Some r\<rparr>"

record 'w cluster =
  cl_fixtures :: "((string \<Rightarrow> bool) \<times> (string \<Rightarrow> match_spec \<Rightarrow> pod list)) option"
  cl_client :: bool
  cl_unavailable :: "string option"
  cl_read_namespace :: "string \<Rightarrow> rat \<Rightarrow> ('w, unit) io"
  cl_list_pods :: "string \<Rightarrow> string option \<Rightarrow> rat \<Rightarrow> ('w, pod list) io"


section \<open>Configuration\<close>

type_synonym options = "(string \<times> string) list"

definition SKIPPED_PHASES :: "string list" where "SKIPPED_PHASES = [''Pending'']"
definition DEFAULT_SIDECAR_DENYLIST :: string where "DEFAULT_SIDECAR_DENYLIST = ''istio-proxy,linkerd-proxy,vault-agent''"
definition DEFAULT_APP :: string where "DEFAULT_APP = ''enu-biometric''"

text \<open>\<^verbatim>\<open>d.get(key)\<close>, where an empty text counts as absent.\<close>

definition chosen_option :: "options \<Rightarrow> string \<Rightarrow> string option" where
  "chosen_option d k = (case map_of d k of None \<Rightarrow> None | Some v \<Rightarrow> if v = [] then None else Some v)"

definition first_set :: "string option list \<Rightarrow> string option" where
  "first_set xs = (case filter (\<lambda>x. x \<noteq> None \<and> x \<noteq> Some []) xs of [] \<Rightarrow> None | x # _ \<Rightarrow> x)"

definition default_app :: "env \<Rightarrow> string" where
  "default_app env = (case first_set [env ''K8S_DEFAULT_APP''] of None \<Rightarrow> DEFAULT_APP | Some a \<Rightarrow> a)"

definition service_map :: "(string \<Rightarrow> (string \<times> options) list option) \<Rightarrow> env \<Rightarrow> (string \<times> options) list" where
  "service_map parse env =
     (let raw = py_strip (env_get env ''K8S_SERVICE_MAP'' [])
      in if raw = [] then [] else case parse raw of None \<Rightarrow> [] | Some m \<Rightarrow> m)"

definition resolve_service ::
    "(string \<Rightarrow> (string \<times> options) list option) \<Rightarrow> env \<Rightarrow> string option \<Rightarrow> string option \<Rightarrow> options option \<Rightarrow>
     string option \<times> match_spec" where
  "resolve_service parse env app namespace match =
     (let name = (case first_set [app] of None \<Rightarrow> default_app env | Some a \<Rightarrow> a);
          mapping = (case map_of (service_map parse env) name of None \<Rightarrow> [] | Some d \<Rightarrow> d);
          declared = (case match of None \<Rightarrow> [] | Some d \<Rightarrow> d);
          spec =
            (case chosen_option mapping ''label_selector'' of
               Some l \<Rightarrow> By_label l
             | None \<Rightarrow>
                 (case chosen_option mapping ''name_contains'' of
                    Some n \<Rightarrow> By_name n
                  | None \<Rightarrow>
                      (case chosen_option declared ''label_selector'' of
                         Some l \<Rightarrow> By_label l
                       | None \<Rightarrow> By_name (case chosen_option declared ''name_contains'' of None \<Rightarrow> name | Some n \<Rightarrow> n))))
      in (first_set [namespace, map_of mapping ''namespace'', env ''K8S_DEFAULT_NAMESPACE''], spec))"

definition sidecar_denylist :: "env \<Rightarrow> string list" where
  "sidecar_denylist env =
     filter (\<lambda>n. n \<noteq> []) (map py_strip (split_on CHR '','' (env_get env ''K8S_SIDECAR_DENYLIST'' DEFAULT_SIDECAR_DENYLIST)))"

definition max_pods :: "env \<Rightarrow> nat" where
  "max_pods env = nat (int_env_at_least env ''K8S_MAX_PODS'' 1 20)"

definition max_total_pods :: "env \<Rightarrow> nat" where
  "max_total_pods env = nat (int_env_at_least env ''K8S_MAX_TOTAL_PODS'' 0 0)"

definition names_in :: "env \<Rightarrow> string \<Rightarrow> string list" where
  "names_in env var = split_names (Some (py_strip (env_get env var [])))"

definition k8s_app_names :: "env \<Rightarrow> string list" where
  "k8s_app_names env =
     (if names_in env ''K8S_APP_NAMES'' \<noteq> [] then names_in env ''K8S_APP_NAMES''
      else if names_in env ''ES_APP_NAMES'' \<noteq> [] then names_in env ''ES_APP_NAMES''
      else [default_app env])"

definition request_timeout :: "env \<Rightarrow> exn + rat" where
  "request_timeout env =
     (case py_float (env_get env ''K8S_REQUEST_TIMEOUT_SECONDS'' ''30'') of None \<Rightarrow> Inl ValueError | Some t \<Rightarrow> Inr t)"


section \<open>Selection within a service\<close>

definition select_containers :: "env \<Rightarrow> pod \<Rightarrow> string list" where
  "select_containers env p =
     (let kept = filter (\<lambda>n. n \<notin> set (sidecar_denylist env)) (po_containers p)
      in if kept = [] then po_containers p else kept)"

definition restart_count :: "pod \<Rightarrow> string \<Rightarrow> int" where
  "restart_count p container =
     (case find (\<lambda>s. cs_name s = container) (po_statuses p) of None \<Rightarrow> 0 | Some s \<Rightarrow> cs_restarts s)"

text \<open>Most recently started first, in the listed order among equals.\<close>

definition start_key :: "pod \<Rightarrow> nat \<times> rat" where
  "start_key p = (case po_started p of None \<Rightarrow> (1, 0) | Some t \<Rightarrow> (0, - t))"

definition verify_namespace :: "'w cluster \<Rightarrow> string \<Rightarrow> rat \<Rightarrow> ('w, discovery_reason option) io" where
  "verify_namespace cl namespace timeout =
     (case cl_fixtures cl of
        Some (there, _) \<Rightarrow> ret (if there namespace then None else Some (No_such_fixture namespace))
      | None \<Rightarrow>
          if \<not> cl_client cl then ret (Some (Client_unavailable (cl_unavailable cl)))
          else catchM (bindM (cl_read_namespace cl namespace timeout) (\<lambda>_. ret None))
                 (\<lambda>e. ret (Some (Namespace_unreadable e))))"

definition list_pods :: "'w cluster \<Rightarrow> string \<Rightarrow> match_spec \<Rightarrow> rat \<Rightarrow> ('w, pod list option) io" where
  "list_pods cl namespace spec timeout =
     (case cl_fixtures cl of
        Some (_, pods) \<Rightarrow> ret (Some (pods namespace spec))
      | None \<Rightarrow>
          if \<not> cl_client cl then ret None
          else (case spec of
                  By_label l \<Rightarrow> bindM (cl_list_pods cl namespace (Some l) timeout) (\<lambda>ps. ret (Some ps))
                | By_name n \<Rightarrow> bindM (cl_list_pods cl namespace None timeout) (\<lambda>ps.
                                ret (Some (filter (\<lambda>p. contains n (po_name p)) ps)))))"

definition list_pods_for_service ::
    "'w cluster \<Rightarrow> (string \<Rightarrow> (string \<times> options) list option) \<Rightarrow> env \<Rightarrow> string option \<Rightarrow> string option \<Rightarrow> options option \<Rightarrow>
     ('w, pod list option) io" where
  "list_pods_for_service cl parse env app namespace match =
     (case resolve_service parse env app namespace match of
        (None, _) \<Rightarrow> ret None
      | (Some ns, spec) \<Rightarrow>
          (case request_timeout env of Inl e \<Rightarrow> raise e | Inr t \<Rightarrow> list_pods cl ns spec t))"

definition phase_name :: "pod \<Rightarrow> string" where
  "phase_name p = (case po_phase p of None \<Rightarrow> ''Unknown'' | Some ph \<Rightarrow> if ph = [] then ''Unknown'' else ph)"

definition targets_of :: "env \<Rightarrow> string \<Rightarrow> string \<Rightarrow> pod \<Rightarrow> pod_target list" where
  "targets_of env namespace app p =
     map (\<lambda>c. \<lparr>pt_namespace = namespace, pt_pod = po_name p, pt_container = c, pt_restarts = restart_count p c,
               pt_phase = phase_name p, pt_started = po_started p, pt_app = app\<rparr>) (select_containers env p)"

definition choose_pods :: "env \<Rightarrow> string \<Rightarrow> string \<Rightarrow> pod list \<Rightarrow> discovery" where
  "choose_pods env namespace app pods =
     (let eligible = sort_key start_key (filter (\<lambda>p. phase_name p \<notin> set SKIPPED_PHASES) pods);
          cap = max_pods env;
          truncated = (length eligible > cap)
      in nothing_found\<lparr>ds_targets := concat (map (targets_of env namespace app) (take cap eligible)),
           ds_gaps := (if truncated then [Pods_capped (length eligible) cap namespace] else []),
           ds_pods_seen := length pods,
           ds_pending := length (filter (\<lambda>p. phase_name p \<in> set SKIPPED_PHASES) pods),
           ds_truncated := truncated, ds_searched := [app]\<rparr>)"

text \<open>The namespaces already verified, with what was found, are shared by the services of one search.\<close>

type_synonym verified = "(string \<times> discovery_reason option) list"

definition namespace_verdict :: "'w cluster \<Rightarrow> verified \<Rightarrow> string \<Rightarrow> rat \<Rightarrow> ('w, discovery_reason option \<times> verified) io" where
  "namespace_verdict cl seen namespace timeout =
     (case map_of seen namespace of
        Some verdict \<Rightarrow> ret (verdict, seen)
      | None \<Rightarrow> bindM (verify_namespace cl namespace timeout) (\<lambda>verdict. ret (verdict, AList.update namespace verdict seen)))"

definition discover_for_service ::
    "'w cluster \<Rightarrow> (string \<Rightarrow> (string \<times> options) list option) \<Rightarrow> env \<Rightarrow> string option \<Rightarrow> string option \<Rightarrow> verified \<Rightarrow>
     options option \<Rightarrow> ('w, discovery \<times> verified) io" where
  "discover_for_service cl parse env app namespace seen match =
     (case resolve_service parse env app namespace match of
        (None, _) \<Rightarrow> ret (not_searchable No_namespace, seen)
      | (Some ns, spec) \<Rightarrow>
          let label = (case first_set [app] of None \<Rightarrow> default_app env | Some a \<Rightarrow> a) in
          if cl_fixtures cl = None \<and> \<not> cl_client cl then ret (not_searchable (Client_unavailable (cl_unavailable cl)), seen)
          else (case request_timeout env of
                  Inl e \<Rightarrow> raise e
                | Inr t \<Rightarrow>
                    bindM (namespace_verdict cl seen ns t) (\<lambda>(verdict, seen').
                      case verdict of
                        Some r \<Rightarrow> ret (not_searchable r, seen')
                      | None \<Rightarrow>
                          catchM (bindM (list_pods cl ns spec t) (\<lambda>found.
                                    ret (case found of
                                           None \<Rightarrow> not_searchable (Client_unavailable (cl_unavailable cl))
                                         | Some pods \<Rightarrow> choose_pods env ns label pods, seen')))
                            (\<lambda>e. ret (not_searchable (Listing_failed e), seen')))))"


section \<open>Several services\<close>

text \<open>The pods of one result, each with its containers, in the order of their first target.\<close>

definition by_pod :: "pod_target list \<Rightarrow> pod_target list list" where
  "by_pod ts = map (\<lambda>k. filter (\<lambda>t. pod_key t = k) ts) (dedupe (map pod_key ts))"

record merge =
  mg_targets :: "pod_target list"
  mg_seen :: "(string \<times> string) list"
  mg_duplicates :: nat
  mg_capped :: bool

definition group_key :: "pod_target list \<Rightarrow> string \<times> string" where
  "group_key g = pod_key (hd g)"

text \<open>One round over the services; the pass stops where the cap is met.\<close>

fun merge_row :: "nat \<Rightarrow> pod_target list list \<Rightarrow> merge \<Rightarrow> merge" where
  "merge_row most [] m = m"
| "merge_row most (g # gs) m =
     (if group_key g \<in> set (mg_seen m) then merge_row most gs (m\<lparr>mg_duplicates := mg_duplicates m + 1\<rparr>)
      else if most \<noteq> 0 \<and> length (mg_seen m) \<ge> most then m\<lparr>mg_capped := True\<rparr>
      else merge_row most gs (m\<lparr>mg_seen := mg_seen m @ [group_key g], mg_targets := mg_targets m @ g\<rparr>))"

definition row :: "pod_target list list list \<Rightarrow> nat \<Rightarrow> pod_target list list" where
  "row grouped i = map (\<lambda>gs. gs ! i) (filter (\<lambda>gs. i < length gs) grouped)"

fun merge_rows :: "nat \<Rightarrow> pod_target list list list \<Rightarrow> merge \<Rightarrow> merge" where
  "merge_rows most [] m = m"
| "merge_rows most (r # rs) m =
     (let m' = merge_row most r m in if mg_capped m' then m' else merge_rows most rs m')"

definition rows :: "pod_target list list list \<Rightarrow> pod_target list list list" where
  "rows grouped = map (row grouped) [0..<foldr max (map length grouped) 0]"

definition pods_by_service :: "discovery list \<Rightarrow> pod_target list list list" where
  "pods_by_service ds = map (by_pod \<circ> ds_targets) ds"

definition merge_round_robin :: "discovery list \<Rightarrow> nat \<Rightarrow> merge" where
  "merge_round_robin per_service most =
     merge_rows most (rows (pods_by_service per_service))
       \<lparr>mg_targets = [], mg_seen = [], mg_duplicates = 0, mg_capped = False\<rparr>"

record search =
  se_verified :: verified
  se_found :: "discovery list"
  se_gaps :: "evidence_gap list"
  se_searched :: "string list"
  se_failed :: "string list"
  se_first_failure :: "discovery_reason option"

definition search_service ::
    "'w cluster \<Rightarrow> (string \<Rightarrow> (string \<times> options) list option) \<Rightarrow> env \<Rightarrow> string option \<Rightarrow> (string \<times> options) list \<Rightarrow>
     string \<Rightarrow> search \<Rightarrow> ('w, search) io" where
  "search_service cl parse env namespace matches app se =
     bindM (discover_for_service cl parse env (Some app) namespace (se_verified se) (map_of matches app)) (\<lambda>(d, seen).
       ret (if ds_ok d
            then se\<lparr>se_verified := seen, se_found := se_found se @ [d],
                    se_searched := se_searched se @ (if ds_searched d = [] then [app] else ds_searched d),
                    se_gaps := se_gaps se @ ds_gaps d\<rparr>
            else se\<lparr>se_verified := seen, se_failed := se_failed se @ [app],
                    se_first_failure := (if se_first_failure se = None then ds_reason d else se_first_failure se),
                    se_gaps := se_gaps se @ [Service_unavailable app (ds_reason d)]\<rparr>))"

definition services_to_search :: "env \<Rightarrow> string option \<Rightarrow> string list option \<Rightarrow> string list" where
  "services_to_search env app apps =
     (case app of Some a \<Rightarrow> [a] | None \<Rightarrow> (case apps of Some xs \<Rightarrow> dedupe xs | None \<Rightarrow> k8s_app_names env))"

definition finish_search :: "env \<Rightarrow> search \<Rightarrow> discovery" where
  "finish_search env se =
     (if se_found se = []
      then nothing_found\<lparr>ds_ok := False,
             ds_reason := Some (case se_first_failure se of None \<Rightarrow> Nothing_searchable | Some r \<Rightarrow> r),
             ds_gaps := se_gaps se, ds_failed := se_failed se\<rparr>
      else (let m = merge_round_robin (se_found se) (max_total_pods env)
            in \<lparr>ds_targets = mg_targets m,
                ds_gaps = se_gaps se @
                  (if mg_capped m then [Total_capped (length (se_searched se)) (max_total_pods env)] else []),
                ds_pods_seen = sum_list (map ds_pods_seen (se_found se)),
                ds_pending = sum_list (map ds_pending (se_found se)),
                ds_truncated = (list_ex ds_truncated (se_found se) \<or> mg_capped m), ds_ok = True, ds_reason = None,
                ds_searched = se_searched se, ds_failed = se_failed se\<rparr>))"

definition discover_targets ::
    "'w cluster \<Rightarrow> (string \<Rightarrow> (string \<times> options) list option) \<Rightarrow> env \<Rightarrow> string option \<Rightarrow> string option \<Rightarrow>
     string list option \<Rightarrow> (string \<times> options) list \<Rightarrow> ('w, discovery) io" where
  "discover_targets cl parse env namespace app apps pod_matches =
     bindM (foldM (search_service cl parse env namespace (rev pod_matches)) (services_to_search env app apps)
              \<lparr>se_verified = [], se_found = [], se_gaps = [], se_searched = [], se_failed = [], se_first_failure = None\<rparr>)
       (\<lambda>se. ret (finish_search env se))"


section \<open>The merge against its specification\<close>

text \<open>The pods read column by column over the services, each once: what a merge without a cap keeps.\<close>

fun fresh_pods :: "(string \<times> string) list \<Rightarrow> pod_target list list \<Rightarrow> pod_target list list" where
  "fresh_pods seen [] = []"
| "fresh_pods seen (g # gs) =
     (if group_key g \<in> set seen then fresh_pods seen gs else g # fresh_pods (seen @ [group_key g]) gs)"

definition pods_in_order :: "pod_target list list list \<Rightarrow> pod_target list list" where
  "pods_in_order grouped = fresh_pods [] (concat (rows grouped))"

lemma merge_row_append:
  "\<not> mg_capped m \<Longrightarrow>
     merge_row most (gs @ hs) m = (if mg_capped (merge_row most gs m) then merge_row most gs m else merge_row most hs (merge_row most gs m))"
  by (induction gs arbitrary: m) auto

lemma merge_rows_concat: "\<not> mg_capped m \<Longrightarrow> merge_rows most rs m = merge_row most (concat rs) m"
  by (induction rs arbitrary: m) (auto simp: merge_row_append Let_def)

definition within_cap :: "nat \<Rightarrow> (string \<times> string) list \<Rightarrow> pod_target list list \<Rightarrow> pod_target list list" where
  "within_cap most seen gs = (if most = 0 then fresh_pods seen gs else take (most - length seen) (fresh_pods seen gs))"

lemma within_cap_skip: "group_key g \<in> set seen \<Longrightarrow> within_cap most seen (g # gs) = within_cap most seen gs"
  by (simp add: within_cap_def)

lemma within_cap_take:
  "group_key g \<notin> set seen \<Longrightarrow> most = 0 \<or> length seen < most \<Longrightarrow>
     within_cap most seen (g # gs) = g # within_cap most (seen @ [group_key g]) gs"
  by (auto simp: within_cap_def take_Cons' Suc_diff_Suc)

lemma merge_row_takes:
  assumes "\<not> mg_capped m" and "most \<noteq> 0 \<Longrightarrow> length (mg_seen m) \<le> most"
  shows "mg_targets (merge_row most gs m) = mg_targets m @ concat (within_cap most (mg_seen m) gs) \<and>
    (mg_capped (merge_row most gs m) \<longleftrightarrow> most \<noteq> 0 \<and> length (mg_seen m) + length (fresh_pods (mg_seen m) gs) > most)"
  using assms
proof (induction gs arbitrary: m)
  case Nil
  then show ?case by (auto simp: within_cap_def)
next
  case (Cons g gs)
  consider (dup) "group_key g \<in> set (mg_seen m)"
    | (full) "group_key g \<notin> set (mg_seen m)" "most \<noteq> 0" "length (mg_seen m) = most"
    | (new) "group_key g \<notin> set (mg_seen m)" "most = 0 \<or> length (mg_seen m) < most"
    using Cons.prems(2) by linarith
  then show ?case
  proof cases
    case dup
    then show ?thesis
      using Cons.IH [of "m\<lparr>mg_duplicates := mg_duplicates m + 1\<rparr>"] Cons.prems by (simp add: within_cap_skip)
  next
    case full
    then show ?thesis by (simp add: within_cap_def)
  next
    case new
    let ?m = "m\<lparr>mg_seen := mg_seen m @ [group_key g], mg_targets := mg_targets m @ g\<rparr>"
    have "merge_row most (g # gs) m = merge_row most gs ?m" using new by auto
    moreover have "mg_targets (merge_row most gs ?m) = mg_targets ?m @ concat (within_cap most (mg_seen ?m) gs) \<and>
        (mg_capped (merge_row most gs ?m) \<longleftrightarrow>
           most \<noteq> 0 \<and> length (mg_seen ?m) + length (fresh_pods (mg_seen ?m) gs) > most)"
      using Cons.prems new by (intro Cons.IH) auto
    ultimately show ?thesis using new by (simp add: within_cap_take)
  qed
qed

lemma fresh_pods_keys:
  "distinct seen \<Longrightarrow> distinct (seen @ map group_key (fresh_pods seen gs)) \<and>
     set seen \<union> group_key ` set (fresh_pods seen gs) = set seen \<union> group_key ` set gs \<and> set (fresh_pods seen gs) \<subseteq> set gs"
proof (induction gs arbitrary: seen)
  case Nil
  then show ?case by simp
next
  case (Cons g gs)
  show ?case
  proof (cases "group_key g \<in> set seen")
    case True
    then show ?thesis using Cons.IH [OF Cons.prems] by auto
  next
    case False
    then have "distinct (seen @ [group_key g])" using Cons.prems by simp
    from Cons.IH [OF this] False show ?thesis by auto
  qed
qed

lemma longest_column: "gs \<in> set grouped \<Longrightarrow> length gs \<le> foldr max (map length grouped) 0"
  by (induction grouped) auto

lemma row_elements: "g \<in> set (concat (rows grouped)) \<longleftrightarrow> (\<exists>gs\<in>set grouped. g \<in> set gs)"
proof
  assume "g \<in> set (concat (rows grouped))"
  then show "\<exists>gs\<in>set grouped. g \<in> set gs" by (auto simp: rows_def row_def intro!: bexI nth_mem)
next
  assume "\<exists>gs\<in>set grouped. g \<in> set gs"
  then obtain gs i where gs: "gs \<in> set grouped" "i < length gs" "g = gs ! i" by (auto simp: in_set_conv_nth)
  then have "g \<in> set (row grouped i)" by (auto simp: row_def)
  moreover have "i < foldr max (map length grouped) 0" using gs(2) longest_column [OF gs(1)] by simp
  ultimately show "g \<in> set (concat (rows grouped))" by (auto simp: rows_def)
qed

lemma by_pod_groups: "g \<in> set (by_pod ts) \<longleftrightarrow> (\<exists>t\<in>set ts. g = filter (\<lambda>u. pod_key u = pod_key t) ts)"
  by (auto simp: by_pod_def)

lemma by_pod_key: "t \<in> set ts \<Longrightarrow> group_key (filter (\<lambda>u. pod_key u = pod_key t) ts) = pod_key t"
proof -
  assume t: "t \<in> set ts"
  then have "filter (\<lambda>u. pod_key u = pod_key t) ts \<noteq> []" by (auto simp: filter_empty_conv)
  then have "hd (filter (\<lambda>u. pod_key u = pod_key t) ts) \<in> set (filter (\<lambda>u. pod_key u = pod_key t) ts)" by (rule hd_in_set)
  then show ?thesis by (simp add: group_key_def)
qed


section \<open>Properties\<close>


end
