(* ===== verification/Deployed.thy ===== *)
theory Deployed
  imports Discovery Services Versions
begin

text \<open>
  Which build is running: \<^verbatim>\<open>src/dlt/deployed.py\<close>. The pods are listed through the circuit breaker \<open>guard\<close>; the
  cache of readings is the library's TTL cache, whose eviction when full is the parameter \<open>evict\<close>, and the
  clock is read off the world.
\<close>

section \<open>Readings\<close>

datatype deployed_reason = Reading_ok | Listing_raised exn | Not_listable | No_image nat | No_version

record deployed =
  dv_versions :: "string list"
  dv_images :: "(string \<times> string \<times> string) list"
  dv_pods :: nat
  dv_ok :: bool
  dv_reason :: deployed_reason
  dv_details :: options

definition no_reading :: "deployed_reason \<Rightarrow> deployed" where
  "no_reading r = \<lparr>dv_versions = [], dv_images = [], dv_pods = 0, dv_ok = False, dv_reason = r, dv_details = []\<rparr>"

definition single_version :: "deployed \<Rightarrow> string option" where
  "single_version d = (case dv_versions d of [v] \<Rightarrow> Some v | _ \<Rightarrow> None)"

definition mixed_versions :: "deployed \<Rightarrow> bool" where
  "mixed_versions d \<longleftrightarrow> length (dv_versions d) > 1"

definition deployed_doc :: "(deployed_reason \<Rightarrow> string) \<Rightarrow> deployed \<Rightarrow> doc" where
  "deployed_doc say d =
     [(''versions'', JArr (map JStr (dv_versions d))),
      (''images'', JArr (map (\<lambda>(p, c, i). JArr [JStr p, JStr c, JStr i]) (dv_images d))),
      (''pods'', JNum (of_nat (dv_pods d))), (''ok'', JBool (dv_ok d)), (''reason'', JStr (say (dv_reason d))),
      (''mixed'', JBool (mixed_versions d)), (''version'', jopt (single_version d))] @
     (if dv_details d = [] then [] else [(''details'', JObj (map (\<lambda>(k, v). (k, JStr v)) (dv_details d)))])"

definition MAX_RECORDED_IMAGES :: nat where "MAX_RECORDED_IMAGES = 12"

definition ttl_seconds :: "env \<Rightarrow> rat" where
  "ttl_seconds env =
     (case py_float (env_get env ''DLT_DEPLOYED_VERSION_TTL_SECONDS'' ''60'') of None \<Rightarrow> 60 | Some t \<Rightarrow> max 0 t)"

definition rows_of_pod :: "env \<Rightarrow> pod \<Rightarrow> (string \<times> string \<times> string) list" where
  "rows_of_pod env p =
     (let allowed = select_containers env p; name = (if po_name p = [] then ''?'' else po_name p)
      in concat (map (\<lambda>s.
           if allowed \<noteq> [] \<and> cs_name s \<notin> set allowed then []
           else (case cs_image s of None \<Rightarrow> [] | Some i \<Rightarrow> if i = [] then [] else [(name, cs_name s, i)])) (po_statuses p)))"

definition rows_from_pods :: "env \<Rightarrow> pod list \<Rightarrow> (string \<times> string \<times> string) list" where
  "rows_from_pods env pods = concat (map (rows_of_pod env) pods)"

definition versions_in :: "(string \<times> string \<times> string) list \<Rightarrow> string list" where
  "versions_in rs = sort (remdups (filter (\<lambda>v. v \<noteq> []) (map (\<lambda>(p, c, i). version_of (Some i)) rs)))"

definition read_pods :: "env \<Rightarrow> string option \<Rightarrow> string option \<Rightarrow> pod list option \<Rightarrow> deployed" where
  "read_pods env app namespace found =
     (case found of
        None \<Rightarrow> no_reading Not_listable
      | Some pods \<Rightarrow>
          let rs = rows_from_pods env pods; vs = versions_in rs
          in if rs = [] then (no_reading (No_image (length pods)))\<lparr>dv_pods := length pods\<rparr>
             else if vs = []
             then (no_reading No_version)\<lparr>dv_images := take MAX_RECORDED_IMAGES rs, dv_pods := length pods\<rparr>
             else \<lparr>dv_versions = vs, dv_images = take MAX_RECORDED_IMAGES rs, dv_pods = length pods, dv_ok = True,
                   dv_reason = Reading_ok,
                   dv_details = [(''app'', case app of None \<Rightarrow> [] | Some a \<Rightarrow> a),
                                 (''namespace'', case namespace of None \<Rightarrow> [] | Some n \<Rightarrow> n)]\<rparr>)"

type_synonym 'w guard = "('w, pod list option) io \<Rightarrow> ('w, pod list option) io"

definition deployed_read ::
    "'w guard \<Rightarrow> 'w cluster \<Rightarrow> (string \<Rightarrow> (string \<times> options) list option) \<Rightarrow> env \<Rightarrow> string option \<Rightarrow> string option \<Rightarrow>
     options option \<Rightarrow> ('w, deployed) io" where
  "deployed_read guard cl smap env app namespace match =
     catchM (bindM (guard (list_pods_for_service cl smap env app namespace
                             (case match of Some [] \<Rightarrow> None | _ \<Rightarrow> match)))
               (\<lambda>found. ret (read_pods env app namespace found)))
       (\<lambda>e. ret (no_reading (Listing_raised e)))"


section \<open>The cache of readings\<close>

type_synonym reading_key = "string \<times> string \<times> options"
type_synonym readings = "(reading_key \<times> (rat \<times> deployed)) list"

record 'w version_state =
  vs_cache :: readings
  vs_ttl :: "rat option"
  vs_world :: 'w

definition reading_key :: "string option \<Rightarrow> string option \<Rightarrow> options option \<Rightarrow> reading_key" where
  "reading_key app namespace match =
     (case app of None \<Rightarrow> [] | Some a \<Rightarrow> a, case namespace of None \<Rightarrow> [] | Some n \<Rightarrow> n,
      case match of None \<Rightarrow> [] | Some m \<Rightarrow> sort m)"

text \<open>The cache is rebuilt when the lifetime changes.\<close>

definition current_cache :: "rat \<Rightarrow> 'w version_state \<Rightarrow> readings" where
  "current_cache ttl st = (if vs_ttl st = Some ttl then vs_cache st else [])"

definition hit :: "('w \<Rightarrow> rat) \<Rightarrow> rat \<Rightarrow> reading_key \<Rightarrow> 'w version_state \<Rightarrow> deployed option" where
  "hit clock ttl k st =
     (case map_of (current_cache ttl st) k of
        None \<Rightarrow> None
      | Some (t, d) \<Rightarrow> if clock (vs_world st) < t + ttl then Some d else None)"

definition running_version ::
    "(readings \<Rightarrow> readings) \<Rightarrow> ('w \<Rightarrow> rat) \<Rightarrow> 'w guard \<Rightarrow> 'w cluster \<Rightarrow> (string \<Rightarrow> (string \<times> options) list option) \<Rightarrow> env \<Rightarrow>
     string option \<Rightarrow> string option \<Rightarrow> options option \<Rightarrow> ('w version_state, deployed) io" where
  "running_version evict clock guard cl smap env app namespace match st =
     (let ttl = ttl_seconds env; k = reading_key app namespace match in
      case (if ttl > 0 then hit clock ttl k st else None) of
        Some d \<Rightarrow> (Inr d, st\<lparr>vs_cache := current_cache ttl st, vs_ttl := Some ttl\<rparr>)
      | None \<Rightarrow>
          (case deployed_read guard cl smap env app namespace match (vs_world st) of
             (Inl e, w) \<Rightarrow> (Inl e, st\<lparr>vs_world := w\<rparr>)
           | (Inr d, w) \<Rightarrow>
               (Inr d,
                if ttl > 0
                then st\<lparr>vs_cache := (if dv_ok d then evict (AList.update k (clock w, d) (current_cache ttl st))
                                     else current_cache ttl st),
                        vs_ttl := Some ttl, vs_world := w\<rparr>
                else st\<lparr>vs_world := w\<rparr>)))"

definition deployed_for_service ::
    "(readings \<Rightarrow> readings) \<Rightarrow> ('w \<Rightarrow> rat) \<Rightarrow> 'w guard \<Rightarrow> 'w cluster \<Rightarrow> (string \<Rightarrow> (string \<times> options) list option) \<Rightarrow> env \<Rightarrow>
     registry \<Rightarrow> string option \<Rightarrow> ('w version_state, deployed) io" where
  "deployed_for_service evict clock guard cl smap env reg service =
     (if service = None \<or> service = Some [] \<or> service = Some PRE_REGISTRY_PACK
      then running_version evict clock guard cl smap env None None None
      else (let apps = app_names reg service;
                match = (case pack_named reg service of None \<Rightarrow> None | Some p \<Rightarrow> sp_k8s_match p)
            in running_version evict clock guard cl smap env
                 (case apps of [] \<Rightarrow> None | a # _ \<Rightarrow> Some a) None match))"

definition reset_cache :: "'w version_state \<Rightarrow> 'w version_state" where
  "reset_cache st = st\<lparr>vs_cache := [], vs_ttl := None\<rparr>"


section \<open>What a reading says\<close>

text \<open>The images of application containers: those of a pod's selected containers, or all if it names none.\<close>

definition application_images :: "env \<Rightarrow> pod list \<Rightarrow> string set" where
  "application_images env pods =
     {i. \<exists>p\<in>set pods. \<exists>s\<in>set (po_statuses p).
         cs_image s = Some i \<and> i \<noteq> [] \<and> (select_containers env p = [] \<or> cs_name s \<in> set (select_containers env p))}"

lemma rows_images: "(\<lambda>(p, c, i). i) ` set (rows_from_pods env pods) = application_images env pods"
proof -
  have "i \<in> (\<lambda>(p, c, i). i) ` set (rows_of_pod env p) \<longleftrightarrow>
      (\<exists>s\<in>set (po_statuses p). cs_image s = Some i \<and> i \<noteq> [] \<and> (select_containers env p = [] \<or> cs_name s \<in> set (select_containers env p)))"
    for i p
    by (force simp: rows_of_pod_def Let_def split: option.splits if_splits)
  then show ?thesis by (simp add: set_eq_iff rows_from_pods_def application_images_def image_UN)
qed

lemma versions_set: "set (versions_in rs) = (\<lambda>i. version_of (Some i)) ` ((\<lambda>(p, c, i). i) ` set rs) - {[]}"
  by (force simp: versions_in_def image_iff)

lemma read_total: "\<exists>d w'. deployed_read guard cl smap env app namespace match w = (Inr d, w')"
  unfolding deployed_read_def by (rule catchM_total) simp

lemma read_pods_ok:
  "dv_ok (read_pods env app namespace found) \<Longrightarrow>
     \<exists>pods. found = Some pods \<and> dv_versions (read_pods env app namespace found) \<noteq> [] \<and>
       sorted (dv_versions (read_pods env app namespace found)) \<and>
       set (dv_versions (read_pods env app namespace found)) = (\<lambda>i. version_of (Some i)) ` application_images env pods - {[]}"
  by (cases found) (auto simp: read_pods_def Let_def no_reading_def rows_images [symmetric] versions_set split: if_splits,
      auto simp: versions_in_def)

text \<open>A state whose cache holds only successful readings.\<close>

definition readings_ok :: "readings \<Rightarrow> bool" where
  "readings_ok c \<longleftrightarrow> (\<forall>k t d. map_of c k = Some (t, d) \<longrightarrow> dv_ok d)"

lemma readings_ok_update: "readings_ok c \<Longrightarrow> dv_ok d \<Longrightarrow> readings_ok (AList.update k (t, d) c)"
  by (simp add: readings_ok_def update_conv' del: split_paired_All)

lemma readings_ok_evict:
  "readings_ok c \<Longrightarrow> (\<And>c k v. map_of (evict c) k = Some v \<Longrightarrow> map_of c k = Some v) \<Longrightarrow> readings_ok (evict c)"
  unfolding readings_ok_def by blast

lemma read_listing:
  assumes "deployed_read guard cl smap env app namespace match w = (Inr d, w')" and "dv_ok d"
  obtains pods where
    "guard (list_pods_for_service cl smap env app namespace (case match of Some [] \<Rightarrow> None | _ \<Rightarrow> match)) w = (Inr (Some pods), w')"
    "dv_versions d \<noteq> []" "sorted (dv_versions d)"
    "set (dv_versions d) = (\<lambda>i. version_of (Some i)) ` application_images env pods - {[]}"
proof -
  obtain found where "guard (list_pods_for_service cl smap env app namespace (case match of Some [] \<Rightarrow> None | _ \<Rightarrow> match)) w =
      (Inr found, w')" "d = read_pods env app namespace found"
    using assms by (auto simp: deployed_read_def no_reading_def ret_def elim!: catchM_cases bindM_cases)
  then show ?thesis using read_pods_ok [of env app namespace found] assms(2) that by auto
qed


definition one_pod :: pod where
  "one_pod = \<lparr>po_name = ''enu-biometric-0'', po_containers = [''app'', ''istio-proxy''],
     po_statuses = [\<lparr>cs_name = ''istio-proxy'', cs_restarts = 0, cs_image = Some ''mesh/proxy:1.22''\<rparr>,
       \<lparr>cs_name = ''app'', cs_restarts = 1, cs_image = Some ''registry:5000/enu-biometric:1.0.9''\<rparr>],
     po_phase = Some ''Running'', po_started = None\<rparr>"

definition one_cluster :: "unit cluster" where
  "one_cluster = \<lparr>cl_fixtures = None, cl_client = True, cl_unavailable = None, cl_read_namespace = (\<lambda>_ _. ret ()),
     cl_list_pods = (\<lambda>_ _ _. ret [one_pod])\<rparr>"


end
