(* ===== verification/Dlt_Casebook.thy ===== *)
theory Dlt_Casebook
  imports Adapters Fixed_Findings Parked Services
begin

text \<open>
  The document an analysed dead-lettered record ends in, and its published contract: \<open>casebook\<close> is
  \<^verbatim>\<open>_casebook\<close> of \<^verbatim>\<open>src/api/dlt_routes.py\<close> with the dicts it embeds, \<open>check_dlt_casebook\<close> is
  \<^verbatim>\<open>src/models/dlt_casebook.py\<close> over \<open>checked\<close> of \<^verbatim>\<open>src/models/casebook.py\<close>.

  A data model is a \<open>shape\<close>: \<open>conforms\<close> is its strict validation, \<open>written\<close> what it dumps. A number with a
  fraction is no int; an int and the float of the same value are one number here. The printed reasons are
  parameters.
\<close>

section \<open>Shapes\<close>

text \<open>
  \<open>Required\<close> is a field without a default; \<open>Default v\<close> is written as \<open>v\<close> when absent; \<open>Left_out\<close> is dropped when it
  is null; \<open>As_set\<close> is dropped when it was not given.
\<close>

datatype presence = Required | Default json | Left_out | As_set

datatype shape =
    Str
  | Whole
  | Number
  | Unit_interval
  | Flag
  | Any_dict
  | Texts_by_name
  | Hex64
  | Utc_second
  | One_of "string list"
  | Maybe shape
  | Many shape
  | Many_up_to nat shape
  | Block bool "(string \<times> presence \<times> shape) list"

definition is_lower_hex :: "char \<Rightarrow> bool" where
  "is_lower_hex c \<longleftrightarrow> is_digit c \<or> c \<in> set ''abcdef''"

text \<open>\<^verbatim>\<open>YYYY-MM-DDTHH:MM:SSZ\<close>.\<close>

definition is_utc_second :: "string \<Rightarrow> bool" where
  "is_utc_second t \<longleftrightarrow>
     list_all2 (\<lambda>c p. if p = CHR ''0'' then is_digit c else c = p) t ''0000-00-00T00:00:00Z''"

definition whole :: "rat \<Rightarrow> bool" where
  "whole r \<longleftrightarrow> of_int \<lfloor>r\<rfloor> = r"

fun plain_ok :: "shape \<Rightarrow> json \<Rightarrow> bool" where
  "plain_ok Str v = (case v of JStr _ \<Rightarrow> True | _ \<Rightarrow> False)"
| "plain_ok Whole v = (case v of JNum r \<Rightarrow> whole r | _ \<Rightarrow> False)"
| "plain_ok Number v = (case v of JNum _ \<Rightarrow> True | _ \<Rightarrow> False)"
| "plain_ok Unit_interval v = (case v of JNum r \<Rightarrow> 0 \<le> r \<and> r \<le> 1 | _ \<Rightarrow> False)"
| "plain_ok Flag v = (case v of JBool _ \<Rightarrow> True | _ \<Rightarrow> False)"
| "plain_ok Texts_by_name v =
     (case v of JObj d \<Rightarrow> list_all (\<lambda>kv. case snd kv of JStr _ \<Rightarrow> True | _ \<Rightarrow> False) d | _ \<Rightarrow> False)"
| "plain_ok Hex64 v = (case v of JStr t \<Rightarrow> length t = 64 \<and> list_all is_lower_hex t | _ \<Rightarrow> False)"
| "plain_ok Utc_second v = (case v of JStr t \<Rightarrow> is_utc_second t | _ \<Rightarrow> False)"
| "plain_ok Any_dict v = (case v of JObj d \<Rightarrow> True | _ \<Rightarrow> False)"
| "plain_ok (One_of ts) v = (case v of JStr t \<Rightarrow> t \<in> set ts | _ \<Rightarrow> False)"
| "plain_ok _ v = True"

fun conforms :: "shape \<Rightarrow> json \<Rightarrow> bool" where
  "conforms (Maybe s) v = (v = JNull \<or> conforms s v)"
| "conforms (Many s) v = (case v of JArr xs \<Rightarrow> list_all (conforms s) xs | _ \<Rightarrow> False)"
| "conforms (Many_up_to n s) v = (case v of JArr xs \<Rightarrow> length xs \<le> n \<and> list_all (conforms s) xs | _ \<Rightarrow> False)"
| "conforms (Block extra fs) v =
     (case v of
        JObj d \<Rightarrow>
          list_all (\<lambda>(name, presence, s).
            case map_of d name of None \<Rightarrow> presence \<noteq> Required | Some x \<Rightarrow> conforms s x) fs \<and>
          (extra \<or> list_all (\<lambda>kv. fst kv \<in> fst ` set fs) d)
      | _ \<Rightarrow> False)"
| "conforms s v = plain_ok s v"

fun written :: "shape \<Rightarrow> json \<Rightarrow> json" where
  "written (Maybe s) v = (if v = JNull then JNull else written s v)"
| "written (Many s) v = (case v of JArr xs \<Rightarrow> JArr (map (written s) xs) | _ \<Rightarrow> v)"
| "written (Many_up_to n s) v = (case v of JArr xs \<Rightarrow> JArr (map (written s) xs) | _ \<Rightarrow> v)"
| "written (Block extra fs) v =
     (case v of
        JObj d \<Rightarrow>
          JObj (concat (map (\<lambda>(name, presence, s).
                  case map_of d name of
                    None \<Rightarrow> (case presence of Default x \<Rightarrow> [(name, x)] | _ \<Rightarrow> [])
                  | Some x \<Rightarrow> if presence = Left_out \<and> x = JNull then [] else [(name, written s x)]) fs) @
                filter (\<lambda>kv. extra \<and> fst kv \<notin> fst ` set fs) d)
      | _ \<Rightarrow> v)"
| "written s v = v"


section \<open>The contract\<close>

definition FAILURE_CLASSES :: "string list" where "FAILURE_CLASSES = [''A'', ''B'', ''C'', ''U'']"
definition CORROBORATION_VERDICTS :: "string list" where
  "CORROBORATION_VERDICTS = [''CORROBORATED'', ''PARTIAL'', ''CONTRADICTED'', ''UNVERIFIABLE'']"
definition REF_ID_SOURCES :: "string list" where
  "REF_ID_SOURCES = [''contract'', ''record_key'', ''configured_path'', ''type_path'', ''search'', ''none'']"
definition DLT_SERVICE_SOURCES :: "string list" where
  "DLT_SERVICE_SOURCES = [''consumer_group'', ''flow_stage'', ''original_topic'', ''java_package'', ''source_topic'',
     ''reason_code_docs'', ''none'']"
definition EVIDENCE_GAPS :: "string list" where
  "EVIDENCE_GAPS = [''REFID_KEY_PAYLOAD_MISMATCH'', ''NO_CORRELATION_ID'', ''NO_TIMESTAMP'', ''LOGS_TOO_OLD'',
     ''LOG_FETCH_FAILED'']"
definition CEILINGS :: "string list" where
  "CEILINGS = [''class_b'', ''class_u'', ''unverifiable'', ''logs_unavailable'', ''logs_silent'', ''contradicted'',
     ''registry_miss'', ''unreviewed'', ''evidence_gap'', ''reuse_decay'']"
definition PER_CODE_PATTERNS :: "string list" where
  "PER_CODE_PATTERNS = [''uuid'', ''long_number'', ''this_packet'', ''source_line'']"
definition PER_CODE_SEVERITIES :: "string list" where "PER_CODE_SEVERITIES = [''identifier'', ''phrasing'']"
definition PER_CODE_FIELDS :: "string list" where "PER_CODE_FIELDS = [''narrative'', ''recommendation'', ''discrepancy'']"
definition FINDING_SOURCES :: "string list" where
  "FINDING_SOURCES = [''agent'', ''canned'', ''group_reuse'', ''failed_synthesis'']"
definition REUSE_DECISIONS :: "string list" where "REUSE_DECISIONS = [''LLM_REQUIRED'', ''REUSE_GROUP'', ''CANNED'']"
definition GROUP_STATES :: "string list" where "GROUP_STATES = [''ok'', ''occurrence_not_recorded'', ''unavailable'']"
definition RECOMMENDATION_STATES :: "string list" where
  "RECOMMENDATION_STATES = [''none'', ''draft'', ''final'', ''unpersisted'', ''withheld'', ''per_occurrence'']"
definition SINGLE_FLIGHT_OUTCOMES :: "string list" where
  "SINGLE_FLIGHT_OUTCOMES = [''leader'', ''reused'', ''waited_then_ran'', ''timeout'']"
definition CODE_CHECK_VERDICTS :: "string list" where
  "CODE_CHECK_VERDICTS = [''NO_CHANGE'', ''NOT_DEPLOYED'', ''FIX_DEPLOYED'', ''UNKNOWN'']"
definition ANALYSED_STATUSES :: "string list" where "ANALYSED_STATUSES = [''COMPLETED'', ''NEEDS_MANUAL_REVIEW'']"

abbreviation opt_text :: "string \<Rightarrow> string \<times> presence \<times> shape" where
  "opt_text name \<equiv> (name, Required, Maybe Str)"

abbreviation null_text :: "string \<Rightarrow> string \<times> presence \<times> shape" where
  "null_text name \<equiv> (name, Default JNull, Maybe Str)"

definition DltSource :: shape where
  "DltSource = Block False
     [opt_text ''original_topic'', (''partition'', Required, Maybe Whole), (''offset'', Required, Maybe Whole),
      opt_text ''consumer_group'', (''attempts'', Required, Maybe Whole), (''original_timestamp'', Required, Maybe Whole),
      (''last_attempt_timestamp'', Required, Maybe Whole), (''anchor_is_fallback'', Required, Flag), opt_text ''type_id'']"

definition DETAIL_FIELDS :: "string list" where
  "DETAIL_FIELDS = [''consumer_group'', ''original_topic'', ''stage'', ''sub_stage'', ''source_topic'', ''java_frame'',
     ''reason_code'']"

definition DltServiceResolutionDetail :: shape where
  "DltServiceResolutionDetail = Block True (map null_text DETAIL_FIELDS)"

definition DltServiceResolution :: shape where
  "DltServiceResolution = Block True
     [(''service'', Required, Str), (''source'', Required, One_of DLT_SERVICE_SOURCES), null_text ''matched'',
      (''conflict'', Default JNull, Maybe Texts_by_name),
      (''detail'', Default (JObj (map (\<lambda>n. (n, JNull)) DETAIL_FIELDS)), DltServiceResolutionDetail),
      null_text ''registry_sha256'', null_text ''reason_code_map_sha256'']"

definition DltPacket :: shape where
  "DltPacket = Block False
     [opt_text ''ref_id'', (''ref_id_source'', Required, One_of REF_ID_SOURCES), opt_text ''record_key'',
      opt_text ''payload_ref_id_conflict'', opt_text ''event_id'', opt_text ''service'',
      (''service_resolution'', Required, Maybe DltServiceResolution)]"

definition DltFailure :: shape where
  "DltFailure = Block False
     [(''class'', Required, One_of FAILURE_CLASSES), (''class_reason'', Required, Str), opt_text ''root_fqcn'',
      opt_text ''business_code'', opt_text ''registry_description'', opt_text ''registry_category'',
      opt_text ''registry_category_source'', opt_text ''registry_stage'', (''signature'', Required, Str),
      (''fingerprint'', Required, Hex64), opt_text ''fingerprint_service'', (''frames'', Required, Many Str),
      (''truncated'', Required, Flag)]"

definition DltEvidence :: shape where
  "DltEvidence = Block False
     [(''corroboration'', Required, One_of CORROBORATION_VERDICTS), (''corroboration_reason'', Required, Str),
      (''citations'', Required, Many_up_to 20 Str), (''unexplained_exceptions'', Required, Many Str),
      (''could_not_look'', Required, Flag), opt_text ''log_window'', (''gaps'', Required, Many (One_of EVIDENCE_GAPS))]"

definition DltPerCodeViolation :: shape where
  "DltPerCodeViolation = Block False
     [(''pattern'', Required, One_of PER_CODE_PATTERNS), (''severity'', Required, One_of PER_CODE_SEVERITIES),
      (''field'', Required, One_of PER_CODE_FIELDS), (''text'', Required, Str)]"

definition DltCasebookFinding :: shape where
  "DltCasebookFinding = Block False
     [(''narrative'', Required, Str), opt_text ''discrepancy'', (''recommendation'', Required, Str),
      (''action'', Required, One_of DLT_ACTIONS), (''reviewer_approved'', Required, Maybe Flag),
      (''per_code_violations'', Left_out, Maybe (Many DltPerCodeViolation)), (''parse_error'', Left_out, Maybe Str)]"

definition DltConfidence :: shape where
  "DltConfidence = Block False
     [(''score'', Required, Maybe Unit_interval), (''ceilings_applied'', Required, Many (One_of CEILINGS)),
      (''abstained'', Required, Flag)]"

definition DltServicePack :: shape where
  "DltServicePack = Block False [opt_text ''service'', opt_text ''sha256'']"

definition DltProvenance :: shape where
  "DltProvenance = Block False
     [(''source'', Required, One_of FINDING_SOURCES), (''reuse_decision'', Required, One_of REUSE_DECISIONS),
      (''reuse_reason'', Required, Str), (''group_fingerprint'', Required, Str),
      (''group_occurrences'', Required, Maybe Whole), (''group_state'', Required, One_of GROUP_STATES),
      (''recommendation_state'', Required, One_of RECOMMENDATION_STATES),
      (''single_flight'', Required, Maybe (One_of SINGLE_FLIGHT_OUTCOMES)), (''service_pack'', Required, DltServicePack)]"

definition DltCodeCheckCandidate :: shape where
  "DltCodeCheckCandidate = Block False
     [(''commit'', Required, Str), (''subject'', Required, Str), (''path'', Required, Str),
      (''timestamp_ms'', Required, Maybe Whole), opt_text ''first_containing_version'', (''resolved_by'', Required, Str)]"

definition DltCodeCheck :: shape where
  "DltCodeCheck = Block False
     [(''verdict'', Required, One_of CODE_CHECK_VERDICTS), (''reason'', Required, Str), opt_text ''repo'', opt_text ''path'',
      (''paths_checked'', Required, Many Str), (''frames_resolved'', Required, Whole), (''frames_unmapped'', Required, Whole),
      opt_text ''branch'', opt_text ''baseline_version'', opt_text ''running_version'', opt_text ''required_version'',
      (''candidates'', Required, Many DltCodeCheckCandidate), (''frames_examined'', Required, Whole),
      (''checked_at'', Required, Number), (''details'', Left_out, Maybe Any_dict)]"

definition DltReplayArgs :: shape where
  "DltReplayArgs = Block False
     [(''id'', Required, Str), (''idType'', Required, Str), (''priority'', Required, Whole), (''operatorName'', Required, Str),
      (''category'', Required, Str), (''fromSedaStart'', Required, Flag)]"

definition DltReplay :: shape where
  "DltReplay = Block False
     [(''attempted'', Required, Flag), (''reason'', Required, Str), (''queued'', Required, Flag), opt_text ''result'',
      (''args'', As_set, Maybe DltReplayArgs)]"

definition DltParked :: shape where
  "DltParked = Block False
     [(''parked'', Required, Flag), (''reason'', Required, Str), (''required_version'', As_set, Maybe Str)]"

definition StampedMetadata :: shape where
  "StampedMetadata = Block False [(''last_updated'', Required, Utc_second)]"

definition DltCasebook :: shape where
  "DltCasebook = Block False
     [(''schema_version'', Required, One_of [DLT_CASEBOOK_SCHEMA_VERSION]), opt_text ''case_id'',
      (''detected_at'', Required, Number), (''source'', Required, DltSource), (''packet'', Required, DltPacket),
      (''failure'', Required, DltFailure), (''evidence'', Required, DltEvidence), (''finding'', Required, DltCasebookFinding),
      (''confidence'', Required, DltConfidence), (''provenance'', Required, DltProvenance),
      (''code_check'', Required, DltCodeCheck), (''replay'', Required, DltReplay), (''parked'', Required, DltParked),
      (''packet_status'', Required, Block False [(''status'', Required, One_of ANALYSED_STATUSES)]),
      (''casebook_metadata'', Left_out, Maybe StampedMetadata)]"

definition DltTimeoutRecord :: shape where
  "DltTimeoutRecord = Block False
     [(''schema_version'', Required, One_of [DLT_CASEBOOK_SCHEMA_VERSION]), opt_text ''case_id'',
      (''detected_at'', Required, Number), (''packet'', Required, Block False [opt_text ''ref_id'']),
      (''finding'', Required, Block False
         [(''narrative'', Required, Str), (''recommendation'', Required, Str),
          (''action'', Required, One_of [''NEEDS_MANUAL_REVIEW''])]),
      (''packet_status'', Required, Block False [(''status'', Required, One_of [''FAILED_TIMEOUT''])]),
      (''casebook_metadata'', Left_out, Maybe StampedMetadata)]"

text \<open>What the validators across fields ask: an attempted replay has its arguments, a parked one its version.\<close>

definition replay_rule :: "doc \<Rightarrow> bool" where
  "replay_rule d \<longleftrightarrow> (jget d ''attempted'' = JBool True) = (map_of d ''args'' \<noteq> None)"

definition parked_rule :: "doc \<Rightarrow> bool" where
  "parked_rule d \<longleftrightarrow> (jget d ''parked'' = JBool True) = (map_of d ''required_version'' \<noteq> None)"

definition source_rule :: "doc \<Rightarrow> doc \<Rightarrow> bool" where
  "source_rule provenance fnd \<longleftrightarrow>
     (jget provenance ''source'' = JStr ''agent'' \<longrightarrow> jget fnd ''per_code_violations'' \<noteq> JNull) \<and>
     (jget provenance ''source'' = JStr ''failed_synthesis'' \<longrightarrow> jget fnd ''parse_error'' \<noteq> JNull)"

definition casebook_rules :: "doc \<Rightarrow> bool" where
  "casebook_rules d \<longleftrightarrow>
     replay_rule (json_obj (jget d ''replay'')) \<and> parked_rule (json_obj (jget d ''parked'')) \<and>
     source_rule (json_obj (jget d ''provenance'')) (json_obj (jget d ''finding''))"

definition contract_mode :: "env \<Rightarrow> string" where
  "contract_mode env =
     (let raw = py_lower (py_strip (env_get env ''CASEBOOK_CONTRACT_MODE'' []))
      in if raw \<in> {''enforce'', ''record''} then raw else ''enforce'')"

definition checked :: "env \<Rightarrow> shape \<Rightarrow> (doc \<Rightarrow> bool) \<Rightarrow> doc \<Rightarrow> exn + doc" where
  "checked env model rules d =
     (if conforms model (JObj d) \<and> rules d then Inr (json_obj (written model (JObj d)))
      else if contract_mode env = ''enforce'' then Inl ValueError else Inr d)"

definition check_dlt_casebook :: "env \<Rightarrow> doc \<Rightarrow> exn + doc" where
  "check_dlt_casebook env d =
     (case sub_get d ''packet_status'' ''status'' of
        Inl e \<Rightarrow> Inl e
      | Inr status \<Rightarrow>
          if status = JStr ''FAILED_TIMEOUT'' then checked env DltTimeoutRecord (\<lambda>_. True) d
          else checked env DltCasebook casebook_rules d)"

definition save_dlt_casebook :: "env \<Rightarrow> 's storage \<Rightarrow> string \<Rightarrow> doc \<Rightarrow> ('s, unit) io" where
  "save_dlt_casebook env sto key d = bindM (of_result (check_dlt_casebook env d)) (save_terminal sto key)"


section \<open>The parts as documents\<close>

record phrases =
  ph_class :: "class_reason \<Rightarrow> string"
  ph_corroboration :: "corroboration_reason \<Rightarrow> string"
  ph_reuse :: "reuse_reason \<Rightarrow> string"
  ph_check :: "check_reason \<Rightarrow> string"
  ph_resolved :: "Code_Check.resolution \<Rightarrow> string"
  ph_replay :: "replay_reason \<Rightarrow> string"
  ph_attempt :: "attempt_result \<Rightarrow> string"
  ph_park :: "park_reason \<Rightarrow> string"

definition jnum :: "int option \<Rightarrow> json" where
  "jnum x = (case x of None \<Rightarrow> JNull | Some n \<Rightarrow> JNum (of_int n))"

definition jflag :: "bool option \<Rightarrow> json" where
  "jflag x = (case x of None \<Rightarrow> JNull | Some b \<Rightarrow> JBool b)"

definition jtexts :: "string list \<Rightarrow> json" where
  "jtexts ts = JArr (map JStr ts)"

fun check_value :: "code_verdict \<Rightarrow> string" where
  "check_value NO_CHANGE = ''NO_CHANGE''"
| "check_value NOT_DEPLOYED = ''NOT_DEPLOYED''"
| "check_value FIX_DEPLOYED = ''FIX_DEPLOYED''"
| "check_value UNKNOWN_CODE = ''UNKNOWN''"

fun decision_value :: "decision \<Rightarrow> string" where
  "decision_value LLM_REQUIRED = ''LLM_REQUIRED''"
| "decision_value REUSE_GROUP = ''REUSE_GROUP''"
| "decision_value CANNED = ''CANNED''"

definition candidate_doc :: "phrases \<Rightarrow> candidate \<Rightarrow> doc" where
  "candidate_doc ph c =
     [(''commit'', JStr (cd_commit c)), (''subject'', JStr (cd_subject c)), (''path'', JStr (cd_path c)),
      (''timestamp_ms'', jnum (cd_timestamp_ms c)),
      (''first_containing_version'', if cd_version c = Some [] then JNull else jopt (cd_version c)),
      (''resolved_by'', JStr (ph_resolved ph (cd_resolved_by c)))]"

definition code_check_doc :: "phrases \<Rightarrow> code_check \<Rightarrow> doc" where
  "code_check_doc ph c =
     [(''verdict'', JStr (check_value (cc_verdict c))), (''reason'', JStr (ph_check ph (cc_reason c))),
      (''repo'', jopt (cc_repo c)), (''path'', jopt (cc_path c)), (''paths_checked'', jtexts (cc_paths_checked c)),
      (''frames_resolved'', JNum (of_nat (cc_frames_resolved c))), (''frames_unmapped'', JNum (of_nat (cc_frames_unmapped c))),
      (''branch'', jopt (cc_branch c)), (''baseline_version'', jopt (cc_baseline_version c)),
      (''running_version'', jopt (cc_running_version c)), (''required_version'', jopt (cc_required_version c)),
      (''candidates'', JArr (map (JObj \<circ> candidate_doc ph) (cc_candidates c))),
      (''frames_examined'', JNum (of_nat (cc_frames_examined c))), (''checked_at'', JNum (cc_checked_at c))]"

definition replay_args_doc :: "replay_args \<Rightarrow> doc" where
  "replay_args_doc a =
     [(''id'', JStr (ra_id a)), (''idType'', JStr (ra_id_type a)), (''priority'', JNum (of_int (ra_priority a))),
      (''operatorName'', JStr (ra_operator_name a)), (''category'', JStr (ra_category a)),
      (''fromSedaStart'', JBool (ra_from_seda_start a))]"

definition replay_doc :: "phrases \<Rightarrow> replay_block \<Rightarrow> doc" where
  "replay_doc ph r =
     [(''attempted'', JBool (rb_attempted r)), (''reason'', JStr (ph_replay ph (rb_reason r))), (''queued'', JBool (rb_queued r))] @
     (case rb_attempt r of
        None \<Rightarrow> [(''result'', JNull)]
      | Some a \<Rightarrow> [(''result'', JStr (ph_attempt ph (at_result a))),
                  (''args'', case at_args a of None \<Rightarrow> JNull | Some x \<Rightarrow> JObj (replay_args_doc x))])"

definition park_doc :: "phrases \<Rightarrow> park_result \<Rightarrow> doc" where
  "park_doc ph p =
     [(''parked'', JBool (pk_parked p)), (''reason'', JStr (ph_park ph (pk_reason p)))] @
     (case pk_reason p of
        Waiting_for v \<Rightarrow> [(''required_version'', JStr v)]
      | Already_waiting v \<Rightarrow> [(''required_version'', v)]
      | _ \<Rightarrow> [])"

definition severity_value :: "severity \<Rightarrow> string" where
  "severity_value s = (case s of Identifier \<Rightarrow> ''identifier'' | Phrasing \<Rightarrow> ''phrasing'')"

definition violation_doc :: "violation \<Rightarrow> doc" where
  "violation_doc v =
     [(''pattern'', JStr (vi_pattern v)), (''severity'', JStr (severity_value (vi_severity v))),
      (''field'', JStr (vi_field v)), (''text'', JStr (vi_text v))]"

text \<open>\<^verbatim>\<open>ServiceResolution.as_dict\<close>.\<close>

definition resolution_doc :: "Services.resolution \<Rightarrow> doc" where
  "resolution_doc r =
     [(''service'', JStr (rs_service r)), (''source'', JStr (rs_source r)), (''matched'', jopt (rs_matched r)),
      (''conflict'', if rs_conflict r = [] then JNull else JObj (map (\<lambda>(k, v). (k, JStr v)) (rs_conflict r))),
      (''detail'', JObj (map (\<lambda>(k, v). (k, jopt v)) (rs_detail r))), (''registry_sha256'', JStr (rs_registry_sha256 r)),
      (''reason_code_map_sha256'', jopt (rs_map_sha256 r))]"

text \<open>A finding as it is cached with its group, and read back from there.\<close>

definition dump_finding :: "finding \<Rightarrow> doc" where
  "dump_finding f =
     [(''narrative'', JStr (fi_narrative f)), (''discrepancy'', jopt (fi_discrepancy f)),
      (''recommendation'', JStr (fi_recommendation f)), (''action'', JStr (fi_action f)),
      (''confidence'', case fi_confidence f of None \<Rightarrow> JNull | Some q \<Rightarrow> JNum q),
      (''ceilings_applied'', jtexts (fi_ceilings_applied f)), (''abstained'', JBool (fi_abstained f)),
      (''reviewer_approved'', jflag (fi_reviewer_approved f))]"

text \<open>The library's lenient reading of a number or a flag.\<close>

definition lax_number :: "json \<Rightarrow> rat option" where
  "lax_number v =
     (case v of JNum q \<Rightarrow> Some q | JBool b \<Rightarrow> Some (if b then 1 else 0) | JStr t \<Rightarrow> py_float t | _ \<Rightarrow> None)"

definition lax_flag :: "json \<Rightarrow> bool option" where
  "lax_flag v =
     (case v of
        JBool b \<Rightarrow> Some b
      | JNum q \<Rightarrow> if q = 1 then Some True else if q = 0 then Some False else None
      | JStr t \<Rightarrow> if py_lower t \<in> {''1'', ''on'', ''t'', ''true'', ''y'', ''yes''} then Some True
                 else if py_lower t \<in> {''0'', ''off'', ''f'', ''false'', ''n'', ''no''} then Some False else None
      | _ \<Rightarrow> None)"

definition optional :: "(json \<Rightarrow> 'a option) \<Rightarrow> json \<Rightarrow> 'a option option" where
  "optional read v = (if v = JNull then Some None else map_option Some (read v))"

definition unit_number :: "json \<Rightarrow> rat option" where
  "unit_number v = Option.bind (lax_number v) (\<lambda>q. if 0 \<le> q \<and> q \<le> 1 then Some q else None)"

definition finding_of :: "json \<Rightarrow> exn + finding" where
  "finding_of v =
     (case v of
        JObj d \<Rightarrow>
          (case (json_str (jget_default d ''narrative'' (JStr [])), optional json_str (jget d ''discrepancy''),
                 json_str (jget_default d ''recommendation'' (JStr [])), json_str (jget d ''action''),
                 optional unit_number (jget d ''confidence''), jget_default d ''ceilings_applied'' (JArr []),
                 lax_flag (jget_default d ''abstained'' (JBool False)), optional lax_flag (jget d ''reviewer_approved'')) of
             (Some narrative, Some dis, Some rec, Some action, Some conf, JArr labels, Some abst, Some approved) \<Rightarrow>
               if action \<in> set DLT_ACTIONS
               then Inr \<lparr>fi_narrative = narrative, fi_discrepancy = dis, fi_recommendation = rec, fi_action = action,
                      fi_confidence = conf, fi_ceilings_applied = List.map_filter json_str labels, fi_abstained = abst,
                      fi_reviewer_approved = approved\<rparr>
               else Inl ValueError
           | _ \<Rightarrow> Inl ValueError)
      | _ \<Rightarrow> Inl TypeError)"


section \<open>The casebook\<close>

definition case_terminal_status :: "finding \<Rightarrow> string" where
  "case_terminal_status f = (if fi_action f = ''NO_ACTION'' then ''COMPLETED'' else ''NEEDS_MANUAL_REVIEW'')"

record case_parts =
  cp_now :: rat
  cp_message :: dlt_message
  cp_headers :: dlt_headers
  cp_failure :: failure
  cp_corroboration :: corroboration
  cp_finding :: finding
  cp_decision :: reuse_decision
  cp_group :: "doc option"
  cp_gaps :: json
  cp_log_window :: json
  cp_source :: string
  cp_replay :: replay_block
  cp_code_check :: code_check
  cp_park :: park_result
  cp_recommendation_state :: json
  cp_group_state :: string
  cp_single_flight :: "string option"
  cp_per_code :: "violation list option"
  cp_resolution :: doc
  cp_pack :: "string option"
  cp_parse_error :: "string option"

definition source_doc :: "dlt_headers \<Rightarrow> doc" where
  "source_doc h =
     [(''original_topic'', jopt (hd_original_topic h)), (''partition'', jnum (hd_original_partition h)),
      (''offset'', jnum (hd_original_offset h)), (''consumer_group'', jopt (hd_consumer_group h)),
      (''attempts'', jnum (hd_attempts h)), (''original_timestamp'', jnum (hd_original_timestamp_ms h)),
      (''last_attempt_timestamp'', jnum (last_attempt_ms h)), (''anchor_is_fallback'', JBool (anchor_is_fallback h)),
      (''type_id'', jopt (hd_type_id h))]"

definition packet_doc :: "dlt_message \<Rightarrow> doc \<Rightarrow> doc" where
  "packet_doc m resolution =
     [(''ref_id'', jopt (dm_ref_id m)), (''ref_id_source'', JStr (dm_ref_id_source m)),
      (''record_key'', jopt (dm_record_key m)),
      (''payload_ref_id_conflict'', if dm_ref_id_mismatch m then jopt (dm_payload_ref_id m) else JNull),
      (''event_id'', jopt (dm_event_id m)), (''service'', jget resolution ''service''),
      (''service_resolution'', if resolution = [] then JNull else JObj resolution)]"

definition failure_doc :: "phrases \<Rightarrow> failure \<Rightarrow> doc" where
  "failure_doc ph f =
     [(''class'', JStr (fr_failure_class f)), (''class_reason'', JStr (ph_class ph (fr_class_reason f))),
      (''root_fqcn'', jopt (fr_root_fqcn f)), (''business_code'', jopt (fr_business_code f)),
      (''registry_description'', jopt (fr_registry_description f)), (''registry_category'', jopt (fr_registry_category f)),
      (''registry_category_source'', jopt (fr_registry_category_source f)), (''registry_stage'', jopt (fr_registry_stage f)),
      (''signature'', JStr (fr_signature f)), (''fingerprint'', JStr (fr_fingerprint f)),
      (''fingerprint_service'', jopt (fr_fingerprint_service f)), (''frames'', jtexts (fr_frames f)),
      (''truncated'', JBool (fr_truncated f))]"

definition evidence_doc :: "phrases \<Rightarrow> corroboration \<Rightarrow> json \<Rightarrow> json \<Rightarrow> doc" where
  "evidence_doc ph c window gaps =
     [(''corroboration'', JStr (verdict_value (co_verdict c))),
      (''corroboration_reason'', JStr (ph_corroboration ph (co_reason c))), (''citations'', jtexts (co_citations c)),
      (''unexplained_exceptions'', jtexts (co_unexplained c)), (''could_not_look'', JBool (co_could_not_look c)),
      (''log_window'', window), (''gaps'', gaps)]"

definition finding_doc :: "finding \<Rightarrow> violation list option \<Rightarrow> string option \<Rightarrow> doc" where
  "finding_doc f per_code parse_error =
     [(''narrative'', JStr (fi_narrative f)), (''discrepancy'', jopt (fi_discrepancy f)),
      (''recommendation'', JStr (fi_recommendation f)), (''action'', JStr (fi_action f)),
      (''reviewer_approved'', jflag (fi_reviewer_approved f))] @
     (case per_code of None \<Rightarrow> [] | Some vs \<Rightarrow> [(''per_code_violations'', JArr (map (JObj \<circ> violation_doc) vs))]) @
     (if parse_error = None \<or> parse_error = Some [] then [] else [(''parse_error'', jopt parse_error)])"

definition confidence_doc :: "finding \<Rightarrow> doc" where
  "confidence_doc f =
     [(''score'', case fi_confidence f of None \<Rightarrow> JNull | Some q \<Rightarrow> JNum q),
      (''ceilings_applied'', jtexts (fi_ceilings_applied f)), (''abstained'', JBool (fi_abstained f))]"

definition provenance_doc :: "phrases \<Rightarrow> registry \<Rightarrow> case_parts \<Rightarrow> doc" where
  "provenance_doc ph reg p =
     [(''source'', JStr (cp_source p)), (''reuse_decision'', JStr (decision_value (ru_decision (cp_decision p)))),
      (''reuse_reason'', JStr (ph_reuse ph (ru_reason (cp_decision p)))),
      (''group_fingerprint'', JStr (fr_fingerprint (cp_failure p))),
      (''group_occurrences'', jget (case cp_group p of None \<Rightarrow> [] | Some g \<Rightarrow> g) ''occurrence_count''),
      (''group_state'', JStr (cp_group_state p)), (''recommendation_state'', cp_recommendation_state p),
      (''single_flight'', jopt (cp_single_flight p)),
      (''service_pack'', JObj
         [(''service'', jopt (cp_pack p)), (''sha256'', jopt (map_option sp_sha256 (pack_named reg (cp_pack p))))])]"

definition casebook :: "phrases \<Rightarrow> registry \<Rightarrow> case_parts \<Rightarrow> doc" where
  "casebook ph reg p =
     [(''schema_version'', JStr DLT_CASEBOOK_SCHEMA_VERSION), (''case_id'', JStr (dm_case_id (cp_message p))),
      (''detected_at'', JNum (cp_now p)), (''source'', JObj (source_doc (cp_headers p))),
      (''packet'', JObj (packet_doc (cp_message p) (cp_resolution p))),
      (''failure'', JObj (failure_doc ph (cp_failure p))),
      (''evidence'', JObj (evidence_doc ph (cp_corroboration p) (cp_log_window p) (cp_gaps p))),
      (''finding'', JObj (finding_doc (cp_finding p) (cp_per_code p) (cp_parse_error p))),
      (''confidence'', JObj (confidence_doc (cp_finding p))), (''provenance'', JObj (provenance_doc ph reg p)),
      (''code_check'', JObj (code_check_doc ph (cp_code_check p))), (''replay'', JObj (replay_doc ph (cp_replay p))),
      (''parked'', JObj (park_doc ph (cp_park p))),
      (''packet_status'', JObj [(''status'', JStr (case_terminal_status (cp_finding p)))])]"


section \<open>What a model accepts and writes\<close>

definition settles :: "shape \<Rightarrow> json \<Rightarrow> json \<Rightarrow> bool" where
  "settles s v w \<longleftrightarrow> conforms s v \<and> written s v = w"

fun fits :: "(string \<times> presence \<times> shape) list \<Rightarrow> doc \<Rightarrow> doc \<Rightarrow> bool" where
  "fits [] d e = (d = [] \<and> e = [])"
| "fits ((n, p, s) # fs) d e =
     (case d of
        [] \<Rightarrow> p \<in> {Left_out, As_set} \<and> fits fs [] e
      | (k, v) # d' \<Rightarrow>
          if k = n
          then (case e of
                  [] \<Rightarrow> False
                | (m, w) # e' \<Rightarrow> m = n \<and> settles s v w \<and> (p = Left_out \<longrightarrow> v \<noteq> JNull) \<and> fits fs d' e')
          else p \<in> {Left_out, As_set} \<and> fits fs d e)"

lemma fits_Cons:
  assumes "fits ((n, p, s) # fs) d e"
  obtains (present) v d' w e' where "d = (n, v) # d'" "e = (n, w) # e'" "settles s v w" "p = Left_out \<longrightarrow> v \<noteq> JNull"
      "fits fs d' e'"
  | (absent) "p \<in> {Left_out, As_set}" "fits fs d e"
  using assms by (cases d; cases e) (auto split: if_splits)

lemma fits_keys: "fits fs d e \<Longrightarrow> fst ` set d \<subseteq> fst ` set fs"
proof (induction fs arbitrary: d e)
  case Nil
  then show ?case by simp
next
  case (Cons f fs)
  obtain n p s where f: "f = (n, p, s)" by (cases f)
  from Cons.prems [unfolded f] show ?case
  proof (cases rule: fits_Cons)
    case (present v d' w e')
    then show ?thesis using Cons.IH [of d' e'] by (auto simp: f)
  next
    case absent
    then show ?thesis using Cons.IH [of d e] by (auto simp: f)
  qed
qed

lemma fits_fields:
  assumes "fits fs d e" and "distinct (map fst fs)" and "\<And>n. n \<in> fst ` set fs \<Longrightarrow> g n = map_of d n"
  shows "list_all (\<lambda>(n, p, s). case g n of None \<Rightarrow> p \<noteq> Required | Some x \<Rightarrow> conforms s x) fs \<and>
    concat (map (\<lambda>(n, p, s). case g n of
       None \<Rightarrow> (case p of Default x \<Rightarrow> [(n, x)] | _ \<Rightarrow> [])
     | Some x \<Rightarrow> if p = Left_out \<and> x = JNull then [] else [(n, written s x)]) fs) = e"
  using assms
proof (induction fs arbitrary: d e)
  case Nil
  then show ?case by simp
next
  case (Cons f fs)
  obtain n p s where f: "f = (n, p, s)" by (cases f)
  from Cons.prems(1) [unfolded f] show ?case
  proof (cases rule: fits_Cons)
    case (present v d' w e')
    have "g m = map_of d' m" if "m \<in> fst ` set fs" for m
      using Cons.prems(2) Cons.prems(3) [of m] that by (auto simp: f present(1))
    moreover have "g n = Some v" using Cons.prems(3) [of n] by (simp add: f present(1))
    ultimately show ?thesis using Cons.IH [of d' e'] Cons.prems(2) present by (simp add: f settles_def)
  next
    case absent
    then have "n \<notin> fst ` set d" using fits_keys [OF absent(2)] Cons.prems(2) by (auto simp: f)
    then have "g n = None" using Cons.prems(3) [of n] by (simp add: f map_of_eq_None_iff)
    moreover have "g m = map_of d m" if "m \<in> fst ` set fs" for m using Cons.prems(3) that by (simp add: f)
    ultimately show ?thesis using Cons.IH [of d e] absent Cons.prems(2) by (auto simp: f)
  qed
qed

lemma settles_Block:
  assumes "fits fs d e" and "distinct (map fst fs)"
  shows "settles (Block extra fs) (JObj d) (JObj e)"
proof -
  have "filter (\<lambda>kv. extra \<and> fst kv \<notin> fst ` set fs) d = []" using fits_keys [OF assms(1)] by (auto simp: filter_empty_conv)
  moreover have "list_all (\<lambda>kv. fst kv \<in> fst ` set fs) d" using fits_keys [OF assms(1)] by (auto simp: list_all_iff)
  ultimately show ?thesis
    using fits_fields [OF assms, of "map_of d"] by (simp add: settles_def)
qed

lemma map_fixed: "map f xs = xs \<longleftrightarrow> list_all (\<lambda>x. f x = x) xs"
  by (induction xs) auto

lemma settles_lists [simp]:
  "settles (Many s) (JArr vs) (JArr vs) \<longleftrightarrow> list_all (\<lambda>v. settles s v v) vs"
  "settles (Many_up_to n s) (JArr vs) (JArr vs) \<longleftrightarrow> length vs \<le> n \<and> list_all (\<lambda>v. settles s v v) vs"
  by (auto simp: settles_def map_fixed list_all_iff)

lemma settles_Maybe [simp]: "settles (Maybe s) v w \<longleftrightarrow> (if v = JNull then w = JNull else settles s v w)"
  by (auto simp: settles_def)

lemma settles_plain [simp]:
  "settles Str v w \<longleftrightarrow> w = v \<and> (\<exists>t. v = JStr t)" "settles Flag v w \<longleftrightarrow> w = v \<and> (\<exists>b. v = JBool b)"
  "settles Whole v w \<longleftrightarrow> w = v \<and> (\<exists>r. v = JNum r \<and> whole r)" "settles Number v w \<longleftrightarrow> w = v \<and> (\<exists>r. v = JNum r)"
  "settles Unit_interval v w \<longleftrightarrow> w = v \<and> (\<exists>r. v = JNum r \<and> 0 \<le> r \<and> r \<le> 1)"
  "settles (One_of ts) v w \<longleftrightarrow> w = v \<and> (\<exists>t. v = JStr t \<and> t \<in> set ts)"
  "settles Hex64 v w \<longleftrightarrow> w = v \<and> (\<exists>t. v = JStr t \<and> length t = 64 \<and> list_all is_lower_hex t)"
  by (cases v; auto simp: settles_def)+

lemma whole_int [simp]: "whole (of_int n)" "whole (of_nat k)"
  by (simp_all add: whole_def)

lemma jopt_not_null [simp]: "jopt x = JNull \<longleftrightarrow> x = None" "jnum n = JNull \<longleftrightarrow> n = None" "jflag b = JNull \<longleftrightarrow> b = None"
  by (auto simp: jopt_def jnum_def jflag_def split: option.splits)

lemma optional_values [simp]:
  "jopt x \<noteq> JNull \<Longrightarrow> \<exists>t. jopt x = JStr t" "(\<exists>t. jopt x = JStr t) \<longleftrightarrow> x \<noteq> None" "(\<exists>b. jflag y = JBool b) \<longleftrightarrow> y \<noteq> None"
  "(\<exists>r. jnum n = JNum r \<and> whole r) \<longleftrightarrow> n \<noteq> None"
  by (auto simp: jopt_def jnum_def jflag_def split: option.splits)

lemma texts_settle [simp]: "settles (Many Str) (jtexts ts) (jtexts ts)"
  by (simp add: jtexts_def list_all_iff)

lemma source_settles: "settles DltSource (JObj (source_doc h)) (JObj (source_doc h))"
  unfolding DltSource_def by (rule settles_Block) (simp_all add: source_doc_def)

lemma violation_settles:
  assumes "vi_pattern v \<in> set PER_CODE_PATTERNS" and "vi_field v \<in> set PER_CODE_FIELDS"
  shows "settles DltPerCodeViolation (JObj (violation_doc v)) (JObj (violation_doc v))"
  unfolding DltPerCodeViolation_def using assms
  by (intro settles_Block)
    (simp_all add: violation_doc_def PER_CODE_SEVERITIES_def severity_value_def split: severity.split)

lemma failure_settles:
  assumes "fr_failure_class f \<in> set FAILURE_CLASSES" and "length (fr_fingerprint f) = 64"
    and "list_all is_lower_hex (fr_fingerprint f)"
  shows "settles DltFailure (JObj (failure_doc ph f)) (JObj (failure_doc ph f))"
  unfolding DltFailure_def using assms by (intro settles_Block) (simp_all add: failure_doc_def)

lemma evidence_settles:
  assumes "length (co_citations c) \<le> 20" and "gaps = jtexts gs" and "set gs \<subseteq> set EVIDENCE_GAPS"
    and "window = JNull \<or> (\<exists>t. window = JStr t)"
  shows "settles DltEvidence (JObj (evidence_doc ph c window gaps)) (JObj (evidence_doc ph c window gaps))"
proof -
  have "verdict_value (co_verdict c) \<in> set CORROBORATION_VERDICTS"
    by (cases "co_verdict c") (simp_all add: CORROBORATION_VERDICTS_def)
  then show ?thesis
    unfolding DltEvidence_def using assms
    by (intro settles_Block) (auto simp: evidence_doc_def jtexts_def list_all_iff)
qed

lemma confidence_settles:
  assumes "valid_finding f" and "set (fi_ceilings_applied f) \<subseteq> set CEILINGS"
  shows "settles DltConfidence (JObj (confidence_doc f)) (JObj (confidence_doc f))"
  unfolding DltConfidence_def using assms
  by (intro settles_Block)
    (auto simp: confidence_doc_def valid_finding_def jtexts_def list_all_iff split: option.splits)

lemma finding_settles:
  assumes "valid_finding f"
    and "\<And>vs. per_code = Some vs \<Longrightarrow> \<forall>v\<in>set vs. vi_pattern v \<in> set PER_CODE_PATTERNS \<and> vi_field v \<in> set PER_CODE_FIELDS"
  shows "settles DltCasebookFinding (JObj (finding_doc f per_code err)) (JObj (finding_doc f per_code err))"
proof -
  have "fi_action f \<in> set DLT_ACTIONS" using assms(1) by (simp add: valid_finding_def)
  moreover have "settles (Many DltPerCodeViolation) (JArr (map (JObj \<circ> violation_doc) vs)) (JArr (map (JObj \<circ> violation_doc) vs))"
    if "per_code = Some vs" for vs
    using assms(2) [OF that] violation_settles by (auto simp: list_all_iff)
  ultimately show ?thesis
    unfolding DltCasebookFinding_def
    by (intro settles_Block; cases per_code; cases err) (simp_all add: finding_doc_def del: settles_lists)
qed

lemma code_check_settles: "settles DltCodeCheck (JObj (code_check_doc ph c)) (JObj (code_check_doc ph c))"
proof -
  have "settles DltCodeCheckCandidate (JObj (candidate_doc ph k)) (JObj (candidate_doc ph k))" for k
    unfolding DltCodeCheckCandidate_def by (intro settles_Block) (simp_all add: candidate_doc_def)
  then have "list_all (\<lambda>v. settles DltCodeCheckCandidate v v) (map (JObj \<circ> candidate_doc ph) (cc_candidates c))"
    by (auto simp: list_all_iff)
  moreover have "check_value (cc_verdict c) \<in> set CODE_CHECK_VERDICTS"
    by (cases "cc_verdict c") (simp_all add: CODE_CHECK_VERDICTS_def)
  ultimately show ?thesis
    unfolding DltCodeCheck_def by (intro settles_Block) (simp_all add: code_check_doc_def)
qed

lemma resolution_written:
  assumes "conforms DltServiceResolution (JObj d)"
  obtains e where "written DltServiceResolution (JObj d) = JObj e" "d \<noteq> []" "e \<noteq> []" "jget e ''service'' = jget d ''service''"
    "\<exists>t. jget d ''service'' = JStr t"
proof -
  have "map_of d ''service'' \<noteq> None" using assms by (auto simp: DltServiceResolution_def split: option.splits)
  then obtain v where v: "map_of d ''service'' = Some v" by blast
  then have "plain_ok Str v" using assms by (simp add: DltServiceResolution_def)
  then obtain t where t: "v = JStr t" by (cases v) simp_all
  obtain rest where "written DltServiceResolution (JObj d) = JObj ((''service'', v) # rest)"
    using v t by (simp add: DltServiceResolution_def)
  moreover have "jget d ''service'' = v" using v by (simp add: jget_def)
  ultimately show ?thesis using v t by (intro that [of "(''service'', v) # rest"]) auto
qed

lemma packet_settles:
  assumes "dm_ref_id_source m \<in> set REF_ID_SOURCES" and "conforms DltServiceResolution (JObj d)"
  shows "settles DltPacket (JObj (packet_doc m d)) (JObj (packet_doc m (json_obj (written DltServiceResolution (JObj d)))))"
proof -
  obtain e where e: "written DltServiceResolution (JObj d) = JObj e" "d \<noteq> []" "e \<noteq> []" "jget e ''service'' = jget d ''service''"
    "\<exists>t. jget d ''service'' = JStr t"
    using resolution_written [OF assms(2)] by blast
  have "settles DltServiceResolution (JObj d) (JObj e)" using assms(2) e(1) by (simp add: settles_def)
  then show ?thesis
    unfolding DltPacket_def using assms(1) e
    by (intro settles_Block) (auto simp: packet_doc_def)
qed

lemma replay_settles:
  assumes "rb_attempted r \<longleftrightarrow> rb_attempt r \<noteq> None"
  shows "settles DltReplay (JObj (replay_doc ph r)) (JObj (replay_doc ph r)) \<and> replay_rule (replay_doc ph r)"
proof -
  have "settles DltReplayArgs (JObj (replay_args_doc a)) (JObj (replay_args_doc a))" for a
    unfolding DltReplayArgs_def by (intro settles_Block) (simp_all add: replay_args_doc_def)
  then have "settles DltReplay (JObj (replay_doc ph r)) (JObj (replay_doc ph r))"
    unfolding DltReplay_def by (intro settles_Block) (simp_all add: replay_doc_def split: option.split)
  then show ?thesis using assms by (simp add: replay_rule_def replay_doc_def split: option.split)
qed

definition park_is_versioned :: "park_result \<Rightarrow> bool" where
  "park_is_versioned p \<longleftrightarrow>
     (case pk_reason p of
        Waiting_for v \<Rightarrow> pk_parked p
      | Already_waiting v \<Rightarrow> pk_parked p \<and> (v = JNull \<or> (\<exists>t. v = JStr t))
      | _ \<Rightarrow> \<not> pk_parked p)"

lemma park_settles:
  assumes "park_is_versioned p"
  shows "settles DltParked (JObj (park_doc ph p)) (JObj (park_doc ph p)) \<and> parked_rule (park_doc ph p)"
proof -
  have "settles DltParked (JObj (park_doc ph p)) (JObj (park_doc ph p))"
    unfolding DltParked_def using assms
    by (intro settles_Block) (cases "pk_reason p"; auto simp: park_doc_def park_is_versioned_def)+
  then show ?thesis using assms by (cases "pk_reason p") (auto simp: parked_rule_def park_doc_def park_is_versioned_def)
qed

lemma provenance_settles:
  assumes "cp_source p \<in> set FINDING_SOURCES" and "cp_group_state p \<in> set GROUP_STATES"
    and "cp_recommendation_state p = JStr st" "st \<in> set RECOMMENDATION_STATES"
    and "cp_single_flight p = None \<or> the (cp_single_flight p) \<in> set SINGLE_FLIGHT_OUTCOMES"
    and "conforms (Maybe Whole) (jget (case cp_group p of None \<Rightarrow> [] | Some g \<Rightarrow> g) ''occurrence_count'')"
  shows "settles DltProvenance (JObj (provenance_doc ph reg p)) (JObj (provenance_doc ph reg p))"
proof -
  have pack: "settles DltServicePack (JObj [(''service'', jopt a), (''sha256'', jopt b)]) (JObj [(''service'', jopt a), (''sha256'', jopt b)])"
    for a b unfolding DltServicePack_def by (intro settles_Block) simp_all
  have "decision_value (ru_decision (cp_decision p)) \<in> set REUSE_DECISIONS"
    by (cases "ru_decision (cp_decision p)") (simp_all add: REUSE_DECISIONS_def)
  moreover have "settles (Maybe Whole) (jget (case cp_group p of None \<Rightarrow> [] | Some g \<Rightarrow> g) ''occurrence_count'')
      (jget (case cp_group p of None \<Rightarrow> [] | Some g \<Rightarrow> g) ''occurrence_count'')"
    using assms(6) by (simp add: settles_def)
  moreover have "settles (Maybe (One_of SINGLE_FLIGHT_OUTCOMES)) (jopt (cp_single_flight p)) (jopt (cp_single_flight p))"
    using assms(5) by (cases "cp_single_flight p") (simp_all add: jopt_def)
  ultimately show ?thesis
    unfolding DltProvenance_def using assms(1-4) pack
    by (intro settles_Block) (simp_all add: provenance_doc_def del: settles_Maybe)
qed

definition canonical :: "case_parts \<Rightarrow> case_parts" where
  "canonical p = p\<lparr>cp_resolution := json_obj (written DltServiceResolution (JObj (cp_resolution p)))\<rparr>"

lemma casebook_settles:
  assumes "settles DltPacket (JObj (packet_doc (cp_message p) (cp_resolution p))) (JObj (packet_doc (cp_message p) (cp_resolution (canonical p))))"
    and "settles DltFailure (JObj (failure_doc ph (cp_failure p))) (JObj (failure_doc ph (cp_failure p)))"
    and "settles DltEvidence (JObj (evidence_doc ph (cp_corroboration p) (cp_log_window p) (cp_gaps p)))
      (JObj (evidence_doc ph (cp_corroboration p) (cp_log_window p) (cp_gaps p)))"
    and "settles DltCasebookFinding (JObj (finding_doc (cp_finding p) (cp_per_code p) (cp_parse_error p)))
      (JObj (finding_doc (cp_finding p) (cp_per_code p) (cp_parse_error p)))"
    and "settles DltConfidence (JObj (confidence_doc (cp_finding p))) (JObj (confidence_doc (cp_finding p)))"
    and "settles DltProvenance (JObj (provenance_doc ph reg p)) (JObj (provenance_doc ph reg p))"
    and "settles DltReplay (JObj (replay_doc ph (cp_replay p))) (JObj (replay_doc ph (cp_replay p)))"
    and "settles DltParked (JObj (park_doc ph (cp_park p))) (JObj (park_doc ph (cp_park p)))"
  shows "settles DltCasebook (JObj (casebook ph reg p)) (JObj (casebook ph reg (canonical p)))"
proof -
  have status: "settles (Block False [(''status'', Required, One_of ANALYSED_STATUSES)])
      (JObj [(''status'', JStr (case_terminal_status (cp_finding p)))]) (JObj [(''status'', JStr (case_terminal_status (cp_finding p)))])"
    by (intro settles_Block) (simp_all add: case_terminal_status_def ANALYSED_STATUSES_def)
  have same: "cp_message (canonical p) = cp_message p" "cp_now (canonical p) = cp_now p" "cp_headers (canonical p) = cp_headers p"
    "cp_failure (canonical p) = cp_failure p" "cp_corroboration (canonical p) = cp_corroboration p"
    "cp_log_window (canonical p) = cp_log_window p" "cp_gaps (canonical p) = cp_gaps p" "cp_finding (canonical p) = cp_finding p"
    "cp_per_code (canonical p) = cp_per_code p" "cp_parse_error (canonical p) = cp_parse_error p" "cp_replay (canonical p) = cp_replay p"
    "cp_park (canonical p) = cp_park p" "cp_code_check (canonical p) = cp_code_check p"
    "provenance_doc ph reg (canonical p) = provenance_doc ph reg p"
    by (simp_all add: canonical_def provenance_doc_def)
  show ?thesis
    unfolding DltCasebook_def using assms status code_check_settles [of ph "cp_code_check p"] source_settles [of "cp_headers p"]
    by (intro settles_Block) (simp_all add: casebook_def same)
qed

text \<open>What the parts of an analysed case must be for its casebook to be accepted.\<close>

definition parts_ok :: "case_parts \<Rightarrow> bool" where
  "parts_ok p \<longleftrightarrow>
     dm_ref_id_source (cp_message p) \<in> set REF_ID_SOURCES \<and>
     conforms DltServiceResolution (JObj (cp_resolution p)) \<and>
     fr_failure_class (cp_failure p) \<in> set FAILURE_CLASSES \<and> conforms Hex64 (JStr (fr_fingerprint (cp_failure p))) \<and>
     length (co_citations (cp_corroboration p)) \<le> 20 \<and>
     conforms (Many (One_of EVIDENCE_GAPS)) (cp_gaps p) \<and> conforms (Maybe Str) (cp_log_window p) \<and>
     valid_finding (cp_finding p) \<and> set (fi_ceilings_applied (cp_finding p)) \<subseteq> set CEILINGS \<and>
     cp_source p \<in> set FINDING_SOURCES \<and> cp_group_state p \<in> set GROUP_STATES \<and>
     conforms (One_of RECOMMENDATION_STATES) (cp_recommendation_state p) \<and>
     conforms (Maybe (One_of SINGLE_FLIGHT_OUTCOMES)) (jopt (cp_single_flight p)) \<and>
     conforms (Maybe Whole) (jget (case cp_group p of None \<Rightarrow> [] | Some g \<Rightarrow> g) ''occurrence_count'') \<and>
     (rb_attempted (cp_replay p) \<longleftrightarrow> rb_attempt (cp_replay p) \<noteq> None) \<and> park_is_versioned (cp_park p) \<and>
     cp_per_code p \<in> {None, Some (per_code_check (cp_finding p))} \<and>
     (cp_source p = ''agent'' \<longrightarrow> cp_per_code p \<noteq> None) \<and>
     (cp_source p = ''failed_synthesis'' \<longrightarrow> cp_parse_error p \<noteq> None \<and> cp_parse_error p \<noteq> Some [])"

lemma per_code_names:
  "v \<in> set (per_code_check f) \<Longrightarrow> vi_pattern v \<in> set PER_CODE_PATTERNS \<and> vi_field v \<in> set PER_CODE_FIELDS"
  by (auto simp: per_code_check_def cached_texts_def violations_in_def PATTERNS_def PER_CODE_PATTERNS_def PER_CODE_FIELDS_def)

lemma conforms_One_of: "conforms (One_of ts) v \<longleftrightarrow> (\<exists>t. v = JStr t \<and> t \<in> set ts)"
  by (cases v) simp_all

lemma finding_doc_keys:
  "jget (finding_doc f pc err) ''per_code_violations'' = (case pc of None \<Rightarrow> JNull | Some vs \<Rightarrow> JArr (map (JObj \<circ> violation_doc) vs))"
  "jget (finding_doc f pc err) ''parse_error'' = (if err = None \<or> err = Some [] then JNull else jopt err)"
  by (simp_all add: finding_doc_def split: option.split)

lemma casebook_accepted:
  assumes "parts_ok p"
  shows "check_dlt_casebook env (casebook ph reg p) = Inr (casebook ph reg (canonical p))"
proof -
  note ok = assms [unfolded parts_ok_def]
  obtain st where st: "cp_recommendation_state p = JStr st" "st \<in> set RECOMMENDATION_STATES"
    using ok by (auto split: json.splits)
  obtain gs where gs: "cp_gaps p = jtexts gs" "set gs \<subseteq> set EVIDENCE_GAPS"
  proof -
    obtain vs where vs: "cp_gaps p = JArr vs" "list_all (conforms (One_of EVIDENCE_GAPS)) vs"
      using ok by (auto split: json.splits)
    have "\<forall>v\<in>set vs. \<exists>t. v = JStr t \<and> t \<in> set EVIDENCE_GAPS" using vs(2) conforms_One_of by (simp add: list_all_iff del: conforms.simps)
    then have "vs = map JStr (map (\<lambda>v. the (json_str v)) vs)" by (induction vs) auto
    moreover have "set (map (\<lambda>v. the (json_str v)) vs) \<subseteq> set EVIDENCE_GAPS"
      using \<open>\<forall>v\<in>set vs. \<exists>t. v = JStr t \<and> t \<in> set EVIDENCE_GAPS\<close> by auto
    ultimately show ?thesis using that vs(1) by (metis jtexts_def)
  qed
  have window: "cp_log_window p = JNull \<or> (\<exists>t. cp_log_window p = JStr t)" using ok by (auto split: json.splits)
  have flight: "cp_single_flight p = None \<or> the (cp_single_flight p) \<in> set SINGLE_FLIGHT_OUTCOMES"
    using ok by (auto simp: jopt_def split: option.splits)
  have pc: "cp_per_code p = Some vs \<Longrightarrow> \<forall>v\<in>set vs. vi_pattern v \<in> set PER_CODE_PATTERNS \<and> vi_field v \<in> set PER_CODE_FIELDS" for vs
    using ok per_code_names by auto
  have settled: "settles DltCasebook (JObj (casebook ph reg p)) (JObj (casebook ph reg (canonical p)))"
  proof (rule casebook_settles)
    show "settles DltPacket (JObj (packet_doc (cp_message p) (cp_resolution p)))
        (JObj (packet_doc (cp_message p) (cp_resolution (canonical p))))"
      using ok packet_settles [of "cp_message p" "cp_resolution p"] by (simp add: canonical_def del: conforms.simps)
    show "settles DltFailure (JObj (failure_doc ph (cp_failure p))) (JObj (failure_doc ph (cp_failure p)))"
      by (rule failure_settles) (use ok in simp_all)
    show "settles DltEvidence (JObj (evidence_doc ph (cp_corroboration p) (cp_log_window p) (cp_gaps p)))
        (JObj (evidence_doc ph (cp_corroboration p) (cp_log_window p) (cp_gaps p)))"
      using ok by (intro evidence_settles [OF _ gs window]) blast
    show "settles DltCasebookFinding (JObj (finding_doc (cp_finding p) (cp_per_code p) (cp_parse_error p)))
        (JObj (finding_doc (cp_finding p) (cp_per_code p) (cp_parse_error p)))"
      using ok by (intro finding_settles [OF _ pc]) blast+
    show "settles DltConfidence (JObj (confidence_doc (cp_finding p))) (JObj (confidence_doc (cp_finding p)))"
      using ok by (intro confidence_settles) blast+
    show "settles DltProvenance (JObj (provenance_doc ph reg p)) (JObj (provenance_doc ph reg p))"
      using ok by (intro provenance_settles [OF _ _ st flight]) blast+
    show "settles DltReplay (JObj (replay_doc ph (cp_replay p))) (JObj (replay_doc ph (cp_replay p)))"
      using ok replay_settles [of "cp_replay p" ph] by blast
    show "settles DltParked (JObj (park_doc ph (cp_park p))) (JObj (park_doc ph (cp_park p)))"
      using ok park_settles [of "cp_park p" ph] by blast
  qed
  have parts: "jget (casebook ph reg p) ''replay'' = JObj (replay_doc ph (cp_replay p))"
    "jget (casebook ph reg p) ''parked'' = JObj (park_doc ph (cp_park p))"
    "jget (casebook ph reg p) ''provenance'' = JObj (provenance_doc ph reg p)"
    "jget (casebook ph reg p) ''finding'' = JObj (finding_doc (cp_finding p) (cp_per_code p) (cp_parse_error p))"
    by (simp_all add: casebook_def)
  have "jget (provenance_doc ph reg p) ''source'' = JStr (cp_source p)" by (simp add: provenance_doc_def)
  moreover have "cp_source p = ''agent'' \<longrightarrow> cp_per_code p \<noteq> None"
    and "cp_source p = ''failed_synthesis'' \<longrightarrow> cp_parse_error p \<noteq> None \<and> cp_parse_error p \<noteq> Some []"
    using ok by blast+
  ultimately have "source_rule (provenance_doc ph reg p) (finding_doc (cp_finding p) (cp_per_code p) (cp_parse_error p))"
    by (cases "cp_per_code p"; cases "cp_parse_error p") (auto simp: source_rule_def finding_doc_keys)
  moreover have "replay_rule (replay_doc ph (cp_replay p))" "parked_rule (park_doc ph (cp_park p))"
    using ok replay_settles [of "cp_replay p" ph] park_settles [of "cp_park p" ph] by blast+
  ultimately have "casebook_rules (casebook ph reg p)" by (simp add: casebook_rules_def parts)
  moreover have "sub_get (casebook ph reg p) ''packet_status'' ''status'' = Inr (JStr (case_terminal_status (cp_finding p)))"
    by (simp add: sub_get_def casebook_def py_or_def)
  ultimately show ?thesis
    using settled by (simp add: check_dlt_casebook_def checked_def settles_def case_terminal_status_def)
qed

lemma timeout_accepted:
  "check_dlt_casebook env (timeout_casebook now case_id ref_id narrative) = Inr (timeout_casebook now case_id ref_id narrative)"
proof -
  let ?d = "timeout_casebook now case_id ref_id narrative"
  have f: "settles (Block False [(''narrative'', Required, Str), (''recommendation'', Required, Str),
      (''action'', Required, One_of [''NEEDS_MANUAL_REVIEW''])]) (jget ?d ''finding'') (jget ?d ''finding'')"
    by (simp add: timeout_casebook_def, intro settles_Block) simp_all
  have r: "settles (Block False [opt_text ''ref_id'']) (jget ?d ''packet'') (jget ?d ''packet'')"
    by (simp add: timeout_casebook_def, intro settles_Block) simp_all
  have s: "settles (Block False [(''status'', Required, One_of [''FAILED_TIMEOUT''])]) (jget ?d ''packet_status'') (jget ?d ''packet_status'')"
    by (simp add: timeout_casebook_def, intro settles_Block) simp_all
  have "settles DltTimeoutRecord (JObj ?d) (JObj ?d)"
    unfolding DltTimeoutRecord_def using f r s by (intro settles_Block) (simp_all add: timeout_casebook_def)
  moreover have "sub_get ?d ''packet_status'' ''status'' = Inr (JStr ''FAILED_TIMEOUT'')"
    by (simp add: sub_get_def timeout_casebook_def py_or_def)
  ultimately show ?thesis by (simp add: check_dlt_casebook_def checked_def settles_def)
qed


section \<open>The parts the program produces\<close>

lemma finding_reads_back: "valid_finding f \<Longrightarrow> finding_of (JObj (dump_finding f)) = Inr f"
  by (cases f)
    (auto simp: finding_of_def dump_finding_def jget_default_def optional_def unit_number_def lax_number_def lax_flag_def
      jopt_def jflag_def jtexts_def valid_finding_def map_filter_def comp_def split: option.splits)

lemma cap_labels [simp]:
  "set (snd (cap v l st)) = insert l (set (snd st))" "set (snd (label_only l st)) = insert l (set (snd st))"
  by (simp_all add: cap_def label_only_def split: prod.split)

lemma known_labels:
  "{''class_b'', ''class_u'', ''unverifiable'', ''logs_unavailable'', ''logs_silent'', ''contradicted'', ''registry_miss'',
     ''unreviewed'', ''evidence_gap'', ''reuse_decay''} = set CEILINGS"
  by (simp add: CEILINGS_def)

lemma cap_steps_labels:
  assumes "set (snd st) \<subseteq> set CEILINGS"
  shows "set (snd (cap_corroboration env ev st)) \<subseteq> set CEILINGS" "set (snd (cap_registry env ev st)) \<subseteq> set CEILINGS"
    "set (snd (cap_review env f st)) \<subseteq> set CEILINGS" "set (snd (cap_gaps env ev st)) \<subseteq> set CEILINGS"
  using assms
  by (simp_all add: cap_corroboration_def cap_registry_def cap_review_def cap_gaps_def UNVERIFIABLE_LABEL_def UNREVIEWED_LABEL_def
      known_labels [symmetric] split: option.split bool.split)

lemma policy_labels:
  assumes "ev_failure_class ev \<in> set FAILURE_CLASSES"
  shows "set (fi_ceilings_applied (apply_dlt_confidence_policy env f ev)) \<subseteq> set CEILINGS"
proof -
  have "''class_'' @ py_lower ''B'' = ''class_b''" "''class_'' @ py_lower ''U'' = ''class_u''" by code_simp+
  then have "set (snd (cap_class env ev (1, []))) \<subseteq> set CEILINGS"
    by (auto simp: cap_class_def known_labels [symmetric])
  then have "set (snd (ceilings env f ev)) \<subseteq> set CEILINGS" unfolding ceilings_def by (intro cap_steps_labels)
  moreover have "''reuse_decay'' \<in> set CEILINGS" by (simp add: CEILINGS_def)
  ultimately show ?thesis by (simp add: policy_fields)
qed

lemma class_value_known: "class_value c \<in> set FAILURE_CLASSES"
  by (cases c) (simp_all add: FAILURE_CLASSES_def)

lemma replay_block_consistent:
  "maybe_replay env q ref_id f cc w = (Inr r, w') \<Longrightarrow> rb_attempted r \<longleftrightarrow> rb_attempt r \<noteq> None"
  by (auto simp: maybe_replay_def Let_def bindM_def ret_def split: prod.splits sum.splits if_splits)

text \<open>An entry parked here carries its version as text.\<close>

definition version_is_text :: "doc \<Rightarrow> bool" where
  "version_is_text e \<longleftrightarrow> jget e ''required_version'' = JNull \<or> (\<exists>t. jget e ''required_version'' = JStr t)"

lemma already_parked_versioned: "version_is_text e \<Longrightarrow> park_is_versioned (already_parked e)"
  by (auto simp: already_parked_def park_is_versioned_def refuse_def version_is_text_def)

lemma refuse_versioned [simp]:
  "park_is_versioned (refuse Parking_off)" "park_is_versioned (refuse No_ref_id_to_replay)"
  "park_is_versioned (refuse Not_going_to_be_replayed)" "park_is_versioned (refuse No_version_named)"
  "park_is_versioned (refuse Unusable_case_id)" "park_is_versioned (refuse (At_cap n))" "park_is_versioned (refuse (Park_raised e))"
  by (simp_all add: park_is_versioned_def refuse_def)

lemma park_versioned:
  assumes "\<And>t r t'. load_entry sto case_id t = (Inr (Some r), t') \<Longrightarrow> version_is_text r"
    and "park env now sto case_id ref_id c f s = (Inr p, s')"
  shows "park_is_versioned p"
proof -
  have new: "version_is_text (parked_entry now case_id r v c f)" for r v by (simp add: version_is_text_def parked_entry_def)
  show ?thesis
    using assms(2)
    by (auto simp: park_def Let_def bindM_def ret_def park_is_versioned_def [of "\<lparr>pk_parked = True, pk_reason = Waiting_for v\<rparr>" for v]
        intro: already_parked_versioned new assms(1)
        split: option.splits if_splits prod.splits sum.splits bool.splits)
qed

lemma maybe_park_versioned:
  assumes "\<And>t r t'. load_entry sto case_id t = (Inr (Some r), t') \<Longrightarrow> version_is_text r"
    and "maybe_park env now sto case_id ref_id cc f s = (Inr p, s')"
  shows "park_is_versioned p"
  using assms(2) park_versioned [OF assms(1)]
  by (auto simp: maybe_park_def ret_def split: if_splits option.splits)

lemma never_both:
  assumes "maybe_replay env q ref_id f (Some c) w = (Inr r, w')" and "maybe_park env now sto case_id ref_id (Some c) f s = (Inr p, s')"
  shows "\<not> (rb_attempted r \<and> pk_parked p)"
proof
  assume both: "rb_attempted r \<and> pk_parked p"
  then have "rd_should_replay (decide_replay env f ref_id (Some c))"
    using assms(1) by (auto simp: maybe_replay_def Let_def ret_def split: if_splits)
  then have "code_check_veto env (Some c) = None" by (simp add: decide_replay_iff)
  moreover have "would_replay_but_for_the_version env f ref_id (Some c)"
    using assms(2) both by (auto simp: maybe_park_def ret_def refuse_def split: if_splits)
  ultimately show False by (auto simp: would_replay_but_for_the_version_def code_check_veto_def split: if_splits)
qed

end
