(* ===== verification/Dlt_Lane.thy ===== *)
theory Dlt_Lane
  imports Dlt_Casebook Deployed Dlt_Claims Dlt_Analysis Code_Check
begin

text \<open>
  What the two request handlers of the dead-letter lane share, and the first, \<^verbatim>\<open>fetch_dlt_logs\<close>, of
  \<^verbatim>\<open>src/api/dlt_routes.py\<close>, with \<^verbatim>\<open>load_or_resolve\<close> and \<^verbatim>\<open>persist\<close> of \<^verbatim>\<open>src/utils/service_registry.py\<close>.

  A \<open>lane\<close> holds what the handlers are given: the stores, the settings, the registry and the services outside
  the program. Their state is a \<open>lane_state\<close>: the group store's process with the store all backends share, the
  source reader, and the world. An awaited call lets other requests run first; \<open>la_meanwhile\<close> is what they do
  to the state at that point. The reason-code catalog and the registry are the ones loaded when a request starts.
\<close>

section \<open>The lane\<close>

record 's artifacts =
  ar_save :: "string \<Rightarrow> string \<Rightarrow> string \<Rightarrow> ('s, unit) io"
  ar_load :: "string \<Rightarrow> string \<Rightarrow> ('s, string option) io"
  ar_exists :: "string \<Rightarrow> string \<Rightarrow> ('s, bool) io"

datatype await =
    At_terminal_check | At_holder | At_resolution | At_logs | At_occurrence | At_group | At_baseline | At_running
  | At_code_check | At_attach_check | At_gate | At_reread | At_run | At_attach | At_replay | At_park | At_last_look
  | At_save | At_timeout

text \<open>What a run of the agents is given.\<close>

record run_input =
  ri_key :: string
  ri_failure :: failure
  ri_corroboration :: corroboration
  ri_logs :: string
  ri_payload_summary :: "string option"
  ri_resolution :: "doc option"
  ri_pack :: "string option"

record ('s, 'r, 'w) lane_state =
  ls_groups :: "'s group_proc"
  ls_reader :: 'r
  ls_world :: 'w

record ('s, 'r, 'w) lane =
  la_env :: env
  la_cases :: "'s storage"
  la_artifacts :: "'s artifacts"
  la_claims :: "'s storage"
  la_groups :: "'s storage"
  la_parked :: "'s storage"
  la_reader :: "'r reader"
  la_pattern :: "pattern option"
  la_digest :: "string \<Rightarrow> string"
  la_parse :: "string \<Rightarrow> json option"
  la_print :: "bool \<Rightarrow> json \<Rightarrow> string"
  la_catalog :: catalog
  la_registry :: registry
  la_index :: evidence_index
  la_redact :: "string list \<Rightarrow> string \<Rightarrow> string"
  la_phrases :: phrases
  la_wording :: wording
  la_deployed_text :: "deployed_reason \<Rightarrow> string"
  la_window_text :: "log_window \<Rightarrow> string"
  la_error_text :: "exn \<Rightarrow> string"
  la_summarise :: "pvalue \<Rightarrow> string option \<Rightarrow> string option"
  la_reduce_logs :: "string \<Rightarrow> string \<Rightarrow> time_window \<Rightarrow> string option \<Rightarrow> ('w, string) io"
  la_deployed :: "string option \<Rightarrow> ('w, deployed) io"
  la_publish :: "(string \<times> pvalue) list \<Rightarrow> ('w, unit) io"
  la_gate :: "string \<Rightarrow> rat \<Rightarrow> ('w, bool \<times> bool) io"
  la_agents :: "run_input \<Rightarrow> 'w agents"
  la_overran :: "rat \<Rightarrow> 'w \<Rightarrow> bool"
  la_cleanup :: "string \<Rightarrow> ('w, unit) io"
  la_number :: "rat \<Rightarrow> string"
  la_tool :: "replay_args \<Rightarrow> ('w, string option) io"
  la_meanwhile :: "await \<Rightarrow> ('s, 'r, 'w) lane_state \<Rightarrow> ('s, 'r, 'w) lane_state"
  la_call :: "await \<Rightarrow> call"
  la_now_ms :: int
  la_spent :: "await \<Rightarrow> rat"
  la_unique :: string

definition ls_store :: "('s, 'r, 'w) lane_state \<Rightarrow> 's" where
  "ls_store st = gp_store (ls_groups st)"

definition in_groups :: "('s group_proc, 'a) io \<Rightarrow> (('s, 'r, 'w) lane_state, 'a) io" where
  "in_groups m st = (case m (ls_groups st) of (r, g) \<Rightarrow> (r, st\<lparr>ls_groups := g\<rparr>))"

definition in_cases :: "('s, 'a) io \<Rightarrow> (('s, 'r, 'w) lane_state, 'a) io" where
  "in_cases m = in_groups (on_store m)"

definition in_reader :: "('r, 'a) io \<Rightarrow> (('s, 'r, 'w) lane_state, 'a) io" where
  "in_reader m st = (case m (ls_reader st) of (r, s) \<Rightarrow> (r, st\<lparr>ls_reader := s\<rparr>))"

definition outside :: "('w, 'a) io \<Rightarrow> (('s, 'r, 'w) lane_state, 'a) io" where
  "outside m st = (case m (ls_world st) of (r, w) \<Rightarrow> (r, st\<lparr>ls_world := w\<rparr>))"

text \<open>\<^verbatim>\<open>await _off_loop(...)\<close>: the others run, then the call.\<close>

definition others_run :: "('s, 'r, 'w) lane \<Rightarrow> await \<Rightarrow> ('s, 'r, 'w) lane_state \<Rightarrow> ('s, 'r, 'w) lane_state" where
  "others_run la a st = la_meanwhile la a st"

definition off_loop ::
    "('s, 'r, 'w) lane \<Rightarrow> await \<Rightarrow> (('s, 'r, 'w) lane_state, 'a) io \<Rightarrow> (('s, 'r, 'w) lane_state, 'a) io" where
  "off_loop la a m st = m (others_run la a st)"

datatype response =
    Already_processed json
  | Skipped "gate_skip option" json
  | Queued string "string list" "string list" json
  | Ran_out_of_time
  | Processed finding corroboration reuse_decision code_check replay_block park_result


section \<open>What both stages derive\<close>

definition HEADERS_ARTIFACT :: string where "HEADERS_ARTIFACT = ''headers.json''"
definition TRACE_ARTIFACT :: string where "TRACE_ARTIFACT = ''trace.txt''"
definition PARSED_TRACE_ARTIFACT :: string where "PARSED_TRACE_ARTIFACT = ''parsed_trace.json''"
definition PAYLOAD_SUMMARY_ARTIFACT :: string where "PAYLOAD_SUMMARY_ARTIFACT = ''payload_summary.txt''"
definition FETCHED_LOGS_ARTIFACT :: string where "FETCHED_LOGS_ARTIFACT = ''fetched_logs.txt''"
definition DEPLOYED_ARTIFACT :: string where "DEPLOYED_ARTIFACT = ''deployed.json''"
definition RESOLUTION_ARTIFACT :: string where "RESOLUTION_ARTIFACT = ''service_resolution.json''"

definition case_key :: "('s, 'r, 'w) lane \<Rightarrow> dlt_message \<Rightarrow> string" where
  "case_key la m = storage_key (la_digest la) (dm_ref_id m) (dm_case_id m)"

definition delivery_of :: "dlt_message \<Rightarrow> string" where
  "delivery_of m = (case dm_ref_id m of None \<Rightarrow> dm_case_id m | Some r \<Rightarrow> if r = [] then dm_case_id m else r)"

definition headers_of :: "dlt_message \<Rightarrow> dlt_headers" where
  "headers_of m = parse_headers (dm_headers m)"

definition failure_of :: "('s, 'r, 'w) lane \<Rightarrow> dlt_message \<Rightarrow> failure" where
  "failure_of la m = build_failure (la_digest la) (la_parse la) (la_env la) (la_catalog la) (headers_of m)"

definition allowlist_of :: "dlt_message \<Rightarrow> string list" where
  "allowlist_of m = filter (\<lambda>v. v \<noteq> []) [case dm_ref_id m of None \<Rightarrow> [] | Some r \<Rightarrow> r, dm_case_id m]"

definition is_terminal :: "string option \<Rightarrow> bool" where
  "is_terminal status \<longleftrightarrow> (case status of None \<Rightarrow> False | Some t \<Rightarrow> t \<in> set TERMINAL_STATUSES)"

definition stored_resolution :: "(string \<Rightarrow> json option) \<Rightarrow> string option \<Rightarrow> doc option" where
  "stored_resolution of_text raw =
     (case raw of
        None \<Rightarrow> None
      | Some t \<Rightarrow>
          if t = [] then None
          else (case of_text t of
                  Some (JObj d) \<Rightarrow>
                    (case jget d ''service'' of JStr s \<Rightarrow> if s = [] then None else Some d | _ \<Rightarrow> None)
                | _ \<Rightarrow> None))"

definition load_or_resolve ::
    "'s artifacts \<Rightarrow> (string \<Rightarrow> json option) \<Rightarrow> string \<Rightarrow> exn + Services.resolution \<Rightarrow> ('s, doc \<times> bool) io" where
  "load_or_resolve arts of_text key resolver =
     bindM (catchM (ar_load arts key RESOLUTION_ARTIFACT) (\<lambda>_. ret None)) (\<lambda>raw.
       case stored_resolution of_text raw of
         Some d \<Rightarrow> ret (d, False)
       | None \<Rightarrow> bindM (of_result resolver) (\<lambda>r. ret (resolution_doc r, True)))"

definition persist_resolution :: "'s artifacts \<Rightarrow> (bool \<Rightarrow> json \<Rightarrow> string) \<Rightarrow> string \<Rightarrow> doc \<Rightarrow> ('s, bool) io" where
  "persist_resolution arts to_text key d =
     catchM (bindM (ar_save arts key RESOLUTION_ARTIFACT (to_text True (JObj d))) (\<lambda>_. ret True)) (\<lambda>_. ret False)"

definition resolve_service_of :: "('s, 'r, 'w) lane \<Rightarrow> dlt_message \<Rightarrow> ('s, doc \<times> bool) io" where
  "resolve_service_of la m =
     (let h = headers_of m; f = failure_of la m
      in load_or_resolve (la_artifacts la) (la_parse la) (case_key la m)
           (resolve_dlt (la_index la) (la_registry la) (dm_payload m) (hd_consumer_group h) (hd_original_topic h)
              (fr_frames f) (fr_business_code f)))"

definition service_of :: "doc \<Rightarrow> string option" where
  "service_of d = json_str (jget d ''service'')"

definition gate_of :: "('s, 'r, 'w) lane \<Rightarrow> doc \<Rightarrow> gate_decision" where
  "gate_of la d = dlt_gate (la_env la) (la_registry la) (service_of d)"

definition pack_of :: "('s, 'r, 'w) lane \<Rightarrow> doc \<Rightarrow> string option" where
  "pack_of la d = dlt_pack_for (la_env la) (la_registry la) (service_of d)"

definition log_service_of :: "('s, 'r, 'w) lane \<Rightarrow> doc \<Rightarrow> string option" where
  "log_service_of la d = service_to_search (service_of d) (pack_of la d)"

definition final_failure :: "('s, 'r, 'w) lane \<Rightarrow> dlt_message \<Rightarrow> doc \<Rightarrow> failure" where
  "final_failure la m d =
     fingerprinted (la_digest la) (la_env la) (fingerprint_service (la_registry la) (service_of d)) (failure_of la m)"

text \<open>The failure record as it is stored.\<close>

definition location_doc :: "frame_location \<Rightarrow> json" where
  "location_doc l =
     JObj [(''target'', JStr (fl_target l)), (''file'', jopt (fl_file l)), (''line'', jnum (fl_line l))]"

definition link_doc :: "exception_link \<Rightarrow> json" where
  "link_doc l = JObj [(''fqcn'', JStr (el_fqcn l)), (''message'', JStr (el_message l)), (''frames'', jtexts (el_frames l))]"

definition failure_json :: "phrases \<Rightarrow> failure \<Rightarrow> json" where
  "failure_json ph f = JObj
     [(''failure_class'', JStr (fr_failure_class f)), (''class_reason'', JStr (ph_class ph (fr_class_reason f))),
      (''root_fqcn'', jopt (fr_root_fqcn f)), (''root_message'', JStr (fr_root_message f)),
      (''business_code'', jopt (fr_business_code f)), (''registry_description'', jopt (fr_registry_description f)),
      (''registry_category'', jopt (fr_registry_category f)),
      (''registry_category_source'', jopt (fr_registry_category_source f)), (''registry_stage'', jopt (fr_registry_stage f)),
      (''origin_topic'', jopt (fr_origin_topic f)), (''type_id'', jopt (fr_type_id f)),
      (''fingerprint'', JStr (fr_fingerprint f)), (''signature'', JStr (fr_signature f)), (''frames'', jtexts (fr_frames f)),
      (''locations'', JArr (map location_doc (fr_locations f))), (''truncated'', JBool (fr_truncated f)),
      (''chain'', JArr (map link_doc (fr_chain f))), (''fingerprint_service'', jopt (fr_fingerprint_service f))]"


section \<open>The fetch stage\<close>

definition redacted_headers :: "('s, 'r, 'w) lane \<Rightarrow> dlt_message \<Rightarrow> json" where
  "redacted_headers la m =
     JObj (map (\<lambda>(k, v). (k, case v of None \<Rightarrow> JNull | Some t \<Rightarrow> JStr (la_redact la (allowlist_of m) t))) (dm_headers m))"

definition raw_trace :: "dlt_message \<Rightarrow> string" where
  "raw_trace m = (case header (dm_headers m) ''kafka_exception-stacktrace'' of None \<Rightarrow> [] | Some t \<Rightarrow> t)"

definition payload_summary :: "('s, 'r, 'w) lane \<Rightarrow> dlt_message \<Rightarrow> string option" where
  "payload_summary la m = la_summarise la (dm_payload m) (header (dm_headers m) ''__TypeId__'')"

definition persist_evidence :: "('s, 'r, 'w) lane \<Rightarrow> dlt_message \<Rightarrow> failure \<Rightarrow> ('s, unit) io" where
  "persist_evidence la m f =
     (let save = ar_save (la_artifacts la) (case_key la m); redact = la_redact la (allowlist_of m) in
      bindM (save HEADERS_ARTIFACT (la_print la False (redacted_headers la m))) (\<lambda>_.
      bindM (save TRACE_ARTIFACT (redact (raw_trace m))) (\<lambda>_.
      bindM (save PARSED_TRACE_ARTIFACT (redact (la_print la False (failure_json (la_phrases la) f)))) (\<lambda>_.
        case payload_summary la m of
          None \<Rightarrow> ret ()
        | Some t \<Rightarrow> if t = [] then ret () else save PAYLOAD_SUMMARY_ARTIFACT (redact t)))))"

definition log_window_of :: "('s, 'r, 'w) lane \<Rightarrow> dlt_message \<Rightarrow> log_window option" where
  "log_window_of la m = derive_window (la_env la) (headers_of m) (la_now_ms la)"

definition no_ref_id :: "dlt_message \<Rightarrow> bool" where
  "no_ref_id m \<longleftrightarrow> dm_ref_id m = None \<or> dm_ref_id m = Some []"

definition save_logs :: "('s, 'r, 'w) lane \<Rightarrow> dlt_message \<Rightarrow> string \<Rightarrow> (('s, 'r, 'w) lane_state, unit) io" where
  "save_logs la m t = in_cases (ar_save (la_artifacts la) (case_key la m) FETCHED_LOGS_ARTIFACT t)"

definition fetch_logs ::
    "('s, 'r, 'w) lane \<Rightarrow> dlt_message \<Rightarrow> string option \<Rightarrow> (('s, 'r, 'w) lane_state, string list) io" where
  "fetch_logs la m log_service =
     bindM (in_cases (ar_exists (la_artifacts la) (case_key la m) FETCHED_LOGS_ARTIFACT)) (\<lambda>there.
       if there then ret []
       else if no_ref_id m
       then bindM (save_logs la m ''No refId available; logs were not fetched.'') (\<lambda>_. ret [''NO_CORRELATION_ID''])
       else (case log_window_of la m of
               None \<Rightarrow>
                 bindM (save_logs la m ''No usable timestamp; logs were not fetched.'') (\<lambda>_. ret [''NO_TIMESTAMP''])
             | Some w \<Rightarrow>
                 if lw_too_old w
                 then bindM (save_logs la m (''Log window too old to fetch: '' @ la_window_text la w)) (\<lambda>_. ret [''LOGS_TOO_OLD''])
                 else catchM
                        (bindM (outside (la_reduce_logs la (the (dm_ref_id m)) (dm_case_id m)
                                  (to_time_window (la_env la) w (la_now_ms la)) log_service)) (\<lambda>formatted.
                         bindM (save_logs la m formatted) (\<lambda>_. ret [])))
                        (\<lambda>e. bindM (save_logs la m (''Log fetch failed: '' @ la_error_text la e)) (\<lambda>_. ret [''LOG_FETCH_FAILED'']))))"

definition record_fetched :: "('s, 'r, 'w) lane \<Rightarrow> dlt_message \<Rightarrow> rat \<Rightarrow> ('s, unit) io" where
  "record_fetched la m now =
     bindM (st_load (la_cases la) (case_key la m) ''status.json'') (\<lambda>existing.
       case (case jget_default (case existing of None \<Rightarrow> [] | Some d \<Rightarrow> d) ''packet_status'' (JObj []) of
               JObj ps \<Rightarrow> Inr (jget ps ''status'') | _ \<Rightarrow> Inl AttributeError) of
         Inl e \<Rightarrow> raise e
       | Inr value \<Rightarrow>
           if value = JNull \<or> value = JStr LOGS_FETCHED_STATUS
           then st_save (la_cases la) (case_key la m)
                  [(''packet_metadata'', JObj [(''eid'', JStr (case_key la m)), (''ref_id'', jopt (dm_ref_id m)),
                     (''started_at'', JNum now)]),
                   (''packet_status'', JObj [(''status'', JStr LOGS_FETCHED_STATUS)])] ''status.json''
           else ret ())"

definition queue_body :: "('s, 'r, 'w) lane \<Rightarrow> dlt_message \<Rightarrow> string list \<Rightarrow> deployed \<Rightarrow> (string \<times> pvalue) list" where
  "queue_body la m gaps b =
     AList.update ''baseline_versions'' (PList (map PStr (dv_versions b)))
       (AList.update ''log_window'' (popt (map_option (la_window_text la) (log_window_of la m)))
         (AList.update ''evidence_gaps'' (PList (map PStr gaps)) (dump m)))"

text \<open>Everything up to the publication, once the record is claimed.\<close>

definition keep_evidence ::
    "('s, 'r, 'w) lane \<Rightarrow> dlt_message \<Rightarrow> doc \<Rightarrow> bool \<Rightarrow> (('s, 'r, 'w) lane_state, string list \<times> deployed) io" where
  "keep_evidence la m resolution fresh =
     bindM (in_cases (persist_evidence la m (final_failure la m resolution))) (\<lambda>_.
     bindM (if fresh then in_cases (persist_resolution (la_artifacts la) (la_print la) (case_key la m) resolution)
            else ret False) (\<lambda>_.
     bindM (fetch_logs la m (log_service_of la resolution)) (\<lambda>gaps.
     bindM (outside (la_deployed la (log_service_of la resolution))) (\<lambda>b.
     bindM (in_cases (ar_save (la_artifacts la) (case_key la m) DEPLOYED_ARTIFACT
                        (la_print la False (JObj (deployed_doc (la_deployed_text la) b))))) (\<lambda>_.
     bindM (in_cases (record_fetched la m (ca_now (la_call la At_save)))) (\<lambda>_.
       ret ((if dm_ref_id_mismatch m then [''REFID_KEY_PAYLOAD_MISMATCH''] else []) @ gaps, b)))))))"

definition fetch_dlt_logs :: "('s, 'r, 'w) lane \<Rightarrow> dlt_message \<Rightarrow> (('s, 'r, 'w) lane_state, response) io" where
  "fetch_dlt_logs la m =
     bindM (in_cases (terminal_status (la_cases la) (case_key la m) status_files)) (\<lambda>recorded.
       if is_terminal recorded then ret (Already_processed JNull)
       else bindM (in_cases (resolve_service_of la m)) (\<lambda>(resolution, fresh).
         if gd_skip (gate_of la resolution)
         then ret (Skipped (gd_reason (gate_of la resolution)) (jget resolution ''service''))
         else bindM (in_cases (claim_case (la_digest la) (la_env la) (ca_now (la_call la At_holder)) (la_claims la)
                       (la_cases la) (dm_case_id m) (delivery_of m))) (\<lambda>claim.
           if \<not> dc_won claim then ret (Already_processed (dc_holder_ref_id claim))
           else bindM (keep_evidence la m resolution fresh) (\<lambda>(gaps, b).
                bindM (outside (la_publish la (queue_body la m gaps b))) (\<lambda>_.
                  ret (Queued (fr_failure_class (final_failure la m resolution)) gaps (dv_versions b)
                         (jget resolution ''service'')))))))"


section \<open>What a step keeps and yields\<close>

text \<open>A condition on the state that every outcome of a step keeps, with a fact about each value it returns.\<close>

definition yields :: "('s \<Rightarrow> bool) \<Rightarrow> ('s, 'a) io \<Rightarrow> ('a \<Rightarrow> bool) \<Rightarrow> bool" where
  "yields P m F \<longleftrightarrow> (\<forall>s. P s \<longrightarrow> P (snd (m s)) \<and> (\<forall>a. fst (m s) = Inr a \<longrightarrow> F a))"

lemma yieldsD: "yields P m F \<Longrightarrow> P s \<Longrightarrow> m s = (r, t) \<Longrightarrow> P t \<and> (\<forall>a. r = Inr a \<longrightarrow> F a)"
  by (auto simp: yields_def dest: spec [of _ s])

lemma yields_ret: "F a \<Longrightarrow> yields P (ret a) F"
  by (simp add: yields_def)

lemma yields_raise [simp]: "yields P (raise e) F"
  by (simp add: yields_def)

lemma yields_of_result: "(\<And>a. r = Inr a \<Longrightarrow> F a) \<Longrightarrow> yields P (of_result r) F"
  by (cases r) (simp_all add: of_result_def yields_ret)

lemma yields_bind:
  assumes "yields P m G" and "\<And>a. G a \<Longrightarrow> yields P (f a) F"
  shows "yields P (bindM m f) F"
  unfolding yields_def
proof (intro allI impI)
  fix s assume s: "P s"
  obtain r t where m: "m s = (r, t)" by fastforce
  have t: "P t" "\<And>a. r = Inr a \<Longrightarrow> G a" using yieldsD [OF assms(1) s m] by auto
  show "P (snd (bindM m f s)) \<and> (\<forall>a. fst (bindM m f s) = Inr a \<longrightarrow> F a)"
  proof (cases r)
    case (Inl e)
    then show ?thesis using m t(1) by (simp add: bindM_def)
  next
    case (Inr a)
    obtain r' u where "f a t = (r', u)" by fastforce
    then show ?thesis using m Inr yieldsD [OF assms(2) [OF t(2) [OF Inr]] t(1)] by (simp add: bindM_def)
  qed
qed

lemma yields_catch:
  assumes "yields P m F" and "\<And>e. yields P (h e) F"
  shows "yields P (catchM m h) F"
  unfolding yields_def
proof (intro allI impI)
  fix s assume s: "P s"
  obtain r t where m: "m s = (r, t)" by fastforce
  have t: "P t" "\<And>a. r = Inr a \<Longrightarrow> F a" using yieldsD [OF assms(1) s m] by auto
  show "P (snd (catchM m h s)) \<and> (\<forall>a. fst (catchM m h s) = Inr a \<longrightarrow> F a)"
  proof (cases r)
    case (Inl e)
    obtain r' u where "h e t = (r', u)" by fastforce
    then show ?thesis using m Inl yieldsD [OF assms(2) t(1)] by (simp add: catchM_def)
  next
    case (Inr a)
    then show ?thesis using m t by (simp add: catchM_def)
  qed
qed

lemma yields_mono: "yields P m F \<Longrightarrow> (\<And>a. F a \<Longrightarrow> G a) \<Longrightarrow> yields P m G"
  by (simp add: yields_def)

text \<open>A condition on the lane that speaks of the composed groups in memory and of the world.\<close>

definition holds ::
    "((string \<times> rat \<times> doc option) list \<Rightarrow> bool) \<Rightarrow> ('w \<Rightarrow> bool) \<Rightarrow> ('s, 'r, 'w) lane_state \<Rightarrow> bool" where
  "holds C W st \<longleftrightarrow> C (gp_cache (ls_groups st)) \<and> W (ls_world st)"

lemma yieldsI:
  "(\<And>s r t. P s \<Longrightarrow> m s = (r, t) \<Longrightarrow> P t \<and> (\<forall>a. r = Inr a \<longrightarrow> F a)) \<Longrightarrow> yields P m F"
  unfolding yields_def by (metis prod.collapse)

lemma yields_in_groups:
  assumes "yields (\<lambda>p. C (gp_cache p)) m F"
  shows "yields (holds C W) (in_groups m) F"
  by (rule yieldsI) (auto simp: holds_def in_groups_def split: prod.splits dest: yieldsD [OF assms])

lemma yields_on_store: "(\<And>s a t. m s = (Inr a, t) \<Longrightarrow> F a) \<Longrightarrow> yields (\<lambda>p. C (gp_cache p)) (on_store m) F"
  by (auto simp: yields_def on_store_def split: prod.split)

lemma yields_in_cases: "(\<And>s a t. m s = (Inr a, t) \<Longrightarrow> F a) \<Longrightarrow> yields (holds C W) (in_cases m) F"
  unfolding in_cases_def by (intro yields_in_groups yields_on_store)

lemma yields_in_reader: "(\<And>s a t. m s = (Inr a, t) \<Longrightarrow> F a) \<Longrightarrow> yields (holds C W) (in_reader m) F"
  by (auto simp: yields_def holds_def in_reader_def split: prod.split)

lemma yields_outside:
  assumes "yields W m F"
  shows "yields (holds C W) (outside m) F"
  by (rule yieldsI) (auto simp: holds_def outside_def split: prod.splits dest: yieldsD [OF assms])

lemma yields_off_loop:
  assumes "\<And>st. P st \<Longrightarrow> P (la_meanwhile la a st)" and "yields P m F"
  shows "yields P (off_loop la a m) F"
  by (rule yieldsI) (use yieldsD [OF assms(2) assms(1)] in \<open>auto simp: off_loop_def others_run_def\<close>)

end
