(* ===== verification/Dlt_Process.thy ===== *)
theory Dlt_Process
  imports Dlt_Lane Parked Single_Flight
begin

text \<open>
  The analysis handler of the dead-letter lane, \<^verbatim>\<open>analyze_dlt\<close> of \<^verbatim>\<open>src/api/dlt_routes.py\<close>, stage by stage in the
  order of the code: admission, evidence, the single-flight gate, the finding, its cache, the replay and the
  parking, the casebook and the last look. The gate's answer is (acquired, waited); what it does inside is
  \<open>Single_Flight\<close>, and leaving it changes only the gate. Metrics and log lines are left out.
\<close>

section \<open>Admission\<close>

definition analyze_budget :: "env \<Rightarrow> exn + rat" where
  "analyze_budget env =
     (case py_float (env_get env ''DLT_ANALYSIS_TIMEOUT_SECONDS'' ''300'') of
        None \<Rightarrow> Inl ValueError
      | Some consumer_budget \<Rightarrow>
          (case env ''DLT_ANALYZE_TIMEOUT_SECONDS'' of
             None \<Rightarrow> Inr (max (consumer_budget - 30) 30)
           | Some raw \<Rightarrow> (case py_float raw of None \<Rightarrow> Inl ValueError | Some b \<Rightarrow> Inr b)))"

definition admit :: "('s, 'r, 'w) lane \<Rightarrow> dlt_message \<Rightarrow> (('s, 'r, 'w) lane_state, response + doc) io" where
  "admit la m =
     bindM (off_loop la At_terminal_check (in_cases (terminal_status (la_cases la) (case_key la m) status_files))) (\<lambda>recorded.
       if is_terminal recorded then ret (Inl (Already_processed JNull))
       else bindM (off_loop la At_holder (in_cases (holder_of (la_env la) (la_claims la) (dm_case_id m)))) (\<lambda>holder.
         if truthy holder \<and> holder \<noteq> JStr (delivery_of m) then ret (Inl (Already_processed holder))
         else bindM (off_loop la At_resolution (in_cases (resolve_service_of la m))) (\<lambda>(resolution, fresh).
           if gd_skip (gate_of la resolution)
           then ret (Inl (Skipped (gd_reason (gate_of la resolution)) (jget resolution ''service'')))
           else ret (Inr resolution))))"


section \<open>Evidence\<close>

definition given :: "doc option \<Rightarrow> bool" where
  "given g \<longleftrightarrow> g \<noteq> None \<and> g \<noteq> Some []"

definition corroboration_of :: "('s, 'r, 'w) lane \<Rightarrow> dlt_message \<Rightarrow> string \<Rightarrow> corroboration" where
  "corroboration_of la m logs =
     (let f = failure_of la m
      in corroborate (Some logs) (fr_root_fqcn f) (fr_business_code f) (fr_frames f) (map el_fqcn (fr_chain f)))"

definition occurrence_of :: "('s, 'r, 'w) lane \<Rightarrow> dlt_message \<Rightarrow> failure \<Rightarrow> corroboration \<Rightarrow> occurrence" where
  "occurrence_of la m f c =
     \<lparr>oc_case_id = dm_case_id m, oc_ref_id = Some (case_key la m), oc_signature = fr_signature f,
      oc_failure_class = fr_failure_class f, oc_business_code = fr_business_code f,
      oc_corroboration = Some (verdict_value (co_verdict c))\<rparr>"

definition group_of :: "('s, 'r, 'w) lane \<Rightarrow> await \<Rightarrow> failure \<Rightarrow> (('s, 'r, 'w) lane_state, doc option) io" where
  "group_of la a f = off_loop la a (in_groups (any_load_group (la_groups la) (la_call la a) (fr_fingerprint f)))"

definition count_occurrence ::
    "('s, 'r, 'w) lane \<Rightarrow> dlt_message \<Rightarrow> failure \<Rightarrow> corroboration \<Rightarrow> (('s, 'r, 'w) lane_state, doc option \<times> string) io" where
  "count_occurrence la m f c =
     bindM (catchM (bindM (off_loop la At_occurrence
                             (in_groups (any_record_occurrence (la_groups la) (la_call la At_occurrence) (fr_fingerprint f)
                                (occurrence_of la m f c)))) (\<lambda>g. ret (Some g, ''ok'')))
              (\<lambda>_. ret (None, ''occurrence_not_recorded'')))
       (\<lambda>(g, state).
          if given g then ret (g, state)
          else bindM (group_of la At_group f) (\<lambda>g'. ret (g', if given g' then state else ''unavailable'')))"

text \<open>The build recorded by the fetch stage; versions that are not a list of texts are read as none.\<close>

definition version_texts :: "json \<Rightarrow> exn + string list" where
  "version_texts v =
     (if \<not> truthy v then Inr []
      else case v of
             JArr vs \<Rightarrow> if list_all (\<lambda>x. json_str x \<noteq> None) vs then Inr (List.map_filter json_str vs) else Inl TypeError
           | _ \<Rightarrow> Inl TypeError)"

definition recorded_baseline :: "'s artifacts \<Rightarrow> (string \<Rightarrow> json option) \<Rightarrow> string \<Rightarrow> ('s, string list) io" where
  "recorded_baseline arts of_text key =
     catchM (bindM (ar_load arts key DEPLOYED_ARTIFACT) (\<lambda>raw.
               case raw of
                 None \<Rightarrow> ret []
               | Some t \<Rightarrow>
                   if t = [] then ret []
                   else (case of_text t of
                           None \<Rightarrow> raise ValueError
                         | Some (JObj d) \<Rightarrow> of_result (version_texts (jget d ''versions''))
                         | Some _ \<Rightarrow> raise AttributeError)))
       (\<lambda>_. ret [])"

definition precheck ::
    "('s, 'r, 'w) lane \<Rightarrow> dlt_message \<Rightarrow> doc \<Rightarrow> failure \<Rightarrow> (('s, 'r, 'w) lane_state, code_check) io" where
  "precheck la m resolution f =
     bindM (off_loop la At_baseline (in_cases (recorded_baseline (la_artifacts la) (la_parse la) (case_key la m)))) (\<lambda>baseline.
     bindM (off_loop la At_running (outside (la_deployed la (log_service_of la resolution)))) (\<lambda>running.
       off_loop la At_code_check
         (in_reader (evaluate (la_reader la) (la_env la) (la_pattern la) (ca_now (la_call la At_code_check))
            \<lparr>fa_failure_class = Some (fr_failure_class f), fa_locations = fr_locations f\<rparr>
            (map_option lw_anchor_ms (log_window_of la m)) baseline (dv_versions running)))))"

definition keep_check ::
    "('s, 'r, 'w) lane \<Rightarrow> dlt_message \<Rightarrow> failure \<Rightarrow> code_check \<Rightarrow> doc option \<Rightarrow> (('s, 'r, 'w) lane_state, doc option) io" where
  "keep_check la m f check grp =
     (if cc_verdict check = UNKNOWN_CODE then ret grp
      else catchM
             (bindM (off_loop la At_attach_check
                       (in_groups (any_attach_code_check (la_groups la) (la_call la At_attach_check) (la_unique la)
                          (fr_fingerprint f) (code_check_doc (la_phrases la) check) (Some (dm_case_id m)))))
                (\<lambda>updated. ret (if updated = [] then grp else Some updated)))
             (\<lambda>_. ret grp))"

record gathered =
  ga_resolution :: doc
  ga_failure :: failure
  ga_logs :: string
  ga_corroboration :: corroboration
  ga_group :: "doc option"
  ga_group_state :: string
  ga_decision :: reuse_decision
  ga_check :: code_check

definition reuse_of :: "('s, 'r, 'w) lane \<Rightarrow> failure \<Rightarrow> corroboration \<Rightarrow> doc option \<Rightarrow> reuse_decision" where
  "reuse_of la f c grp = decide_reuse (la_env la) (fr_failure_class f) (verdict_value (co_verdict c)) grp"

definition gather :: "('s, 'r, 'w) lane \<Rightarrow> dlt_message \<Rightarrow> doc \<Rightarrow> (('s, 'r, 'w) lane_state, gathered) io" where
  "gather la m resolution =
     bindM (off_loop la At_logs (in_cases (ar_load (la_artifacts la) (case_key la m) FETCHED_LOGS_ARTIFACT))) (\<lambda>raw.
       let logs = (case raw of None \<Rightarrow> [] | Some t \<Rightarrow> t); f = final_failure la m resolution; c = corroboration_of la m logs in
       bindM (count_occurrence la m f c) (\<lambda>(grp, state).
       bindM (precheck la m resolution f) (\<lambda>check.
       bindM (keep_check la m f check grp) (\<lambda>grp'.
         ret \<lparr>ga_resolution = resolution, ga_failure = f, ga_logs = logs, ga_corroboration = c, ga_group = grp',
              ga_group_state = state, ga_decision = reuse_of la f c grp, ga_check = check\<rparr>))))"


section \<open>The single-flight gate\<close>

definition flight_outcome :: "decision \<Rightarrow> bool \<Rightarrow> bool \<Rightarrow> string" where
  "flight_outcome d acquired waited =
     (if d = REUSE_GROUP then ''reused'' else if \<not> acquired then ''timeout'' else if waited then ''waited_then_ran''
      else ''leader'')"

definition through_gate ::
    "('s, 'r, 'w) lane \<Rightarrow> gathered \<Rightarrow> rat \<Rightarrow>
     (('s, 'r, 'w) lane_state, string option \<times> reuse_decision \<times> doc option) io" where
  "through_gate la g budget =
     (if \<not> (ru_awaits_cache (ga_decision g) \<and> singleflight_enabled (la_env la))
      then ret (None, ga_decision g, ga_group g)
      else bindM (off_loop la At_gate (outside (la_gate la (fr_fingerprint (ga_failure g))
                    (wait_seconds (la_env la) (max (budget - la_spent la At_gate) 0))))) (\<lambda>(acquired, waited).
           bindM (group_of la At_reread (ga_failure g)) (\<lambda>fresh.
             let grp = (if given fresh then fresh else ga_group g);
                 d = reuse_of la (ga_failure g) (ga_corroboration g) grp
             in ret (Some (flight_outcome (ru_decision d) acquired waited), d, grp))))"


section \<open>The finding\<close>

definition unusable_finding :: finding where
  "unusable_finding =
     \<lparr>fi_narrative = ''The analysis produced output that does not satisfy the finding contract, even after a repair attempt. The verbatim stack trace and logs are attached.'',
      fi_discrepancy = None, fi_recommendation = ''A human should read the attached evidence.'',
      fi_action = ''NEEDS_MANUAL_REVIEW'', fi_confidence = Some 0, fi_ceilings_applied = [], fi_abstained = False,
      fi_reviewer_approved = None\<rparr>"

definition run_input_of :: "('s, 'r, 'w) lane \<Rightarrow> dlt_message \<Rightarrow> gathered \<Rightarrow> run_input" where
  "run_input_of la m g =
     (let redact = la_redact la (allowlist_of m); pack = pack_of la (ga_resolution g); p = (pack \<noteq> None \<and> pack \<noteq> Some [])
      in \<lparr>ri_key = case_key la m, ri_failure = redacted_failure redact (ga_failure g),
          ri_corroboration = ga_corroboration g, ri_logs = ga_logs g,
          ri_payload_summary = (case payload_summary la m of
                                  None \<Rightarrow> None | Some t \<Rightarrow> Some (if t = [] then t else redact t)),
          ri_resolution = (if p then Some (ga_resolution g) else None), ri_pack = (if p then pack else None)\<rparr>)"

text \<open>
  The run on its own executor, waited for as long as the budget lasts. A run that outlasts it is abandoned and
  its result or its exception is lost; what it did meanwhile is in the world.
\<close>

definition timed_run ::
    "('s, 'r, 'w) lane \<Rightarrow> dlt_message \<Rightarrow> gathered \<Rightarrow> rat \<Rightarrow>
     (('s, 'r, 'w) lane_state, (finding option \<times> string option) option) io" where
  "timed_run la m g left st =
     (case off_loop la At_run (outside (investigate (la_env la) (la_agents la (run_input_of la m g)))) st of
        (r, st') \<Rightarrow>
          (if la_overran la left (ls_world st') then (Inr None, st')
           else case r of Inl e \<Rightarrow> (Inl e, st') | Inr a \<Rightarrow> (Inr (Some a), st')))"

text \<open>The finding before the policy, where it is from, and the parse error; none if the budget ran out.\<close>

type_synonym raw_answer = "(finding \<times> string \<times> string option) option"

definition produce ::
    "('s, 'r, 'w) lane \<Rightarrow> dlt_message \<Rightarrow> gathered \<Rightarrow> reuse_decision \<Rightarrow> doc option \<Rightarrow> rat \<Rightarrow>
     (('s, 'r, 'w) lane_state, raw_answer) io" where
  "produce la m g d grp budget =
     (case ru_decision d of
        CANNED \<Rightarrow>
          ret (Some (canned_build (la_wording la) (fr_failure_class (ga_failure g)) (ga_failure g) (ga_corroboration g) grp,
                     ''canned'', None))
      | REUSE_GROUP \<Rightarrow>
          bindM (of_result (if ''recommendation'' \<in> fst ` set (or_empty grp)
                            then finding_of (jget (or_empty grp) ''recommendation'') else Inl KeyError)) (\<lambda>f.
            ret (Some (f, ''group_reuse'', None)))
      | LLM_REQUIRED \<Rightarrow>
          (let left = budget - la_spent la At_run in
           if left \<le> 0 then ret None
           else bindM (timed_run la m g left) (\<lambda>result.
                  ret (case result of
                         None \<Rightarrow> None
                       | Some (None, err) \<Rightarrow> Some (unusable_finding, ''failed_synthesis'', err)
                       | Some (Some f, err) \<Rightarrow> Some (f, ''agent'', err)))))"

definition policy_evidence :: "gathered \<Rightarrow> reuse_decision \<Rightarrow> evidence" where
  "policy_evidence g d =
     \<lparr>ev_failure_class = fr_failure_class (ga_failure g), ev_corroboration = verdict_value (co_verdict (ga_corroboration g)),
      ev_registry_hit = (fr_registry_description (ga_failure g) \<noteq> None \<and> fr_registry_description (ga_failure g) \<noteq> Some []),
      ev_reused = (ru_decision d = REUSE_GROUP), ev_logs = ga_logs g,
      ev_could_not_look = Some (co_could_not_look (ga_corroboration g))\<rparr>"


section \<open>The cache\<close>

definition STATE_UNPERSISTED :: string where "STATE_UNPERSISTED = ''unpersisted''"
definition STATE_WITHHELD :: string where "STATE_WITHHELD = ''withheld''"
definition STATE_PER_OCCURRENCE :: string where "STATE_PER_OCCURRENCE = ''per_occurrence''"

definition cache_finding ::
    "('s, 'r, 'w) lane \<Rightarrow> dlt_message \<Rightarrow> gathered \<Rightarrow> string \<Rightarrow> finding \<Rightarrow> doc option \<Rightarrow>
     (('s, 'r, 'w) lane_state, json \<times> violation list option \<times> doc option) io" where
  "cache_finding la m g source f grp =
     (if source = ''agent''
      then (let pc = per_code_check f in
            if is_discrepancy (ga_corroboration g) then ret (JStr STATE_PER_OCCURRENCE, Some pc, grp)
            else if withhold (la_env la) pc then ret (JStr STATE_WITHHELD, Some pc, grp)
            else catchM
                   (bindM (off_loop la At_attach
                             (in_groups (any_attach_recommendation (la_groups la) (la_call la At_attach)
                                (fr_fingerprint (ga_failure g)) (JObj (dump_finding f)) STATE_DRAFT (Some (dm_case_id m))
                                (Some (verdict_value (co_verdict (ga_corroboration g)))))))
                      (\<lambda>updated. ret (JStr STATE_DRAFT, Some pc, if updated = [] then grp else Some updated)))
                   (\<lambda>_. ret (JStr STATE_UNPERSISTED, Some pc, grp)))
      else if source = ''group_reuse''
      then ret (py_or (jget (or_empty grp) ''recommendation_state'') (JStr STATE_DRAFT), None, grp)
      else ret (JStr STATE_NONE, None, grp))"


section \<open>The case\<close>

primrec as_json :: "pvalue \<Rightarrow> json" where
  "as_json PNull = JNull"
| "as_json (PBool b) = JBool b"
| "as_json (PInt n) = JNum (of_int n)"
| "as_json (PFloat r) = JNum r"
| "as_json (PStr s) = JStr s"
| "as_json (PList xs) = JArr (map as_json xs)"
| "as_json (PDict d) = JObj (map (map_prod id as_json) d)"

definition carried :: "dlt_message \<Rightarrow> string \<Rightarrow> json" where
  "carried m k = as_json (pget (dump m) k)"

definition run_out :: "('s, 'r, 'w) lane \<Rightarrow> dlt_message \<Rightarrow> rat \<Rightarrow> (('s, 'r, 'w) lane_state, unit) io" where
  "run_out la m budget =
     bindM (off_loop la At_timeout
              (in_cases (save_dlt_casebook (la_env la) (la_cases la) (case_key la m)
                 (timeout_casebook (ca_now (la_call la At_timeout)) (Some (dm_case_id m)) (dm_ref_id m)
                    (''The DLT analysis exceeded the server-side budget of '' @ la_number la budget @
                     ''s and was abandoned. The stack trace, headers and any fetched logs are attached; no finding was produced.'')))))
       (\<lambda>_. outside (la_cleanup la (case_key la m)))"

definition analyse ::
    "('s, 'r, 'w) lane \<Rightarrow> dlt_message \<Rightarrow> doc \<Rightarrow> rat \<Rightarrow> (('s, 'r, 'w) lane_state, response + case_parts) io" where
  "analyse la m resolution budget =
     bindM (gather la m resolution) (\<lambda>g.
     bindM (through_gate la g budget) (\<lambda>(outcome, d, grp).
     bindM (produce la m g d grp budget) (\<lambda>answer.
       case answer of
         None \<Rightarrow> bindM (run_out la m budget) (\<lambda>_. ret (Inl Ran_out_of_time))
       | Some (raw, source, err) \<Rightarrow>
           let f = apply_dlt_confidence_policy (la_env la) raw (policy_evidence g d) in
           bindM (cache_finding la m g source f grp) (\<lambda>(state, pc, grp').
           bindM (off_loop la At_replay (outside (maybe_replay (la_env la) (la_tool la) (dm_ref_id m) f (Some (ga_check g))))) (\<lambda>replay.
           bindM (off_loop la At_park (in_cases (maybe_park (la_env la) (ca_now (la_call la At_park)) (la_parked la)
                    (dm_case_id m) (dm_ref_id m) (Some (ga_check g)) f))) (\<lambda>park.
             ret (Inr \<lparr>cp_now = ca_now (la_call la At_last_look), cp_message = m, cp_headers = headers_of m,
                       cp_failure = ga_failure g, cp_corroboration = ga_corroboration g, cp_finding = f, cp_decision = d,
                       cp_group = grp', cp_gaps = py_or (carried m ''evidence_gaps'') (JArr []),
                       cp_log_window = carried m ''log_window'', cp_source = source, cp_replay = replay,
                       cp_code_check = ga_check g, cp_park = park, cp_recommendation_state = state,
                       cp_group_state = ga_group_state g, cp_single_flight = outcome, cp_per_code = pc,
                       cp_resolution = resolution, cp_pack = pack_of la resolution, cp_parse_error = err\<rparr>)))))))"

definition conclude :: "('s, 'r, 'w) lane \<Rightarrow> case_parts \<Rightarrow> (('s, 'r, 'w) lane_state, response) io" where
  "conclude la p =
     (let key = case_key la (cp_message p) in
      bindM (off_loop la At_last_look (in_cases (terminal_status (la_cases la) key status_files))) (\<lambda>recorded.
        if (case recorded of None \<Rightarrow> False | Some t \<Rightarrow> t \<in> set PROTECTED_TERMINAL_STATUSES)
        then ret (Already_processed JNull)
        else bindM (off_loop la At_save (in_cases (save_dlt_casebook (la_env la) (la_cases la) key
                      (casebook (la_phrases la) (la_registry la) p)))) (\<lambda>_.
             bindM (outside (la_cleanup la key)) (\<lambda>_.
               ret (Processed (cp_finding p) (cp_corroboration p) (cp_decision p) (cp_code_check p) (cp_replay p) (cp_park p))))))"

definition analyze_dlt :: "('s, 'r, 'w) lane \<Rightarrow> dlt_message \<Rightarrow> (('s, 'r, 'w) lane_state, response) io" where
  "analyze_dlt la m =
     bindM (of_result (analyze_budget (la_env la))) (\<lambda>budget.
     bindM (admit la m) (\<lambda>admitted.
       case admitted of
         Inl r \<Rightarrow> ret r
       | Inr resolution \<Rightarrow>
           bindM (analyse la m resolution budget) (\<lambda>result.
             case result of Inl r \<Rightarrow> ret r | Inr p \<Rightarrow> conclude la p)))"


section \<open>Groups are counted\<close>

text \<open>A group is shown with a whole number of occurrences, or none; so is every composed group kept in memory.\<close>

definition counted :: "doc option \<Rightarrow> bool" where
  "counted g \<longleftrightarrow> conforms (Maybe Whole) (jget (or_empty g) ''occurrence_count'')"

definition counted_cache :: "(string \<times> rat \<times> doc option) list \<Rightarrow> bool" where
  "counted_cache c \<longleftrightarrow> (\<forall>fp t g. map_of c fp = Some (t, g) \<longrightarrow> counted g)"

lemma counted_empty [simp]: "counted None" "counted (Some [])"
  by (simp_all add: counted_def or_empty_def jget_def)

lemma counted_composed: "counted (Some (compose_group n fp occurrences checks meta rec check legacy))"
proof -
  have "whole (of_int a + of_nat b)" for a b
    by (simp add: whole_def)
  then show ?thesis by (simp add: counted_def or_empty_def compose_group_def Let_def jget_def)
qed

lemma counted_hit: "counted_cache (gp_cache p) \<Longrightarrow> cache_get ca fp p = Some g \<Longrightarrow> counted g"
  unfolding counted_cache_def cache_get_def by (auto split: option.splits if_splits)

lemma counted_put: "counted_cache c \<Longrightarrow> counted g \<Longrightarrow> counted_cache (AList.update fp (t, g) c)"
  by (simp add: counted_cache_def update_conv')

lemma counted_delete: "counted_cache c \<Longrightarrow> counted_cache (AList.delete fp c)"
  by (simp add: counted_cache_def delete_conv')

lemma keeps_cache_steps [simp]:
  "keepsM (\<lambda>p. C (gp_cache p)) (on_store m)" "keepsM (\<lambda>p. C (gp_cache p)) (remember fp sub n d)"
  by (auto simp: keepsM_def on_store_def remember_def split: prod.split)

lemma yields_keeps: "keepsM P m \<Longrightarrow> yields P m (\<lambda>_. True)"
  by (simp add: keepsM_def yields_def)

lemma keeps_cache_read_all [simp]: "keepsM (\<lambda>p. C (gp_cache p)) (read_all sto fp sub)"
proof -
  have "keepsM (\<lambda>p. C (gp_cache p)) (read_one sto fp sub n acc)" for n acc
  proof -
    have "keepsM (\<lambda>p. C (gp_cache p)) (bindM (on_store (st_load sto fp (sub @ ''/'' @ n))) (\<lambda>loaded.
        case loaded of None \<Rightarrow> ret acc
        | Some d \<Rightarrow> if d = [] then ret acc
                    else bindM (remember fp sub (drop_json_suffix n) d) (\<lambda>_. ret (acc @ [jset ''_name'' (JStr (drop_json_suffix n)) d]))))"
      by (rule keepsM_bindM) (auto intro!: keepsM_bindM split: option.split)
    then show ?thesis by (simp add: keepsM_def read_one_def Let_def split: option.split)
  qed
  then show ?thesis unfolding read_all_def by (intro keepsM_bindM keepsM_foldM) simp_all
qed

lemma yields_cache_put: "counted g \<Longrightarrow> yields (\<lambda>p. counted_cache (gp_cache p)) (cache_put ca fp g) (\<lambda>_. True)"
  by (simp add: yields_def cache_put_def counted_put)

lemma yields_invalidate: "yields (\<lambda>p. counted_cache (gp_cache p)) (invalidate fp) (\<lambda>_. True)"
  by (simp add: yields_def invalidate_def counted_delete)

lemmas yields_step = yields_bind [where G = "\<lambda>_. True"]

lemmas yields_plain = yields_keeps [OF keeps_cache_steps(1)] yields_keeps [OF keeps_cache_steps(2)]
  yields_keeps [OF keeps_cache_read_all]

lemma load_group_counts: "yields (\<lambda>p. counted_cache (gp_cache p)) (load_group sto ca fp) counted"
proof -
  let ?P = "\<lambda>p. counted_cache (gp_cache p)"
  have "yields ?P (bindM (read_all sto fp OCCURRENCES_SUBDIR) (\<lambda>occurrences.
          bindM (read_all sto fp CODE_CHECKS_SUBDIR) (\<lambda>checks.
          bindM (on_store (st_load sto fp META_FILENAME)) (\<lambda>meta.
          bindM (on_store (st_load sto fp RECOMMENDATION_FILENAME)) (\<lambda>recommendation.
          bindM (on_store (st_load sto fp CODE_CHECK_FILENAME)) (\<lambda>code_check.
          bindM (load_legacy sto fp) (\<lambda>legacy.
            if occurrences = [] \<and> checks = [] \<and> or_empty meta = [] \<and> or_empty recommendation = [] \<and>
               or_empty code_check = [] \<and> or_empty legacy = []
            then bindM (cache_put ca fp None) (\<lambda>_. ret None)
            else (let g = compose_group (member_cap (ca_env ca)) fp occurrences checks (or_empty meta)
                            (or_empty recommendation) (or_empty code_check) (or_empty legacy)
                  in bindM (cache_put ca fp (Some g)) (\<lambda>_. ret (Some g)))))))))) counted"
    unfolding load_legacy_def Let_def
    by (auto intro!: yields_step yields_cache_put yields_ret yields_plain yields_catch simp: counted_composed)
  note miss = yieldsD [OF this]
  show ?thesis
  proof (rule yieldsI)
    fix s r t assume s: "?P s" "load_group sto ca fp s = (r, t)"
    show "?P t \<and> (\<forall>a. r = Inr a \<longrightarrow> counted a)"
    proof (cases "fp = [] \<or> cache_get ca fp s \<noteq> None")
      case True
      then have "fp = [] \<and> r = Inr None \<and> t = s \<or> (\<exists>g. cache_get ca fp s = Some g \<and> r = Inr g \<and> t = s)"
        using s(2) by (cases "fp = []"; cases "cache_get ca fp s") (simp_all add: load_group_def)
      then show ?thesis using s(1) counted_hit [OF s(1)] by auto
    next
      case False
      then show ?thesis using miss [OF s(1)] s(2) by (simp add: load_group_def)
    qed
  qed
qed

lemma reload_counts: "yields (\<lambda>p. counted_cache (gp_cache p)) (reload sto ca fp) (\<lambda>g. counted (Some g))"
  unfolding reload_def
  by (intro yields_catch yields_bind [OF load_group_counts] yields_ret) (simp_all add: counted_def or_empty_def split: option.splits)

text \<open>Every operation of the group store shows a counted group, in its present layout.\<close>

lemma group_operations_count:
  assumes "is_v2 (ca_env ca)"
  shows "yields (\<lambda>p. counted_cache (gp_cache p)) (any_load_group sto ca fp) counted"
    and "yields (\<lambda>p. counted_cache (gp_cache p)) (any_record_occurrence sto ca fp oc) (\<lambda>g. counted (Some g))"
    and "yields (\<lambda>p. counted_cache (gp_cache p)) (any_attach_recommendation sto ca fp rec st by_case c) (\<lambda>g. counted (Some g))"
    and "yields (\<lambda>p. counted_cache (gp_cache p)) (any_attach_code_check sto ca u fp d by_case) (\<lambda>g. counted (Some g))"
proof -
  show "yields (\<lambda>p. counted_cache (gp_cache p)) (any_load_group sto ca fp) counted"
    using assms by (auto simp: any_load_group_def intro!: yields_catch load_group_counts yields_ret)
  show "yields (\<lambda>p. counted_cache (gp_cache p)) (any_record_occurrence sto ca fp oc) (\<lambda>g. counted (Some g))"
    using assms unfolding any_record_occurrence_def record_occurrence_def Let_def
    by (auto intro!: yields_step yields_plain yields_invalidate reload_counts yields_ret)
  show "yields (\<lambda>p. counted_cache (gp_cache p)) (any_attach_recommendation sto ca fp rec st by_case c) (\<lambda>g. counted (Some g))"
    using assms unfolding any_attach_recommendation_def attach_recommendation_def
    by (auto intro!: yields_step yields_plain yields_invalidate reload_counts)
  show "yields (\<lambda>p. counted_cache (gp_cache p)) (any_attach_code_check sto ca u fp d by_case) (\<lambda>g. counted (Some g))"
    using assms unfolding any_attach_code_check_def attach_code_check_def Let_def
    by (auto intro!: yields_step yields_plain yields_invalidate reload_counts yields_ret)
qed


section \<open>What a run of the agents returns\<close>

definition agents_keep :: "('w \<Rightarrow> bool) \<Rightarrow> 'w agents \<Rightarrow> bool" where
  "agents_keep W ag \<longleftrightarrow>
     keepsM W (ag_write_case_files ag) \<and> keepsM W (ag_wait_for_corpus ag) \<and> keepsM W (ag_harness_investigator ag) \<and>
     (\<forall>t. keepsM W (ag_investigator ag t)) \<and> (\<forall>t. keepsM W (ag_harness_reviewer ag t)) \<and>
     (\<forall>t. keepsM W (ag_reviewer ag t)) \<and> (\<forall>t. keepsM W (ag_synthesis ag t)) \<and> (\<forall>t u. keepsM W (ag_repair ag t u))"

text \<open>A finding is parsed from what the model wrote, with the review's verdict stamped on; or nothing parsed.\<close>

definition parsed_answer :: "'w agents \<Rightarrow> finding option \<times> string option \<Rightarrow> bool" where
  "parsed_answer ag x \<longleftrightarrow>
     (\<exists>raw. (\<exists>f a. ag_parse_finding ag raw = Inr f \<and> x = (Some (f\<lparr>fi_reviewer_approved := Some a\<rparr>), None)) \<or>
            (\<exists>e. ag_parse_finding ag raw = Inl e \<and> x = (None, Some e)))"

definition graph_answer :: "graph_state \<Rightarrow> finding option \<times> string option" where
  "graph_answer st = (case gs_finding st of None \<Rightarrow> (None, gs_parse_error st) | Some f \<Rightarrow> (Some f, None))"

lemma stoppable_yields: "yields W m F \<Longrightarrow> yields W (stoppable ag m) F"
  unfolding stoppable_def
  by (rule yields_step [OF yields_keeps]) (auto simp: keepsM_def run_control_check_def)

lemma node_yields:
  assumes "agents_keep W ag"
  shows "yields W (investigator_node ag st) (\<lambda>_. True)" "yields W (reviewer_node ag st) (\<lambda>_. True)"
    "yields W (synthesis_node ag st) (\<lambda>st'. parsed_answer ag (graph_answer st'))"
proof -
  note k = assms [unfolded agents_keep_def]
  show "yields W (investigator_node ag st) (\<lambda>_. True)"
    using k unfolding investigator_node_def Let_def
    by (auto intro!: yields_keeps keepsM_bindM keepsM_catchM split: option.split)
  show "yields W (reviewer_node ag st) (\<lambda>_. True)"
    using k unfolding reviewer_node_def Let_def
    by (auto intro!: yields_keeps keepsM_bindM keepsM_catchM)
  show "yields W (synthesis_node ag st) (\<lambda>st'. parsed_answer ag (graph_answer st'))"
    using k unfolding synthesis_node_def Let_def
    by (auto intro!: yields_step yields_keeps yields_ret simp: parsed_answer_def graph_answer_def split: sum.split) blast+
qed

lemma rounds_yield:
  "agents_keep W ag \<Longrightarrow> yields W (run_rounds env ag n st) (\<lambda>st'. parsed_answer ag (graph_answer st'))"
proof (induction n arbitrary: st)
  case 0
  then show ?case by (simp add: yields_def)
next
  case (Suc n)
  show ?case
    unfolding run_rounds.simps
    by (auto intro!: yields_step stoppable_yields node_yields Suc split: sum.split review_decision.split)
qed

lemma investigate_yields: "agents_keep W ag \<Longrightarrow> yields W (investigate env ag) (parsed_answer ag)"
  unfolding investigate_def invoke_graph_def
  by (rule yields_bind [OF rounds_yield]) (auto intro: yields_ret simp: graph_answer_def)


section \<open>The stages\<close>

text \<open>
  The others, the group store and every service but the replay tool keep the condition; \<open>G\<close> is what the group
  store shows of a group.
\<close>

definition groups_keep ::
    "((string \<times> rat \<times> doc option) list \<Rightarrow> bool) \<Rightarrow> (doc option \<Rightarrow> bool) \<Rightarrow> ('s, 'r, 'w) lane \<Rightarrow> bool" where
  "groups_keep C G la \<longleftrightarrow> G None \<and>
     (\<forall>a fp. yields (\<lambda>p. C (gp_cache p)) (any_load_group (la_groups la) (la_call la a) fp) G) \<and>
     (\<forall>a fp oc. yields (\<lambda>p. C (gp_cache p)) (any_record_occurrence (la_groups la) (la_call la a) fp oc) (\<lambda>g. G (Some g))) \<and>
     (\<forall>a fp rec s b c. yields (\<lambda>p. C (gp_cache p)) (any_attach_recommendation (la_groups la) (la_call la a) fp rec s b c) (\<lambda>g. G (Some g))) \<and>
     (\<forall>a fp u d b. yields (\<lambda>p. C (gp_cache p)) (any_attach_code_check (la_groups la) (la_call la a) u fp d b) (\<lambda>g. G (Some g)))"

definition lane_keeps ::
    "((string \<times> rat \<times> doc option) list \<Rightarrow> bool) \<Rightarrow> (doc option \<Rightarrow> bool) \<Rightarrow> ('w \<Rightarrow> bool) \<Rightarrow> ('s, 'r, 'w) lane \<Rightarrow> bool" where
  "lane_keeps C G W la \<longleftrightarrow>
     groups_keep C G la \<and> (\<forall>a st. holds C W st \<longrightarrow> holds C W (la_meanwhile la a st)) \<and>
     (\<forall>s. keepsM W (la_deployed la s)) \<and> (\<forall>fp t. keepsM W (la_gate la fp t)) \<and> (\<forall>ri. agents_keep W (la_agents la ri)) \<and>
     (\<forall>k. keepsM W (la_cleanup la k))"

lemma stage_off_loop:
  "lane_keeps C G W la \<Longrightarrow> yields (holds C W) m F \<Longrightarrow> yields (holds C W) (off_loop la a m) F"
  by (rule yields_off_loop) (simp_all add: lane_keeps_def)

lemma stage_outside: "keepsM W m \<Longrightarrow> yields (holds C W) (outside m) (\<lambda>_. True)"
  by (intro yields_outside yields_keeps)

lemma stage_cases: "yields (holds C W) (in_cases m) (\<lambda>_. True)"
  by (rule yields_in_cases) simp

lemma stage_reader: "yields (holds C W) (in_reader m) (\<lambda>_. True)"
  by (rule yields_in_reader) simp

lemma stage_groups:
  assumes "lane_keeps C G W la"
  shows "yields (holds C W) (group_of la a f) G"
    and "yields (holds C W) (off_loop la a (in_groups (any_record_occurrence (la_groups la) (la_call la a) fp oc))) (\<lambda>g. G (Some g))"
    and "yields (holds C W) (off_loop la a (in_groups (any_attach_recommendation (la_groups la) (la_call la a) fp rec s b c))) (\<lambda>g. G (Some g))"
    and "yields (holds C W) (off_loop la a (in_groups (any_attach_code_check (la_groups la) (la_call la a) u fp d b))) (\<lambda>g. G (Some g))"
  using assms unfolding group_of_def
  by (auto intro!: stage_off_loop yields_in_groups simp: lane_keeps_def groups_keep_def)

lemma stage_count_occurrence:
  assumes "lane_keeps C G W la"
  shows "yields (holds C W) (count_occurrence la m f c) (\<lambda>(g, s). G g \<and> s \<in> set GROUP_STATES)"
proof -
  have none: "G None" using assms by (simp add: lane_keeps_def groups_keep_def)
  have first: "yields (holds C W)
      (catchM (bindM (off_loop la At_occurrence
                 (in_groups (any_record_occurrence (la_groups la) (la_call la At_occurrence) (fr_fingerprint f)
                    (occurrence_of la m f c)))) (\<lambda>g. ret (Some g, ''ok'')))
         (\<lambda>_. ret (None, ''occurrence_not_recorded'')))
      (\<lambda>(g, s). G g \<and> s \<in> {''ok'', ''occurrence_not_recorded''})"
    by (intro yields_catch yields_bind [OF stage_groups(2) [OF assms]] yields_ret) (simp_all add: none)
  show ?thesis
    unfolding count_occurrence_def
  proof (rule yields_bind [OF first], clarify)
    fix g s assume "G g" "s \<in> {''ok'', ''occurrence_not_recorded''}"
    then show "yields (holds C W)
        (if given g then ret (g, s) else bindM (group_of la At_group f) (\<lambda>g'. ret (g', if given g' then s else ''unavailable'')))
        (\<lambda>(g, s). G g \<and> s \<in> set GROUP_STATES)"
      by (auto intro!: yields_ret yields_bind [OF stage_groups(1) [OF assms]] simp: GROUP_STATES_def split: if_splits)
  qed
qed

lemma stage_precheck:
  assumes "lane_keeps C G W la"
  shows "yields (holds C W) (precheck la m resolution f) (\<lambda>_. True)"
proof -
  have "keepsM W (la_deployed la s)" for s using assms by (simp add: lane_keeps_def)
  then show ?thesis
    unfolding precheck_def by (intro yields_step stage_off_loop [OF assms] stage_cases stage_outside stage_reader)
qed

lemma stage_keep_check: "lane_keeps C G W la \<Longrightarrow> G grp \<Longrightarrow> yields (holds C W) (keep_check la m f check grp) G"
  unfolding keep_check_def
  by (auto intro!: yields_ret yields_catch yields_bind [OF stage_groups(4)])

definition gathered_ok :: "(doc option \<Rightarrow> bool) \<Rightarrow> ('s, 'r, 'w) lane \<Rightarrow> dlt_message \<Rightarrow> doc \<Rightarrow> gathered \<Rightarrow> bool" where
  "gathered_ok G la m resolution g \<longleftrightarrow>
     ga_resolution g = resolution \<and> ga_failure g = final_failure la m resolution \<and>
     ga_corroboration g = corroboration_of la m (ga_logs g) \<and> G (ga_group g) \<and> ga_group_state g \<in> set GROUP_STATES"

lemma stage_gather:
  assumes "lane_keeps C G W la"
  shows "yields (holds C W) (gather la m resolution) (gathered_ok G la m resolution)"
  unfolding gather_def Let_def
proof (rule yields_step [OF stage_off_loop [OF assms stage_cases]])
  fix raw :: "string option"
  let ?logs = "case raw of None \<Rightarrow> [] | Some t \<Rightarrow> t" and ?f = "final_failure la m resolution"
  let ?c = "corroboration_of la m ?logs"
  show "yields (holds C W)
     (bindM (count_occurrence la m ?f ?c) (\<lambda>(grp, state).
      bindM (precheck la m resolution ?f) (\<lambda>check.
      bindM (keep_check la m ?f check grp) (\<lambda>grp'.
        ret \<lparr>ga_resolution = resolution, ga_failure = ?f, ga_logs = ?logs, ga_corroboration = ?c, ga_group = grp',
             ga_group_state = state, ga_decision = reuse_of la ?f ?c grp, ga_check = check\<rparr>))))
     (gathered_ok G la m resolution)"
    by (rule yields_bind [OF stage_count_occurrence [OF assms]], clarify)
      (auto intro!: yields_step [OF stage_precheck [OF assms]] yields_bind [OF stage_keep_check [OF assms]] yields_ret
        simp: gathered_ok_def)
qed

lemma stage_gate:
  assumes "lane_keeps C G W la" and "gathered_ok G la m resolution g"
  shows "yields (holds C W) (through_gate la g budget)
    (\<lambda>(outcome, d, grp). G grp \<and> (case outcome of None \<Rightarrow> True | Some o' \<Rightarrow> o' \<in> set SINGLE_FLIGHT_OUTCOMES))"
proof -
  have gate: "keepsM W (la_gate la fp t)" for fp t using assms(1) by (simp add: lane_keeps_def)
  have o: "flight_outcome d a w \<in> set SINGLE_FLIGHT_OUTCOMES" for d a w
    by (simp add: flight_outcome_def SINGLE_FLIGHT_OUTCOMES_def)
  show ?thesis
    unfolding through_gate_def Let_def using assms(2)
    by (auto intro!: yields_ret yields_step [OF stage_off_loop [OF assms(1) stage_outside [OF gate]]]
        yields_bind [OF stage_groups(1) [OF assms(1)]] simp: gathered_ok_def o)
qed


text \<open>Where a finding comes from.\<close>

definition answer_from :: "('s, 'r, 'w) lane \<Rightarrow> gathered \<Rightarrow> doc option \<Rightarrow> finding \<times> string \<times> string option \<Rightarrow> bool" where
  "answer_from la g grp x \<longleftrightarrow>
     (case x of (f, source, err) \<Rightarrow>
        source = ''canned'' \<and> err = None \<and>
          f = canned_build (la_wording la) (fr_failure_class (ga_failure g)) (ga_failure g) (ga_corroboration g) grp \<or>
        source = ''group_reuse'' \<and> err = None \<and> finding_of (jget (or_empty grp) ''recommendation'') = Inr f \<or>
        source = ''agent'' \<and> (\<exists>ri. parsed_answer (la_agents la ri) (Some f, err)) \<or>
        source = ''failed_synthesis'' \<and> f = unusable_finding \<and> (\<exists>ri. parsed_answer (la_agents la ri) (None, err)))"

lemma timed_run_yields:
  assumes "lane_keeps C G W la"
  shows "yields (holds C W) (timed_run la m g left)
    (\<lambda>x. case x of None \<Rightarrow> True | Some y \<Rightarrow> parsed_answer (la_agents la (run_input_of la m g)) y)"
proof (rule yieldsI)
  fix s r t assume s: "holds C W s" "timed_run la m g left s = (r, t)"
  obtain r0 t0 where run: "off_loop la At_run (outside (investigate (la_env la) (la_agents la (run_input_of la m g)))) s = (r0, t0)"
    by fastforce
  have "yields (holds C W) (off_loop la At_run (outside (investigate (la_env la) (la_agents la (run_input_of la m g)))))
      (parsed_answer (la_agents la (run_input_of la m g)))"
    using assms by (intro stage_off_loop [OF assms] yields_outside investigate_yields) (simp add: lane_keeps_def)
  from yieldsD [OF this s(1) run]
  show "holds C W t \<and> (\<forall>a. r = Inr a \<longrightarrow> (case a of None \<Rightarrow> True | Some y \<Rightarrow> parsed_answer (la_agents la (run_input_of la m g)) y))"
    using s(2) run by (auto simp: timed_run_def split: if_splits sum.splits)
qed

lemma stage_produce:
  assumes "lane_keeps C G W la"
  shows "yields (holds C W) (produce la m g d grp budget) (\<lambda>x. case x of None \<Rightarrow> True | Some y \<Rightarrow> answer_from la g grp y)"
proof (cases "ru_decision d")
  case CANNED
  then show ?thesis by (auto intro!: yields_ret simp: produce_def answer_from_def)
next
  case REUSE_GROUP
  have "yields (holds C W)
     (bindM (of_result (if ''recommendation'' \<in> fst ` set (or_empty grp)
                            then finding_of (jget (or_empty grp) ''recommendation'') else Inl KeyError)) (\<lambda>f.
            ret (Some (f, ''group_reuse'', None))))
     (\<lambda>x. case x of None \<Rightarrow> True | Some y \<Rightarrow> answer_from la g grp y)"
    by (rule yields_bind [OF yields_of_result [where F = "\<lambda>f. finding_of (jget (or_empty grp) ''recommendation'') = Inr f"]])
      (auto intro!: yields_ret simp: answer_from_def split: if_splits)
  then show ?thesis using REUSE_GROUP by (simp add: produce_def)
next
  case LLM_REQUIRED
  have "yields (holds C W) (bindM (timed_run la m g left) (\<lambda>result.
                  ret (case result of
                         None \<Rightarrow> None
                       | Some (None, err) \<Rightarrow> Some (unusable_finding, ''failed_synthesis'', err)
                       | Some (Some f, err) \<Rightarrow> Some (f, ''agent'', err))))
     (\<lambda>x. case x of None \<Rightarrow> True | Some y \<Rightarrow> answer_from la g grp y)" for left
    by (rule yields_bind [OF timed_run_yields [OF assms]]) (auto intro!: yields_ret simp: answer_from_def split: option.splits)
  then show ?thesis using LLM_REQUIRED by (auto intro!: yields_ret simp: produce_def Let_def)
qed

lemma stage_cache:
  assumes "lane_keeps C G W la" and "G grp"
  shows "yields (holds C W) (cache_finding la m g source f grp)
    (\<lambda>(state, pc, grp'). G grp' \<and> pc = (if source = ''agent'' then Some (per_code_check f) else None) \<and>
       (source \<noteq> ''group_reuse'' \<longrightarrow> state \<in> JStr ` set RECOMMENDATION_STATES))"
  unfolding cache_finding_def Let_def
  using assms(2)
  by (auto intro!: yields_ret yields_catch yields_bind [OF stage_groups(3) [OF assms(1)]]
      simp: RECOMMENDATION_STATES_def STATE_PER_OCCURRENCE_def STATE_WITHHELD_def STATE_DRAFT_def STATE_UNPERSISTED_def STATE_NONE_def
      split: if_splits)

lemma stage_run_out: "lane_keeps C G W la \<Longrightarrow> yields (holds C W) (run_out la m budget) (\<lambda>_. True)"
  unfolding run_out_def
  by (rule yields_step [OF stage_off_loop [OF _ stage_cases]]) (auto intro!: stage_outside simp: lane_keeps_def)

lemma stage_admit: "lane_keeps C G W la \<Longrightarrow> yields (holds C W) (admit la m) (\<lambda>_. True)"
  unfolding admit_def
  by (intro yields_step [OF stage_off_loop [OF _ stage_cases]])
    (auto intro!: yields_ret yields_step [OF stage_off_loop [OF _ stage_cases]] split: prod.split)

end
