(* ===== verification/Evidence.thy ===== *)
theory Evidence
  imports Dlt_Lane Local_Storage
begin

text \<open>
  What the fetch stage leaves behind. The locale is the interface the stage relies on: a store of artifacts beside
  the case's documents. It is interpreted on the local backend of \<^verbatim>\<open>src/storage/local.py\<close>.
\<close>

section \<open>The interface\<close>

definition ARTIFACTS :: "string list" where
  "ARTIFACTS = [HEADERS_ARTIFACT, TRACE_ARTIFACT, PARSED_TRACE_ARTIFACT, PAYLOAD_SUMMARY_ARTIFACT, FETCHED_LOGS_ARTIFACT,
     DEPLOYED_ARTIFACT, RESOLUTION_ARTIFACT]"

lemmas artifact_names = HEADERS_ARTIFACT_def TRACE_ARTIFACT_def PARSED_TRACE_ARTIFACT_def PAYLOAD_SUMMARY_ARTIFACT_def
  FETCHED_LOGS_ARTIFACT_def DEPLOYED_ARTIFACT_def RESOLUTION_ARTIFACT_def

text \<open>Two states whose artifacts of a case agree, those of a set aside.\<close>

definition agree_but ::
    "('s \<Rightarrow> string \<Rightarrow> string \<Rightarrow> string option) \<Rightarrow> ('s \<Rightarrow> string \<Rightarrow> string \<Rightarrow> bool) \<Rightarrow> string \<Rightarrow> string set \<Rightarrow> 's \<Rightarrow> 's \<Rightarrow> bool" where
  "agree_but text_at there k A s s' \<longleftrightarrow>
     (\<forall>n\<in>set ARTIFACTS. n \<notin> A \<longrightarrow> text_at s' k n = text_at s k n \<and> there s' k n = there s k n)"

lemma agree_but_refl [simp]: "agree_but x y k A s s"
  by (simp add: agree_but_def)

lemma agree_but_trans: "agree_but x y k A s t \<Longrightarrow> agree_but x y k B t u \<Longrightarrow> agree_but x y k (A \<union> B) s u"
  by (simp add: agree_but_def)

lemma agree_but_text: "agree_but x y k A s t \<Longrightarrow> n \<in> set ARTIFACTS \<Longrightarrow> n \<notin> A \<Longrightarrow> x t k n = x s k n"
  by (simp add: agree_but_def)

lemma agree_but_there: "agree_but x y k A s t \<Longrightarrow> n \<in> set ARTIFACTS \<Longrightarrow> n \<notin> A \<Longrightarrow> y t k n = y s k n"
  by (simp add: agree_but_def)

lemma in_cases_store: "in_cases m st = (r, st') \<Longrightarrow> m (ls_store st) = (r, ls_store st')"
  by (auto simp: in_cases_def in_groups_def on_store_def ls_store_def split: prod.splits)

lemma outside_store: "outside m st = (r, st') \<Longrightarrow> ls_store st' = ls_store st"
  by (auto simp: outside_def ls_store_def split: prod.splits)

locale evidence_store =
  fixes arts :: "'s artifacts" and sto :: "'s storage"
    and text_at :: "'s \<Rightarrow> string \<Rightarrow> string \<Rightarrow> string option" and there :: "'s \<Rightarrow> string \<Rightarrow> string \<Rightarrow> bool"
    and key_ok :: "string \<Rightarrow> bool"
  assumes saved: "key_ok k \<Longrightarrow> ar_save arts k n t s = (Inr (), s') \<Longrightarrow> n \<in> set ARTIFACTS \<Longrightarrow> text_at s' k n = Some t"
    and others_kept: "key_ok k \<Longrightarrow> ar_save arts k n t s = (r, s') \<Longrightarrow> n \<in> set ARTIFACTS \<Longrightarrow>
      agree_but text_at there k {n} s s'"
    and text_there: "text_at s k n = Some t \<Longrightarrow> there s k n"
    and exists_looks: "key_ok k \<Longrightarrow> ar_exists arts k n s = (b, s') \<Longrightarrow> n \<in> set ARTIFACTS \<Longrightarrow>
      s' = s \<and> (b = Inr True \<longrightarrow> there s k n)"
    and load_looks: "pureM (st_load sto k f)"
    and status_kept: "key_ok k \<Longrightarrow> st_save sto k d ''status.json'' s = (r, s') \<Longrightarrow> agree_but text_at there k {} s s'"
begin

text \<open>The texts the evidence of a record has.\<close>

lemma evidence_saved:
  assumes "la_artifacts la = arts" and "key_ok (case_key la m)" and "persist_evidence la m f s = (Inr (), s')"
  shows "text_at s' (case_key la m) HEADERS_ARTIFACT = Some (la_print la False (redacted_headers la m))"
    and "text_at s' (case_key la m) TRACE_ARTIFACT = Some (la_redact la (allowlist_of m) (raw_trace m))"
    and "text_at s' (case_key la m) PARSED_TRACE_ARTIFACT =
      Some (la_redact la (allowlist_of m) (la_print la False (failure_json (la_phrases la) f)))"
    and "agree_but text_at there (case_key la m)
      {HEADERS_ARTIFACT, TRACE_ARTIFACT, PARSED_TRACE_ARTIFACT, PAYLOAD_SUMMARY_ARTIFACT} s s'"
proof -
  let ?k = "case_key la m" and ?r = "la_redact la (allowlist_of m)"
  have member: "HEADERS_ARTIFACT \<in> set ARTIFACTS" "TRACE_ARTIFACT \<in> set ARTIFACTS" "PARSED_TRACE_ARTIFACT \<in> set ARTIFACTS"
    "PAYLOAD_SUMMARY_ARTIFACT \<in> set ARTIFACTS"
    by (simp_all add: ARTIFACTS_def)
  have apart: "HEADERS_ARTIFACT \<notin> {TRACE_ARTIFACT, PARSED_TRACE_ARTIFACT, PAYLOAD_SUMMARY_ARTIFACT}"
    "TRACE_ARTIFACT \<notin> {PARSED_TRACE_ARTIFACT, PAYLOAD_SUMMARY_ARTIFACT}" "PARSED_TRACE_ARTIFACT \<noteq> PAYLOAD_SUMMARY_ARTIFACT"
    by (simp_all add: artifact_names)
  obtain s1 s2 s3 where run:
    "ar_save arts ?k HEADERS_ARTIFACT (la_print la False (redacted_headers la m)) s = (Inr (), s1)"
    "ar_save arts ?k TRACE_ARTIFACT (?r (raw_trace m)) s1 = (Inr (), s2)"
    "ar_save arts ?k PARSED_TRACE_ARTIFACT (?r (la_print la False (failure_json (la_phrases la) f))) s2 = (Inr (), s3)"
    "(case payload_summary la m of None \<Rightarrow> ret () | Some t \<Rightarrow>
        if t = [] then ret () else ar_save arts ?k PAYLOAD_SUMMARY_ARTIFACT (?r t)) s3 = (Inr (), s')"
    using assms(3) unfolding persist_evidence_def Let_def assms(1) by (elim bindM_InrE) auto
  have last: "agree_but text_at there ?k {PAYLOAD_SUMMARY_ARTIFACT} s3 s'"
    using run(4) others_kept [OF assms(2) _ member(4)] by (auto split: option.splits if_splits)
  note steps = others_kept [OF assms(2) run(1) member(1)] others_kept [OF assms(2) run(2) member(2)]
    others_kept [OF assms(2) run(3) member(3)] last
  show "text_at s' ?k HEADERS_ARTIFACT = Some (la_print la False (redacted_headers la m))"
    using saved [OF assms(2) run(1) member(1)] apart(1)
    by (simp add: agree_but_text [OF steps(2) member(1)] agree_but_text [OF steps(3) member(1)] agree_but_text [OF steps(4) member(1)])
  show "text_at s' ?k TRACE_ARTIFACT = Some (?r (raw_trace m))"
    using saved [OF assms(2) run(2) member(2)] apart(2)
    by (simp add: agree_but_text [OF steps(3) member(2)] agree_but_text [OF steps(4) member(2)])
  show "text_at s' ?k PARSED_TRACE_ARTIFACT = Some (?r (la_print la False (failure_json (la_phrases la) f)))"
    using saved [OF assms(2) run(3) member(3)] apart(3) by (simp add: agree_but_text [OF steps(4) member(3)])
  show "agree_but text_at there ?k {HEADERS_ARTIFACT, TRACE_ARTIFACT, PARSED_TRACE_ARTIFACT, PAYLOAD_SUMMARY_ARTIFACT} s s'"
    using agree_but_trans [OF agree_but_trans [OF agree_but_trans [OF steps(1,2)] steps(3)] steps(4)] by (simp add: insert_commute)
qed


lemma logs_saved:
  assumes "la_artifacts la = arts" and "key_ok (case_key la m)" and "save_logs la m t st = (r, st')"
  shows "agree_but text_at there (case_key la m) {FETCHED_LOGS_ARTIFACT} (ls_store st) (ls_store st')"
    and "r = Inr () \<Longrightarrow> there (ls_store st') (case_key la m) FETCHED_LOGS_ARTIFACT"
proof -
  have n: "FETCHED_LOGS_ARTIFACT \<in> set ARTIFACTS" by (simp add: ARTIFACTS_def)
  have save: "ar_save arts (case_key la m) FETCHED_LOGS_ARTIFACT t (ls_store st) = (r, ls_store st')"
    using assms(3) by (auto simp: save_logs_def assms(1) dest: in_cases_store)
  show "agree_but text_at there (case_key la m) {FETCHED_LOGS_ARTIFACT} (ls_store st) (ls_store st')"
    using others_kept [OF assms(2) save n] .
  show "there (ls_store st') (case_key la m) FETCHED_LOGS_ARTIFACT" if "r = Inr ()"
    using text_there saved [OF assms(2) save [unfolded that] n] by blast
qed

lemma logs_left:
  assumes "la_artifacts la = arts" and "key_ok (case_key la m)" and "fetch_logs la m service st = (Inr gaps, st')"
  shows "there (ls_store st') (case_key la m) FETCHED_LOGS_ARTIFACT \<and>
    agree_but text_at there (case_key la m) {FETCHED_LOGS_ARTIFACT} (ls_store st) (ls_store st')"
proof -
  let ?k = "case_key la m" and ?agree = "agree_but text_at there (case_key la m) {FETCHED_LOGS_ARTIFACT}"
  have n: "FETCHED_LOGS_ARTIFACT \<in> set ARTIFACTS" by (simp add: ARTIFACTS_def)
  have noted: "there (ls_store v) ?k FETCHED_LOGS_ARTIFACT \<and> ?agree (ls_store u) (ls_store v)"
    if "bindM (save_logs la m t) (\<lambda>_. ret gs) u = (Inr gaps, v)" for t gs u v
    using that by (rule bindM_InrE) (use logs_saved [OF assms(1,2)] in auto)
  obtain b s1 where look: "in_cases (ar_exists arts ?k FETCHED_LOGS_ARTIFACT) st = (Inr b, s1)"
    and rest: "(if b then ret [] else if no_ref_id m
       then bindM (save_logs la m ''No refId available; logs were not fetched.'') (\<lambda>_. ret [''NO_CORRELATION_ID''])
       else (case log_window_of la m of
               None \<Rightarrow>
                 bindM (save_logs la m ''No usable timestamp; logs were not fetched.'') (\<lambda>_. ret [''NO_TIMESTAMP''])
             | Some w \<Rightarrow>
                 if lw_too_old w
                 then bindM (save_logs la m (''Log window too old to fetch: '' @ la_window_text la w)) (\<lambda>_. ret [''LOGS_TOO_OLD''])
                 else catchM
                        (bindM (outside (la_reduce_logs la (the (dm_ref_id m)) (dm_case_id m)
                                  (to_time_window (la_env la) w (la_now_ms la)) service)) (\<lambda>formatted.
                         bindM (save_logs la m formatted) (\<lambda>_. ret [])))
                        (\<lambda>e. bindM (save_logs la m (''Log fetch failed: '' @ la_error_text la e)) (\<lambda>_. ret [''LOG_FETCH_FAILED''])))) s1 = (Inr gaps, st')"
    using assms(3) unfolding fetch_logs_def assms(1) by (rule bindM_InrE)
  have s1: "ls_store s1 = ls_store st" "b \<Longrightarrow> there (ls_store st) ?k FETCHED_LOGS_ARTIFACT"
    using exists_looks [OF assms(2) in_cases_store [OF look] n] by auto
  have agree_s1: "?agree (ls_store s1) v \<Longrightarrow> ?agree (ls_store st) v" for v by (simp add: s1(1))
  show ?thesis
  proof (cases b)
    case True
    then show ?thesis using rest s1 by simp
  next
    case False
    show ?thesis
    proof (cases "no_ref_id m \<or> log_window_of la m = None \<or> lw_too_old (the (log_window_of la m))")
      case True
      then show ?thesis using rest False noted agree_s1 by (auto split: option.splits if_splits)
    next
      case fetched: False
      then obtain w where w: "log_window_of la m = Some w" "\<not> lw_too_old w" "\<not> no_ref_id m" by auto
      from rest have "catchM
          (bindM (outside (la_reduce_logs la (the (dm_ref_id m)) (dm_case_id m) (to_time_window (la_env la) w (la_now_ms la)) service))
             (\<lambda>formatted. bindM (save_logs la m formatted) (\<lambda>_. ret [])))
          (\<lambda>e. bindM (save_logs la m (''Log fetch failed: '' @ la_error_text la e)) (\<lambda>_. ret [''LOG_FETCH_FAILED''])) s1 = (Inr gaps, st')"
        using False w by simp
      then show ?thesis
      proof (cases rule: catchM_cases)
        case (exn e u)
        have "?agree (ls_store s1) (ls_store u)"
          using exn(1) by (auto elim!: bindM_cases dest!: outside_store logs_saved(1) [OF assms(1,2)])
        then show ?thesis using noted [OF exn(2)] agree_s1 agree_but_trans by (metis Un_absorb)
      next
        case (val a)
        from val(1) obtain t u where u: "outside (la_reduce_logs la (the (dm_ref_id m)) (dm_case_id m)
            (to_time_window (la_env la) w (la_now_ms la)) service) s1 = (Inr t, u)"
          "bindM (save_logs la m t) (\<lambda>_. ret []) u = (Inr a, st')"
          by (rule bindM_InrE)
        then show ?thesis using noted [of t "[]" u st'] val(2) agree_s1 outside_store [OF u(1)] by simp
      qed
    qed
  qed
qed


text \<open>Everything a published case rests on is stored when the stage comes to the publication.\<close>

lemma evidence_left:
  assumes "la_artifacts la = arts" and "la_cases la = sto" and "key_ok (case_key la m)"
    and "keep_evidence la m resolution fresh st = (Inr (gaps, b), st')"
  shows "text_at (ls_store st') (case_key la m) HEADERS_ARTIFACT = Some (la_print la False (redacted_headers la m)) \<and>
    text_at (ls_store st') (case_key la m) TRACE_ARTIFACT = Some (la_redact la (allowlist_of m) (raw_trace m)) \<and>
    text_at (ls_store st') (case_key la m) PARSED_TRACE_ARTIFACT =
      Some (la_redact la (allowlist_of m) (la_print la False (failure_json (la_phrases la) (final_failure la m resolution)))) \<and>
    text_at (ls_store st') (case_key la m) DEPLOYED_ARTIFACT =
      Some (la_print la False (JObj (deployed_doc (la_deployed_text la) b))) \<and>
    there (ls_store st') (case_key la m) FETCHED_LOGS_ARTIFACT"
proof -
  let ?k = "case_key la m" and ?agree = "agree_but text_at there (case_key la m)"
  obtain s1 u s2 gs s3 b' s4 s5 s6 where
    1: "in_cases (persist_evidence la m (final_failure la m resolution)) st = (Inr (), s1)" and
    2: "(if fresh then in_cases (persist_resolution (la_artifacts la) (la_print la) ?k resolution) else ret False) s1 = (Inr u, s2)" and
    3: "fetch_logs la m (log_service_of la resolution) s2 = (Inr gs, s3)" and
    4: "outside (la_deployed la (log_service_of la resolution)) s3 = (Inr b', s4)" and
    5: "in_cases (ar_save (la_artifacts la) ?k DEPLOYED_ARTIFACT (la_print la False (JObj (deployed_doc (la_deployed_text la) b')))) s4 = (Inr (), s5)" and
    6: "in_cases (record_fetched la m (ca_now (la_call la At_save))) s5 = (Inr (), s6)" and
    7: "b = b'" "st' = s6"
    using assms(4) unfolding keep_evidence_def by (elim bindM_InrE) auto
  have names: "set [HEADERS_ARTIFACT, TRACE_ARTIFACT, PARSED_TRACE_ARTIFACT, FETCHED_LOGS_ARTIFACT, DEPLOYED_ARTIFACT, RESOLUTION_ARTIFACT]
      \<subseteq> set ARTIFACTS" by (simp add: ARTIFACTS_def)
  note left = evidence_saved [OF assms(1,3) in_cases_store [OF 1]]
  have a2: "?agree {RESOLUTION_ARTIFACT} (ls_store s1) (ls_store s2)"
  proof (cases fresh)
    case True
    then have "persist_resolution arts (la_print la) ?k resolution (ls_store s1) = (Inr u, ls_store s2)"
      using in_cases_store [of "persist_resolution arts (la_print la) ?k resolution" s1] 2 by (simp add: assms(1))
    then show ?thesis
      unfolding persist_resolution_def
      by (rule catchM_cases) (use names in \<open>auto elim!: bindM_cases dest: others_kept [OF assms(3)]\<close>)
  next
    case False
    then show ?thesis using 2 by simp
  qed
  note a3 = logs_left [OF assms(1,3) 3]
  have s4: "ls_store s4 = ls_store s3" using 4 by (rule outside_store)
  have save5: "ar_save arts ?k DEPLOYED_ARTIFACT (la_print la False (JObj (deployed_doc (la_deployed_text la) b'))) (ls_store s4) = (Inr (), ls_store s5)"
    using in_cases_store [OF 5] by (simp add: assms(1))
  have a5: "?agree {DEPLOYED_ARTIFACT} (ls_store s3) (ls_store s5)"
    using others_kept [OF assms(3) save5] names by (simp add: s4)
  have dep: "text_at (ls_store s5) ?k DEPLOYED_ARTIFACT = Some (la_print la False (JObj (deployed_doc (la_deployed_text la) b')))"
    using saved [OF assms(3) save5] names by simp
  have a6: "?agree {} (ls_store s5) (ls_store s6)"
  proof -
    have "record_fetched la m (ca_now (la_call la At_save)) (ls_store s5) = (Inr (), ls_store s6)"
      using 6 by (rule in_cases_store)
    then show ?thesis
      unfolding record_fetched_def assms(2)
      by (rule bindM_InrE)
        (auto dest!: pureM_state [OF load_looks] dest: status_kept [OF assms(3)] split: sum.splits json.splits option.splits if_splits)
  qed
  have later: "?agree {RESOLUTION_ARTIFACT, FETCHED_LOGS_ARTIFACT, DEPLOYED_ARTIFACT} (ls_store s1) (ls_store s6)"
    using agree_but_trans [OF agree_but_trans [OF agree_but_trans [OF a2 conjunct2 [OF a3]] a5] a6] by (simp add: insert_commute)
  have last: "?agree {DEPLOYED_ARTIFACT} (ls_store s3) (ls_store s6)"
    using agree_but_trans [OF a5 a6] by simp
  show ?thesis
    using left(1-3) dep conjunct1 [OF a3] names
    by (simp add: 7 agree_but_text [OF later] agree_but_text [OF a6] agree_but_there [OF last] artifact_names)
qed

end



section \<open>The local backend provides it\<close>

definition local_artifacts :: "path \<Rightarrow> disk artifacts" where
  "local_artifacts base =
     \<lparr>ar_save = (\<lambda>k n t. bindM (local_save_artifact base k n t) (\<lambda>_. ret ())), ar_load = local_load_artifact base,
      ar_exists = local_artifact_exists base\<rparr>"

definition artifact_text :: "path \<Rightarrow> disk \<Rightarrow> string \<Rightarrow> string \<Rightarrow> string option" where
  "artifact_text base d k n = read_text (key_path base k n) d"

definition artifact_there :: "path \<Rightarrow> disk \<Rightarrow> string \<Rightarrow> string \<Rightarrow> bool" where
  "artifact_there base d k n \<longleftrightarrow> file_at d (key_path base k n) \<noteq> None"

lemma artifact_keys:
  assumes "CHR ''/'' \<notin> set k"
  shows "n \<in> set ARTIFACTS \<Longrightarrow> local_key_ok k n" and "local_key_ok k ''status.json''"
    and "n \<in> set ARTIFACTS \<Longrightarrow> n \<noteq> ''status.json''"
proof -
  have "\<forall>n\<in>set (''status.json'' # ARTIFACTS). (\<forall>c\<in>set (split_on CHR ''/'' n). proper_name c) \<and> \<not> ends_with ''.tmp'' n"
    by code_simp
  then show "n \<in> set ARTIFACTS \<Longrightarrow> local_key_ok k n" and "local_key_ok k ''status.json''"
    using assms by (auto simp: local_key_ok_def)
  have "''status.json'' \<notin> set ARTIFACTS" by code_simp
  then show "n \<in> set ARTIFACTS \<Longrightarrow> n \<noteq> ''status.json''" by blast
qed

lemma save_artifact_spec:
  assumes "local_save_artifact base e f t d = (r, d')" and ok: "local_key_ok e f"
  shows "(\<forall>p. r = Inr p \<longrightarrow> file_at d' (key_path base e f) = Some (Text t)) \<and>
    (\<forall>q. q \<noteq> key_path base e f \<longrightarrow> q \<noteq> key_path base e (tmp_name f) \<longrightarrow> file_at d' q = file_at d q)"
proof -
  have e: "CHR ''/'' \<notin> set e" using ok by (simp add: local_key_ok_def)
  from assms(1) [unfolded local_save_artifact_def] show ?thesis
  proof (cases rule: bindM_cases)
    case (exn x)
    then show ?thesis using get_dir_spec [OF exn(1) e] by simp
  next
    case (val dir s1)
    note g = get_dir_spec [OF val(1) e]
    then have dir: "dir = base @ [''casebook_'' @ e]" by simp
    show ?thesis
    proof (cases "d_locked s1 (Local_Storage.resolve dir (lock_name f))")
      case True
      then show ?thesis using val g by (auto simp: with_lock_def bindM_def)
    next
      case False
      obtain r2 d2 where w: "write_and_swap dir f (Text t) s1 = (r2, d2)" by fastforce
      then have "d' = d2" "r = (case r2 of Inl x \<Rightarrow> Inl x | Inr u \<Rightarrow> Inr (Local_Storage.resolve dir f))"
        using val False by (auto simp: with_lock_def bindM_def split: sum.splits)
      then show ?thesis using write_and_swap_spec [OF w [unfolded dir] ok] g by (auto split: sum.splits)
    qed
  qed
qed

lemma other_keys:
  assumes "CHR ''/'' \<notin> set k" and "n \<in> set ARTIFACTS" and "n \<noteq> f"
  shows "key_path base k n \<noteq> key_path base k f" and "key_path base k n \<noteq> key_path base k (tmp_name f)"
  using assms(3) key_not_tmp [OF artifact_keys(1) [OF assms(1,2)]] by (simp_all add: key_path_inj)

interpretation disk_evidence: evidence_store "local_artifacts base" "local_storage base" "artifact_text base" "artifact_there base"
    "\<lambda>k. CHR ''/'' \<notin> set k"
  for base
proof unfold_locales
  fix k n t f :: string and d :: doc and s s' :: disk and r :: "exn + unit" and b :: "exn + bool"
  assume k: "CHR ''/'' \<notin> set k"
  show "artifact_text base s' k n = Some t" if "ar_save (local_artifacts base) k n t s = (Inr (), s')" "n \<in> set ARTIFACTS"
    using save_artifact_spec [OF _ artifact_keys(1) [OF k that(2)]] that(1)
    by (fastforce simp: artifact_text_def read_text_def local_artifacts_def elim: bindM_InrE)
  show "agree_but (artifact_text base) (artifact_there base) k {n} s s'"
    if "ar_save (local_artifacts base) k n t s = (r, s')" "n \<in> set ARTIFACTS"
  proof -
    obtain r' s'' where w: "local_save_artifact base k n t s = (r', s'')" by fastforce
    then have "s'' = s'" using that(1) by (cases r') (auto simp: local_artifacts_def bindM_def)
    from save_artifact_spec [OF w [unfolded this] artifact_keys(1) [OF k that(2)]] show ?thesis
      using other_keys [OF k] by (simp add: agree_but_def artifact_text_def artifact_there_def read_text_def)
  qed
  show "s' = s \<and> (b = Inr True \<longrightarrow> artifact_there base s k n)"
    if "ar_exists (local_artifacts base) k n s = (b, s')" "n \<in> set ARTIFACTS"
    using that key_paths [OF artifact_keys(1) [OF k that(2)], of base]
    by (auto simp: local_artifacts_def local_artifact_exists_def artifact_there_def)
  show "agree_but (artifact_text base) (artifact_there base) k {} s s'"
    if "st_save (local_storage base) k d ''status.json'' s = (r, s')"
  proof -
    have "local_save base k d ''status.json'' s = (r, s')" using that by (simp add: local_storage_def)
    from local_save_spec [OF this artifact_keys(2) [OF k]] show ?thesis
      using other_keys [OF k _ artifact_keys(3) [OF k]]
      by (auto simp: agree_but_def artifact_text_def artifact_there_def read_text_def)
  qed
next
  fix s :: disk and k n t :: string
  show "artifact_text base s k n = Some t \<Longrightarrow> artifact_there base s k n"
    by (auto simp: artifact_text_def artifact_there_def read_text_def split: option.splits)
next
  fix k f :: string
  show "pureM (st_load (local_storage base) k f)"
    unfolding pureM_def using local_load_spec(1) [of base k f] by (metis local_storage_def prod.collapse storage.select_convs(2))
qed



section \<open>Properties\<close>

lemma fetch_queued:
  assumes "fetch_dlt_logs la m st = (Inr (Queued c gaps vs service), st')"
  obtains resolution fresh b s1 s2 where "keep_evidence la m resolution fresh s1 = (Inr (gaps, b), s2)"
    "outside (la_publish la (queue_body la m gaps b)) s2 = (Inr (), st')"
    "c = fr_failure_class (final_failure la m resolution)" "vs = dv_versions b" "\<not> gd_skip (gate_of la resolution)"
  using assms unfolding fetch_dlt_logs_def
  by (auto elim!: bindM_InrE split: if_splits prod.splits)


text \<open>C21. A fault of the log lane costs a gap and never the case. As long as artifacts can be written, the log step
  returns whatever the fetch does: at most one gap, of the published vocabulary, and a fetch that raised is
  reported as failed, with the error kept as the log artifact.\<close>

theorem log_faults_are_gaps:
  assumes "\<And>n t s. \<exists>s'. ar_save (la_artifacts la) (case_key la m) n t s = (Inr (), s')"
    and "\<And>n s. \<exists>b s'. ar_exists (la_artifacts la) (case_key la m) n s = (Inr b, s')"
  shows "\<exists>gaps st'. fetch_logs la m service st = (Inr gaps, st') \<and> length gaps \<le> 1 \<and> set gaps \<subseteq> set EVIDENCE_GAPS \<and>
    (\<forall>w e s1 world. in_cases (ar_exists (la_artifacts la) (case_key la m) ''fetched_logs.txt'') st = (Inr False, s1) \<longrightarrow>
       \<not> no_ref_id m \<longrightarrow> log_window_of la m = Some w \<longrightarrow> \<not> lw_too_old w \<longrightarrow>
       la_reduce_logs la (the (dm_ref_id m)) (dm_case_id m) (to_time_window (la_env la) w (la_now_ms la)) service (ls_world s1) = (Inl e, world) \<longrightarrow>
       gaps = [''LOG_FETCH_FAILED''] \<and>
       (\<exists>s2. in_cases (ar_save (la_artifacts la) (case_key la m) ''fetched_logs.txt'' (''Log fetch failed: '' @ la_error_text la e)) s2 = (Inr (), st')))"
proof -
  have save: "\<exists>s'. save_logs la m t s = (Inr (), s')" for t s
  proof -
    obtain s' where "ar_save (la_artifacts la) (case_key la m) FETCHED_LOGS_ARTIFACT t (gp_store (ls_groups s)) = (Inr (), s')"
      using assms(1) by blast
    then show ?thesis by (simp add: save_logs_def in_cases_def in_groups_def on_store_def)
  qed
  obtain b s1 where look: "in_cases (ar_exists (la_artifacts la) (case_key la m) ''fetched_logs.txt'') st = (Inr b, s1)"
    using assms(2) [of "''fetched_logs.txt''" "ls_store st"]
    by (auto simp: in_cases_def in_groups_def on_store_def ls_store_def)
  let ?rest = "if b then ret [] else if no_ref_id m
       then bindM (save_logs la m ''No refId available; logs were not fetched.'') (\<lambda>_. ret [''NO_CORRELATION_ID''])
       else (case log_window_of la m of
               None \<Rightarrow>
                 bindM (save_logs la m ''No usable timestamp; logs were not fetched.'') (\<lambda>_. ret [''NO_TIMESTAMP''])
             | Some w \<Rightarrow>
                 if lw_too_old w
                 then bindM (save_logs la m (''Log window too old to fetch: '' @ la_window_text la w)) (\<lambda>_. ret [''LOGS_TOO_OLD''])
                 else catchM
                        (bindM (outside (la_reduce_logs la (the (dm_ref_id m)) (dm_case_id m)
                                  (to_time_window (la_env la) w (la_now_ms la)) service)) (\<lambda>formatted.
                         bindM (save_logs la m formatted) (\<lambda>_. ret [])))
                        (\<lambda>e. bindM (save_logs la m (''Log fetch failed: '' @ la_error_text la e)) (\<lambda>_. ret [''LOG_FETCH_FAILED''])))"
  have run: "fetch_logs la m service st = ?rest s1"
    using look by (simp add: fetch_logs_def FETCHED_LOGS_ARTIFACT_def bindM_Inr)
  have gap: "\<exists>st'. bindM (save_logs la m t) (\<lambda>_. ret gs) s = (Inr gs, st') \<and> save_logs la m t s = (Inr (), st')" for t gs s
    using save [of t s] by (auto simp: bindM_def)
  then have told: "fst (bindM (save_logs la m t) (\<lambda>_. ret gs) s) = Inr gs" for t gs s by (metis fst_conv)
  show ?thesis
  proof (cases "b \<or> no_ref_id m \<or> log_window_of la m = None \<or> lw_too_old (the (log_window_of la m))")
    case True
    then have "fst (?rest s1) \<in> Inr ` {[], [''NO_CORRELATION_ID''], [''NO_TIMESTAMP''], [''LOGS_TOO_OLD'']}"
      by (auto simp: told split: option.split)
    moreover obtain x st' where end_state: "?rest s1 = (x, st')" by (rule prod.exhaust)
    ultimately have "x \<in> Inr ` {[], [''NO_CORRELATION_ID''], [''NO_TIMESTAMP''], [''LOGS_TOO_OLD'']}" by (simp only: fst_conv)
    then obtain gaps where "?rest s1 = (Inr gaps, st')" "gaps \<in> {[], [''NO_CORRELATION_ID''], [''NO_TIMESTAMP''], [''LOGS_TOO_OLD'']}"
      using end_state by (elim imageE) (simp only:)
    then show ?thesis
      unfolding run using True look by (intro exI [of _ gaps] exI [of _ st']) (auto simp: EVIDENCE_GAPS_def)
  next
    case False
    then obtain w where w: "log_window_of la m = Some w" "\<not> lw_too_old w" "\<not> no_ref_id m" "\<not> b" by auto
    let ?fetch = "la_reduce_logs la (the (dm_ref_id m)) (dm_case_id m) (to_time_window (la_env la) w (la_now_ms la)) service"
    obtain r world where f: "?fetch (ls_world s1) = (r, world)" by fastforce
    show ?thesis
    proof (cases r)
      case (Inl e)
      obtain st' where "bindM (save_logs la m (''Log fetch failed: '' @ la_error_text la e)) (\<lambda>_. ret [''LOG_FETCH_FAILED'']) (s1\<lparr>ls_world := world\<rparr>) =
          (Inr [''LOG_FETCH_FAILED''], st')" "save_logs la m (''Log fetch failed: '' @ la_error_text la e) (s1\<lparr>ls_world := world\<rparr>) = (Inr (), st')"
        using gap [of "''Log fetch failed: '' @ la_error_text la e" "[''LOG_FETCH_FAILED'']" "s1\<lparr>ls_world := world\<rparr>"]
        by (elim exE conjE)
      then show ?thesis
        unfolding run using w f Inl look
        by (intro exI [of _ "[''LOG_FETCH_FAILED'']"] exI [of _ st'])
          (auto simp: outside_def bindM_def catchM_def EVIDENCE_GAPS_def save_logs_def FETCHED_LOGS_ARTIFACT_def)
    next
      case (Inr t)
      obtain st' where "bindM (save_logs la m t) (\<lambda>_. ret ([] :: string list)) (s1\<lparr>ls_world := world\<rparr>) = (Inr [], st')"
        using gap [of t "[]" "s1\<lparr>ls_world := world\<rparr>"] by (elim exE conjE)
      moreover have "outside ?fetch s1 = (Inr t, s1\<lparr>ls_world := world\<rparr>)" by (simp add: outside_def f Inr)
      ultimately have "bindM (outside ?fetch) (\<lambda>formatted. bindM (save_logs la m formatted) (\<lambda>_. ret ([] :: string list))) s1 = (Inr [], st')"
        by (simp only: bindM_Inr)
      then have "catchM (bindM (outside ?fetch) (\<lambda>formatted. bindM (save_logs la m formatted) (\<lambda>_. ret ([] :: string list)))) h s1 = (Inr [], st')" for h
        by (rule catchM_Inr)
      then show ?thesis
        unfolding run using w f Inr look by (intro exI [of _ "[]"] exI [of _ st']) simp
    qed
  qed
qed


section \<open>A lane for concrete runs\<close>

text \<open>Its world is the list of the calls that left the program.\<close>

definition plain_phrases :: phrases where
  "plain_phrases = \<lparr>ph_class = (\<lambda>_. ''c''), ph_corroboration = (\<lambda>_. ''v''), ph_reuse = (\<lambda>_. ''u''), ph_check = (\<lambda>_. ''k''),
     ph_resolved = (\<lambda>_. ''s''), ph_replay = (\<lambda>_. ''r''), ph_attempt = (\<lambda>_. ''a''), ph_park = (\<lambda>_. ''p'')\<rparr>"

definition plain_agents :: "'w agents" where
  "plain_agents = \<lparr>ag_cancelled = (\<lambda>_. False), ag_harness = False, ag_write_case_files = ret (), ag_wait_for_corpus = ret (),
     ag_harness_investigator = ret ''i'', ag_investigator = (\<lambda>_. ret ''i''), ag_harness_reviewer = (\<lambda>_. ret (None, [])),
     ag_reviewer = (\<lambda>_. ret ''APPROVED''), ag_synthesis = (\<lambda>_. ret ''s''), ag_repair = (\<lambda>_ _. ret ''r''),
     ag_parse_finding = (\<lambda>_. Inl ''not a finding'')\<rparr>"

definition called :: "string \<Rightarrow> 'a \<Rightarrow> (string list, 'a) io" where
  "called name a w = (Inr a, w @ [name])"

definition plain_lane :: "'s artifacts \<Rightarrow> 's storage \<Rightarrow> env \<Rightarrow> ('s, unit, string list) lane" where
  "plain_lane arts sto env =
     \<lparr>la_env = env, la_cases = sto, la_artifacts = arts, la_claims = sto, la_groups = sto, la_parked = sto,
      la_reader = \<lparr>rd_configured = False, rd_repo_for = (\<lambda>_. Inr None), rd_resolve_path = (\<lambda>_ _. ret None),
        rd_commits_touching = (\<lambda>_ _ _. ret None), rd_changed_paths = (\<lambda>_ _. ret None), rd_version_at = (\<lambda>_ _. ret None)\<rparr>,
      la_pattern = None, la_digest = (\<lambda>_. replicate 64 (CHR ''a'')), la_parse = (\<lambda>_. None), la_print = (\<lambda>_ _. ''{}''),
      la_catalog = [], la_registry = two_services, la_index = empty_index, la_redact = (\<lambda>_ t. t), la_phrases = plain_phrases,
      la_wording = plain_wording, la_deployed_text = (\<lambda>_. ''d''), la_window_text = (\<lambda>_. ''w''), la_error_text = (\<lambda>_. ''e''),
      la_summarise = (\<lambda>_ _. None), la_reduce_logs = (\<lambda>_ _ _ _. called ''logs'' ''no errors''),
      la_deployed = (\<lambda>_. called ''pods'' (no_reading Not_listable)), la_publish = (\<lambda>_. called ''publish'' ()),
      la_gate = (\<lambda>_ _. called ''gate'' (True, False)), la_agents = (\<lambda>_. plain_agents), la_overran = (\<lambda>_ _. False),
      la_cleanup = (\<lambda>_. called ''cleanup'' ()), la_number = (\<lambda>_. ''270''), la_tool = (\<lambda>_. called ''replay'' (Some ''queued'')),
      la_meanwhile = (\<lambda>_ st. st), la_call = (\<lambda>_. \<lparr>ca_env = env, ca_ttl = 0, ca_now = 1, ca_seq = 1\<rparr>), la_now_ms = 1700000000000,
      la_spent = (\<lambda>_. 0), la_unique = ''u''\<rparr>"

definition plain_message :: dlt_message where
  "plain_message = \<lparr>dm_case_id = ''topic-0-17'', dm_headers = [(''kafka_dlt-consumer-group'', Some ''bio'')], dm_payload = PNull,
     dm_payload_raw = None, dm_record_key = Some ''R1'', dm_ref_id = Some ''R1'', dm_ref_id_source = ''record_key'',
     dm_payload_ref_id = None, dm_ref_id_mismatch = False, dm_event_id = None, dm_extra = []\<rparr>"

definition idle :: "'s \<Rightarrow> ('s, unit, string list) lane_state" where
  "idle s = \<lparr>ls_groups = \<lparr>gp_store = s, gp_cache = [], gp_records = []\<rparr>, ls_reader = (), ls_world = []\<rparr>"

definition disk_lane :: "env \<Rightarrow> (disk, unit, string list) lane" where
  "disk_lane = plain_lane (local_artifacts [''cases'']) (local_storage [''cases''])"

lemma plain_fetch:
  "case fetch_dlt_logs (disk_lane (\<lambda>_. None)) plain_message (idle empty_disk) of
     (Inr (Queued c gaps vs service), st') \<Rightarrow> c = ''U'' \<and> gaps = [''NO_TIMESTAMP''] \<and> vs = [] \<and> ls_world st' = [''pods'', ''publish'']
   | _ \<Rightarrow> False"
  by code_simp


text \<open>A lane whose store takes everything and holds nothing.\<close>

definition sink_lane :: "env \<Rightarrow> (unit, unit, string list) lane" where
  "sink_lane =
     plain_lane \<lparr>ar_save = (\<lambda>_ _ _. ret ()), ar_load = (\<lambda>_ _. ret None), ar_exists = (\<lambda>_ _. ret False)\<rparr>
       \<lparr>st_save = (\<lambda>_ _ _. ret ()), st_load = (\<lambda>_ _. ret None), st_exists = (\<lambda>_ _ _. ret False),
        st_update_json = (\<lambda>_ _ f. of_result (f None)), st_create_json = (\<lambda>_ _ _. ret True),
        st_list_json = (\<lambda>_ _. ret []), st_list_events = ret []\<rparr>"

theorem log_faults_are_gaps_witness:
  "\<exists>gaps st'. fetch_logs ((sink_lane (\<lambda>_. None))\<lparr>la_reduce_logs := (\<lambda>_ _ _ _. raise OSError)\<rparr>) plain_message None (idle ()) = (Inr gaps, st') \<and>
     set gaps \<subseteq> set EVIDENCE_GAPS"
proof -
  let ?la = "(sink_lane (\<lambda>_. None))\<lparr>la_reduce_logs := (\<lambda>_ _ _ _. raise OSError)\<rparr>"
  have "\<exists>s'. ar_save (la_artifacts ?la) (case_key ?la plain_message) n t s = (Inr (), s')"
    "\<exists>b s'. ar_exists (la_artifacts ?la) (case_key ?la plain_message) n s = (Inr b, s')" for n t s
    by (auto simp: sink_lane_def plain_lane_def)
  from log_faults_are_gaps [OF this] show ?thesis by blast
qed


text \<open>C29. A record the service gate turns away leaves nothing behind: whatever reads leave alone is as it was, no
  claim is taken, nothing is written, fetched or published, so the record can still be analysed in full when it is
  redriven.\<close>

theorem skipped_record_leaves_nothing:
  assumes "fetch_dlt_logs la m st = (Inr (Skipped reason service), st')"
    and "\<And>k f. pureM (st_load (la_cases la) k f)" and "\<And>k n. pureM (ar_load (la_artifacts la) k n)"
  shows "st' = st \<and> (\<exists>resolution. gd_skip (gate_of la resolution) \<and> reason = gd_reason (gate_of la resolution) \<and>
    service = jget resolution ''service'')"
proof -
  have terminal: "pureM (terminal_status (la_cases la) k fs)" for k fs
    using assms(2) by (induction fs) (auto intro!: pureM_bindM simp: of_result_def split: option.split sum.split)
  have resolved: "pureM (resolve_service_of la m)"
    using assms(3) unfolding resolve_service_of_def load_or_resolve_def Let_def
    by (auto intro!: pureM_bindM pureM_catchM simp: of_result_def split: option.split sum.split)
  have keep: "in_cases q s = (r, s') \<Longrightarrow> pureM q \<Longrightarrow> s' = s" for q :: "('a, 'z) io" and r s s'
    by (auto simp: in_cases_def in_groups_def on_store_def split: prod.splits dest: pureM_state)
  from assms(1) show ?thesis
    unfolding fetch_dlt_logs_def
    by (auto elim!: bindM_InrE dest!: keep [OF _ terminal] keep [OF _ resolved] split: if_splits prod.splits) blast+
qed

theorem skipped_record_leaves_nothing_witness:
  "\<exists>reason service. fetch_dlt_logs (sink_lane (\<lambda>k. if k = ''DLT_SERVICE_GATE'' then Some ''enforce'' else None)) plain_message (idle ()) =
     (Inr (Skipped reason service), idle ())"
proof -
  let ?la = "sink_lane (\<lambda>k. if k = ''DLT_SERVICE_GATE'' then Some ''enforce'' else None)"
  have "case fetch_dlt_logs ?la plain_message (idle ()) of (Inr (Skipped reason service), st') \<Rightarrow> True | _ \<Rightarrow> False" by code_simp
  then obtain reason service st' where run: "fetch_dlt_logs ?la plain_message (idle ()) = (Inr (Skipped reason service), st')"
    by (auto split: prod.splits sum.splits response.splits)
  have "pureM (st_load (la_cases ?la) k f)" "pureM (ar_load (la_artifacts ?la) k n)" for k f n
    by (simp_all add: sink_lane_def plain_lane_def pureM_def)
  from skipped_record_leaves_nothing [OF run this] run show ?thesis by blast
qed

end
