(* ===== verification/Dlt_Handlers.thy ===== *)
theory Dlt_Handlers
  imports Dlt_Process Evidence
begin

text \<open>What the analysis of a dead-lettered case guarantees, from one end of the handler to the other.\<close>

section \<open>The parts of a case\<close>

lemma final_failure_facts:
  "fr_failure_class (final_failure la m d) \<in> set FAILURE_CLASSES"
  "\<exists>t. fr_fingerprint (final_failure la m d) = la_digest la t"
  by (auto simp: final_failure_def failure_of_def build_failure_def fingerprinted_def Let_def class_value_known compute_fingerprint_def)

lemma few_citations: "length (co_citations (corroboration_of la m logs)) \<le> 20"
proof -
  have "length (co_citations (corroborate l root code frames chain)) \<le> 20" for l root code frames chain
    by (rule corroborate_cases [of l root code frames chain])
      (simp_all add: unverifiable_def judge_citations [OF refl] MAX_CITATIONS_def)
  then show ?thesis by (simp add: corroboration_of_def Let_def)
qed

lemma finding_of_valid: "finding_of v = Inr f \<Longrightarrow> valid_finding f"
  by (auto simp: finding_of_def valid_finding_def optional_def unit_number_def bind_eq_Some_conv
      split: json.splits option.splits if_splits)

lemma canned_valid: "valid_finding (canned_build wd k f c g)"
  by (simp add: valid_finding_def canned_build_def canned_action_def DLT_ACTIONS_def)

text \<open>The parser accepts only findings of the contract and explains a refusal.\<close>

definition parser_ok :: "'w agents \<Rightarrow> bool" where
  "parser_ok ag \<longleftrightarrow> (\<forall>raw. case ag_parse_finding ag raw of Inl e \<Rightarrow> e \<noteq> [] | Inr f \<Rightarrow> valid_finding f)"

lemma parsed_valid: "parser_ok ag \<Longrightarrow> parsed_answer ag (Some f, err) \<Longrightarrow> valid_finding f"
  unfolding parser_ok_def parsed_answer_def by (auto simp: valid_finding_def split: sum.splits)

lemma parsed_refusal: "parser_ok ag \<Longrightarrow> parsed_answer ag (None, err) \<Longrightarrow> err \<noteq> None \<and> err \<noteq> Some []"
  unfolding parser_ok_def parsed_answer_def by (auto split: sum.splits)

lemma answer_valid:
  assumes "\<And>ri. parser_ok (la_agents la ri)" and "answer_from la g grp (f, source, err)"
  shows "valid_finding f \<and> source \<in> set FINDING_SOURCES \<and> (source = ''failed_synthesis'' \<longrightarrow> err \<noteq> None \<and> err \<noteq> Some [])"
  using assms(2) unfolding answer_from_def
  by (auto simp: canned_valid finding_of_valid FINDING_SOURCES_def parsed_valid [OF assms(1)]
      dest: parsed_refusal [OF assms(1)])
    (simp add: unusable_finding_def valid_finding_def DLT_ACTIONS_def)

text \<open>What the environment, the queue and the services outside the program provide.\<close>

definition lane_sane :: "('s, 'r, 'w) lane \<Rightarrow> dlt_message \<Rightarrow> bool" where
  "lane_sane la m \<longleftrightarrow>
     (\<forall>t. conforms Hex64 (JStr (la_digest la t))) \<and> (\<forall>ri. parser_ok (la_agents la ri)) \<and>
     0 \<le> reuse_decay (la_env la) \<and> (\<forall>f ev. \<forall>v\<in>triggered (la_env la) f ev. 0 \<le> v) \<and>
     dm_ref_id_source m \<in> set REF_ID_SOURCES \<and>
     conforms (Many (One_of EVIDENCE_GAPS)) (py_or (carried m ''evidence_gaps'') (JArr [])) \<and>
     conforms (Maybe Str) (carried m ''log_window'') \<and> (\<forall>a. is_v2 (ca_env (la_call la a))) \<and>
     (\<forall>t r t'. load_entry (la_parked la) (dm_case_id m) t = (Inr (Some r), t') \<longrightarrow> version_is_text r) \<and>
     (\<forall>a st. counted_cache (gp_cache (ls_groups st)) \<longrightarrow> counted_cache (gp_cache (ls_groups (la_meanwhile la a st))))"

lemma keepsM_True [simp]: "keepsM (\<lambda>_. True) m"
  by (simp add: keepsM_def)

lemma sane_keeps: "lane_sane la m \<Longrightarrow> lane_keeps counted_cache counted (\<lambda>_. True) la"
  by (simp add: lane_keeps_def groups_keep_def group_operations_count lane_sane_def agents_keep_def holds_def)

section \<open>Each part as the stages produce it\<close>

text \<open>The states a run of the analysis passes through when it ends with a case.\<close>

lemma analyse_steps:
  assumes "analyse la m resolution budget st = (Inr (Inr p), st')"
  obtains g outcome d grp raw source err state pc grp' replay held s1 s2 s3 s4 s5 where
    "gather la m resolution st = (Inr g, s1)" "through_gate la g budget s1 = (Inr (outcome, d, grp), s2)"
    "produce la m g d grp budget s2 = (Inr (Some (raw, source, err)), s3)"
    "cache_finding la m g source (apply_dlt_confidence_policy (la_env la) raw (policy_evidence g d)) grp s3 = (Inr (state, pc, grp'), s4)"
    "off_loop la At_replay (outside (maybe_replay (la_env la) (la_tool la) (dm_ref_id m)
       (apply_dlt_confidence_policy (la_env la) raw (policy_evidence g d)) (Some (ga_check g)))) s4 = (Inr replay, s5)"
    "off_loop la At_park (in_cases (maybe_park (la_env la) (ca_now (la_call la At_park)) (la_parked la) (dm_case_id m) (dm_ref_id m)
       (Some (ga_check g)) (apply_dlt_confidence_policy (la_env la) raw (policy_evidence g d)))) s5 = (Inr held, st')"
    "p = \<lparr>cp_now = ca_now (la_call la At_last_look), cp_message = m, cp_headers = headers_of m,
          cp_failure = ga_failure g, cp_corroboration = ga_corroboration g,
          cp_finding = apply_dlt_confidence_policy (la_env la) raw (policy_evidence g d), cp_decision = d,
          cp_group = grp', cp_gaps = py_or (carried m ''evidence_gaps'') (JArr []),
          cp_log_window = carried m ''log_window'', cp_source = source, cp_replay = replay,
          cp_code_check = ga_check g, cp_park = held, cp_recommendation_state = state,
          cp_group_state = ga_group_state g, cp_single_flight = outcome, cp_per_code = pc,
          cp_resolution = resolution, cp_pack = pack_of la resolution, cp_parse_error = err\<rparr>"
  using assms unfolding analyse_def Let_def
  by (elim bindM_InrE) (auto split: option.splits prod.splits elim!: bindM_InrE)

lemma replay_run:
  assumes "off_loop la a (outside (maybe_replay env q ref_id f cc)) s = (Inr replay, s')"
  obtains w w' where "maybe_replay env q ref_id f cc w = (Inr replay, w')"
  using assms by (auto simp: off_loop_def outside_def split: prod.splits)

lemma park_run:
  assumes "off_loop la a (in_cases (maybe_park env now sto c ref_id cc f)) s = (Inr held, s')"
  obtains t t' where "maybe_park env now sto c ref_id cc f t = (Inr held, t')"
  using assms by (auto simp: off_loop_def in_cases_def in_groups_def on_store_def split: prod.splits)

lemma case_is_ok:
  assumes sane: "lane_sane la m" and cache: "counted_cache (gp_cache (ls_groups st))"
    and resolution: "conforms DltServiceResolution (JObj resolution)"
    and run: "analyse la m resolution budget st = (Inr (Inr p), st')"
    and reused: "cp_source p = ''group_reuse'' \<Longrightarrow> conforms (One_of RECOMMENDATION_STATES) (cp_recommendation_state p)"
  shows "parts_ok p"
proof -
  note keeps = sane_keeps [OF sane]
  note facts = sane [unfolded lane_sane_def]
  from run show ?thesis
  proof (rule analyse_steps)
    fix g outcome d grp raw source err state pc grp' replay held s1 s2 s3 s4 s5
    let ?f = "apply_dlt_confidence_policy (la_env la) raw (policy_evidence g d)"
    assume 1: "gather la m resolution st = (Inr g, s1)"
      and 2: "through_gate la g budget s1 = (Inr (outcome, d, grp), s2)"
      and 3: "produce la m g d grp budget s2 = (Inr (Some (raw, source, err)), s3)"
      and 4: "cache_finding la m g source ?f grp s3 = (Inr (state, pc, grp'), s4)"
      and 5: "off_loop la At_replay (outside (maybe_replay (la_env la) (la_tool la) (dm_ref_id m) ?f (Some (ga_check g)))) s4 = (Inr replay, s5)"
      and 6: "off_loop la At_park (in_cases (maybe_park (la_env la) (ca_now (la_call la At_park)) (la_parked la) (dm_case_id m) (dm_ref_id m)
       (Some (ga_check g)) ?f)) s5 = (Inr held, st')"
      and p: "p = \<lparr>cp_now = ca_now (la_call la At_last_look), cp_message = m, cp_headers = headers_of m,
          cp_failure = ga_failure g, cp_corroboration = ga_corroboration g, cp_finding = ?f, cp_decision = d,
          cp_group = grp', cp_gaps = py_or (carried m ''evidence_gaps'') (JArr []),
          cp_log_window = carried m ''log_window'', cp_source = source, cp_replay = replay,
          cp_code_check = ga_check g, cp_park = held, cp_recommendation_state = state,
          cp_group_state = ga_group_state g, cp_single_flight = outcome, cp_per_code = pc,
          cp_resolution = resolution, cp_pack = pack_of la resolution, cp_parse_error = err\<rparr>"
    have s0: "holds counted_cache (\<lambda>_. True) st" using cache by (simp add: holds_def)
    have g: "holds counted_cache (\<lambda>_. True) s1" "gathered_ok counted la m resolution g"
      using yieldsD [OF stage_gather [OF keeps] s0 1] by auto
    have gate: "holds counted_cache (\<lambda>_. True) s2" "counted grp"
      "case outcome of None \<Rightarrow> True | Some o' \<Rightarrow> o' \<in> set SINGLE_FLIGHT_OUTCOMES"
      using yieldsD [OF stage_gate [OF keeps g(2)] g(1) 2] by auto
    have ans: "holds counted_cache (\<lambda>_. True) s3" "answer_from la g grp (raw, source, err)"
      using yieldsD [OF stage_produce [OF keeps] gate(1) 3] by auto
    have cached: "counted grp'" "pc = (if source = ''agent'' then Some (per_code_check ?f) else None)"
      "source \<noteq> ''group_reuse'' \<Longrightarrow> state \<in> JStr ` set RECOMMENDATION_STATES"
      using yieldsD [OF stage_cache [OF keeps gate(2)] ans(1) 4] by auto
    have parser: "parser_ok (la_agents la ri)" for ri using facts by blast
    have raw: "valid_finding raw" "source \<in> set FINDING_SOURCES"
      "source = ''failed_synthesis'' \<Longrightarrow> err \<noteq> None \<and> err \<noteq> Some []"
      using answer_valid [OF parser ans(2)] by auto
    have f: "valid_finding ?f" using facts by (intro policy_valid raw(1)) blast+
    have ff: "ga_failure g = final_failure la m resolution" using g(2) by (simp add: gathered_ok_def)
    have "ev_failure_class (policy_evidence g d) \<in> set FAILURE_CLASSES"
      using final_failure_facts(1) by (simp add: policy_evidence_def ff)
    then have labels: "set (fi_ceilings_applied ?f) \<subseteq> set CEILINGS" by (rule policy_labels)
    have hex: "conforms Hex64 (JStr (fr_fingerprint (ga_failure g)))"
    proof -
      obtain t where "fr_fingerprint (final_failure la m resolution) = la_digest la t" using final_failure_facts(2) by blast
      then show ?thesis using facts ff by metis
    qed
    have cit: "length (co_citations (ga_corroboration g)) \<le> 20"
      using g(2) few_citations by (metis gathered_ok_def)
    have replay: "rb_attempted replay \<longleftrightarrow> rb_attempt replay \<noteq> None"
      using 5 by (rule replay_run) (rule replay_block_consistent)
    have held: "park_is_versioned held"
      using 6 by (rule park_run) (rule maybe_park_versioned, use facts in blast)
    have state: "conforms (One_of RECOMMENDATION_STATES) state"
    proof (cases "source = ''group_reuse''")
      case True
      then show ?thesis using reused by (simp add: p)
    next
      case False
      then show ?thesis using cached(3) conforms_One_of by blast
    qed
    have flight: "conforms (Maybe (One_of SINGLE_FLIGHT_OUTCOMES)) (jopt outcome)"
      using gate(3) by (cases outcome) (simp_all add: jopt_def)
    show "parts_ok p"
      unfolding parts_ok_def p case_parts.simps
      using facts resolution g(2) final_failure_facts(1) hex cit f labels raw state flight cached(1,2) replay held
      by (simp add: gathered_ok_def ff counted_def or_empty_def del: conforms.simps)
  qed
qed


text \<open>How a request ends: turned away, out of time, or with a case.\<close>

lemma analyze_cases:
  assumes "analyze_dlt la m st = (Inr r, st')"
  obtains (turned_away) "admit la m st = (Inr (Inl r), st')"
  | (out_of_time) resolution budget s1 where "admit la m st = (Inr (Inr resolution), s1)"
      "analyse la m resolution budget s1 = (Inr (Inl r), st')"
  | (finished) resolution budget s1 p s2 where "admit la m st = (Inr (Inr resolution), s1)"
      "analyse la m resolution budget s1 = (Inr (Inr p), s2)" "conclude la p s2 = (Inr r, st')"
proof -
  obtain budget s0 where b: "of_result (analyze_budget (la_env la)) st = (Inr budget, s0)"
    and "bindM (admit la m) (\<lambda>admitted. case admitted of Inl r \<Rightarrow> ret r
       | Inr resolution \<Rightarrow> bindM (analyse la m resolution budget) (\<lambda>result. case result of Inl r \<Rightarrow> ret r | Inr p \<Rightarrow> conclude la p)) s0 = (Inr r, st')"
    using assms unfolding analyze_dlt_def by (rule bindM_InrE)
  moreover have "s0 = st" using b by (auto simp: of_result_def split: sum.splits)
  ultimately obtain admitted s1 where a: "admit la m st = (Inr admitted, s1)"
    and rest: "(case admitted of Inl r \<Rightarrow> ret r
       | Inr resolution \<Rightarrow> bindM (analyse la m resolution budget) (\<lambda>result. case result of Inl r \<Rightarrow> ret r | Inr p \<Rightarrow> conclude la p)) s1 = (Inr r, st')"
    by (metis (no_types, lifting) bindM_InrE)
  show ?thesis
  proof (cases admitted)
    case (Inl x)
    then show ?thesis using a rest turned_away by simp
  next
    case (Inr resolution)
    then obtain result s2 where c: "analyse la m resolution budget s1 = (Inr result, s2)"
      and d: "(case result of Inl r \<Rightarrow> ret r | Inr p \<Rightarrow> conclude la p) s2 = (Inr r, st')"
      using rest by (simp only: sum.case) (erule bindM_InrE)
    show ?thesis
    proof (cases result)
      case (Inl x)
      then have "analyse la m resolution budget s1 = (Inr (Inl r), st')" using c d by simp
      then show ?thesis using a Inr out_of_time by blast
    next
      case (Inr p)
      then have "analyse la m resolution budget s1 = (Inr (Inr p), s2)" "conclude la p s2 = (Inr r, st')" using c d by simp_all
      then show ?thesis using a \<open>admitted = Inr resolution\<close> finished by blast
    qed
  qed
qed

lemma admit_answers: "admit la m st = (Inr (Inl r), st') \<Longrightarrow> (\<exists>x. r = Already_processed x) \<or> (\<exists>x y. r = Skipped x y)"
  unfolding admit_def by (auto elim!: bindM_InrE split: if_splits)

lemma conclude_answers:
  "conclude la p st = (Inr r, st') \<Longrightarrow>
     r = Already_processed JNull \<or>
     r = Processed (cp_finding p) (cp_corroboration p) (cp_decision p) (cp_code_check p) (cp_replay p) (cp_park p)"
  unfolding conclude_def Let_def by (auto elim!: bindM_InrE split: if_splits)

lemma analyse_out_of_time:
  assumes "analyse la m resolution budget st = (Inr (Inl r), st')"
  obtains g outcome d grp s1 s2 s3 u where
    "gather la m resolution st = (Inr g, s1)" "through_gate la g budget s1 = (Inr (outcome, d, grp), s2)"
    "produce la m g d grp budget s2 = (Inr None, s3)" "run_out la m budget s3 = (Inr u, st')" "r = Ran_out_of_time"
  using assms unfolding analyse_def Let_def
  by (elim bindM_InrE) (auto split: option.splits prod.splits elim!: bindM_InrE)

section \<open>Properties\<close>


text \<open>C5. A finished case leaves the dead-letter lane one way at most. The packet was handed to the replay tool only if
  the replay gate lets the final finding through; it was parked only if that finding would be replayed but for
  the version of the running build; and it was never both.\<close>

theorem one_way_out:
  assumes "analyze_dlt la m st = (Inr (Processed f c d check replay held), st')"
  shows "\<not> (rb_attempted replay \<and> pk_parked held) \<and>
    (rb_attempted replay \<longleftrightarrow> rd_should_replay (decide_replay (la_env la) f (dm_ref_id m) (Some check))) \<and>
    (pk_parked held \<longrightarrow> park_enabled (la_env la) \<and> would_replay_but_for_the_version (la_env la) f (dm_ref_id m) (Some check))"
proof -
  obtain resolution budget s1 p s2 where run: "analyse la m resolution budget s1 = (Inr (Inr p), s2)"
    and fin: "Processed f c d check replay held =
      Processed (cp_finding p) (cp_corroboration p) (cp_decision p) (cp_code_check p) (cp_replay p) (cp_park p)"
    using assms
  proof (cases rule: analyze_cases)
    case turned_away
    then show ?thesis using admit_answers by blast
  next
    case (out_of_time resolution budget s1)
    from out_of_time(2) show ?thesis by (rule analyse_out_of_time) simp
  next
    case (finished resolution budget s1 p s2)
    then show ?thesis using that conclude_answers by blast
  qed
  from run show ?thesis
  proof (rule analyse_steps)
    fix g outcome d' grp raw source err state pc grp' replay' held' t1 t2 t3 t4 t5
    let ?f = "apply_dlt_confidence_policy (la_env la) raw (policy_evidence g d')"
    assume 5: "off_loop la At_replay (outside (maybe_replay (la_env la) (la_tool la) (dm_ref_id m) ?f (Some (ga_check g)))) t4 = (Inr replay', t5)"
      and 6: "off_loop la At_park (in_cases (maybe_park (la_env la) (ca_now (la_call la At_park)) (la_parked la) (dm_case_id m) (dm_ref_id m)
       (Some (ga_check g)) ?f)) t5 = (Inr held', s2)"
      and p: "p = \<lparr>cp_now = ca_now (la_call la At_last_look), cp_message = m, cp_headers = headers_of m,
          cp_failure = ga_failure g, cp_corroboration = ga_corroboration g, cp_finding = ?f, cp_decision = d',
          cp_group = grp', cp_gaps = py_or (carried m ''evidence_gaps'') (JArr []),
          cp_log_window = carried m ''log_window'', cp_source = source, cp_replay = replay',
          cp_code_check = ga_check g, cp_park = held', cp_recommendation_state = state,
          cp_group_state = ga_group_state g, cp_single_flight = outcome, cp_per_code = pc,
          cp_resolution = resolution, cp_pack = pack_of la resolution, cp_parse_error = err\<rparr>"
    have eqs: "f = ?f" "check = ga_check g" "replay = replay'" "held = held'"
      using fin by (simp_all add: p)
    obtain w w' where r: "maybe_replay (la_env la) (la_tool la) (dm_ref_id m) f (Some check) w = (Inr replay, w')"
      using 5 unfolding eqs by (rule replay_run)
    obtain t t' where k: "maybe_park (la_env la) (ca_now (la_call la At_park)) (la_parked la) (dm_case_id m) (dm_ref_id m) (Some check) f t = (Inr held, t')"
      using 6 unfolding eqs by (rule park_run)
    have "rb_attempted replay \<longleftrightarrow> rd_should_replay (decide_replay (la_env la) f (dm_ref_id m) (Some check))"
      using r by (auto simp: maybe_replay_def Let_def bindM_def split: if_splits prod.splits sum.splits)
    moreover have "pk_parked held \<longrightarrow> park_enabled (la_env la) \<and> would_replay_but_for_the_version (la_env la) f (dm_ref_id m) (Some check)"
      using k by (auto simp: maybe_park_def refuse_def split: if_splits)
    ultimately show ?thesis using never_both [OF r k] by blast
  qed
qed

text \<open>A case that ends without a finding never reaches the replay service. Whatever the other services, the group
  store and the other requests keep true of the world outside is still true when the handler answers that the
  record is skipped or that its budget ran out: in particular, nothing was replayed on its behalf.\<close>

theorem no_replay_without_a_finding:
  assumes "lane_keeps (\<lambda>_. True) (\<lambda>_. True) W la" and "W (ls_world st)"
    and "analyze_dlt la m st = (Inr r, st')" and "r = Ran_out_of_time \<or> (\<exists>reason service. r = Skipped reason service)"
  shows "W (ls_world st')"
proof -
  have st: "holds (\<lambda>_. True) W st" using assms(2) by (simp add: holds_def)
  from assms(3) show ?thesis
  proof (cases rule: analyze_cases)
    case turned_away
    then show ?thesis using yieldsD [OF stage_admit [OF assms(1)] st] by (simp add: holds_def)
  next
    case (out_of_time resolution budget s1)
    have s1: "holds (\<lambda>_. True) W s1" using yieldsD [OF stage_admit [OF assms(1)] st out_of_time(1)] by blast
    from out_of_time(2) show ?thesis
    proof (rule analyse_out_of_time)
      fix g outcome d grp t1 t2 t3 u
      assume g: "gather la m resolution s1 = (Inr g, t1)" and t: "through_gate la g budget t1 = (Inr (outcome, d, grp), t2)"
        and p: "produce la m g d grp budget t2 = (Inr None, t3)" and u: "run_out la m budget t3 = (Inr u, st')"
      have h1: "holds (\<lambda>_. True) W t1" "gathered_ok (\<lambda>_. True) la m resolution g" using yieldsD [OF stage_gather [OF assms(1)] s1 g] by auto
      have h2: "holds (\<lambda>_. True) W t2" using yieldsD [OF stage_gate [OF assms(1) h1(2)] h1(1) t] by blast
      have h3: "holds (\<lambda>_. True) W t3" using yieldsD [OF stage_produce [OF assms(1)] h2 p] by blast
      show "W (ls_world st')" using yieldsD [OF stage_run_out [OF assms(1)] h3 u] by (simp add: holds_def)
    qed
  next
    case (finished resolution budget s1 p s2)
    then show ?thesis using conclude_answers [OF finished(3)] assms(4) by auto
  qed
qed


section \<open>Steps that always return\<close>

definition returns :: "('s, 'a) io \<Rightarrow> bool" where
  "returns m \<longleftrightarrow> (\<forall>s. \<exists>a s'. m s = (Inr a, s'))"

lemma returns_ret [simp, intro]: "returns (ret a)"
  by (simp add: returns_def)

lemma returns_bind:
  assumes "returns m" and "\<And>a. returns (f a)"
  shows "returns (bindM m f)"
  unfolding returns_def
proof
  fix s
  obtain a s' where "m s = (Inr a, s')" using assms(1) unfolding returns_def by blast
  moreover obtain b t where "f a s' = (Inr b, t)" using assms(2) unfolding returns_def by blast
  ultimately show "\<exists>b t. bindM m f s = (Inr b, t)" by (simp add: bindM_def)
qed

lemma returns_catch: "(\<And>e. returns (h e)) \<Longrightarrow> returns (catchM m h)"
  unfolding returns_def by (auto intro: catchM_total)

lemma returns_lifts:
  fixes m :: "('s group_proc, 'a) io" and m' :: "('s, 'a) io"
  shows "returns m \<Longrightarrow> returns (in_groups m)" "returns m' \<Longrightarrow> returns (on_store m')" "returns m' \<Longrightarrow> returns (in_cases m')"
  "returns m'' \<Longrightarrow> returns (in_reader m'')" "returns w \<Longrightarrow> returns (outside w)" "returns l \<Longrightarrow> returns (off_loop la a l)"
proof -
  show g: "returns m \<Longrightarrow> returns (in_groups m)" for m :: "('s group_proc, 'a) io"
    unfolding returns_def in_groups_def by (metis (no_types, lifting) case_prod_conv)
  show s: "returns m' \<Longrightarrow> returns (on_store m')" for m' :: "('s, 'a) io"
    unfolding returns_def on_store_def by (metis (no_types, lifting) case_prod_conv)
  show "returns m' \<Longrightarrow> returns (in_cases m')" unfolding in_cases_def by (intro g s)
  show "returns m'' \<Longrightarrow> returns (in_reader m'')"
    unfolding returns_def in_reader_def by (metis (no_types, lifting) case_prod_conv)
  show "returns w \<Longrightarrow> returns (outside w)"
    unfolding returns_def outside_def by (metis (no_types, lifting) case_prod_conv)
  show "returns l \<Longrightarrow> returns (off_loop la a l)"
    unfolding returns_def off_loop_def by blast
qed

lemma returns_group_of: "returns (group_of la a f)"
  unfolding group_of_def any_load_group_def by (auto intro!: returns_lifts returns_catch)

lemma returns_count: "returns (count_occurrence la m f c)"
  unfolding count_occurrence_def
  by (intro returns_bind returns_catch) (auto intro!: returns_bind returns_group_of split: prod.split)

lemma count_says_what_happened:
  assumes "count_occurrence la m f c st = (Inr (grp, state), st')"
  shows "(state = ''unavailable'' \<longleftrightarrow> \<not> given grp) \<and>
    (state = ''ok'' \<longrightarrow>
       (\<exists>g s. off_loop la At_occurrence (in_groups (any_record_occurrence (la_groups la) (la_call la At_occurrence) (fr_fingerprint f)
                (occurrence_of la m f c))) st = (Inr g, s)))"
proof -
  obtain g s w where first: "catchM (bindM (off_loop la At_occurrence
                             (in_groups (any_record_occurrence (la_groups la) (la_call la At_occurrence) (fr_fingerprint f)
                                (occurrence_of la m f c)))) (\<lambda>g. ret (Some g, ''ok'')))
              (\<lambda>_. ret (None, ''occurrence_not_recorded'')) st = (Inr (g, s), w)"
    and rest: "(if given g then ret (g, s)
          else bindM (group_of la At_group f) (\<lambda>g'. ret (g', if given g' then s else ''unavailable''))) w = (Inr (grp, state), st')"
    using assms unfolding count_occurrence_def by (auto elim!: bindM_InrE)
  have s: "s \<in> {''ok'', ''occurrence_not_recorded''}" "s = ''ok'' \<Longrightarrow>
      \<exists>g s. off_loop la At_occurrence (in_groups (any_record_occurrence (la_groups la) (la_call la At_occurrence) (fr_fingerprint f)
                (occurrence_of la m f c))) st = (Inr g, s)"
    using first by (auto elim!: catchM_cases bindM_cases)
  show ?thesis
  proof (cases "given g")
    case True
    then show ?thesis using rest s by auto
  next
    case False
    then obtain g' where "grp = g'" "state = (if given g' then s else ''unavailable'')" using rest by (auto elim!: bindM_InrE)
    then show ?thesis using s by (auto split: if_splits)
  qed
qed

lemma returns_evaluate: "returns (evaluate rd env pat now f t b r)"
  unfolding evaluate_def by (intro returns_catch returns_ret)

text \<open>C11. A fault while the evidence is weighed never fails the case. With the fetched logs readable and the pods'
  versions answered, the evidence is gathered whatever the group store, the recorded baseline, the source host and
  the code check's own write do; caching a finding returns as well. What could not be done is said: an occurrence
  counts as recorded only if its write returned, and the group is called unavailable exactly when none was found.\<close>

theorem evidence_faults_are_absorbed:
  assumes "returns (ar_load (la_artifacts la) (case_key la m) ''fetched_logs.txt'')"
    and "\<And>service. returns (la_deployed la service)"
  shows "(\<exists>g st'. gather la m resolution st = (Inr g, st') \<and>
      (\<exists>s s' grp. count_occurrence la m (ga_failure g) (ga_corroboration g) s = (Inr (grp, ga_group_state g), s') \<and>
         (ga_group_state g = ''unavailable'' \<longleftrightarrow> \<not> given grp) \<and>
         (ga_group_state g = ''ok'' \<longrightarrow>
            (\<exists>shown t. off_loop la At_occurrence (in_groups (any_record_occurrence (la_groups la) (la_call la At_occurrence)
               (fr_fingerprint (ga_failure g)) (occurrence_of la m (ga_failure g) (ga_corroboration g)))) s = (Inr shown, t))))) \<and>
    (\<forall>g source f grp st. \<exists>x st'. cache_finding la m g source f grp st = (Inr x, st'))"
proof -
  have check: "returns (precheck la m resolution f)" for f
    unfolding precheck_def
    by (intro returns_bind returns_lifts assms(2) returns_evaluate) (simp add: recorded_baseline_def returns_catch)
  have keep: "returns (keep_check la m f c grp)" for f c grp
    unfolding keep_check_def by (auto intro: returns_catch)
  obtain raw s where 1: "off_loop la At_logs (in_cases (ar_load (la_artifacts la) (case_key la m) FETCHED_LOGS_ARTIFACT)) st = (Inr raw, s)"
    using returns_lifts(6) [OF returns_lifts(3) [OF assms(1)]] unfolding returns_def FETCHED_LOGS_ARTIFACT_def by blast
  let ?logs = "case raw of None \<Rightarrow> [] | Some t \<Rightarrow> t" and ?f = "final_failure la m resolution"
  let ?c = "corroboration_of la m ?logs"
  obtain grp state s' where 2: "count_occurrence la m ?f ?c s = (Inr (grp, state), s')"
    using returns_count unfolding returns_def by (metis surj_pair)
  obtain cc s2 where 3: "precheck la m resolution ?f s' = (Inr cc, s2)" using check unfolding returns_def by blast
  obtain grp2 s3 where 4: "keep_check la m ?f cc grp s2 = (Inr grp2, s3)" using keep unfolding returns_def by blast
  have "gather la m resolution st =
      (Inr \<lparr>ga_resolution = resolution, ga_failure = ?f, ga_logs = ?logs, ga_corroboration = ?c, ga_group = grp2,
            ga_group_state = state, ga_decision = reuse_of la ?f ?c grp, ga_check = cc\<rparr>, s3)"
    by (simp add: gather_def Let_def bindM_def 1 2 3 4)
  moreover have "returns (cache_finding la m g source f grp)" for g source f grp
    unfolding cache_finding_def Let_def by (auto intro!: returns_catch)
  then have "\<exists>x st'. cache_finding la m g source f grp st = (Inr x, st')" for g source f grp st unfolding returns_def by blast
  ultimately show ?thesis
    using 2 count_says_what_happened [OF 2]
    by (intro conjI exI [of _ "\<lparr>ga_resolution = resolution, ga_failure = ?f, ga_logs = ?logs, ga_corroboration = ?c, ga_group = grp2,
            ga_group_state = state, ga_decision = reuse_of la ?f ?c grp, ga_check = cc\<rparr>"] exI [of _ s3] exI [of _ s] exI [of _ s']
          exI [of _ grp]) simp_all
qed

theorem evidence_faults_are_absorbed_witness:
  "\<exists>g st'. gather ((sink_lane (\<lambda>_. None))\<lparr>la_groups := (la_groups (sink_lane (\<lambda>_. None)))
       \<lparr>st_create_json := (\<lambda>_ _ _. raise OSError), st_list_json := (\<lambda>_ _. raise OSError)\<rparr>\<rparr>)
     plain_message [] (idle ()) = (Inr g, st')"
proof -
  let ?la = "(sink_lane (\<lambda>_. None))\<lparr>la_groups := (la_groups (sink_lane (\<lambda>_. None)))
       \<lparr>st_create_json := (\<lambda>_ _ _. raise OSError), st_list_json := (\<lambda>_ _. raise OSError)\<rparr>\<rparr>"
  have "returns (ar_load (la_artifacts ?la) (case_key ?la plain_message) ''fetched_logs.txt'')" "returns (la_deployed ?la x)" for x
    by (simp_all add: sink_lane_def plain_lane_def returns_def called_def)
  from evidence_faults_are_absorbed [OF this] show ?thesis by blast
qed



definition unresolved :: doc where
  "unresolved = [(''service'', JStr ''unresolved''), (''source'', JStr ''none'')]"

lemma plain_lane_sane: "lane_sane (sink_lane (\<lambda>_. None)) plain_message"
proof -
  let ?la = "sink_lane (\<lambda>_. None)"
  have "\<forall>v\<in>triggered (\<lambda>_. None) f ev. 0 \<le> v" for f ev
    by (auto simp: triggered_def class_b_ceiling_def logs_unavailable_ceiling_def logs_silent_ceiling_def unverified_ceiling_def
        contradicted_ceiling_def registry_miss_ceiling_def unreviewed_ceiling_def gap_confidence_ceiling_def doc_primary_default_def
        split: if_splits option.splits bool.splits)
  moreover have "conforms Hex64 (JStr (replicate 64 (CHR ''a'')))" by code_simp
  moreover have "conforms (Many (One_of EVIDENCE_GAPS)) (py_or (carried plain_message ''evidence_gaps'') (JArr []))" by code_simp
  moreover have "conforms (Maybe Str) (carried plain_message ''log_window'')" by code_simp
  moreover have "dm_ref_id_source plain_message \<in> set REF_ID_SOURCES" by code_simp
  moreover have "is_v2 (\<lambda>_. None)" by code_simp
  moreover have "0 \<le> reuse_decay (\<lambda>_. None)" by (simp add: reuse_decay_def)
  ultimately show ?thesis
    by (simp add: lane_sane_def sink_lane_def plain_lane_def parser_ok_def plain_agents_def load_entry_def catchM_def)
qed


theorem one_way_out_witness:
  "\<exists>f c d check replay held st'. analyze_dlt (sink_lane (\<lambda>_. None)) plain_message (idle ()) =
       (Inr (Processed f c d check replay held), st') \<and> \<not> (rb_attempted replay \<and> pk_parked held)"
proof -
  have "case analyze_dlt (sink_lane (\<lambda>_. None)) plain_message (idle ()) of
      (Inr (Processed f c d check replay held), st') \<Rightarrow> True | _ \<Rightarrow> False" by code_simp
  then obtain f c d check replay held st' where
    "analyze_dlt (sink_lane (\<lambda>_. None)) plain_message (idle ()) = (Inr (Processed f c d check replay held), st')"
    by (auto split: prod.splits sum.splits response.splits)
  then show ?thesis using one_way_out by blast
qed

theorem no_replay_without_a_finding_witness:
  "\<exists>r st'. analyze_dlt (sink_lane (\<lambda>k. if k = ''DLT_SERVICE_GATE'' then Some ''enforce'' else None)) plain_message (idle ()) = (Inr r, st') \<and>
     ''replay'' \<notin> set (ls_world st')"
proof -
  let ?la = "sink_lane (\<lambda>k. if k = ''DLT_SERVICE_GATE'' then Some ''enforce'' else None)" and ?W = "\<lambda>w. ''replay'' \<notin> set w"
  have "case analyze_dlt ?la plain_message (idle ()) of (Inr (Skipped x y), st') \<Rightarrow> True | _ \<Rightarrow> False" by code_simp
  then obtain x y st' where run: "analyze_dlt ?la plain_message (idle ()) = (Inr (Skipped x y), st')"
    by (auto split: prod.splits sum.splits response.splits)
  have "lane_keeps (\<lambda>_. True) (\<lambda>_. True) ?W ?la"
    by (simp add: lane_keeps_def groups_keep_def yields_def sink_lane_def plain_lane_def keepsM_def called_def agents_keep_def plain_agents_def)
  moreover have "?W (ls_world (idle ()))" by (simp add: idle_def)
  ultimately show ?thesis using no_replay_without_a_finding [OF _ _ run] run by blast
qed

end
