(* ===== verification/Spec2Isabelle.thy ===== *)
theory Spec2Isabelle
  imports Consumer Local_Storage S3_Storage Packet_Claims Dlt_Claims Group_Reuse Code_Check Parked Dlt_Analysis Adapters Single_Flight Fixed_Findings Services Discovery Deployed Dlt_Casebook Dlt_Process Evidence Dlt_Handlers
begin

text \<open>
  Verification of the rejection and dead-letter analysis service (\<^verbatim>\<open>src/src\<close>).

  \<^bold>\<open>The program.\<close> Kafka consumers take packets and dead-lettered records from their topics and hand them to
  an API. A fetch stage claims the record, keeps its evidence in the casebook storage and queues it; an
  analysis stage classifies the failure, checks its stack trace against the logs, serves the recommendation
  of the record's group or runs a graph of language-model agents, caps the confidence of the finding, asks
  the source repository whether the failing code has changed, and replays the packet, parks it until a
  deploy, or leaves it to a human.

  \<^bold>\<open>Theories and sources.\<close>

  \<^item> \<open>Prelude\<close>: Python values and the standard library the code uses (strings, integers, JSON documents,
    settings of \<^verbatim>\<open>utils/env.py\<close>), and a monad of state and exceptions in which a function of the source is
    a definition that returns a value or an exception together with the new state.
  \<^item> \<open>Regex\<close>: the \<^verbatim>\<open>re\<close> engine as a backtracking matcher; \<open>ends_exact\<close> shows that it finds exactly the
    matches of the language of a pattern without word boundaries.
  \<^item> \<open>Offset_Tracker\<close>, \<open>Consumer\<close>: \<^verbatim>\<open>utils/kafkaConsumer.py\<close>. The tracker is the class \<^verbatim>\<open>OffsetTracker\<close>;
    the consumer is a step relation whose steps are the poll cycle, the stages of a worker, rebalances,
    commits and shutdown, in any interleaving. Proved: a commit passes only messages that were delivered,
    skipped or dead-lettered; the number of workers is bounded; fetching stops while messages wait.
  \<^item> \<open>Storage\<close>, \<open>Local_Storage\<close>, \<open>S3_Storage\<close>: \<^verbatim>\<open>storage/base.py\<close>, \<^verbatim>\<open>local.py\<close>, \<^verbatim>\<open>s3.py\<close>,
    \<^verbatim>\<open>utils/atomic.py\<close>. The protocol is a record of operations; the locales \<open>casebook_storage\<close> and
    \<open>atomic_storage\<close> state what its clients rely on. The local backend is interpreted over a disk whose locks,
    directories, writes, deletions and renames may fail; the S3 backend over every endpoint that obeys the
    locale \<open>s3_endpoint\<close>, itself interpreted on a store with both ETag forms, refusals and outages. Proved: a
    save is atomic, a conditional update loses no other writer's update, both backends meet the contract.
  \<^item> \<open>Identity\<close>: \<^verbatim>\<open>dlt/identity.py\<close>; case ids are safe path components and unique.
  \<^item> \<open>Dlt_Headers\<close>, \<open>Payload\<close>, \<open>Adapters\<close>: \<^verbatim>\<open>dlt/headers.py\<close>, \<^verbatim>\<open>dlt/window.py\<close>, \<^verbatim>\<open>dlt/payload.py\<close>,
    \<^verbatim>\<open>models/audit_contract.py\<close>, \<^verbatim>\<open>models/dlt_schemas.py\<close>, \<^verbatim>\<open>utils/message_adapters.py\<close>. A Kafka record becomes a
    case: header decoding, the log window, the correlation identifier with where it came from, and the round
    trip of a case through the analysis queue.
  \<^item> \<open>Stacktrace\<close>: \<^verbatim>\<open>dlt/stacktrace.py\<close>. The line patterns are proved equal to what they describe; parsing
    undoes printing, a fingerprint identifies a failure mode, and locations stay with their frames.
  \<^item> \<open>Registry\<close>, \<open>Failure\<close>: \<^verbatim>\<open>dlt/registry.py\<close> with the \<^verbatim>\<open>csv\<close> reader it uses, the writer of
    \<^verbatim>\<open>tools/parse_reason_codes.py\<close>, and \<^verbatim>\<open>build_failure\<close> of \<^verbatim>\<open>api/dlt_routes.py\<close>; the catalog is read as it
    is written and never asserts a code defect.
  \<^item> \<open>Services\<close>: \<^verbatim>\<open>utils/service_registry.py\<close>, \<^verbatim>\<open>log_pipeline/scope.py\<close>; a validated registry leaves no
    evidence between two services, the strongest evidence decides, and the gates admit only served records.
  \<^item> \<open>Single_Flight\<close>: \<^verbatim>\<open>dlt/single_flight.py\<close> as a step relation of the requests of one event loop; its gate
    admits one request of a fingerprint at a time and strands none.
  \<^item> \<open>Packet_Claims\<close>, \<open>Dlt_Claims\<close>: \<^verbatim>\<open>utils/packet_claims.py\<close>, \<^verbatim>\<open>dlt/claims.py\<close>; a packet is claimed once,
    a claim is taken over only when its time is up, and a broken store lets work through.
  \<^item> \<open>Group_Store\<close>, \<open>Group_Reuse\<close>: \<^verbatim>\<open>dlt/group_store.py\<close>, \<^verbatim>\<open>dlt/groups.py\<close>, \<^verbatim>\<open>dlt/reuse.py\<close>; the
    count of occurrences is the number of cases, and no recommendation is served blind.
  \<^item> \<open>Classify\<close>, \<open>Corroborate\<close>: \<^verbatim>\<open>dlt/classify.py\<close>, \<^verbatim>\<open>dlt/corroborate.py\<close>; when a failure is a code defect,
    and what may be held against a stack trace.
  \<^item> \<open>Versions\<close>, \<open>Bitbucket\<close>, \<open>Code_Check\<close>: \<^verbatim>\<open>dlt/versions.py\<close>, \<^verbatim>\<open>dlt/bitbucket.py\<close>, \<^verbatim>\<open>dlt/code_check.py\<close>.
    The precheck is proved over the interface \<open>source_reader\<close>, interpreted on the Bitbucket client: its
    positive and negative verdicts rest on successful reads and known versions.
  \<^item> \<open>Findings\<close>, \<open>Auto_Replay\<close>, \<open>Parked\<close>: \<^verbatim>\<open>models/dlt_synthesis.py\<close>, \<^verbatim>\<open>dlt/auto_replay.py\<close>,
    \<^verbatim>\<open>dlt/parked.py\<close>; the confidence of a finding is the least ceiling its evidence triggers, a replay needs
    every condition, parking waits for nothing but a version, and a release follows a deploy.
  \<^item> \<open>Fixed_Findings\<close>: \<^verbatim>\<open>dlt/canned.py\<close>, \<^verbatim>\<open>dlt/per_code.py\<close>; the finding of a failure that needs no
    model, and what text must not enter the cache of a group.
  \<^item> \<open>Dlt_Analysis\<close>: the agent graph of \<^verbatim>\<open>dlt/orchestrator.py\<close> and the approval rule of
    \<^verbatim>\<open>core/agent_orchestrator.py\<close>; the graph ends, reports its review truthfully, and what the Reviewer never
    approved is never replayed.

  \<^item> \<open>Discovery\<close>, \<open>Deployed\<close>: \<^verbatim>\<open>log_pipeline/sources/k8s/discovery.py\<close>, \<^verbatim>\<open>dlt/deployed.py\<close>; which pods and
    containers are read (the round robin over several services equals its specification), and the cached
    reading of the running build, which lists application versions only.
  \<^item> \<open>Dlt_Casebook\<close>: \<^verbatim>\<open>models/dlt_casebook.py\<close>, \<^verbatim>\<open>models/casebook.py\<close> and \<^verbatim>\<open>_casebook\<close> of
    \<^verbatim>\<open>api/dlt_routes.py\<close>; the data models as shapes with their validation and their dump, and the document an
    analysed case ends in.
  \<^item> \<open>Dlt_Lane\<close>, \<open>Dlt_Process\<close>: the handlers \<^verbatim>\<open>fetch_dlt_logs\<close> and \<^verbatim>\<open>analyze_dlt\<close> of \<^verbatim>\<open>api/dlt_routes.py\<close>,
    composed of the components above in the order of the code. \<open>lane\<close> holds the services a handler is given,
    \<open>lane_state\<close> the group store, the case storage, the source host and the world outside; at every await of the
    analysis other requests may change the state (\<open>la_meanwhile\<close>).
  \<^item> \<open>Evidence\<close>, \<open>Dlt_Handlers\<close>: what holds of the handlers. \<open>Evidence\<close> proves over the interface
    \<open>evidence_store\<close>, interpreted on the local backend, that a queued record left its evidence behind and that
    a skipped one left nothing; \<open>Dlt_Handlers\<close> that every assembled casebook meets its contract, that a record
    leaves the lane one way at most, that faults while the evidence is weighed are absorbed, and that a cached
    recommendation reads back as it was given.

  \<^bold>\<open>State and effects.\<close> A state is a record per component, passed explicitly. Code outside the repository is
  a parameter: the Kafka client and the endpoint (answers given to each step), \<^verbatim>\<open>boto3\<close> (a record of requests
  with the laws of the locale), the HTTP transport with its retries (an answer per request that may depend on
  every earlier request), the cluster client, SHA-256, the JSON, XML and ISO-date parsers, the schema check of a
  packet event, the replay tool, and the language models. So are, in the handlers, the parts of the program the
  development does not model: the reduction of logs, the redaction, the payload summary, the publication, the
  circuit breaker around a listing, the eviction of the version cache, the clean-up of a case directory, the
  answer of the single-flight gate (whose inside is \<open>Single_Flight\<close>) and whether a run outlasted its budget.
  Clocks are arguments.

  \<^bold>\<open>Simplifications.\<close> Logging, metrics and traces have no effect on the modelled state and are left out.
  Reason texts are constructors that carry the interpolated values. Floats are rationals, and a numeric
  setting that is not a decimal number counts as unset. Characters are 8-bit (the en dash in one pattern of \<^verbatim>\<open>per_code.py\<close> is left out), the
  reason-code catalog is the one loaded when a record is looked at, and the
  character classes of patterns (digits, letters, word characters) are those of ASCII. Lock files are not kept; the
  process-wide record cache of the group store is not bounded. An S3 request that raises is assumed to have
  stored nothing. The fetch handler runs without other requests in between; versions in the stored reading of a
  build that are not texts are read as none; the service map of the cluster is read as names with text options.

  \<^bold>\<open>Fuel.\<close> \<open>list_pages\<close> of the Bitbucket client has as much fuel as the pages it may read; \<open>update_rounds\<close>
  counts the attempts the code counts; \<open>run_rounds\<close> has the rounds the review limit allows, and \<open>more_rounds\<close>
  shows that more change nothing. All other recursion is structural or has a termination proof.

  \<^bold>\<open>Not modelled.\<close> The request handlers of the rejection lane (\<^verbatim>\<open>api/routes.py\<close>), its agent graph and its
  context (\<^verbatim>\<open>core/\<close>), the log pipeline but for the choice of pods (\<^verbatim>\<open>log_pipeline/\<close>), the payload summaries,
  the parsing of \<^verbatim>\<open>service.json\<close> and the documentation stores, the MCP client and server, prompts, tracing and
  metrics, and the command-line tools. Prompts, traces, metrics and the transport layers are effects without a
  state of the program's own.
\<close>

section \<open>From the logs to the treatment\<close>

text \<open>
  C36. A business failure whose own error lines hold an exception its trace does not explain is never served
  the group's cached answer: it goes to the model, and nothing it is waiting for could change that. Only then
  does the finding keep a discrepancy text; a finding on any other occurrence loses the one it may carry.
\<close>

theorem discrepancy_reaches_the_model:
  assumes "c = corroborate logs root_fqcn business_code frames chain"
    and "ev_corroboration ev = verdict_value (co_verdict c)"
  shows "if co_unexplained c \<noteq> []
    then calls_llm (decide_reuse env ''A'' (verdict_value (co_verdict c)) grp) \<and>
      \<not> ru_awaits_cache (decide_reuse env ''A'' (verdict_value (co_verdict c)) grp) \<and>
      fi_discrepancy (apply_dlt_confidence_policy env f ev) = fi_discrepancy f
    else fi_discrepancy (apply_dlt_confidence_policy env f ev) \<in> {None, Some []}"
proof -
  have d: "co_unexplained c \<noteq> [] \<longleftrightarrow> co_verdict c \<in> {CONTRADICTED, PARTIAL}"
    using discrepancy_unexplained [of logs root_fqcn business_code frames chain] assms(1)
    by (simp add: is_discrepancy_def)
  show ?thesis
  proof (cases "co_verdict c \<in> {CONTRADICTED, PARTIAL}")
    case True
    then show ?thesis unfolding d using assms(2)
      by (auto simp: decide_reuse_def calls_llm_def policy_fields DISCREPANCY_VERDICTS_def)
  next
    case False
    then show ?thesis unfolding d using assms(2)
      by (cases "co_verdict c") (auto simp: policy_fields DISCREPANCY_VERDICTS_def)
  qed
qed

theorem discrepancy_reaches_the_model_witness:
  "calls_llm (decide_reuse (\<lambda>_. None) ''A''
     (verdict_value (co_verdict (corroborate (Some busy_window) (Some ''a.b.Biz'') None [] [])))
     (Some [(''recommendation'', JStr ''r''), (''recommendation_state'', JStr ''draft'')]))"
proof -
  let ?c = "corroborate (Some busy_window) (Some ''a.b.Biz'') None [] []"
  let ?ev = "\<lparr>ev_failure_class = ''A'', ev_corroboration = verdict_value (co_verdict ?c), ev_registry_hit = True,
      ev_reused = False, ev_logs = [], ev_could_not_look = None\<rparr>"
  have "co_unexplained ?c \<noteq> []" by code_simp
  moreover have "ev_corroboration ?ev = verdict_value (co_verdict ?c)" by simp
  ultimately show ?thesis
    using discrepancy_reaches_the_model [OF refl, of ?ev "Some busy_window" "Some ''a.b.Biz''" None "[]" "[]" "\<lambda>_. None"
        "Some [(''recommendation'', JStr ''r''), (''recommendation_state'', JStr ''draft'')]" replayable_finding]
    by (simp only: if_True not_False_eq_True)
qed

end
